(* ===== verification/Interfaces.thy ===== *)
theory Interfaces
  imports Main
begin

text \<open>
  The contracts the components rely on, as locales: an encoding with its decoder, a table of
  values under keys, and a transition system with an invariant.  Each is interpreted on the
  definitions of the theory that provides the operations.
\<close>

section \<open>An encoding and its decoder\<close>

locale codec =
  fixes encode :: "'a \<Rightarrow> 'b" and decode :: "'b \<Rightarrow> 'a option" and valid :: "'a \<Rightarrow> bool"
  assumes decode_encode: "valid x \<Longrightarrow> decode (encode x) = Some x"
begin

lemma encode_inject: "valid x \<Longrightarrow> valid y \<Longrightarrow> encode x = encode y \<longleftrightarrow> x = y"
  using decode_encode by (metis option.inject)

lemma decode_only: "valid x \<Longrightarrow> decode (encode x) = Some y \<Longrightarrow> y = x"
  using decode_encode by fastforce

lemma inj_encode: "inj_on encode (Collect valid)"
  by (auto intro!: inj_onI simp: encode_inject)

end

section \<open>A table\<close>

text \<open>\<open>ok\<close> is the invariant of the table, \<open>key_ok\<close> says which keys may be stored.\<close>

locale table =
  fixes ok :: "'m \<Rightarrow> bool" and key_ok :: "'k \<Rightarrow> bool" and emp :: 'm
    and lookup :: "'m \<Rightarrow> 'k \<Rightarrow> 'v option" and put :: "'k \<Rightarrow> 'v \<Rightarrow> 'm \<Rightarrow> 'm"
  assumes ok_emp: "ok emp"
    and ok_put: "ok m \<Longrightarrow> key_ok k \<Longrightarrow> ok (put k v m)"
    and lookup_emp: "key_ok k \<Longrightarrow> lookup emp k = None"
    and lookup_put: "ok m \<Longrightarrow> key_ok k \<Longrightarrow> key_ok k' \<Longrightarrow>
      lookup (put k v m) k' = (if k' = k then Some v else lookup m k')"
begin

definition put_all :: "('k \<times> 'v) list \<Rightarrow> 'm \<Rightarrow> 'm" where
  "put_all kvs m = fold (\<lambda>(k, v). put k v) kvs m"

lemma put_all_Cons [simp]: "put_all ((k, v) # kvs) m = put_all kvs (put k v m)"
  and put_all_Nil [simp]: "put_all [] m = m"
  by (simp_all add: put_all_def)

lemma ok_put_all: "ok m \<Longrightarrow> \<forall>(k, v) \<in> set kvs. key_ok k \<Longrightarrow> ok (put_all kvs m)"
proof (induction kvs arbitrary: m)
  case (Cons kv kvs)
  then show ?case by (cases kv) (simp add: ok_put)
qed simp

text \<open>The last value stored under a key is the one found.\<close>

lemma lookup_put_all:
  "ok m \<Longrightarrow> \<forall>(k, v) \<in> set kvs. key_ok k \<Longrightarrow> key_ok k' \<Longrightarrow>
     lookup (put_all kvs m) k' = (case map_of (rev kvs) k' of Some v \<Rightarrow> Some v | None \<Rightarrow> lookup m k')"
proof (induction kvs arbitrary: m)
  case (Cons kv kvs)
  obtain k v where kv: "kv = (k, v)" by (cases kv)
  with Cons.prems have "ok (put k v m)" by (auto intro: ok_put)
  with Cons kv show ?case
    by (auto simp: lookup_put map_add_Some_iff split: option.split)
qed simp

lemma lookup_put_all_emp:
  "\<forall>(k, v) \<in> set kvs. key_ok k \<Longrightarrow> key_ok k' \<Longrightarrow> lookup (put_all kvs emp) k' = map_of (rev kvs) k'"
  by (simp add: lookup_put_all ok_emp lookup_emp split: option.split)

lemma put_same: "ok m \<Longrightarrow> key_ok k \<Longrightarrow> key_ok k' \<Longrightarrow> lookup (put k v (put k u m)) k' = lookup (put k v m) k'"
  by (simp add: lookup_put ok_put)

lemma put_other:
  "ok m \<Longrightarrow> key_ok j \<Longrightarrow> key_ok k \<Longrightarrow> key_ok k' \<Longrightarrow> j \<noteq> k \<Longrightarrow>
     lookup (put j u (put k v m)) k' = lookup (put k v (put j u m)) k'"
  by (simp add: lookup_put ok_put)

end

section \<open>A table whose entries are never overwritten\<close>

locale once_table =
  fixes ok :: "'m \<Rightarrow> bool" and key_ok :: "'k \<Rightarrow> bool" and emp :: 'm
    and lookup :: "'m \<Rightarrow> 'k \<Rightarrow> 'v option" and ins :: "'k \<Rightarrow> 'v \<Rightarrow> 'm \<Rightarrow> 'm"
  assumes ok_emp: "ok emp"
    and ok_ins: "ok m \<Longrightarrow> key_ok k \<Longrightarrow> ok (ins k v m)"
    and lookup_emp: "key_ok k \<Longrightarrow> lookup emp k = None"
    and lookup_ins: "ok m \<Longrightarrow> key_ok k \<Longrightarrow> key_ok k' \<Longrightarrow>
      lookup (ins k v m) k' =
        (case lookup m k' of Some w \<Rightarrow> Some w | None \<Rightarrow> if k' = k then Some v else None)"
begin

definition ins_all :: "('k \<times> 'v) list \<Rightarrow> 'm \<Rightarrow> 'm" where
  "ins_all kvs m = fold (\<lambda>(k, v). ins k v) kvs m"

lemma ins_all_Cons [simp]: "ins_all ((k, v) # kvs) m = ins_all kvs (ins k v m)"
  and ins_all_Nil [simp]: "ins_all [] m = m"
  by (simp_all add: ins_all_def)

lemma ok_ins_all: "ok m \<Longrightarrow> \<forall>(k, v) \<in> set kvs. key_ok k \<Longrightarrow> ok (ins_all kvs m)"
proof (induction kvs arbitrary: m)
  case (Cons kv kvs)
  then show ?case by (cases kv) (simp add: ok_ins)
qed simp

text \<open>The first value stored under a key is the one found.\<close>

lemma lookup_ins_all:
  "ok m \<Longrightarrow> \<forall>(k, v) \<in> set kvs. key_ok k \<Longrightarrow> key_ok k' \<Longrightarrow>
     lookup (ins_all kvs m) k' = (case lookup m k' of Some v \<Rightarrow> Some v | None \<Rightarrow> map_of kvs k')"
proof (induction kvs arbitrary: m)
  case (Cons kv kvs)
  obtain k v where kv: "kv = (k, v)" by (cases kv)
  with Cons.prems have "ok (ins k v m)" by (auto intro: ok_ins)
  with Cons kv show ?case by (auto simp: lookup_ins split: option.split)
qed (simp split: option.split)

lemma lookup_ins_all_emp:
  "\<forall>(k, v) \<in> set kvs. key_ok k \<Longrightarrow> key_ok k' \<Longrightarrow> lookup (ins_all kvs emp) k' = map_of kvs k'"
  by (simp add: lookup_ins_all ok_emp lookup_emp)

lemma ins_again: "ok m \<Longrightarrow> key_ok k \<Longrightarrow> key_ok k' \<Longrightarrow> lookup (ins k v (ins k u m)) k' = lookup (ins k u m) k'"
  by (auto simp: lookup_ins ok_ins split: option.split)

end

section \<open>A transition system with an invariant\<close>

locale invariant_system =
  fixes init :: "'s \<Rightarrow> bool" and step :: "'s \<Rightarrow> 's \<Rightarrow> bool" and inv :: "'s \<Rightarrow> bool"
  assumes inv_init: "init s \<Longrightarrow> inv s"
    and inv_step: "inv s \<Longrightarrow> step s s' \<Longrightarrow> inv s'"
begin

lemma inv_steps: "step\<^sup>*\<^sup>* s s' \<Longrightarrow> inv s \<Longrightarrow> inv s'"
  by (induction rule: rtranclp_induct) (auto intro: inv_step)

lemma inv_reachable: "init s \<Longrightarrow> step\<^sup>*\<^sup>* s s' \<Longrightarrow> inv s'"
  using inv_steps inv_init by blast

end

end
