(* ===== verification/Prelude.thy ===== *)
theory Prelude
  imports Interfaces "HOL-Library.Sublist" "HOL-Library.Word" "HOL-Library.Char_ord"
    "HOL-Library.List_Lexorder"
begin

text \<open>
  Shared vocabulary of the development: bytes and the C character classes, the
  operations of \<open>std::string\<close> and of the C string functions that the two programs use
  (searching, cutting, splitting into lines and words), decimal and hexadecimal
  numerals as the stream operators read and print them, \<open>std::map\<close> as a sorted
  association list, and the generic lemmas on them.  A byte is a HOL \<open>char\<close>
  (eight bits), a string is the list of its bytes.  The collections \<open>str_simps\<close> and
  \<open>cclass_simps\<close> hold the rewrite rules that carry the component proofs.
\<close>

named_theorems cclass_simps \<open>character classes unfolded to byte ranges\<close>
named_theorems str_simps \<open>rewrite rules for the string operations\<close>

section \<open>Bytes and character classes (C locale)\<close>

definition byte :: "char \<Rightarrow> nat" where
  "byte c = of_char c"

definition is_digit :: "char \<Rightarrow> bool" where
  [cclass_simps]: "is_digit c \<longleftrightarrow> 48 \<le> byte c \<and> byte c \<le> 57"

definition is_space :: "char \<Rightarrow> bool" where
  [cclass_simps]: "is_space c \<longleftrightarrow> (9 \<le> byte c \<and> byte c \<le> 13) \<or> byte c = 32"

definition is_print :: "char \<Rightarrow> bool" where
  [cclass_simps]: "is_print c \<longleftrightarrow> 32 \<le> byte c \<and> byte c \<le> 126"

definition is_upperc :: "char \<Rightarrow> bool" where
  [cclass_simps]: "is_upperc c \<longleftrightarrow> 65 \<le> byte c \<and> byte c \<le> 90"

definition is_lowerc :: "char \<Rightarrow> bool" where
  [cclass_simps]: "is_lowerc c \<longleftrightarrow> 97 \<le> byte c \<and> byte c \<le> 122"

definition is_alpha :: "char \<Rightarrow> bool" where
  [cclass_simps]: "is_alpha c \<longleftrightarrow> is_upperc c \<or> is_lowerc c"

definition is_alnum :: "char \<Rightarrow> bool" where
  [cclass_simps]: "is_alnum c \<longleftrightarrow> is_alpha c \<or> is_digit c"

definition to_lower :: "char \<Rightarrow> char" where
  "to_lower c = (if is_upperc c then char_of (byte c + 32) else c)"

definition to_upper :: "char \<Rightarrow> char" where
  "to_upper c = (if is_lowerc c then char_of (byte c - 32) else c)"

abbreviation CR :: char where "CR \<equiv> CHR 0x0D"
abbreviation LF :: char where "LF \<equiv> CHR 0x0A"
abbreviation TAB :: char where "TAB \<equiv> CHR 0x09"
abbreviation NUL :: char where "NUL \<equiv> CHR 0x00"
abbreviation SP :: char where "SP \<equiv> CHR 0x20"
abbreviation DQ :: char where "DQ \<equiv> CHR 0x22"

definition crlf :: string where
  "crlf = [CR, LF]"

lemma byte_inj: "byte c = byte d \<longleftrightarrow> c = d"
  by (simp add: byte_def of_char_eq_iff)

lemma byte_less_256: "byte c < 256"
  by (simp add: byte_def)

lemma byte_char_of: "n < 256 \<Longrightarrow> byte (char_of n) = n"
  by (simp add: byte_def take_bit_eq_mod)

lemma char_of_byte [simp]: "char_of (byte c) = c"
  by (simp add: byte_def)

lemma byte_to_lower: "byte (to_lower c) = (if is_upperc c then byte c + 32 else byte c)"
  by (simp add: to_lower_def byte_char_of cclass_simps)

lemma byte_to_upper: "byte (to_upper c) = (if is_lowerc c then byte c - 32 else byte c)"
  using byte_less_256 [of c] by (simp add: to_upper_def byte_char_of cclass_simps)

lemma to_lower_idem [simp]: "to_lower (to_lower c) = to_lower c"
  by (simp add: byte_inj [symmetric] byte_to_lower cclass_simps)

lemma to_upper_idem [simp]: "to_upper (to_upper c) = to_upper c"
  by (auto simp add: byte_inj [symmetric] byte_to_upper cclass_simps)

lemma digit_not_space: "is_digit c \<Longrightarrow> \<not> is_space c"
  by (simp add: cclass_simps)

text \<open>Rules that evaluate bytes and character classes on literals.\<close>

lemmas eval_simps = byte_def char_of_def bit_Suc_0_iff cclass_simps to_upper_def to_lower_def

section \<open>Errors of the C++ and C code as values\<close>

text \<open>
  \<open>Out_of_range\<close> is the exception \<open>std::string::substr\<close> throws, \<open>Runtime_error\<close> the
  one the code throws itself; \<open>Undefined\<close> marks what the language leaves undefined
  (a read outside an object, \<open>pop_back\<close> on an empty vector, signed overflow) and
  \<open>No_return\<close> a loop that goes on for ever.
\<close>

datatype cxx_err = Out_of_range | Runtime_error string | Undefined | No_return

type_synonym 'a res = "cxx_err + 'a"

fun rbind :: "'a res \<Rightarrow> ('a \<Rightarrow> 'b res) \<Rightarrow> 'b res" where
  "rbind (Inl e) f = Inl e"
| "rbind (Inr x) f = f x"

lemma rbind_Inr: "rbind m f = Inr y \<longleftrightarrow> (\<exists>x. m = Inr x \<and> f x = Inr y)"
  by (cases m) auto

section \<open>Searching and cutting strings\<close>

text \<open>\<open>s.find(p)\<close>: the least position at which \<open>p\<close> starts, \<open>None\<close> for \<open>npos\<close>.\<close>

fun str_find :: "'a list \<Rightarrow> 'a list \<Rightarrow> nat option" where
  "str_find p [] = (if p = [] then Some 0 else None)"
| "str_find p (x # xs) =
     (if prefix p (x # xs) then Some 0 else map_option Suc (str_find p xs))"

text \<open>\<open>s.find(p, pos)\<close>.\<close>

definition str_find_from :: "'a list \<Rightarrow> 'a list \<Rightarrow> nat \<Rightarrow> nat option" where
  "str_find_from p s pos =
     (if pos > length s then None else map_option (\<lambda>i. pos + i) (str_find p (drop pos s)))"

text \<open>\<open>s.find(p) != npos\<close>.\<close>

definition str_contains :: "'a list \<Rightarrow> 'a list \<Rightarrow> bool" where
  "str_contains p s \<longleftrightarrow> str_find p s \<noteq> None"

text \<open>\<open>s.find_last_of(c)\<close> for one character.\<close>

definition find_last :: "'a \<Rightarrow> 'a list \<Rightarrow> nat option" where
  "find_last c s = map_option (\<lambda>i. length s - 1 - i) (str_find [c] (rev s))"

text \<open>\<open>s.substr(pos, n)\<close>, with the exception it throws.\<close>

definition substr :: "string \<Rightarrow> nat \<Rightarrow> nat \<Rightarrow> string res" where
  "substr s pos n = (if pos > length s then Inl Out_of_range else Inr (take n (drop pos s)))"

definition substr_from :: "string \<Rightarrow> nat \<Rightarrow> string res" where
  "substr_from s pos = (if pos > length s then Inl Out_of_range else Inr (drop pos s))"

lemma str_find_Some_iff:
  "str_find p s = Some i \<longleftrightarrow>
     i \<le> length s \<and> prefix p (drop i s) \<and> (\<forall>j < i. \<not> prefix p (drop j s))"
proof (induction s arbitrary: i)
  case Nil
  then show ?case by (auto)
next
  case (Cons x xs)
  show ?case
  proof (cases "prefix p (x # xs)")
    case True
    then show ?thesis by (auto split: nat.splits)
  next
    case False
    show ?thesis
    proof (cases i)
      case 0
      with False show ?thesis by auto
    next
      case (Suc k)
      with False show ?thesis by (auto simp: Cons.IH less_Suc_eq_0_disj)
    qed
  qed
qed

lemma str_find_None_iff:
  "str_find p s = None \<longleftrightarrow> (\<forall>i \<le> length s. \<not> prefix p (drop i s))"
proof (induction s)
  case Nil
  then show ?case by auto
next
  case (Cons x xs)
  have "(\<forall>i \<le> length (x # xs). \<not> prefix p (drop i (x # xs))) \<longleftrightarrow>
      \<not> prefix p (x # xs) \<and> (\<forall>i \<le> length xs. \<not> prefix p (drop i xs))"
    (is "?L \<longleftrightarrow> ?R")
  proof
    assume L: ?L
    have "\<not> prefix p (x # xs)" using L [rule_format, of 0] by simp
    moreover have "\<not> prefix p (drop i xs)" if "i \<le> length xs" for i
      using L [rule_format, of "Suc i"] that by simp
    ultimately show ?R by blast
  next
    assume R: ?R
    show ?L
    proof (intro allI impI)
      fix i assume "i \<le> length (x # xs)"
      with R show "\<not> prefix p (drop i (x # xs))" by (cases i) auto
    qed
  qed
  with Cons show ?case by auto
qed

lemma str_find_bound: "str_find p s = Some i \<Longrightarrow> i + length p \<le> length s"
proof -
  assume "str_find p s = Some i"
  then have "i \<le> length s" and "prefix p (drop i s)" by (auto simp: str_find_Some_iff)
  then show ?thesis using prefix_length_le [of p "drop i s"] by simp
qed

lemma prefix_append_long: "length p \<le> length s \<Longrightarrow> prefix p (s @ x) \<longleftrightarrow> prefix p s"
  by (metis prefix_append prefix_length_prefix prefix_order.refl prefix_prefix)

lemma str_find_append: "str_find p s = Some i \<Longrightarrow> str_find p (s @ x) = Some i"
proof (induction s arbitrary: i)
  case Nil
  then show ?case by (cases x) (auto split: if_splits)
next
  case (Cons c s)
  from str_find_bound [OF Cons.prems] have "length p \<le> length (c # s)" by simp
  then have e: "prefix p (c # s @ x) \<longleftrightarrow> prefix p (c # s)"
    using prefix_append_long [of p "c # s" x] by simp
  show ?case
  proof (cases "prefix p (c # s)")
    case True
    with Cons.prems e show ?thesis by simp
  next
    case False
    with Cons.prems obtain k where "str_find p s = Some k" "i = Suc k" by auto
    with Cons.IH [of k] False e show ?thesis by simp
  qed
qed

lemma str_find_char_None: "str_find [c] s = None \<longleftrightarrow> c \<notin> set s"
  by (induction s) auto

lemma str_find_char_Some:
  "str_find [c] s = Some i \<Longrightarrow> c \<notin> set (take i s) \<and> i < length s \<and> s ! i = c"
proof (induction s arbitrary: i)
  case (Cons x xs)
  then show ?case by (cases "x = c") auto
qed simp

lemma str_find_char_append: "c \<notin> set a \<Longrightarrow> str_find [c] (a @ c # b) = Some (length a)"
  by (induction a) auto

lemma str_contains_char [str_simps]: "str_contains [c] s \<longleftrightarrow> c \<in> set s"
  by (simp add: str_contains_def str_find_char_None)

text \<open>A two-byte separator is found where it first occurs.\<close>

lemma str_find_pair_append:
  "c \<notin> set a \<Longrightarrow> str_find [c, d] (a @ c # d # b) = Some (length a)"
  by (induction a) auto

section \<open>C strings\<close>

text \<open>
  A \<open>char *\<close> is the list of its bytes up to (not including) the terminating NUL; reading
  the byte at the length gives the NUL, reading beyond it is undefined.  \<open>cat_at\<close> is the
  read of an in-range index.
\<close>

definition c_at :: "string \<Rightarrow> nat \<Rightarrow> char" where
  "c_at s i = (if i < length s then s ! i else NUL)"

text \<open>\<open>std::string::c_str()\<close> seen by a C function: it ends at the first NUL byte.\<close>

definition c_str :: "string \<Rightarrow> string" where
  "c_str s = takeWhile (\<lambda>c. c \<noteq> NUL) s"

text \<open>
  \<open>strncmp(a, b, n)\<close>: negative, zero or positive as the first different byte (as
  unsigned char) within \<open>n\<close>.
\<close>

fun strncmp :: "string \<Rightarrow> string \<Rightarrow> nat \<Rightarrow> int" where
  "strncmp a b 0 = 0"
| "strncmp [] [] (Suc n) = 0"
| "strncmp (x # xs) [] (Suc n) = int (byte x)"
| "strncmp [] (y # ys) (Suc n) = - int (byte y)"
| "strncmp (x # xs) (y # ys) (Suc n) =
     (if x = y then strncmp xs ys n else int (byte x) - int (byte y))"

lemma strncmp_code [code]:
  "strncmp a b n = (if n = 0 then 0 else case a of
     [] \<Rightarrow> (case b of [] \<Rightarrow> 0 | y # ys \<Rightarrow> - int (byte y))
   | x # xs \<Rightarrow> (case b of [] \<Rightarrow> int (byte x)
       | y # ys \<Rightarrow> if x = y then strncmp xs ys (n - 1) else int (byte x) - int (byte y)))"
  by (cases n; cases a; cases b) simp_all

definition no_nul :: "string \<Rightarrow> bool" where
  "no_nul s \<longleftrightarrow> NUL \<notin> set s"

lemma c_str_no_nul [simp]: "no_nul s \<Longrightarrow> c_str s = s"
  by (auto simp: c_str_def no_nul_def takeWhile_eq_all_conv)

lemma byte_NUL_iff: "byte c = 0 \<longleftrightarrow> c = NUL"
  using byte_inj [of c NUL] by (simp add: byte_def)

lemma strncmp_zero:
  "no_nul a \<Longrightarrow> no_nul b \<Longrightarrow> strncmp a b n = 0 \<longleftrightarrow> take n a = take n b"
  by (induction a b n rule: strncmp.induct) (auto simp: no_nul_def byte_NUL_iff byte_inj)

text \<open>\<open>tolower\<close> and \<open>toupper\<close> on a whole string, and \<open>strncasecmp(a, b, n) == 0\<close>.\<close>

definition lower :: "string \<Rightarrow> string" where
  "lower s = map to_lower s"

definition ncase_eq :: "string \<Rightarrow> string \<Rightarrow> nat \<Rightarrow> bool" where
  "ncase_eq a b n \<longleftrightarrow> take n (lower a) = take n (lower b)"

section \<open>Words and lines\<close>

text \<open>
  \<open>stream >> word\<close> skips white space and takes the bytes up to the next white space; the
  word is empty exactly when nothing is left (the stream then fails).
\<close>

definition extract_word :: "string \<Rightarrow> string \<times> string" where
  "extract_word s =
     (let t = dropWhile is_space s
      in (takeWhile (\<lambda>c. \<not> is_space c) t, dropWhile (\<lambda>c. \<not> is_space c) t))"

lemma dropWhile_shorter: "dropWhile P s \<noteq> [] \<Longrightarrow> \<not> P (hd (dropWhile P s))"
  by (simp add: hd_dropWhile)

lemma length_dropWhile_snd [termination_simp]:
  "dropWhile is_space s \<noteq> [] \<Longrightarrow>
     length (dropWhile (\<lambda>c. \<not> is_space c) (dropWhile is_space s)) < length s"
proof -
  assume ne: "dropWhile is_space s \<noteq> []"
  then obtain c t where t: "dropWhile is_space s = c # t" by (cases "dropWhile is_space s") auto
  with hd_dropWhile [OF ne] have c: "\<not> is_space c" by simp
  have "length (dropWhile (\<lambda>c. \<not> is_space c) (c # t)) \<le> length t"
    using c by (simp add: length_dropWhile_le)
  also have "\<dots> < length (dropWhile is_space s)" by (simp add: t)
  also have "\<dots> \<le> length s" by (rule length_dropWhile_le)
  finally show ?thesis by (simp add: t)
qed

lemma length_dropWhile_Suc [termination_simp]: "length (dropWhile P xs) < Suc (length xs)"
  by (simp add: le_imp_less_Suc length_dropWhile_le)

text \<open>All the words of a string: \<open>while (ss >> tmp) words.push_back(tmp)\<close>.\<close>

fun words_of :: "string \<Rightarrow> string list" where
  "words_of s =
     (if dropWhile is_space s = [] then []
      else takeWhile (\<lambda>c. \<not> is_space c) (dropWhile is_space s) #
           words_of (dropWhile (\<lambda>c. \<not> is_space c) (dropWhile is_space s)))"

declare words_of.simps [simp del]

lemma words_of_step:
  "dropWhile is_space s \<noteq> [] \<Longrightarrow>
     words_of s = takeWhile (\<lambda>c. \<not> is_space c) (dropWhile is_space s) #
                  words_of (dropWhile (\<lambda>c. \<not> is_space c) (dropWhile is_space s))"
  by (subst words_of.simps) (rule if_not_P)

lemma words_of_blank [simp]: "dropWhile is_space s = [] \<Longrightarrow> words_of s = []"
  by (subst words_of.simps) (rule if_P)

lemma words_of_ok: "w \<in> set (words_of s) \<Longrightarrow> w \<noteq> [] \<and> (\<forall>c \<in> set w. \<not> is_space c)"
proof (induction s rule: words_of.induct)
  case (1 s)
  let ?t = "dropWhile is_space s"
  show ?case
  proof (cases "?t = []")
    case True
    with "1.prems" show ?thesis by simp
  next
    case False
    let ?w = "takeWhile (\<lambda>c. \<not> is_space c) ?t"
    from False have "\<not> is_space (hd ?t)" by (simp add: hd_dropWhile)
    with False have ne: "?w \<noteq> []" by (cases ?t) auto
    have ns: "\<forall>c \<in> set ?w. \<not> is_space c" by (auto dest: set_takeWhileD)
    from "1.prems" have "w = ?w \<or> w \<in> set (words_of (dropWhile (\<lambda>c. \<not> is_space c) ?t))"
      by (simp only: words_of_step [OF False] list.set insert_iff)
    then show ?thesis
    proof
      assume e: "w = ?w"
      from ne ns show ?thesis unfolding e ..
    next
      assume "w \<in> set (words_of (dropWhile (\<lambda>c. \<not> is_space c) ?t))"
      then show ?thesis by (rule "1.IH" [OF False])
    qed
  qed
qed

text \<open>
  The pieces repeated \<open>getline(stream, line, d)\<close> yields: the text is cut at every \<open>d\<close>; no
  empty piece follows a final \<open>d\<close>, and an empty text yields none.
\<close>

lemma length_tl_dropWhile [termination_simp]:
  "length (dropWhile P xs) - Suc 0 < Suc (length xs)"
  using length_dropWhile_le [of P xs] by simp

fun getlines :: "char \<Rightarrow> string \<Rightarrow> string list" where
  "getlines d [] = []"
| "getlines d (x # xs) =
     takeWhile (\<lambda>c. c \<noteq> d) (x # xs) # getlines d (tl (dropWhile (\<lambda>c. c \<noteq> d) (x # xs)))"

declare getlines.simps(2) [simp del]

lemma getlines_no_sep: "l \<in> set (getlines d s) \<Longrightarrow> d \<notin> set l"
proof (induction d s rule: getlines.induct)
  case (2 d x xs)
  then show ?case
    by (auto simp: getlines.simps(2) dest: set_takeWhileD)
qed simp

lemma getlines_piece:
  assumes "d \<notin> set a"
  shows "getlines d (a @ d # b) = a # getlines d b"
proof -
  have tw: "takeWhile (\<lambda>c. c \<noteq> d) (a @ d # b) = a"
    and dw: "dropWhile (\<lambda>c. c \<noteq> d) (a @ d # b) = d # b"
    using assms by (simp_all add: takeWhile_append dropWhile_append)
  obtain x xs where e: "a @ d # b = x # xs" by (cases a) auto
  have "getlines d (a @ d # b) =
      takeWhile (\<lambda>c. c \<noteq> d) (a @ d # b) # getlines d (tl (dropWhile (\<lambda>c. c \<noteq> d) (a @ d # b)))"
    unfolding e by (rule getlines.simps(2))
  then show ?thesis by (simp add: tw dw)
qed

section \<open>Numerals\<close>

definition digit_val :: "char \<Rightarrow> nat" where
  "digit_val c = byte c - 48"

definition digit_char :: "nat \<Rightarrow> char" where
  "digit_char n = char_of (n + 48)"

definition dec_val :: "string \<Rightarrow> nat" where
  "dec_val ds = foldl (\<lambda>n c. 10 * n + digit_val c) 0 ds"

text \<open>\<open>oss << n\<close> for an unsigned \<open>n\<close>.\<close>

fun show_nat :: "nat \<Rightarrow> string" where
  "show_nat n = (if n < 10 then [digit_char n] else show_nat (n div 10) @ [digit_char (n mod 10)])"

declare show_nat.simps [simp del]

text \<open>\<open>oss << n\<close> for an \<open>int\<close>.\<close>

definition show_int :: "int \<Rightarrow> string" where
  "show_int n = (if n < 0 then CHR ''-'' # show_nat (nat (- n)) else show_nat (nat n))"

lemma digit_val_char [simp]: "n < 10 \<Longrightarrow> digit_val (digit_char n) = n"
  by (simp add: digit_val_def digit_char_def byte_char_of)

lemma is_digit_char [simp]: "n < 10 \<Longrightarrow> is_digit (digit_char n)"
  by (simp add: is_digit_def digit_char_def byte_char_of)

lemma dec_val_snoc [simp]: "dec_val (ds @ [c]) = 10 * dec_val ds + digit_val c"
  by (simp add: dec_val_def)

lemma dec_val_single [simp]: "dec_val [c] = digit_val c"
  by (simp add: dec_val_def)

lemma dec_val_show_nat [simp]: "dec_val (show_nat n) = n"
proof (induction n rule: show_nat.induct)
  case (1 n)
  then show ?case by (cases "n < 10") (simp_all add: show_nat.simps [of n])
qed

lemma show_nat_digits: "\<forall>c \<in> set (show_nat n). is_digit c"
proof (induction n rule: show_nat.induct)
  case (1 n)
  then show ?case by (cases "n < 10") (auto simp add: show_nat.simps [of n])
qed

lemma show_nat_nonempty [simp]: "show_nat n \<noteq> []"
  by (subst show_nat.simps) simp

text \<open>
  \<open>ss >> n\<close> for a \<open>size_t n\<close> (64 bits), as the standard library reads it: leading white
  space, an optional sign, digits.  The first component is the value stored, \<open>None\<close> when
  nothing is stored because only white space was left; the second says that the stream
  failed.  Too large a numeral stores the largest value, a minus sign negates modulo
  \<open>2 ^ 64\<close>, a missing numeral stores 0.
\<close>

definition read_sign :: "string \<Rightarrow> bool \<times> string" where
  "read_sign t = (case t of [] \<Rightarrow> (False, [])
     | c # r \<Rightarrow> if c = CHR ''-'' then (True, r) else if c = CHR ''+'' then (False, r)
               else (False, t))"

definition read_uint64 :: "string \<Rightarrow> nat option \<times> bool" where
  "read_uint64 s =
     (let t = dropWhile is_space s in
      if t = [] then (None, True)
      else let (neg, r) = read_sign t; ds = takeWhile is_digit r; n = dec_val ds in
        if ds = [] then (Some 0, True)
        else if n \<ge> 2 ^ 64 then (Some (2 ^ 64 - 1), True)
        else (Some (if neg then (2 ^ 64 - n) mod 2 ^ 64 else n), False))"

text \<open>\<open>ss >> n\<close> for a 32-bit \<open>int n\<close>, in the same way.\<close>

definition read_int32 :: "string \<Rightarrow> int option \<times> bool" where
  "read_int32 s =
     (let t = dropWhile is_space s in
      if t = [] then (None, True)
      else let (neg, r) = read_sign t; ds = takeWhile is_digit r; n = int (dec_val ds) in
        if ds = [] then (Some 0, True)
        else if neg then (if n > 2 ^ 31 then (Some (- (2 ^ 31)), True) else (Some (- n), False))
        else if n > 2 ^ 31 - 1 then (Some (2 ^ 31 - 1), True) else (Some n, False))"

lemma takeWhile_digits_show [simp]: "takeWhile is_digit (show_nat n) = show_nat n"
  by (simp add: takeWhile_eq_all_conv show_nat_digits)

lemma show_nat_hd: "\<exists>c r. show_nat n = c # r \<and> is_digit c"
  using show_nat_digits [of n] by (cases "show_nat n") (auto simp: show_nat_nonempty [of n])

lemma dropWhile_space_digit: "is_digit c \<Longrightarrow> dropWhile is_space (c # r) = c # r"
  by (simp add: digit_not_space)

lemma read_sign_digit: "is_digit c \<Longrightarrow> read_sign (c # r) = (False, c # r)"
  by (auto simp: read_sign_def is_digit_def byte_def)

lemma read_digits:
  assumes "ds \<noteq> []" "\<forall>c \<in> set ds. is_digit c"
  shows read_uint64_digits:
    "read_uint64 ds = (if dec_val ds < 2 ^ 64 then (Some (dec_val ds), False)
                       else (Some (2 ^ 64 - 1), True))"
    and read_int32_digits:
    "read_int32 ds = (if dec_val ds < 2 ^ 31 then (Some (int (dec_val ds)), False)
                      else (Some (2 ^ 31 - 1), True))"
proof -
  obtain c r where ds: "ds = c # r" using assms(1) by (cases ds) auto
  with assms(2) have c: "is_digit c" and tw: "takeWhile is_digit (c # r) = c # r"
    by (auto simp: takeWhile_eq_all_conv)
  show "read_uint64 ds = (if dec_val ds < 2 ^ 64 then (Some (dec_val ds), False)
                       else (Some (2 ^ 64 - 1), True))"
    using tw by (simp only: read_uint64_def ds dropWhile_space_digit [OF c] read_sign_digit [OF c]
        Let_def prod.case) simp
  show "read_int32 ds = (if dec_val ds < 2 ^ 31 then (Some (int (dec_val ds)), False)
                      else (Some (2 ^ 31 - 1), True))"
    using tw by (simp only: read_int32_def ds dropWhile_space_digit [OF c] read_sign_digit [OF c]
        Let_def prod.case) simp
qed

lemma read_uint64_show: "n < 2 ^ 64 \<Longrightarrow> read_uint64 (show_nat n) = (Some n, False)"
  using read_uint64_digits [OF show_nat_nonempty show_nat_digits, of n] by simp

interpretation size_numeral: codec show_nat "\<lambda>s. fst (read_uint64 s)" "\<lambda>n. n < 2 ^ 64"
  by unfold_locales (simp add: read_uint64_show)

section \<open>std::map as a sorted association list\<close>

text \<open>
  \<open>std::map\<close> keeps its keys sorted and unique; iteration is in key order.  \<open>map_put\<close> is
  \<open>m[k] = v\<close>, \<open>map_ins\<close> is one step of \<open>insert(first, last)\<close>, which keeps an entry that
  is already there.
\<close>

type_synonym ('k, 'v) std_map = "('k \<times> 'v) list"

fun map_put :: "'k::linorder \<Rightarrow> 'v \<Rightarrow> ('k, 'v) std_map \<Rightarrow> ('k, 'v) std_map" where
  "map_put k v [] = [(k, v)]"
| "map_put k v ((k', v') # m) =
     (if k < k' then (k, v) # (k', v') # m
      else if k = k' then (k, v) # m
      else (k', v') # map_put k v m)"

definition map_ins :: "'k::linorder \<Rightarrow> 'v \<Rightarrow> ('k, 'v) std_map \<Rightarrow> ('k, 'v) std_map" where
  "map_ins k v m = (if map_of m k = None then map_put k v m else m)"

fun map_ins_all :: "('k::linorder, 'v) std_map \<Rightarrow> ('k, 'v) std_map \<Rightarrow> ('k, 'v) std_map" where
  "map_ins_all [] m = m"
| "map_ins_all ((k, v) # r) m = map_ins_all r (map_ins k v m)"

definition map_wf :: "('k::linorder, 'v) std_map \<Rightarrow> bool" where
  "map_wf m \<longleftrightarrow> sorted_wrt (<) (map fst m)"

lemma map_of_put: "map_wf m \<Longrightarrow> map_of (map_put k v m) = (map_of m)(k \<mapsto> v)"
  by (induction k v m rule: map_put.induct) (auto simp: map_wf_def fun_eq_iff)

lemma keys_put: "fst ` set (map_put k v m) = insert k (fst ` set m)"
  by (induction k v m rule: map_put.induct) auto

lemma map_wf_put: "map_wf m \<Longrightarrow> map_wf (map_put k v m)"
proof (induction k v m rule: map_put.induct)
  case (2 k v k' v' m)
  then show ?case
    using keys_put [of k v m] by (auto simp: map_wf_def dest: less_trans)
qed (simp add: map_wf_def)

lemma map_wf_Nil [simp]: "map_wf []"
  by (simp add: map_wf_def)

lemma map_of_ins: "map_wf m \<Longrightarrow> map_of (map_ins k v m) = (\<lambda>x. case map_of m x of
    None \<Rightarrow> if x = k then Some v else None | Some w \<Rightarrow> Some w)"
  by (auto simp: map_ins_def map_of_put fun_eq_iff split: option.splits)

lemma map_wf_ins: "map_wf m \<Longrightarrow> map_wf (map_ins k v m)"
  by (simp add: map_ins_def map_wf_put)

lemma map_wf_ins_all: "map_wf m \<Longrightarrow> map_wf (map_ins_all r m)"
  by (induction r m rule: map_ins_all.induct) (auto simp: map_wf_ins)

interpretation std_map: table map_wf "\<lambda>_. True" "[]" map_of map_put
  by unfold_locales (simp_all add: map_wf_put map_of_put)

interpretation std_insert: once_table map_wf "\<lambda>_. True" "[]" map_of map_ins
  by unfold_locales (simp_all add: map_wf_ins map_of_ins)

end
