(* ===== verification/Server_block.thy ===== *)
theory Server_block
  imports Prelude
begin

text \<open>
  The configuration a request is served under: \<open>parsing/RouteBlock.cpp\<close> and
  \<open>parsing/ServerBlock.cpp\<close>.  A class is a record, its constructor a \<open>new_\<close> definition,
  a setter that does more than assign its field a definition of its own; plain getters
  and setters are the record's selectors and updates.
\<close>

section \<open>RouteBlock\<close>

record RouteBlock =
  rb_URI :: string
  rb_root :: string
  rb_methods :: "string list"
  rb_autoindex :: bool
  rb_index :: "string list"
  rb_cgi_extension :: "string list"
  rb_client_body_temp_path :: string
  rb_redirections :: "(int, string) std_map"

definition new_RouteBlock :: RouteBlock where
  "new_RouteBlock = \<lparr>rb_URI = [], rb_root = ''./html'', rb_methods = [''GET'', ''POST'', ''DELETE''],
     rb_autoindex = False, rb_index = [], rb_cgi_extension = [],
     rb_client_body_temp_path = ''./upload'', rb_redirections = []\<rparr>"

text \<open>\<open>redirections.insert(first, last)\<close>: an entry that is there already is kept.\<close>

definition set_redirections :: "(int, string) std_map \<Rightarrow> RouteBlock \<Rightarrow> RouteBlock" where
  "set_redirections m r = r\<lparr>rb_redirections := map_ins_all m (rb_redirections r)\<rparr>"

section \<open>ServerBlock\<close>

record ServerBlock =
  sb_Host :: string
  sb_Port :: "int list"
  sb_Server_names :: string
  sb_server_root :: string
  sb_client_body_size :: nat
  sb_index :: "string list"
  sb_routes :: "RouteBlock list"
  sb_error_pages :: "(int, string) std_map"
  is_location_url :: int

definition new_ServerBlock :: ServerBlock where
  "new_ServerBlock = \<lparr>sb_Host = [], sb_Port = [], sb_Server_names = [], sb_server_root = ''./html'',
     sb_client_body_size = 1048576, sb_index = [], sb_routes = [], sb_error_pages = [],
     is_location_url = -1\<rparr>"

text \<open>
  Assignment (and the copy constructor, which calls it) copies every field but
  \<open>is_location_url\<close>, which keeps the value the target had.
\<close>

definition ServerBlock_assign :: "ServerBlock \<Rightarrow> ServerBlock \<Rightarrow> ServerBlock" where
  "ServerBlock_assign this other = other\<lparr>is_location_url := is_location_url this\<rparr>"

definition set_port :: "int \<Rightarrow> ServerBlock \<Rightarrow> ServerBlock" where
  "set_port p s = (if p > 0 then s\<lparr>sb_Port := sb_Port s @ [p]\<rparr> else s)"

definition set_index :: "string list \<Rightarrow> ServerBlock \<Rightarrow> ServerBlock" where
  "set_index xs s = s\<lparr>sb_index := sb_index s @ xs\<rparr>"

definition set_error_pages :: "(int, string) std_map \<Rightarrow> ServerBlock \<Rightarrow> ServerBlock" where
  "set_error_pages m s = s\<lparr>sb_error_pages := map_ins_all m (sb_error_pages s)\<rparr>"

definition set_routes :: "RouteBlock list \<Rightarrow> ServerBlock \<Rightarrow> ServerBlock" where
  "set_routes rs s = s\<lparr>sb_routes := sb_routes s @ rs\<rparr>"

definition set_dafault_data :: "ServerBlock \<Rightarrow> ServerBlock" where
  "set_dafault_data s = s\<lparr>sb_Host := ''127.0.0.1'', sb_Port := sb_Port s @ [8080],
     sb_Server_names := ''test.com''\<rparr>"

definition update_server_info :: "RouteBlock \<Rightarrow> ServerBlock \<Rightarrow> ServerBlock" where
  "update_server_info r s = s\<lparr>sb_server_root := rb_root r, sb_index := rb_index r\<rparr>"

text \<open>
  \<open>is_valid_method\<close>: the first route whose root followed by its URI occurs anywhere in
  the path decides; with no such route every method is allowed.
\<close>

fun is_valid_method_loop :: "RouteBlock list \<Rightarrow> string \<Rightarrow> string \<Rightarrow> bool" where
  "is_valid_method_loop [] path method = True"
| "is_valid_method_loop (r # rs) path method =
     (if str_contains (rb_root r @ rb_URI r) path then method \<in> set (rb_methods r)
      else is_valid_method_loop rs path method)"

definition is_valid_method :: "ServerBlock \<Rightarrow> string \<Rightarrow> string \<Rightarrow> bool" where
  "is_valid_method s path method = is_valid_method_loop (sb_routes s) path method"

text \<open>
  \<open>is_location_path\<close>: the path loses its first byte, and the position of the next slash
  in what is left is the number of bytes of the whole path compared with each URI; the
  first URI that agrees on them (\<open>strncmp\<close> on the C strings) is chosen, its index kept in
  \<open>is_location_url\<close>.
\<close>

fun location_loop :: "RouteBlock list \<Rightarrow> nat \<Rightarrow> string \<Rightarrow> nat \<Rightarrow> (nat \<times> RouteBlock) option" where
  "location_loop [] i path pos = None"
| "location_loop (r # rs) i path pos =
     (if strncmp (c_str path) (c_str (rb_URI r)) pos = 0 then Some (i, r)
      else location_loop rs (Suc i) path pos)"

definition location_len :: "string \<Rightarrow> nat" where
  "location_len rest =
     (case str_find ''/'' rest of None \<Rightarrow> length rest + 1
      | Some p \<Rightarrow> if p = 0 then length rest + 1 else p)"

definition is_location_path :: "ServerBlock \<Rightarrow> string \<Rightarrow> (string \<times> ServerBlock) res" where
  "is_location_path s path =
     (case path of [] \<Rightarrow> Inl Out_of_range
      | c # rest \<Rightarrow>
          if rest = [] then Inr ([], s)
          else (case location_loop (sb_routes s) 0 (CHR ''/'' # rest) (location_len rest) of
                  None \<Rightarrow> Inr ([], s)
                | Some (i, r) \<Rightarrow> Inr (rb_root r @ CHR ''/'' # rest, s\<lparr>is_location_url := int i\<rparr>)))"

definition find_error_page_path :: "ServerBlock \<Rightarrow> int \<Rightarrow> string" where
  "find_error_page_path s n =
     (case map_of (sb_error_pages s) n of None \<Rightarrow> ''NULL'' | Some p \<Rightarrow> p)"

section \<open>What the lookups return\<close>

lemma location_loop_Some:
  "location_loop rs i path pos = Some (j, r) \<Longrightarrow>
     i \<le> j \<and> j < i + length rs \<and> r = rs ! (j - i) \<and>
     strncmp (c_str path) (c_str (rb_URI r)) pos = 0 \<and>
     (\<forall>k < j - i. strncmp (c_str path) (c_str (rb_URI (rs ! k))) pos \<noteq> 0)"
proof (induction rs i path pos rule: location_loop.induct)
  case (2 r0 rs i path pos)
  show ?case
  proof (cases "strncmp (c_str path) (c_str (rb_URI r0)) pos = 0")
    case True
    with "2.prems" show ?thesis by auto
  next
    case False
    with "2.prems" have h: "Suc i \<le> j" "j < Suc i + length rs" "r = rs ! (j - Suc i)"
      "strncmp (c_str path) (c_str (rb_URI r)) pos = 0"
      "\<forall>k < j - Suc i. strncmp (c_str path) (c_str (rb_URI (rs ! k))) pos \<noteq> 0"
      using "2.IH" [OF False] by auto
    from h(1) obtain d where d: "j - i = Suc d" "j - Suc i = d" by (cases "j - i") auto
    have "\<forall>k < j - i. strncmp (c_str path) (c_str (rb_URI ((r0 # rs) ! k))) pos \<noteq> 0"
      using False h(5) d by (auto simp: less_Suc_eq_0_disj)
    with h d show ?thesis by auto
  qed
qed simp

lemma location_loop_None:
  "location_loop rs i path pos = None \<longleftrightarrow>
     (\<forall>r \<in> set rs. strncmp (c_str path) (c_str (rb_URI r)) pos \<noteq> 0)"
  by (induction rs i path pos rule: location_loop.induct) auto

lemma is_location_path_shape:
  assumes "is_location_path s path = Inr (p, s')"
  shows "(p = [] \<and> s' = s) \<or>
    (\<exists>i r rest. path = hd path # rest \<and> i < length (sb_routes s) \<and> r = sb_routes s ! i \<and>
       p = rb_root r @ CHR ''/'' # rest \<and> s' = s\<lparr>is_location_url := int i\<rparr>)"
  using assms
  by (cases path)
     (auto simp: is_location_path_def split: if_splits option.splits prod.splits
       dest!: location_loop_Some)

lemma is_location_path_total: "path \<noteq> [] \<Longrightarrow> \<exists>x. is_location_path s path = Inr x"
  by (cases path) (auto simp: is_location_path_def split: option.splits)

end
