(* ===== verification/Client_state.thy ===== *)
theory Client_state
  imports Server_block
begin

text \<open>
  The state a request is handled in: the classes \<open>Request\<close> (\<open>request/request.hpp\<close>),
  \<open>Response\<close> (\<open>response/response.hpp\<close>) and \<open>Client\<close> (\<open>client/client.hpp\<close>) as records,
  and the interface of the operating system that the handlers call.  The file system is
  a value of an arbitrary type \<open>'w\<close>; \<open>'w os\<close> holds the calls as functions on it, and every
  definition that makes such a call takes it as an argument.
\<close>

section \<open>The operating system interface\<close>

datatype file_type = Regular | Directory | Other_type

record file_stat =
  st_type :: file_type
  st_rusr :: bool
  st_wusr :: bool

text \<open>
  \<open>os_stat\<close> is \<open>stat\<close> (\<open>None\<close> for -1), \<open>os_access_r\<close> and \<open>os_access_f\<close> are \<open>access\<close> with
  \<open>R_OK\<close> and \<open>F_OK\<close>, \<open>os_opendir\<close> opens a directory and yields the names \<open>readdir\<close>
  returns one after the other, \<open>os_remove\<close> is \<open>remove\<close> (true for success), \<open>os_read\<close> opens
  a file for reading and yields its bytes, \<open>os_create\<close> opens a file for writing (created
  or truncated), and \<open>os_append\<close> writes at the end of an open file (\<open>None\<close> when the stream
  fails).
\<close>

record 'w os =
  os_stat :: "string \<Rightarrow> 'w \<Rightarrow> file_stat option"
  os_access_r :: "string \<Rightarrow> 'w \<Rightarrow> bool"
  os_access_f :: "string \<Rightarrow> 'w \<Rightarrow> bool"
  os_opendir :: "string \<Rightarrow> 'w \<Rightarrow> string list option"
  os_remove :: "string \<Rightarrow> 'w \<Rightarrow> bool \<times> 'w"
  os_read :: "string \<Rightarrow> 'w \<Rightarrow> string option"
  os_create :: "string \<Rightarrow> 'w \<Rightarrow> 'w option"
  os_append :: "string \<Rightarrow> string \<Rightarrow> 'w \<Rightarrow> 'w option"

section \<open>Streams\<close>

text \<open>
  An \<open>std::ifstream\<close>: open or not, the bytes not read yet, and the end-of-file flag.  An
  \<open>std::ofstream\<close> is the path it is open on.
\<close>

record ifstream =
  is_open :: bool
  unread :: string
  eof_bit :: bool

definition closed_ifstream :: ifstream where
  "closed_ifstream = \<lparr>is_open = False, unread = [], eof_bit = False\<rparr>"

definition ifstream_close :: "ifstream \<Rightarrow> ifstream" where
  "ifstream_close f = f\<lparr>is_open := False, unread := []\<rparr>"

text \<open>\<open>f.read(buffer, n)\<close>: the bytes read; the end-of-file flag is set when they are fewer than \<open>n\<close>.\<close>

definition ifstream_read :: "nat \<Rightarrow> ifstream \<Rightarrow> string \<times> ifstream" where
  "ifstream_read n f =
     (take n (unread f), f\<lparr>unread := drop n (unread f), eof_bit := length (unread f) < n\<rparr>)"

section \<open>Request\<close>

text \<open>\<open>content_length\<close> is not initialised by the constructor: \<open>None\<close> until it is set.\<close>

record Request =
  rq_method :: string
  rq_version :: string
  rq_path :: string
  rq_headers_map :: "(string, string) std_map"
  rq_s_request :: string
  rq_index :: bool
  rq_content_length :: "nat option"
  rq_file :: "string option"
  rq_redirection :: int
  rq_Location :: string
  rq_is_string_req_send :: bool

definition new_Request :: Request where
  "new_Request = \<lparr>rq_method = [], rq_version = [], rq_path = [], rq_headers_map = [],
     rq_s_request = [], rq_index = False, rq_content_length = None, rq_file = None,
     rq_redirection = -1, rq_Location = [], rq_is_string_req_send = False\<rparr>"

definition get_map_values :: "string \<Rightarrow> Request \<Rightarrow> string" where
  "get_map_values key r =
     (case map_of (rq_headers_map r) key of None \<Rightarrow> ''NULL'' | Some v \<Rightarrow> v)"

section \<open>Response\<close>

text \<open>\<open>response_status\<close> is not initialised either.\<close>

record Response =
  rs_fileStream :: ifstream
  rs_response :: string
  rs_Ready_to_send :: bool
  rs_response_status :: "int option"

definition new_Response :: Response where
  "new_Response = \<lparr>rs_fileStream = closed_ifstream, rs_response = [], rs_Ready_to_send = False,
     rs_response_status = None\<rparr>"

section \<open>Client\<close>

record Client =
  cl_client_id :: int
  cl_request :: Request
  cl_response :: Response
  cl_form_data :: "(string, string) std_map"
  cl_keep_alive :: bool
  cl_all_recv :: bool
  cl_server :: ServerBlock

text \<open>
  The constructor \<open>Client(fd, addr, obj)\<close>: \<open>server_client_obj\<close> is first built by the default
  constructor and then assigned, so its \<open>is_location_url\<close> is -1.
\<close>

definition new_Client :: "int \<Rightarrow> ServerBlock \<Rightarrow> Client" where
  "new_Client fd obj = \<lparr>cl_client_id = fd, cl_request = new_Request, cl_response = new_Response,
     cl_form_data = [], cl_keep_alive = False, cl_all_recv = False,
     cl_server = ServerBlock_assign new_ServerBlock obj\<rparr>"

definition Client_reset :: "Client \<Rightarrow> Client" where
  "Client_reset c = c\<lparr>cl_request := new_Request, cl_response := new_Response,
     cl_keep_alive := False, cl_all_recv := False\<rparr>"

definition Client_fill_map :: "string \<Rightarrow> string \<Rightarrow> Client \<Rightarrow> Client" where
  "Client_fill_map key val c = c\<lparr>cl_form_data := map_put key val (cl_form_data c)\<rparr>"

text \<open>The setters of the response and of the request, reached through the client.\<close>

definition set_response :: "string \<Rightarrow> Client \<Rightarrow> Client" where
  "set_response s c = c\<lparr>cl_response := (cl_response c)\<lparr>rs_response := s\<rparr>\<rparr>"

definition set_response_index :: "bool \<Rightarrow> Client \<Rightarrow> Client" where
  "set_response_index b c = c\<lparr>cl_response := (cl_response c)\<lparr>rs_Ready_to_send := b\<rparr>\<rparr>"

definition set_response_status :: "int \<Rightarrow> Client \<Rightarrow> Client" where
  "set_response_status n c = c\<lparr>cl_response := (cl_response c)\<lparr>rs_response_status := Some n\<rparr>\<rparr>"

definition set_fileStream :: "ifstream \<Rightarrow> Client \<Rightarrow> Client" where
  "set_fileStream f c = c\<lparr>cl_response := (cl_response c)\<lparr>rs_fileStream := f\<rparr>\<rparr>"

definition set_s_request :: "string \<Rightarrow> Client \<Rightarrow> Client" where
  "set_s_request s c = c\<lparr>cl_request := (cl_request c)\<lparr>rq_s_request := s\<rparr>\<rparr>"

definition set_path :: "string \<Rightarrow> Client \<Rightarrow> Client" where
  "set_path s c = c\<lparr>cl_request := (cl_request c)\<lparr>rq_path := s\<rparr>\<rparr>"

definition set_headers :: "(string, string) std_map \<Rightarrow> Client \<Rightarrow> Client" where
  "set_headers m c = c\<lparr>cl_request := (cl_request c)\<lparr>rq_headers_map := m\<rparr>\<rparr>"

named_theorems client_simps \<open>the setters of the client unfolded\<close>

lemmas client_setters [client_simps] =
  set_response_def set_response_index_def set_response_status_def set_fileStream_def
  set_s_request_def set_path_def set_headers_def

text \<open>What \<open>is_location_url\<close> selects; a vector access out of range is undefined.\<close>

definition current_route :: "ServerBlock \<Rightarrow> RouteBlock res" where
  "current_route s =
     (let i = is_location_url s in
      if 0 \<le> i \<and> nat i < length (sb_routes s) then Inr (sb_routes s ! nat i) else Inl Undefined)"

definition location_ok :: "ServerBlock \<Rightarrow> bool" where
  "location_ok s \<longleftrightarrow> is_location_url s = -1 \<or>
     (0 \<le> is_location_url s \<and> nat (is_location_url s) < length (sb_routes s))"

lemma current_route_ok:
  "location_ok s \<Longrightarrow> is_location_url s \<noteq> -1 \<Longrightarrow>
     current_route s = Inr (sb_routes s ! nat (is_location_url s))"
  by (auto simp: current_route_def location_ok_def Let_def)

end
