(* ===== verification/Http_message.thy ===== *)
theory Http_message
  imports Prelude
begin

text \<open>
  The wire format the responses are meant to have, as a specification: header lines, each
  closed by CR LF, an empty line, and the body.  \<open>parse_http\<close> is what a receiver does with
  the bytes; \<open>http_message\<close> writes them.  The component theories show which messages the
  server's string building produces and what a receiver reads back.
\<close>

definition http_message :: "string list \<Rightarrow> string \<Rightarrow> string" where
  "http_message ls body = concat (map (\<lambda>l. l @ crlf) ls) @ crlf @ body"

function parse_http :: "string \<Rightarrow> (string list \<times> string) option" where
  "parse_http s =
     (case str_find crlf s of
        None \<Rightarrow> None
      | Some p \<Rightarrow>
          if p = 0 then Some ([], drop 2 s)
          else map_option (\<lambda>(ls, b). (take p s # ls, b)) (parse_http (drop (p + 2) s)))"
  by pat_completeness auto
termination
  by (relation "measure length") (auto dest!: str_find_bound simp: crlf_def)

declare parse_http.simps [simp del]

definition http_line :: "string \<Rightarrow> bool" where
  "http_line l \<longleftrightarrow> l \<noteq> [] \<and> CR \<notin> set l"

lemma str_find_crlf_line: "CR \<notin> set l \<Longrightarrow> str_find crlf (l @ crlf @ r) = Some (length l)"
  unfolding crlf_def using str_find_pair_append [of CR l LF r] by simp

lemma parse_http_line:
  assumes "http_line l"
  shows "parse_http (l @ crlf @ r) = map_option (\<lambda>(ls, b). (l # ls, b)) (parse_http r)"
proof -
  from assms have f: "str_find crlf (l @ crlf @ r) = Some (length l)" and ne: "length l \<noteq> 0"
    by (auto simp: http_line_def str_find_crlf_line)
  have t: "take (length l) (l @ crlf @ r) = l" by simp
  have d: "drop (length l + 2) (l @ crlf @ r) = r" by (simp add: crlf_def)
  show ?thesis
    by (subst parse_http.simps, subst f) (simp only: option.case ne if_False t d)
qed

lemma parse_http_end: "parse_http (crlf @ b) = Some ([], b)"
  using str_find_crlf_line [of "[]" b] by (simp add: parse_http.simps crlf_def)

lemma parse_http_message:
  "\<forall>l \<in> set ls. http_line l \<Longrightarrow> parse_http (http_message ls body) = Some (ls, body)"
proof (induction ls)
  case Nil
  show ?case by (simp add: http_message_def parse_http_end)
next
  case (Cons l ls)
  have "http_message (l # ls) body = l @ crlf @ http_message ls body"
    by (simp add: http_message_def)
  with Cons show ?case by (simp add: parse_http_line)
qed

interpretation http: codec "\<lambda>(ls, body). http_message ls body" parse_http "\<lambda>(ls, body). \<forall>l \<in> set ls. http_line l"
  by unfold_locales (auto intro: parse_http_message)

lemma http_message_Cons: "http_message (l # ls) body = l @ crlf @ http_message ls body"
  by (simp add: http_message_def)

lemma http_message_Nil: "http_message [] body = crlf @ body"
  by (simp add: http_message_def)

lemma show_nat_no_CR: "CR \<notin> set (show_nat n)"
  using show_nat_digits [of n] by (auto simp: is_digit_def byte_def)

lemma show_int_no_CR: "CR \<notin> set (show_int n)"
  by (auto simp: show_int_def show_nat_no_CR)

lemma show_int_nonempty [simp]: "show_int n \<noteq> []"
  by (simp add: show_int_def)

end
