(* ===== verification/Error_response.thy ===== *)
theory Error_response
  imports Client_state Http_message
begin

text \<open>
  Building the response head and the built-in error pages: the \<open>status_\<close> constants and
  \<open>set_response_error\<close> (\<open>request/request_implementation.cpp\<close>), \<open>get_response_title\<close>,
  \<open>getContentType\<close> and \<open>fill_response\<close> (\<open>request/tools.cpp\<close>).
\<close>

section \<open>The built-in pages\<close>

text \<open>
  The eleven constants are one page with the status code, the colour of the heading and
  the message filled in.
\<close>

definition page_html :: "string \<Rightarrow> string \<Rightarrow> string \<Rightarrow> string" where
  "page_html code colour msg =
     ''<!DOCTYPE html><html lang=\"en\"><head><meta charset=\"UTF-8\"><meta name=\"viewport\" content=\"width=device-width, initial-scale=1.0\"><title>'' @ code @ ''</title>'' @
     ''<style>'' @
     ''  body{font-family:\"Arial\",sans-serif;background:#f4f4f4;color:#333;margin:0;padding:0;display:flex;justify-content:center;align-items:center;height:100vh}'' @
     ''  .error-container{text-align:center;max-width:600px;padding:40px;background:#fff;box-shadow:0 4px 10px rgba(0,0,0,0.1);border-radius:8px}'' @
     ''  h1{font-size:100px;margin:0;color:'' @ colour @ ''}'' @
     ''  p{font-size:18px;margin-top:20px}'' @
     ''  a{color:#3498db;text-decoration:none}'' @
     ''  a:hover{text-decoration:underline}'' @
     ''</style></head><body>'' @
     ''<div class=\"error-container\">'' @
     ''  <h1>'' @ code @ ''</h1>'' @
     ''  <p>'' @ msg @ ''</p>'' @
     ''  <p><a href=\"/\">Go back to homepage</a></p>'' @
     ''</div>'' @
     ''</body></html>''"

definition status_400 :: string where
  "status_400 = page_html ''400'' ''#e74c3c'' ''Oops! Bad request.''"

definition status_403 :: string where
  "status_403 = page_html ''403'' ''#e74c3c'' ''Oops! Forbidden.''"

definition status_404 :: string where
  "status_404 = page_html ''404'' ''#e74c3c''
     ''Oops! The page you are looking for could not be found.''"

definition status_201 :: string where
  "status_201 = page_html ''201'' ''#28a745''
     ''Success! The request has been fulfilled and a new resource created.''"

definition status_405 :: string where
  "status_405 = page_html ''405'' ''#e74c3c'' ''Oops! Method not allowed.''"

definition status_413 :: string where
  "status_413 = page_html ''413'' ''#e74c3c'' ''Request entity too large.''"

definition status_415 :: string where
  "status_415 = page_html ''415'' ''#e74c3c'' ''Unsupported media type.''"

definition status_500 :: string where
  "status_500 = page_html ''500'' ''#e74c3c'' ''Internal server error.''"

definition status_502 :: string where
  "status_502 = page_html ''502'' ''#e74c3c'' ''Bad gateway.''"

definition status_505 :: string where
  "status_505 = page_html ''505'' ''#e74c3c'' ''HTTP version not supported.''"

definition status_504 :: string where
  "status_504 = page_html ''504'' ''#e67e22''
     ''Gateway Timeout: The server took too long to respond.''"

text \<open>The choice in \<open>set_response_error\<close>; a status without a page has an empty body.\<close>

definition status_page :: "int \<Rightarrow> string" where
  "status_page status =
     (if status = 400 then status_400
      else if status = 404 then status_404
      else if status = 403 then status_403
      else if status = 201 then status_201
      else if status = 405 then status_405
      else if status = 415 then status_415
      else if status = 505 then status_505
      else if status = 413 then status_413
      else if status = 502 then status_502
      else if status = 500 then status_500
      else if status = 504 then status_504
      else [])"

section \<open>Titles and content types\<close>

definition get_response_title :: "int \<Rightarrow> string" where
  "get_response_title status =
     (if status = 400 then ''Bad Request''
      else if status = 404 then ''Not Found''
      else if status = 403 then ''Forbidden''
      else if status = 201 then ''Created''
      else if status = 405 then ''Method Not Allowed''
      else if status = 415 then ''Unsupported Media Type''
      else if status = 505 then ''HTTP Version Not Supported''
      else if status = 413 then ''Payload Too Large''
      else if status = 502 then ''Bad Gateway''
      else if status = 500 then TAB # ''Internal Server Error''
      else if status = 504 then TAB # ''Gateway Timeout''
      else ''ok'')"

definition getContentType :: "string \<Rightarrow> string" where
  "getContentType path =
     (case find_last CHR ''.'' path of
        None \<Rightarrow> []
      | Some dot \<Rightarrow>
          (let ext = drop dot path in
           if ext = ''.html'' then ''text/html''
           else if ext = ''.css'' then ''text/css''
           else if ext = ''.js'' then ''application/javascript''
           else if ext = ''.json'' then ''application/json''
           else if ext = ''.jpg'' \<or> ext = ''.jpeg'' then ''image/jpeg''
           else if ext = ''.png'' then ''image/png''
           else if ext = ''.gif'' then ''image/gif''
           else if ext = ''.mp4'' then ''video/mp4''
           else if ext = ''.pdf'' then ''application/pdf''
           else if ext = ''.txt'' then ''text/plain''
           else if ext = ''.zip'' then ''application/zip''
           else if ext = ''.mp3'' then ''audio/mpeg''
           else []))"

section \<open>fill_response\<close>

definition connection_line :: "Client \<Rightarrow> string" where
  "connection_line c =
     (if cl_keep_alive c then ''Connection: keep-alive'' else ''Connection: close'')"

text \<open>The status line, or what a pending redirection puts in its place.\<close>

definition redirect_head :: "int \<Rightarrow> string \<Rightarrow> string" where
  "redirect_head red loc =
     (if red = 301 then ''301 Moved Permanently'' @ crlf @ ''Location: '' @ loc @ '' '' @ crlf
      else if red = 302 then ''302 Found'' @ crlf @ ''Location: '' @ loc @ '' '' @ crlf
      else [])"

text \<open>
  The stream of the response is closed and opened again on the file, positioned at its
  end for the size and then at its start; an empty result says that it cannot be opened.
\<close>

definition fill_response :: "'w os \<Rightarrow> 'w \<Rightarrow> string \<Rightarrow> Client \<Rightarrow> int \<Rightarrow> string \<times> Client" where
  "fill_response os w filePath c status =
     (case os_read os (c_str filePath) w of
        None \<Rightarrow> ([], set_fileStream closed_ifstream c)
      | Some bytes \<Rightarrow>
          (let c1 = set_response_status 200
                      (set_fileStream \<lparr>is_open = True, unread = bytes, eof_bit = False\<rparr> c);
               red = rq_redirection (cl_request c);
               line = (if red \<noteq> -1 then redirect_head red (rq_Location (cl_request c))
                       else show_int status @ '' '' @ get_response_title status @ '' '' @ crlf)
           in (''HTTP/1.1 '' @ line @
               ''Content-Type:'' @ getContentType filePath @ crlf @
               ''Content-Length: '' @ show_nat (length bytes) @ crlf @
               ''Accept-Ranges: bytes'' @ crlf @
               connection_line c @ crlf @ crlf, c1)))"

section \<open>set_response_error\<close>

text \<open>The response built in memory when no page is configured for the status.\<close>

definition builtin_response :: "Client \<Rightarrow> int \<Rightarrow> string" where
  "builtin_response c status =
     (let red = rq_redirection (cl_request c); page = status_page status in
      ''HTTP/1.1 '' @
      (if red \<noteq> -1 then redirect_head red (rq_Location (cl_request c)) else []) @
      show_int status @ get_response_title status @ '' '' @ crlf @
      ''Content-Type: text/html; charset=UTF-8'' @ crlf @
      ''Content-Length: '' @ show_nat (length page) @ crlf @
      connection_line c @ crlf @ crlf @ page)"

definition unreadable_page_response :: "Client \<Rightarrow> int \<Rightarrow> string" where
  "unreadable_page_response c status =
     ''HTTP/1.1 500 '' @ get_response_title status @ '' '' @ crlf @
     ''Content-Type: text/html; charset=UTF-8'' @ crlf @
     connection_line c @ crlf @ crlf @ status_500"

definition set_response_error :: "'w os \<Rightarrow> 'w \<Rightarrow> int \<Rightarrow> Client \<Rightarrow> Client" where
  "set_response_error os w status c0 =
     (let error_path = find_error_page_path (cl_server c0) status;
          c = c0\<lparr>cl_all_recv := True\<rparr>
      in if error_path = ''NULL'' then
           set_response_index True
             (set_response (builtin_response c status) (set_response_status status c))
         else
           (let (res, c1) = fill_response os w error_path c status;
                res' = (if res = [] then unreadable_page_response c1 status else res)
            in set_response_index True (set_response res' (set_response_status status c1))))"

section \<open>What the responses say\<close>

lemma connection_line_ok: "http_line (connection_line c)"
  by (simp add: connection_line_def http_line_def)

lemma title_no_CR: "CR \<notin> set (get_response_title status)"
  by (simp add: get_response_title_def)

lemma content_type_no_CR: "CR \<notin> set (getContentType p)"
  by (simp add: getContentType_def Let_def split: option.split)

text \<open>The head of a built-in page as the message it is meant to be.\<close>

definition builtin_lines :: "Client \<Rightarrow> int \<Rightarrow> string list" where
  "builtin_lines c status =
     [''HTTP/1.1 '' @ show_int status @ get_response_title status @ '' '',
      ''Content-Type: text/html; charset=UTF-8'',
      ''Content-Length: '' @ show_nat (length (status_page status)),
      connection_line c]"

lemma builtin_response_message:
  "rq_redirection (cl_request c) = -1 \<Longrightarrow>
     builtin_response c status = http_message (builtin_lines c status) (status_page status)"
  by (simp add: builtin_response_def builtin_lines_def http_message_def Let_def)

lemma builtin_lines_ok: "\<forall>l \<in> set (builtin_lines c status). http_line l"
  using connection_line_ok [of c]
  by (simp add: builtin_lines_def http_line_def show_int_no_CR show_nat_no_CR title_no_CR)

lemma set_response_error_frame:
  "cl_client_id (set_response_error os w st c) = cl_client_id c"
  "cl_request (set_response_error os w st c) = cl_request c"
  "cl_form_data (set_response_error os w st c) = cl_form_data c"
  "cl_keep_alive (set_response_error os w st c) = cl_keep_alive c"
  "cl_server (set_response_error os w st c) = cl_server c"
  by (simp_all add: set_response_error_def fill_response_def client_simps Let_def
      split: option.split prod.split)

lemma set_response_error_result:
  "cl_all_recv (set_response_error os w st c)"
  "rs_Ready_to_send (cl_response (set_response_error os w st c))"
  "rs_response_status (cl_response (set_response_error os w st c)) = Some st"
  by (simp_all add: set_response_error_def fill_response_def client_simps Let_def
      split: option.split prod.split)

lemma set_response_error_nonempty: "rs_response (cl_response (set_response_error os w st c)) \<noteq> []"
  by (auto simp: set_response_error_def fill_response_def client_simps Let_def
      builtin_response_def unreadable_page_response_def split: option.split prod.split)

lemmas set_response_error_simps [simp] = set_response_error_frame set_response_error_result
  set_response_error_nonempty

text \<open>The head that announces a file.\<close>

definition file_lines :: "Client \<Rightarrow> string \<Rightarrow> int \<Rightarrow> nat \<Rightarrow> string list" where
  "file_lines c path status n =
     [''HTTP/1.1 '' @ show_int status @ '' '' @ get_response_title status @ '' '',
      ''Content-Type:'' @ getContentType path,
      ''Content-Length: '' @ show_nat n,
      ''Accept-Ranges: bytes'',
      connection_line c]"

lemma fill_response_message:
  assumes "os_read os (c_str path) w = Some bytes" and "rq_redirection (cl_request c) = -1"
  shows "fst (fill_response os w path c status) =
      http_message (file_lines c path status (length bytes)) []"
  using assms by (simp add: fill_response_def file_lines_def http_message_def Let_def)

lemma file_lines_ok: "\<forall>l \<in> set (file_lines c path status n). http_line l"
  using connection_line_ok [of c]
  by (simp add: file_lines_def http_line_def show_int_no_CR show_nat_no_CR title_no_CR
      content_type_no_CR)

end
