(* ===== verification/Paths.thy ===== *)
theory Paths
  imports Prelude
begin

text \<open>
  Path handling of the request parser: \<open>removeslashes\<close>, \<open>is_upper\<close>,
  \<open>check_request_line\<close> and the two loops of \<open>out_root_dir\<close> (\<open>request/request.cpp\<close>), and
  \<open>ft_split\<close> with its helpers (\<open>c_tools/tools.cpp\<close>).  The abstract specification is
  \<open>walk\<close>: walking down and up a directory tree from its root, which fails when it would
  climb above the root.
\<close>

section \<open>ft_split (c_tools/tools.cpp)\<close>

text \<open>The string is a C string; the index \<open>i\<close> is the suffix that is left.\<close>

fun word_size :: "string \<Rightarrow> char \<Rightarrow> nat" where
  "word_size [] c = 0"
| "word_size (x # xs) c =
     (if x \<noteq> c then Suc (word_size (tl (dropWhile (\<lambda>y. y \<noteq> c) xs)) c) else word_size xs c)"

definition word_len :: "string \<Rightarrow> char \<Rightarrow> nat" where
  "word_len s c = length (takeWhile (\<lambda>y. y \<noteq> c) s)"

text \<open>\<open>ft_write(&s[i], p[index], len)\<close>: a fresh copy of the first \<open>len\<close> bytes.\<close>

definition ft_write :: "string \<Rightarrow> nat \<Rightarrow> string" where
  "ft_write s len = take len s"

lemma length_drop_word_len [termination_simp]:
  "x \<noteq> c \<Longrightarrow> length (x # xs) - word_len (x # xs) c < Suc (length xs)"
  by (simp add: word_len_def)

text \<open>
  The loop: at a byte that is not the separator a word of \<open>word_len\<close> bytes is stored and
  \<open>i\<close> moves behind it.  The result is the words stored before the terminating NULL.
\<close>

function ft_split :: "string \<Rightarrow> char \<Rightarrow> string list" where
  "ft_split [] c = []"
| "ft_split (x # xs) c =
     (if x \<noteq> c then ft_write (x # xs) (word_len (x # xs) c) #
                     ft_split (drop (word_len (x # xs) c) (x # xs)) c
      else ft_split xs c)"
  by pat_completeness auto
termination
  by (relation "measure (\<lambda>(s, c). length s)") (auto simp: word_len_def)

declare ft_split.simps(2) [simp del]

text \<open>The number of pointers \<open>ft_split\<close> allocates.\<close>

definition ft_split_alloc :: "string \<Rightarrow> char \<Rightarrow> nat" where
  "ft_split_alloc s c = word_size s c + 1"

lemma drop_takeWhile_length: "drop (length (takeWhile P s)) s = dropWhile P s"
  by (induction s) auto

lemma ft_split_word:
  "x \<noteq> c \<Longrightarrow> ft_split (x # xs) c =
     (x # takeWhile (\<lambda>y. y \<noteq> c) xs) # ft_split (dropWhile (\<lambda>y. y \<noteq> c) xs) c"
proof -
  assume x: "x \<noteq> c"
  let ?P = "\<lambda>y. y \<noteq> c"
  have "ft_write (x # xs) (word_len (x # xs) c) = takeWhile ?P (x # xs)"
    by (metis ft_write_def word_len_def takeWhile_eq_take)
  moreover have "drop (word_len (x # xs) c) (x # xs) = dropWhile ?P (x # xs)"
    by (simp only: word_len_def drop_takeWhile_length)
  ultimately show ?thesis using x by (simp only: ft_split.simps) simp
qed

lemma ft_split_sep: "ft_split (c # xs) c = ft_split xs c"
  by (subst ft_split.simps) simp

lemma ft_split_tl_dropWhile:
  "ft_split (dropWhile (\<lambda>y. y \<noteq> c) xs) c = ft_split (tl (dropWhile (\<lambda>y. y \<noteq> c) xs)) c"
proof (cases "dropWhile (\<lambda>y. y \<noteq> c) xs")
  case Nil
  show ?thesis by (simp only: Nil list.sel)
next
  case (Cons y ys)
  then have "y = c" by (metis (mono_tags) dropWhile_eq_Cons_conv)
  with Cons show ?thesis by (simp add: ft_split_sep)
qed

lemma length_ft_split: "length (ft_split s c) = word_size s c"
proof (induction s c rule: word_size.induct)
  case (2 x xs c)
  show ?case
  proof (cases "x = c")
    case True
    with 2 show ?thesis by (simp add: ft_split_sep)
  next
    case False
    with 2 show ?thesis
      by (simp add: ft_split_word ft_split_tl_dropWhile [of c xs])
  qed
qed simp

lemma ft_split_words: "w \<in> set (ft_split s c) \<Longrightarrow> w \<noteq> [] \<and> c \<notin> set w"
proof (induction s c rule: word_size.induct)
  case (2 x xs c)
  show ?case
  proof (cases "x = c")
    case True
    with 2 show ?thesis by (simp add: ft_split_sep)
  next
    case False
    with "2.prems" have "w = x # takeWhile (\<lambda>y. y \<noteq> c) xs \<or>
        w \<in> set (ft_split (tl (dropWhile (\<lambda>y. y \<noteq> c) xs)) c)"
      by (simp add: ft_split_word ft_split_tl_dropWhile [of c xs])
    then show ?thesis
      using False "2.IH"(1) by (auto dest: set_takeWhileD)
  qed
qed simp

lemma ft_split_no_nul: "NUL \<notin> set s \<Longrightarrow> w \<in> set (ft_split s c) \<Longrightarrow> NUL \<notin> set w"
proof (induction s c rule: word_size.induct)
  case (2 x xs c)
  show ?case
  proof (cases "x = c")
    case True
    with 2 show ?thesis by (simp add: ft_split_sep)
  next
    case False
    have sub: "set (tl (dropWhile (\<lambda>y. y \<noteq> c) xs)) \<subseteq> set xs"
      by (metis list.set_sel(2) set_dropWhileD subsetI list.sel(2))
    from False "2.prems"(2) have "w = x # takeWhile (\<lambda>y. y \<noteq> c) xs \<or>
        w \<in> set (ft_split (tl (dropWhile (\<lambda>y. y \<noteq> c) xs)) c)"
      by (simp add: ft_split_word ft_split_tl_dropWhile [of c xs])
    then show ?thesis
      using False "2.IH"(1) "2.prems"(1) sub by (auto dest: set_takeWhileD)
  qed
qed simp

section \<open>removeslashes, is_upper, check_request_line\<close>

fun removeslashes :: "string \<Rightarrow> string" where
  "removeslashes [] = []"
| "removeslashes (x # xs) =
     x # (if x = CHR ''/'' then removeslashes (dropWhile (\<lambda>y. y = CHR ''/'') xs)
          else removeslashes xs)"

definition is_upper :: "string \<Rightarrow> bool" where
  "is_upper line \<longleftrightarrow> list_all is_upperc line"

text \<open>The body of the loop is commented out in the source: every line passes.\<close>

definition check_request_line :: "string \<Rightarrow> bool" where
  "check_request_line line \<longleftrightarrow> True"

fun no_double_slash :: "string \<Rightarrow> bool" where
  "no_double_slash [] = True"
| "no_double_slash (x # xs) =
     ((xs = [] \<or> \<not> (x = CHR ''/'' \<and> hd xs = CHR ''/'')) \<and> no_double_slash xs)"

lemma no_double_slash_iff:
  "no_double_slash s \<longleftrightarrow> \<not> (\<exists>a b. s = a @ ''//'' @ b)"
proof (induction s)
  case (Cons x xs)
  have "(\<exists>a b. x # xs = a @ ''//'' @ b) \<longleftrightarrow>
      (x = CHR ''/'' \<and> xs \<noteq> [] \<and> hd xs = CHR ''/'') \<or> (\<exists>a b. xs = a @ ''//'' @ b)"
    by (cases xs) (auto simp: Cons_eq_append_conv intro: exI [of _ "[]"])
  with Cons show ?case by auto
qed simp

lemma hd_dropWhile_slash:
  "dropWhile (\<lambda>y. y = CHR ''/'') xs = y # ys \<Longrightarrow> y \<noteq> CHR ''/''"
  by (metis (mono_tags) dropWhile_eq_Cons_conv)

lemma removeslashes_normal: "no_double_slash (removeslashes s)"
proof (induction s rule: removeslashes.induct)
  case 1
  then show ?case by simp
next
  case (2 x xs)
  show ?case
  proof (cases "x = CHR ''/''")
    case True
    obtain d where d: "d = dropWhile (\<lambda>y. y = CHR ''/'') xs" by simp
    have "removeslashes d = [] \<or> hd (removeslashes d) \<noteq> CHR ''/''"
    proof (cases d)
      case (Cons y ys)
      with d have "dropWhile (\<lambda>y. y = CHR ''/'') xs = y # ys" by simp
      then have "y \<noteq> CHR ''/''" by (rule hd_dropWhile_slash)
      with Cons show ?thesis by simp
    qed simp
    moreover have "no_double_slash (removeslashes d)" using "2.IH"(1) [OF True] d by simp
    moreover have "removeslashes (x # xs) = x # removeslashes d" using True d by simp
    ultimately show ?thesis by simp
  next
    case False
    with 2 show ?thesis by simp
  qed
qed

lemma removeslashes_id: "no_double_slash s \<Longrightarrow> removeslashes s = s"
proof (induction s rule: removeslashes.induct)
  case (2 x xs)
  show ?case
  proof (cases "x = CHR ''/''")
    case True
    with "2.prems" have "dropWhile (\<lambda>y. y = CHR ''/'') xs = xs"
      by (cases xs) (auto simp: no_double_slash.simps)
    with 2 True show ?thesis by (simp)
  next
    case False
    with 2 show ?thesis by (simp)
  qed
qed simp

lemma ft_split_dropWhile_sep: "ft_split (dropWhile (\<lambda>y. y = c) xs) c = ft_split xs c"
  by (induction xs) (auto simp: ft_split_sep)

text \<open>Squeezing slashes does not change the components of the path.\<close>

lemma removeslashes_takeWhile:
  "takeWhile (\<lambda>y. y \<noteq> CHR ''/'') (removeslashes xs) = takeWhile (\<lambda>y. y \<noteq> CHR ''/'') xs"
  by (induction xs rule: removeslashes.induct) auto

lemma removeslashes_dropWhile:
  "dropWhile (\<lambda>y. y \<noteq> CHR ''/'') (removeslashes xs) =
   removeslashes (dropWhile (\<lambda>y. y \<noteq> CHR ''/'') xs)"
  by (induction xs rule: removeslashes.induct) auto

lemma ft_split_removeslashes: "ft_split (removeslashes s) CHR ''/'' = ft_split s CHR ''/''"
proof (induction s "CHR ''/''" rule: word_size.induct)
  case 1
  then show ?case by simp
next
  case (2 x xs)
  show ?case
  proof (cases "x = CHR ''/''")
    case True
    have "ft_split (removeslashes xs) CHR ''/'' = ft_split xs CHR ''/''"
      using 2 True by simp
    moreover have "ft_split (removeslashes (dropWhile (\<lambda>y. y = CHR ''/'') xs)) CHR ''/'' =
        ft_split (removeslashes xs) CHR ''/''"
      by (cases xs) (auto simp: ft_split_sep)
    ultimately show ?thesis using True by (simp add: ft_split_sep)
  next
    case False
    let ?d = "dropWhile (\<lambda>y. y \<noteq> CHR ''/'') xs"
    have IH: "ft_split (removeslashes (tl ?d)) CHR ''/'' = ft_split (tl ?d) CHR ''/''"
      using 2 False by blast
    have "ft_split (removeslashes ?d) CHR ''/'' = ft_split ?d CHR ''/''"
    proof (cases ?d)
      case Nil
      show ?thesis by (simp only: Nil removeslashes.simps)
    next
      case (Cons y ys)
      then have "y = CHR ''/''" by (metis (mono_tags) dropWhile_eq_Cons_conv)
      moreover have "ft_split (removeslashes (dropWhile (\<lambda>y. y = CHR ''/'') ys)) CHR ''/'' =
          ft_split (removeslashes ys) CHR ''/''"
        by (cases ys) (auto simp: ft_split_sep)
      ultimately show ?thesis using Cons IH by (simp add: ft_split_sep)
    qed
    with False show ?thesis
      by (simp add: ft_split_word removeslashes_takeWhile removeslashes_dropWhile)
  qed
qed

section \<open>The two loops of out_root_dir\<close>

text \<open>
  The first loop counts the components that climb (\<open>sorty\<close>) and those that descend
  (\<open>entry\<close>) and rejects the path as soon as more climb than descend.
\<close>

fun root_dir_count :: "string list \<Rightarrow> int \<Rightarrow> int \<Rightarrow> bool" where
  "root_dir_count [] entry sorty = True"
| "root_dir_count (w # ws) entry sorty =
     (let sorty' = (if w = ''..'' then sorty + 1 else sorty);
          entry' = (if w = ''..'' then entry else entry + 1)
      in if sorty' > entry' then False else root_dir_count ws entry' sorty')"

text \<open>
  The second loop pushes every component and, behind a \<open>..\<close>, pops twice; a
  \<open>pop_back\<close> on an empty vector is undefined.
\<close>

definition pop_back :: "'a list \<Rightarrow> 'a list res" where
  "pop_back v = (if v = [] then Inl Undefined else Inr (butlast v))"

fun root_dir_loop :: "string list \<Rightarrow> string list \<Rightarrow> string list res" where
  "root_dir_loop [] vec = Inr vec"
| "root_dir_loop (w # ws) vec =
     (let v = vec @ [w] in
      if w = ''..'' then rbind (rbind (pop_back v) pop_back) (root_dir_loop ws)
      else root_dir_loop ws v)"

text \<open>The third loop joins the components with slashes.\<close>

fun join_path :: "string list \<Rightarrow> string" where
  "join_path [] = []"
| "join_path [w] = w"
| "join_path (w # v # vs) = w @ ''/'' @ join_path (v # vs)"

text \<open>
  The path part of \<open>out_root_dir\<close>: \<open>None\<close> where the function answers 400 and returns
  false, otherwise the new value of \<open>pa\<close>.
\<close>

definition out_root_dir_path :: "string \<Rightarrow> string option res" where
  "out_root_dir_path pa =
     (let str = ft_split (c_str pa) CHR ''/'' in
      if \<not> root_dir_count str 0 0 then Inr None
      else rbind (root_dir_loop str []) (\<lambda>vec. Inr (Some (''/'' @ join_path vec))))"

section \<open>The specification: walking a tree from its root\<close>

fun walk :: "string list \<Rightarrow> string list \<Rightarrow> string list option" where
  "walk [] pos = Some pos"
| "walk (w # ws) pos =
     (if w = ''..'' then (if pos = [] then None else walk ws (butlast pos))
      else walk ws (pos @ [w]))"

lemma root_dir_count_walk:
  "entry - sorty = int (length pos) \<Longrightarrow>
     root_dir_count ws entry sorty \<longleftrightarrow> walk ws pos \<noteq> None"
proof (induction ws arbitrary: entry sorty pos)
  case (Cons w ws)
  show ?case
  proof (cases "w = ''..''")
    case True
    show ?thesis
    proof (cases "pos = []")
      case True
      with \<open>w = ''..''\<close> Cons.prems show ?thesis by simp
    next
      case False
      with Cons.prems have "entry - (sorty + 1) = int (length (butlast pos))"
        by (cases pos) auto
      from Cons.IH [OF this] True False Cons.prems show ?thesis by (cases pos) auto
    qed
  next
    case False
    from Cons.prems have "(entry + 1) - sorty = int (length (pos @ [w]))" by simp
    from Cons.IH [OF this] False Cons.prems show ?thesis by simp
  qed
qed simp

lemma root_dir_loop_walk: "walk ws pos = Some v \<Longrightarrow> root_dir_loop ws pos = Inr v"
  by (induction ws arbitrary: pos) (auto simp: pop_back_def Let_def split: if_splits)

lemma walk_components:
  "walk ws pos = Some v \<Longrightarrow> set v \<subseteq> set pos \<union> {w \<in> set ws. w \<noteq> ''..''}"
proof (induction ws arbitrary: pos)
  case (Cons w ws)
  then show ?case
    using in_set_butlastD [of _ pos] by (fastforce split: if_splits)
qed simp

text \<open>The implementation refines the walk: it accepts exactly the paths that stay inside.\<close>

lemma out_root_dir_path_walk:
  "out_root_dir_path pa =
     Inr (map_option (\<lambda>v. ''/'' @ join_path v) (walk (ft_split (c_str pa) CHR ''/'') []))"
proof (cases "walk (ft_split (c_str pa) CHR ''/'') []")
  case None
  with root_dir_count_walk [of 0 0 "[]"] show ?thesis by (simp add: out_root_dir_path_def)
next
  case (Some v)
  with root_dir_count_walk [of 0 0 "[]"] root_dir_loop_walk [OF Some]
  show ?thesis by (simp add: out_root_dir_path_def)
qed

text \<open>A component that names an entry below the directory it is looked up in.\<close>

definition plain_component :: "string \<Rightarrow> bool" where
  "plain_component w \<longleftrightarrow> w \<noteq> [] \<and> w \<noteq> ''..'' \<and> CHR ''/'' \<notin> set w"

definition inside :: "string \<Rightarrow> string \<Rightarrow> bool" where
  "inside root p \<longleftrightarrow> (\<exists>v. p = root @ ''/'' @ join_path v \<and> (\<forall>w \<in> set v. plain_component w))"

lemma out_root_dir_path_inside:
  assumes "out_root_dir_path pa = Inr (Some p)"
  shows "\<exists>v. p = ''/'' @ join_path v \<and> (\<forall>w \<in> set v. plain_component w)"
proof -
  from assms obtain v where v: "walk (ft_split (c_str pa) CHR ''/'') [] = Some v"
    and p: "p = ''/'' @ join_path v"
    by (auto simp: out_root_dir_path_walk)
  from walk_components [OF v] have "\<forall>w \<in> set v. plain_component w"
    by (auto simp: plain_component_def dest: ft_split_words)
  with p show ?thesis by blast
qed

lemma ft_split_join:
  "\<forall>w \<in> set v. w \<noteq> [] \<and> c \<notin> set w \<Longrightarrow> c = CHR ''/'' \<Longrightarrow> ft_split (join_path v) c = v"
proof (induction v rule: join_path.induct)
  case (2 w)
  then obtain x xs where w: "w = x # xs" by (cases w) auto
  from 2 w have c: "x \<noteq> c" "\<forall>y \<in> set xs. y \<noteq> c" by auto
  from c(2) have tw: "takeWhile (\<lambda>y. y \<noteq> c) xs = xs" by (simp only: takeWhile_eq_all_conv)
  from c(2) have dw: "dropWhile (\<lambda>y. y \<noteq> c) xs = []" by (simp only: dropWhile_eq_Nil_conv)
  show ?case by (simp only: w join_path.simps ft_split_word [OF c(1)] tw dw ft_split.simps(1))
next
  case (3 w v vs)
  then obtain x xs where w: "w = x # xs" by (cases w) auto
  let ?r = "''/'' @ join_path (v # vs)"
  have "takeWhile (\<lambda>y. y \<noteq> c) (xs @ ?r) = xs" "dropWhile (\<lambda>y. y \<noteq> c) (xs @ ?r) = ?r"
    using 3 w by (auto simp: takeWhile_append dropWhile_append)
  with 3 w show ?case by (auto simp: ft_split_word ft_split_sep)
qed simp

section \<open>Properties of the normalisation\<close>

text \<open>
  C7: the two passes of \<open>out_root_dir\<close>, counting and rebuilding, compute the walk from the
  root along the components of the path: a path is refused exactly when the walk would leave
  the root, and the vector never underflows.
\<close>

theorem root_dir_refines_walk:
  "out_root_dir_path pa =
     Inr (map_option (\<lambda>v. ''/'' @ join_path v) (walk (ft_split (c_str pa) CHR ''/'') []))"
  by (rule out_root_dir_path_walk)

lemma walk_plain: "\<forall>w \<in> set ws. w \<noteq> ''..'' \<Longrightarrow> walk ws pos = Some (pos @ ws)"
  by (induction ws arbitrary: pos) auto

lemma set_join_path: "set (join_path v) \<subseteq> insert CHR ''/'' (\<Union> (set ` set v))"
  by (induction v rule: join_path.induct) auto

lemma set_ft_split: "w \<in> set (ft_split s c) \<Longrightarrow> set w \<subseteq> set s"
proof (induction s c rule: word_size.induct)
  case (2 x xs c)
  have "set (tl (dropWhile (\<lambda>y. y \<noteq> c) xs)) \<subseteq> set xs"
    by (induction xs) auto
  with 2 ft_split_tl_dropWhile [of c xs] show ?case
    by (cases "x = c") (auto simp: ft_split_sep ft_split_word dest: set_takeWhileD)
qed simp

text \<open>A normalised path is its own normal form.\<close>

theorem normal_path_fixed:
  assumes "out_root_dir_path pa = Inr (Some pb)"
  shows "out_root_dir_path pb = Inr (Some pb)"
proof -
  from assms obtain v where v: "walk (ft_split (c_str pa) CHR ''/'') [] = Some v"
    and p: "pb = ''/'' @ join_path v" by (auto simp: out_root_dir_path_walk)
  have sub: "set v \<subseteq> {w \<in> set (ft_split (c_str pa) CHR ''/''). w \<noteq> ''..''}"
    using walk_components [OF v] by simp
  then have "\<Union> (set ` set v) \<subseteq> set (c_str pa)" using set_ft_split by fastforce
  then have "NUL \<notin> \<Union> (set ` set v)" by (auto simp: c_str_def dest: set_takeWhileD)
  then have "no_nul pb" using set_join_path [of v] by (auto simp: p no_nul_def)
  moreover have "ft_split (join_path v) CHR ''/'' = v"
    using sub by (intro ft_split_join) (auto dest: ft_split_words)
  moreover have "walk v [] = Some v" using sub walk_plain [of v "[]"] by auto
  ultimately show ?thesis by (simp add: out_root_dir_path_walk p ft_split_sep)
qed

theorem normal_path_fixed_witness: "out_root_dir_path ''/b/c'' = Inr (Some ''/b/c'')"
  by (rule normal_path_fixed [where pa = "''/a/..//b/c/''"]) code_simp

end
