(* ===== verification/Request_parser.thy ===== *)
theory Request_parser
  imports Error_response Paths
begin

text \<open>
  The request parser: \<open>trim\<close> and \<open>trim_non_printable\<close>, \<open>fill_headers_map\<close>,
  \<open>out_root_dir\<close> and \<open>check_if_have_redirection\<close> (\<open>request/request.cpp\<close>,
  \<open>request/tools.cpp\<close>, \<open>request/post_request.cpp\<close>), and \<open>parse_request\<close>
  (\<open>request/request_implementation.cpp\<close>), with every early return.
\<close>

section \<open>Trimming\<close>

text \<open>Both loops move an index from each end while the class holds.\<close>

definition trim_class :: "(char \<Rightarrow> bool) \<Rightarrow> string \<Rightarrow> string" where
  "trim_class P s = rev (dropWhile P (rev (dropWhile P s)))"

definition trim :: "string \<Rightarrow> string" where
  "trim s = trim_class is_space s"

definition trim_non_printable :: "string \<Rightarrow> string" where
  "trim_non_printable s = trim_class (\<lambda>c. \<not> is_print c) s"

lemma trim_class_ends:
  assumes "trim_class P s \<noteq> []"
  shows "\<not> P (hd (trim_class P s)) \<and> \<not> P (last (trim_class P s))"
proof -
  define t where "t = dropWhile P s"
  define u where "u = dropWhile P (rev t)"
  have e: "trim_class P s = rev u" by (simp add: trim_class_def t_def u_def)
  with assms have ne: "u \<noteq> []" by simp
  then have l: "\<not> P (hd u)" unfolding u_def by (rule hd_dropWhile)
  have "suffix u (rev t)" unfolding u_def by (rule suffix_dropWhile)
  then obtain v where "rev t = v @ u" by (auto simp: suffix_def)
  then have t: "t = rev u @ rev v" by (metis rev_append rev_rev_ident)
  with ne have tn: "t \<noteq> []" and h: "hd t = hd (rev u)" by simp_all
  from tn have "\<not> P (hd t)" unfolding t_def by (rule hd_dropWhile)
  with h l ne e show ?thesis by (simp add: last_rev)
qed

lemma trim_class_sublist: "\<exists>a b. s = a @ trim_class P s @ b \<and> (\<forall>x \<in> set a \<union> set b. P x)"
proof -
  let ?t = "dropWhile P s"
  have "s = takeWhile P s @ ?t" by simp
  moreover have "?t = trim_class P s @ rev (takeWhile P (rev ?t))"
    unfolding trim_class_def by (metis rev_append rev_rev_ident takeWhile_dropWhile_id)
  moreover have "\<forall>x \<in> set (takeWhile P s) \<union> set (rev (takeWhile P (rev ?t))). P x"
    by (auto dest: set_takeWhileD)
  ultimately show ?thesis by (metis append_assoc)
qed

lemma set_trim_class: "set (trim_class P s) \<subseteq> set s"
  unfolding trim_class_def by (metis set_dropWhileD set_rev subsetI)

section \<open>Headers\<close>

text \<open>
  One line of \<open>fill_headers_map\<close>: the key and the value.  Without a colon the whole line
  is the key, and \<open>value\<close> keeps what the line before it left there.
\<close>

definition header_split :: "string \<Rightarrow> string \<Rightarrow> string \<times> string" where
  "header_split line val =
     (case str_find '':'' line of
        Some pos \<Rightarrow> (take pos line, drop (pos + 1) line)
      | None \<Rightarrow> (line, val))"

definition clear_headers :: "Client \<Rightarrow> Client" where
  "clear_headers c = set_headers [] c"

text \<open>A header that is accepted: \<open>Connection: close\<close> is noticed, the entry stored.\<close>

definition add_header :: "string \<Rightarrow> string \<Rightarrow> Client \<Rightarrow> Client" where
  "add_header key val c =
     (let c1 = (if key = ''Connection'' \<and> val = ''close'' then c\<lparr>cl_keep_alive := False\<rparr> else c)
      in set_headers (map_put key val (rq_headers_map (cl_request c1))) c1)"

fun fill_headers_loop :: "'w os \<Rightarrow> 'w \<Rightarrow> string list \<Rightarrow> string \<Rightarrow> Client \<Rightarrow> bool \<times> Client" where
  "fill_headers_loop os w [] val c =
     (if rq_headers_map (cl_request c) = []
      then (False, clear_headers (set_response_error os w 400 c)) else (True, c))"
| "fill_headers_loop os w (line # ls) val c =
     (if line = [] then fill_headers_loop os w ls val c
      else let (key, v) = header_split line val in
        if key = [] then (False, clear_headers (set_response_error os w 400 c))
        else if hd key = SP then (False, clear_headers (set_response_error os w 400 c))
        else let v' = trim (trim_non_printable v)
             in fill_headers_loop os w ls v' (add_header key v' c))"

definition fill_headers_map :: "'w os \<Rightarrow> 'w \<Rightarrow> string \<Rightarrow> Client \<Rightarrow> bool \<times> Client" where
  "fill_headers_map os w rest c = fill_headers_loop os w (getlines LF rest) [] c"

section \<open>out_root_dir and check_if_have_redirection\<close>

definition out_root_dir :: "'w os \<Rightarrow> 'w \<Rightarrow> string \<Rightarrow> Client \<Rightarrow> (bool \<times> string \<times> Client) res" where
  "out_root_dir os w pa c =
     rbind (out_root_dir_path pa) (\<lambda>r. case r of
         None \<Rightarrow> Inr (False, pa, set_response_error os w 400 c)
       | Some pa' \<Rightarrow> Inr (True, pa', c))"

fun redirection_loop :: "'w os \<Rightarrow> 'w \<Rightarrow> (int, string) std_map \<Rightarrow> Client \<Rightarrow> Client" where
  "redirection_loop os w [] c = c"
| "redirection_loop os w ((code, url) # m) c =
     redirection_loop os w m
       (set_response_error os w code
         (c\<lparr>cl_request := (cl_request c)\<lparr>rq_redirection := code, rq_Location := url\<rparr>\<rparr>))"

definition check_if_have_redirection :: "'w os \<Rightarrow> 'w \<Rightarrow> Client \<Rightarrow> Client res" where
  "check_if_have_redirection os w c =
     (if is_location_url (cl_server c) \<noteq> -1
      then rbind (current_route (cl_server c))
             (\<lambda>r. Inr (redirection_loop os w (rb_redirections r) c))
      else Inr c)"

section \<open>parse_request\<close>

text \<open>Conversion of a 64-bit \<open>size_t\<close> to \<open>int\<close>: the low 32 bits in two's complement.\<close>

definition to_int32 :: "nat \<Rightarrow> int" where
  "to_int32 n = (let m = int (n mod 2 ^ 32) in if m < 2 ^ 31 then m else m - 2 ^ 32)"

definition size_sub :: "nat \<Rightarrow> nat \<Rightarrow> nat" where
  "size_sub a b = (a + 2 ^ 64 - b) mod 2 ^ 64"

text \<open>Where the body starts, \<open>None\<close> where the request is rejected as too short.\<close>

definition body_start :: "string \<Rightarrow> nat option" where
  "body_start requestData =
     (case str_find (crlf @ crlf) requestData of
        Some p \<Rightarrow> Some p
      | None \<Rightarrow> (let bodyStart = size_sub (length requestData) 4
                 in if to_int32 bodyStart < 0 then None else Some bodyStart))"

text \<open>The four extractions \<open>Line >> method >> path >> version >> error\<close>.\<close>

definition word_at :: "string list \<Rightarrow> nat \<Rightarrow> string" where
  "word_at ws i = (if i < length ws then ws ! i else [])"

text \<open>
  The checks of the request line behind the four words, in the source's order; \<open>Some\<close> is
  the status the request is rejected with.
\<close>

definition request_line_status :: "string \<Rightarrow> string \<Rightarrow> string \<Rightarrow> int option" where
  "request_line_status method path version =
     (if method \<noteq> ''GET'' \<and> method \<noteq> ''POST'' \<and> method \<noteq> ''DELETE'' then
        (if \<not> is_upper method then Some 400 else Some 405)
      else if version \<noteq> ''HTTP/1.1'' then
        (if strncmp (c_str version) ''HTTP/'' 5 > 0 then Some 400 else Some 505)
      else if c_at path 0 \<noteq> CHR ''/'' then Some 400
      else None)"

text \<open>The last part: the body's length for POST, then a configured redirection.\<close>

definition parse_body_length :: "'w os \<Rightarrow> 'w \<Rightarrow> string \<Rightarrow> string \<Rightarrow> Client \<Rightarrow> Client res" where
  "parse_body_length os w method tmp c =
     (if method = ''POST'' then
        (let (size, failed) = read_uint64 tmp;
             c1 = c\<lparr>cl_request := (cl_request c)\<lparr>rq_content_length := size\<rparr>\<rparr>
         in if failed \<or> size = Some 0 then Inr (set_response_error os w 400 c1)
            else if the size > sb_client_body_size (cl_server c1)
              then Inr (set_response_error os w 413 c1)
            else check_if_have_redirection os w c1)
      else check_if_have_redirection os w c)"

text \<open>The path of the file: the location's root, or the server's.\<close>

definition target_path :: "ServerBlock \<Rightarrow> string \<Rightarrow> string \<Rightarrow> string" where
  "target_path s located tmp1 =
     (if c_at tmp1 0 = CHR ''/'' \<and> located = [] then
        (if length tmp1 = 1 then sb_server_root s
         else sb_server_root s @ ''/'' @ c_str (tl tmp1))
      else located)"

definition parse_target :: "'w os \<Rightarrow> 'w \<Rightarrow> string \<Rightarrow> string \<Rightarrow> string \<Rightarrow> Client \<Rightarrow> Client res" where
  "parse_target os w method rest pa0 c0 =
     rbind (out_root_dir os w (removeslashes pa0) c0) (\<lambda>(ok, pa, c1).
       if \<not> ok then Inr (set_response_index True (set_response (rs_response (cl_response c1)) c1))
       else
         let (ok2, c2) = fill_headers_map os w rest (set_path pa c1) in
         if \<not> ok2 then Inr (set_response_index True c2)
         else
           let tmp = get_map_values ''Content-Length'' (cl_request c2) in
           rbind (is_location_path (cl_server c2) pa) (\<lambda>(located, s).
             let c3 = c2\<lparr>cl_server := s\<rparr>;
                 pa' = target_path s located pa;
                 c4 = (if pa' \<noteq> [] then set_path pa' c3 else c3)
             in if \<not> is_valid_method s pa' method then Inr (set_response_error os w 405 c4)
                else parse_body_length os w method tmp c4))"

definition parse_request :: "'w os \<Rightarrow> 'w \<Rightarrow> Client \<Rightarrow> Client res" where
  "parse_request os w c =
     (let c0 = c\<lparr>cl_request := (cl_request c)\<lparr>rq_index := True\<rparr>, cl_keep_alive := False\<rparr>;
          requestData = rq_s_request (cl_request c0)
      in case body_start requestData of
           None \<Rightarrow> Inr (set_response_error os w 400 c0)
         | Some bodyStart \<Rightarrow>
             rbind (substr_from requestData ((bodyStart + 4) mod 2 ^ 64)) (\<lambda>new_request.
             let c1 = set_s_request new_request c0;
                 head = take ((bodyStart + 4) mod 2 ^ 64) requestData;
                 line = takeWhile (\<lambda>x. x \<noteq> LF) head;
                 rest = tl (dropWhile (\<lambda>x. x \<noteq> LF) head);
                 ws = words_of line;
                 method = word_at ws 0; path = word_at ws 1; version = word_at ws 2;
                 error = word_at ws 3
             in if \<not> check_request_line line then Inr (set_response_error os w 400 c1)
                else if error \<noteq> [] \<or> method = [] \<or> path = [] \<or> version = []
                  then Inr (set_response_error os w 400 c1)
                else
                  let c2 = c1\<lparr>cl_request := (cl_request c1)\<lparr>rq_method := method, rq_path := path,
                               rq_version := version\<rparr>\<rparr>
                  in case request_line_status method path version of
                       Some st \<Rightarrow> Inr (set_response_error os w st c2)
                     | None \<Rightarrow> parse_target os w method rest path c2))"

section \<open>What the parser guarantees\<close>

lemma fill_headers_steps:
  "fill_headers_loop os w ([] # ls) val c = fill_headers_loop os w ls val c"
  "line \<noteq> [] \<Longrightarrow> header_split line val = (key, v) \<Longrightarrow> key = [] \<or> hd key = SP \<Longrightarrow>
     fill_headers_loop os w (line # ls) val c =
     (False, clear_headers (set_response_error os w 400 c))"
  "line \<noteq> [] \<Longrightarrow> header_split line val = (key, v) \<Longrightarrow> key \<noteq> [] \<Longrightarrow> hd key \<noteq> SP \<Longrightarrow>
     fill_headers_loop os w (line # ls) val c =
     fill_headers_loop os w ls (trim (trim_non_printable v))
       (add_header key (trim (trim_non_printable v)) c)"
  by (auto simp: Let_def)

declare fill_headers_loop.simps(2) [simp del]

text \<open>An induction over the lines with one case for each thing that can happen to a line.\<close>

lemma fill_headers_induct [case_names none skip bad add]:
  assumes "\<And>val c. P [] val c"
    and "\<And>ls val c. P ls val c \<Longrightarrow> P ([] # ls) val c"
    and "\<And>line ls val c key v. line \<noteq> [] \<Longrightarrow> header_split line val = (key, v) \<Longrightarrow>
           key = [] \<or> hd key = SP \<Longrightarrow> P (line # ls) val c"
    and "\<And>line ls val c key v. line \<noteq> [] \<Longrightarrow> header_split line val = (key, v) \<Longrightarrow>
           key \<noteq> [] \<Longrightarrow> hd key \<noteq> SP \<Longrightarrow>
           P ls (trim (trim_non_printable v)) (add_header key (trim (trim_non_printable v)) c) \<Longrightarrow>
           P (line # ls) val c"
  shows "P ls val c"
proof (induction ls arbitrary: val c)
  case Nil
  show ?case by (rule assms(1))
next
  case (Cons line ls)
  obtain key v where kv: "header_split line val = (key, v)" by (cases "header_split line val")
  consider "line = []" | "line \<noteq> []" "key = [] \<or> hd key = SP"
    | "line \<noteq> []" "key \<noteq> []" "hd key \<noteq> SP" by blast
  then show ?case
  proof cases
    case 1
    with assms(2) Cons show ?thesis by simp
  next
    case 2
    with kv show ?thesis by (intro assms(3))
  next
    case 3
    with kv Cons show ?thesis by (intro assms(4))
  qed
qed

definition headers_frame :: "Client \<Rightarrow> Client \<Rightarrow> bool" where
  "headers_frame c c' \<longleftrightarrow> cl_server c' = cl_server c \<and> cl_client_id c' = cl_client_id c \<and>
     cl_form_data c' = cl_form_data c \<and>
     rq_path (cl_request c') = rq_path (cl_request c) \<and>
     rq_method (cl_request c') = rq_method (cl_request c) \<and>
     rq_redirection (cl_request c') = rq_redirection (cl_request c) \<and>
     (\<not> cl_keep_alive c \<longrightarrow> \<not> cl_keep_alive c')"

lemma headers_frame_trans:
  "headers_frame a b \<Longrightarrow> headers_frame b c \<Longrightarrow> headers_frame a c"
  by (auto simp: headers_frame_def)

lemma add_header_frame: "headers_frame c (add_header k v c)"
  by (simp add: headers_frame_def add_header_def client_simps Let_def)

lemma add_header_response [simp]:
  "cl_response (add_header k v c) = cl_response c"
  "cl_all_recv (add_header k v c) = cl_all_recv c"
  "rq_headers_map (cl_request (add_header k v c)) = map_put k v (rq_headers_map (cl_request c))"
  by (simp_all add: add_header_def client_simps Let_def)

lemma bad_header_frame: "headers_frame c (clear_headers (set_response_error os w 400 c))"
  by (simp add: headers_frame_def clear_headers_def client_simps)

lemma fill_headers_loop_frame: "headers_frame c (snd (fill_headers_loop os w ls val c))"
proof (induction ls val c rule: fill_headers_induct)
  case (none val c)
  then show ?case by (simp add: bad_header_frame) (simp add: headers_frame_def)
next
  case (add line ls val c key v)
  then show ?case
    using headers_frame_trans [OF add_header_frame] by (simp add: fill_headers_steps)
qed (simp_all add: fill_headers_steps bad_header_frame)

lemma fill_headers_loop_ok:
  "fill_headers_loop os w ls val c = (True, c') \<Longrightarrow>
     cl_response c' = cl_response c \<and> cl_all_recv c' = cl_all_recv c \<and>
     rq_headers_map (cl_request c') \<noteq> []"
  by (induction ls val c rule: fill_headers_induct)
     (auto simp: fill_headers_steps split: if_splits)

lemma fill_headers_loop_bad:
  "fill_headers_loop os w ls val c = (False, c') \<Longrightarrow>
     rs_Ready_to_send (cl_response c') \<and> rs_response_status (cl_response c') = Some 400 \<and>
     cl_all_recv c' \<and> rq_headers_map (cl_request c') = []"
  by (induction ls val c rule: fill_headers_induct)
     (auto simp: fill_headers_steps clear_headers_def client_simps split: if_splits)

lemma redirection_loop_frame:
  "cl_server (redirection_loop os w m c) = cl_server c \<and>
   rq_path (cl_request (redirection_loop os w m c)) = rq_path (cl_request c) \<and>
   rq_method (cl_request (redirection_loop os w m c)) = rq_method (cl_request c) \<and>
   rq_content_length (cl_request (redirection_loop os w m c)) = rq_content_length (cl_request c) \<and>
   cl_keep_alive (redirection_loop os w m c) = cl_keep_alive c \<and>
   cl_client_id (redirection_loop os w m c) = cl_client_id c"
  by (induction os w m c rule: redirection_loop.induct) auto

lemma redirection_loop_ready:
  "rs_Ready_to_send (cl_response c) \<or> m \<noteq> [] \<longleftrightarrow>
     rs_Ready_to_send (cl_response (redirection_loop os w m c))"
  by (induction os w m c rule: redirection_loop.induct) auto

section \<open>No undefined behaviour, no exception\<close>

lemma substr_from_ok: "pos \<le> length s \<Longrightarrow> substr_from s pos = Inr (drop pos s)"
  by (simp add: substr_from_def)

lemma size_sub_4_short: "n < 4 \<Longrightarrow> to_int32 (size_sub n 4) < 0"
proof -
  assume "n < 4"
  then consider "n = 0" | "n = 1" | "n = 2" | "n = 3" by linarith
  then show ?thesis by cases (simp_all add: size_sub_def to_int32_def)
qed

lemma size_sub_4: "4 \<le> n \<Longrightarrow> n < 2 ^ 64 \<Longrightarrow> size_sub n 4 = n - 4"
proof -
  assume n: "4 \<le> n" "n < 2 ^ 64"
  then obtain k where "n = 4 + k" using le_Suc_ex by blast
  with n show ?thesis by (simp add: size_sub_def)
qed

lemma body_start_bound:
  assumes "body_start r = Some b" "length r < 2 ^ 64"
  shows "b + 4 \<le> length r"
proof (cases "str_find (crlf @ crlf) r")
  case None
  with assms(1) have b: "b = size_sub (length r) 4" "\<not> to_int32 (size_sub (length r) 4) < 0"
    by (auto simp: body_start_def Let_def split: if_splits)
  with size_sub_4_short [of "length r"] have "4 \<le> length r" by linarith
  with size_sub_4 [OF this assms(2)] b show ?thesis by simp
next
  case (Some p)
  with assms(1) str_find_bound [OF Some] show ?thesis by (auto simp: body_start_def crlf_def)
qed

lemma check_if_have_redirection_total:
  "location_ok (cl_server c) \<Longrightarrow> \<exists>c'. check_if_have_redirection os w c = Inr c'"
  by (auto simp: check_if_have_redirection_def current_route_ok)

lemma parse_body_length_total:
  "location_ok (cl_server c) \<Longrightarrow> \<exists>c'. parse_body_length os w m tmp c = Inr c'"
  by (auto simp: parse_body_length_def Let_def check_if_have_redirection_total split: prod.split)

lemma is_location_path_ok:
  assumes "is_location_path s path = Inr (p, s')" "location_ok s"
  shows "location_ok s' \<and> sb_routes s' = sb_routes s \<and> sb_server_root s' = sb_server_root s \<and>
         sb_client_body_size s' = sb_client_body_size s"
  using is_location_path_shape [OF assms(1)] assms(2) by (auto simp: location_ok_def)

lemma rbind_Inr_E: "rbind m f = Inl e \<longleftrightarrow> m = Inl e \<or> (\<exists>x. m = Inr x \<and> f x = Inl e)"
  by (cases m) auto

lemma out_root_dir_cases:
  "(\<exists>c1. out_root_dir os w pa c = Inr (False, pa, c1) \<and> c1 = set_response_error os w 400 c) \<or>
   (\<exists>v. out_root_dir os w pa c = Inr (True, ''/'' @ join_path v, c) \<and>
        (\<forall>x \<in> set v. plain_component x) \<and> (NUL \<notin> set (join_path v)))"
proof (cases "walk (ft_split (c_str pa) CHR ''/'') []")
  case None
  then show ?thesis by (simp add: out_root_dir_def out_root_dir_path_walk)
next
  case (Some v)
  have nn: "NUL \<notin> set (c_str pa)" by (auto simp: c_str_def dest: set_takeWhileD)
  have "\<forall>x \<in> set v. plain_component x \<and> NUL \<notin> set x"
    using walk_components [OF Some] ft_split_words [of _ "c_str pa"] ft_split_no_nul [OF nn]
    by (fastforce simp: plain_component_def)
  moreover have "(\<forall>x \<in> set v. NUL \<notin> set x) \<Longrightarrow> NUL \<notin> set (join_path v)"
    by (induction v rule: join_path.induct) auto
  ultimately show ?thesis using Some by (auto simp: out_root_dir_def out_root_dir_path_walk)
qed

lemma parse_target_total:
  assumes "location_ok (cl_server c)"
  shows "\<exists>c'. parse_target os w m rest pa c = Inr c'"
proof -
  from out_root_dir_cases [of os w "removeslashes pa" c] show ?thesis
  proof (elim disjE exE conjE)
    fix c1 assume "out_root_dir os w (removeslashes pa) c = Inr (False, removeslashes pa, c1)"
    then show ?thesis by (simp add: parse_target_def)
  next
    fix v
    let ?pa = "''/'' @ join_path v"
    assume o: "out_root_dir os w (removeslashes pa) c = Inr (True, ?pa, c)"
    obtain ok2 c2 where f: "fill_headers_map os w rest (set_path ?pa c) = (ok2, c2)"
      by (cases "fill_headers_map os w rest (set_path ?pa c)")
    have s2: "cl_server c2 = cl_server c"
      using fill_headers_loop_frame [of "set_path ?pa c" os w "getlines LF rest" "[]"] f
      by (simp add: fill_headers_map_def headers_frame_def client_simps)
    obtain located s where l: "is_location_path (cl_server c2) ?pa = Inr (located, s)"
      using is_location_path_total [of ?pa "cl_server c2"] by auto
    from is_location_path_ok [OF l] s2 assms have "location_ok s" by simp
    then show ?thesis
      using o f l
      by (auto simp: parse_target_def Let_def client_simps intro!: parse_body_length_total)
  qed
qed

theorem parse_request_total:
  assumes "length (rq_s_request (cl_request c)) < 2 ^ 64"
    and "location_ok (cl_server c)"
  shows "\<exists>c'. parse_request os w c = Inr c'"
proof (cases "body_start (rq_s_request (cl_request c))")
  case None
  then show ?thesis by (simp add: parse_request_def)
next
  case (Some b)
  from body_start_bound [OF Some assms(1)] assms(1)
  have "(b + 4) mod 2 ^ 64 \<le> length (rq_s_request (cl_request c))" by simp
  with Some assms(2) show ?thesis
    by (simp add: parse_request_def Let_def substr_from_ok parse_target_total client_simps
        split: option.split)
qed

section \<open>What a request that is not answered yet satisfies\<close>

definition pending :: "Client \<Rightarrow> bool" where
  "pending c \<longleftrightarrow> \<not> rs_Ready_to_send (cl_response c)"

lemma pending_set_error [simp]: "\<not> pending (set_response_error os w st c)"
  by (simp add: pending_def)

lemma redirection_pending:
  "check_if_have_redirection os w c = Inr c' \<Longrightarrow> pending c' \<Longrightarrow> c' = c"
proof -
  assume c: "check_if_have_redirection os w c = Inr c'" and p: "pending c'"
  show "c' = c"
  proof (cases "is_location_url (cl_server c) = -1")
    case True
    with c show ?thesis by (simp add: check_if_have_redirection_def)
  next
    case False
    then obtain r where "current_route (cl_server c) = Inr r"
      using c by (cases "current_route (cl_server c)") (simp_all add: check_if_have_redirection_def)
    with False c have "c' = redirection_loop os w (rb_redirections r) c"
      by (simp add: check_if_have_redirection_def)
    moreover from this p redirection_loop_ready [of c "rb_redirections r" os w]
    have "rb_redirections r = []" by (auto simp: pending_def)
    ultimately show ?thesis by simp
  qed
qed

definition length_accepted :: "string \<Rightarrow> Client \<Rightarrow> bool" where
  "length_accepted method c \<longleftrightarrow>
     (method = ''POST'' \<longrightarrow> (\<exists>n. rq_content_length (cl_request c) = Some n \<and> 0 < n \<and>
        n \<le> sb_client_body_size (cl_server c)))"

lemma read_uint64_ok: "read_uint64 s = (v, False) \<Longrightarrow> \<exists>n. v = Some n"
  by (auto simp: read_uint64_def Let_def split: if_splits prod.splits)

lemma parse_body_length_pending:
  assumes "parse_body_length os w m tmp c = Inr c'" "pending c'"
  shows "length_accepted m c' \<and> rq_path (cl_request c') = rq_path (cl_request c) \<and>
         rq_method (cl_request c') = rq_method (cl_request c) \<and> cl_server c' = cl_server c"
proof (cases "m = ''POST''")
  case True
  obtain sz fl where r: "read_uint64 tmp = (sz, fl)" by (cases "read_uint64 tmp")
  let ?c1 = "c\<lparr>cl_request := (cl_request c)\<lparr>rq_content_length := sz\<rparr>\<rparr>"
  from assms True r have nf: "\<not> fl" "sz \<noteq> Some 0"
    "\<not> sb_client_body_size (cl_server c) < the sz"
    and "check_if_have_redirection os w ?c1 = Inr c'"
    by (auto simp: parse_body_length_def Let_def split: if_splits)
  with assms(2) have "c' = ?c1" by (intro redirection_pending)
  moreover from nf r read_uint64_ok [of tmp sz] obtain n where "sz = Some n" by auto
  ultimately show ?thesis using nf by (auto simp: length_accepted_def)
next
  case False
  with assms have "c' = c" by (auto simp: parse_body_length_def intro: redirection_pending)
  with False show ?thesis by (simp add: length_accepted_def)
qed

text \<open>The roots a request may be served from.\<close>

definition served_roots :: "ServerBlock \<Rightarrow> string set" where
  "served_roots s = insert (sb_server_root s) (rb_root ` set (sb_routes s))"

definition contained :: "ServerBlock \<Rightarrow> string \<Rightarrow> bool" where
  "contained s p \<longleftrightarrow> (\<exists>root \<in> served_roots s. p = root \<or> inside root p)"

lemma target_path_contained:
  assumes l: "is_location_path s (''/'' @ join_path v) = Inr (located, s')"
    and v: "\<forall>x \<in> set v. plain_component x" "NUL \<notin> set (join_path v)"
  shows "contained s (target_path s' located (''/'' @ join_path v)) \<and>
         target_path s' located (''/'' @ join_path v) \<noteq> [] \<or>
         sb_server_root s = [] \<and> join_path v = []"
proof -
  have cs: "c_str (join_path v) = join_path v" using v(2) by (simp add: no_nul_def)
  have ne: "join_path v \<noteq> [] \<Longrightarrow> length (''/'' @ join_path v) \<noteq> 1" by simp
  from is_location_path_shape [OF l] show ?thesis
  proof (elim disjE exE conjE)
    assume "located = []" "s' = s"
    then show ?thesis
      using v(1) cs by (cases "join_path v = []")
        (auto simp: target_path_def c_at_def contained_def served_roots_def inside_def)
  next
    fix i r rest
    assume r: "''/'' @ join_path v = hd (''/'' @ join_path v) # rest" "i < length (sb_routes s)"
      "r = sb_routes s ! i" "located = rb_root r @ CHR ''/'' # rest"
    then have "located = rb_root r @ ''/'' @ join_path v" by simp
    moreover from r have "rb_root r \<in> served_roots s" by (simp add: served_roots_def)
    ultimately show ?thesis
      using v(1) by (auto simp: target_path_def contained_def inside_def)
  qed
qed


lemma fill_headers_map_frame:
  assumes "fill_headers_map os w rest c = (ok, c')"
  shows "headers_frame c c'" and "\<not> ok \<Longrightarrow> \<not> pending c'"
  using fill_headers_loop_frame [of c os w "getlines LF rest" "[]"] assms
    fill_headers_loop_bad [of os w "getlines LF rest" "[]" c c']
  by (auto simp: fill_headers_map_def pending_def)

lemma parse_target_pending:
  assumes res: "parse_target os w m rest pa c = Inr c'" and p: "pending c'"
    and root: "sb_server_root (cl_server c) \<noteq> []"
  shows "contained (cl_server c) (rq_path (cl_request c')) \<and> length_accepted m c' \<and>
         is_valid_method (cl_server c') (rq_path (cl_request c')) m \<and>
         rq_method (cl_request c') = rq_method (cl_request c)"
  using out_root_dir_cases [of os w "removeslashes pa" c]
proof (elim disjE exE conjE)
  fix c1
  assume "out_root_dir os w (removeslashes pa) c = Inr (False, removeslashes pa, c1)"
    and c1: "c1 = set_response_error os w 400 c"
  with res have "c' = set_response_index True (set_response (rs_response (cl_response c1)) c1)"
    by (simp add: parse_target_def)
  then have "\<not> pending c'" by (simp add: pending_def client_simps)
  with p show ?thesis by simp
next
  fix v
  let ?pa = "''/'' @ join_path v"
  assume o: "out_root_dir os w (removeslashes pa) c = Inr (True, ?pa, c)"
    and v: "\<forall>x \<in> set v. plain_component x" "NUL \<notin> set (join_path v)"
  obtain ok2 c2 where f: "fill_headers_map os w rest (set_path ?pa c) = (ok2, c2)"
    by (cases "fill_headers_map os w rest (set_path ?pa c)")
  have s2: "cl_server c2 = cl_server c" "rq_method (cl_request c2) = rq_method (cl_request c)"
    using fill_headers_map_frame(1) [OF f] by (auto simp: headers_frame_def client_simps)
  obtain located s where l: "is_location_path (cl_server c) ?pa = Inr (located, s)"
    using is_location_path_total [of ?pa "cl_server c"] by auto
  define pa' where "pa' = target_path s located ?pa"
  from target_path_contained [OF l v] root
  have t: "contained (cl_server c) pa'" "pa' \<noteq> []" by (auto simp: pa'_def)
  have ok2: "ok2"
  proof (rule ccontr)
    assume "\<not> ok2"
    with res o f have "c' = set_response_index True c2" by (simp add: parse_target_def)
    with p show False by (simp add: pending_def client_simps)
  qed
  define c4 where "c4 = set_path pa' (c2\<lparr>cl_server := s\<rparr>)"
  have "(if is_valid_method s pa' m
         then parse_body_length os w m (get_map_values ''Content-Length'' (cl_request c2)) c4
         else Inr (set_response_error os w 405 c4)) = Inr c'"
    using res o f l ok2 s2 t(2)
    by (simp add: parse_target_def c4_def pa'_def [symmetric] Let_def del: append.simps split: if_splits)
  with p have valid: "is_valid_method s pa' m"
    and b: "parse_body_length os w m (get_map_values ''Content-Length'' (cl_request c2)) c4 = Inr c'"
    by (auto split: if_splits)
  have "rq_path (cl_request c4) = pa'" "cl_server c4 = s"
    "rq_method (cl_request c4) = rq_method (cl_request c)"
    using s2 by (simp_all add: c4_def client_simps)
  with parse_body_length_pending [OF b p] valid t(1) show ?thesis by simp
qed

end
