(* ===== verification/Upload.thy ===== *)
theory Upload
  imports Request_parser
begin

text \<open>
  Receiving a request body: \<open>get_file_name\<close> (\<open>response/response.cpp\<close>),
  \<open>ft_generate_file_names\<close>, \<open>hex_to_int\<close>, \<open>chunked\<close> and \<open>chunked_for_cgi\<close>
  (\<open>request/post_request.cpp\<close>) and \<open>hanlde_post_request\<close> (\<open>request/request.cpp\<close>).  The
  function-local statics of the handlers, which all clients share, are one record.
\<close>

section \<open>The state the handlers share\<close>

record statics =
  st_first :: bool             \<comment> \<open>\<open>hanlde_post_request\<close>: \<open>first\<close>\<close>
  st_writed :: nat             \<comment> \<open>\<open>hanlde_post_request\<close>: \<open>writed\<close>\<close>
  st_name_index :: int         \<comment> \<open>\<open>ft_generate_file_names\<close>: \<open>index\<close>\<close>
  st_chunk_request :: string   \<comment> \<open>\<open>chunked\<close>: \<open>request\<close>\<close>
  st_cgi_request :: string     \<comment> \<open>\<open>chunked_for_cgi\<close>: \<open>request\<close>\<close>
  st_cgi_result :: string      \<comment> \<open>\<open>chunked_for_cgi\<close>: \<open>result\<close>\<close>
  st_part_file :: "string option" \<comment> \<open>\<open>create_file\<close>: \<open>file\<close>, the path it is open on\<close>
  st_part_bad :: bool          \<comment> \<open>\<open>create_file\<close>: \<open>file\<close> has failed a write\<close>
  st_file_created :: bool      \<comment> \<open>\<open>create_file\<close>: \<open>file_created\<close>\<close>
  st_buffer :: string          \<comment> \<open>\<open>boundary\<close>: \<open>buffer\<close>\<close>
  st_call_count :: nat         \<comment> \<open>\<open>boundary\<close>: \<open>call_count\<close>\<close>
  st_boundary_str :: string    \<comment> \<open>\<open>boundary\<close>: \<open>boundary_str\<close>\<close>
  st_processing_file :: bool   \<comment> \<open>\<open>boundary\<close>: \<open>processing_file\<close>\<close>
  st_body_cgi_location :: string \<comment> \<open>\<open>check_if_have_cgi\<close>: the first \<open>body_cgi\<close>\<close>
  st_body_cgi :: string        \<comment> \<open>\<open>check_if_have_cgi\<close>: the second \<open>body_cgi\<close>\<close>

definition init_statics :: statics where
  "init_statics = \<lparr>st_first = False, st_writed = 0, st_name_index = 0, st_chunk_request = [],
     st_cgi_request = [], st_cgi_result = [], st_part_file = None, st_part_bad = False, st_file_created = False,
     st_buffer = [], st_call_count = 0, st_boundary_str = [], st_processing_file = False,
     st_body_cgi_location = [], st_body_cgi = []\<rparr>"

text \<open>What a handler runs on: the file system, the statics and the client it serves.\<close>

record 'w hstate =
  hs_world :: 'w
  hs_st :: statics
  hs_cl :: Client

definition h_error :: "'w os \<Rightarrow> int \<Rightarrow> 'w hstate \<Rightarrow> 'w hstate" where
  "h_error os status h = h\<lparr>hs_cl := set_response_error os (hs_world h) status (hs_cl h)\<rparr>"

definition h_all_recv :: "'w hstate \<Rightarrow> 'w hstate" where
  "h_all_recv h = h\<lparr>hs_cl := (hs_cl h)\<lparr>cl_all_recv := True\<rparr>\<rparr>"

definition h_s_request :: "string \<Rightarrow> 'w hstate \<Rightarrow> 'w hstate" where
  "h_s_request s h = h\<lparr>hs_cl := set_s_request s (hs_cl h)\<rparr>"

abbreviation h_req :: "'w hstate \<Rightarrow> Request" where
  "h_req h \<equiv> cl_request (hs_cl h)"

definition h_file :: "string option \<Rightarrow> 'w hstate \<Rightarrow> 'w hstate" where
  "h_file f h = h\<lparr>hs_cl := (hs_cl h)\<lparr>cl_request := (h_req h)\<lparr>rq_file := f\<rparr>\<rparr>\<rparr>"

named_theorems h_simps \<open>the updates of the handler state unfolded\<close>

lemmas h_updates [h_simps] = h_error_def h_all_recv_def h_s_request_def h_file_def

section \<open>Where uploads are stored\<close>

definition upload_dir :: "'w os \<Rightarrow> string \<Rightarrow> 'w hstate \<Rightarrow> string \<times> 'w hstate" where
  "upload_dir os dir h =
     (case os_stat os (c_str dir) (hs_world h) of
        None \<Rightarrow> ([], h_error os 502 h)
      | Some st \<Rightarrow>
          if st_type st \<noteq> Directory then ([], h_error os 502 h)
          else if \<not> st_wusr st then ([], h_error os 502 h)
          else (dir, h))"

definition get_file_name :: "'w os \<Rightarrow> 'w hstate \<Rightarrow> (string \<times> 'w hstate) res" where
  "get_file_name os h =
     (if is_location_url (cl_server (hs_cl h)) \<noteq> -1
      then rbind (current_route (cl_server (hs_cl h)))
             (\<lambda>r. Inr (upload_dir os (rb_client_body_temp_path r) h))
      else Inr (upload_dir os ''./upload'' h))"

text \<open>Signed 32-bit arithmetic, written with the wrap-around of the machine.\<close>

definition wrap32 :: "int \<Rightarrow> int" where
  "wrap32 x = (x + 2 ^ 31) mod 2 ^ 32 - 2 ^ 31"

text \<open>
  \<open>ft_generate_file_names\<close> tries \<open>fileN.ext\<close> for growing \<open>N\<close> until a name is free; it does
  not return when none is.  The result is the name and the new value of \<open>index\<close>.
\<close>

definition numbered_name :: "string \<Rightarrow> string \<Rightarrow> int \<Rightarrow> string" where
  "numbered_name extension dirname i =
     dirname @ ''/'' @ ''file'' @ show_int i @ ''.'' @ extension"

partial_function (option) ft_generate_file_names ::
  "'w os \<Rightarrow> 'w \<Rightarrow> string \<Rightarrow> string \<Rightarrow> int \<Rightarrow> (string \<times> int) option" where
  "ft_generate_file_names os w extension dirname i =
     (if \<not> os_access_f os (c_str (numbered_name extension dirname i)) w
      then Some (numbered_name extension dirname i, i)
      else ft_generate_file_names os w extension dirname (wrap32 (i + 1)))"

declare ft_generate_file_names.simps [code]

section \<open>hanlde_post_request\<close>

text \<open>
  Writing the bytes at hand to the request's file and counting them.  The comparison
  reads \<open>content_length\<close>, which is undefined when it was never set.
\<close>

definition post_write :: "'w os \<Rightarrow> string \<Rightarrow> 'w hstate \<Rightarrow> 'w hstate res" where
  "post_write os path h =
     (let data = rq_s_request (h_req h) in
      case os_append os (c_str path) data (hs_world h) of
        None \<Rightarrow> Inr (h_file None h)
      | Some w' \<Rightarrow>
          (let writed = st_writed (hs_st h) + length data;
               h1 = h\<lparr>hs_world := w', hs_st := (hs_st h)\<lparr>st_writed := writed\<rparr>\<rparr>
           in case rq_content_length (h_req h) of
                None \<Rightarrow> Inl Undefined
              | Some n \<Rightarrow>
                  Inr (if writed \<ge> n
                       then h_all_recv (h1\<lparr>hs_st := (hs_st h1)\<lparr>st_first := False, st_writed := 0\<rparr>\<rparr>)
                       else h1)))"

text \<open>
  A later piece: its bytes are counted before the stream is asked whether the write has failed.
\<close>

definition post_more :: "'w os \<Rightarrow> string \<Rightarrow> 'w hstate \<Rightarrow> 'w hstate res" where
  "post_more os path h =
     (if os_append os (c_str path) (rq_s_request (h_req h)) (hs_world h) = None
      then Inr (h_file None (h\<lparr>hs_st := (hs_st h)\<lparr>st_writed := st_writed (hs_st h) + length (rq_s_request (h_req h))\<rparr>\<rparr>))
      else post_write os path h)"

definition content_extension :: "Request \<Rightarrow> string" where
  "content_extension r =
     (let content_type = get_map_values ''Content-Type'' r in
      trim_non_printable (case str_find ''/'' content_type of
        None \<Rightarrow> content_type | Some pos \<Rightarrow> drop (pos + 1) content_type))"

text \<open>
  The first piece of a body picks the file.  When the file cannot be opened the stream
  stays closed, and \<open>first\<close> stays set.  \<open>open\<close> fails on a stream that is open already: it is not
  closed by that, the write fails, and the handler closes it.
\<close>

definition hanlde_post_request :: "'w os \<Rightarrow> 'w hstate \<Rightarrow> 'w hstate res" where
  "hanlde_post_request os h =
     (if \<not> st_first (hs_st h) then
        (let h0 = h\<lparr>hs_st := (hs_st h)\<lparr>st_first := True\<rparr>\<rparr>;
             extension = content_extension (h_req h0)
         in rbind (get_file_name os h0) (\<lambda>(dirname, h1).
           case ft_generate_file_names os (hs_world h1) extension dirname
                  (st_name_index (hs_st h1)) of
             None \<Rightarrow> Inl No_return
           | Some (file_name, i) \<Rightarrow>
               (let h2 = h1\<lparr>hs_st := (hs_st h1)\<lparr>st_name_index := i\<rparr>\<rparr> in
                if dirname = [] then
                  Inr (h_all_recv (h2\<lparr>hs_st := (hs_st h2)\<lparr>st_first := False, st_writed := 0\<rparr>\<rparr>))
                else if rq_file (h_req h2) \<noteq> None then Inr (h_file None h2)
                else (case os_create os (c_str file_name) (hs_world h2) of
                    None \<Rightarrow> Inr h2
                  | Some w' \<Rightarrow>
                      post_write os file_name (h_file (Some file_name) (h2\<lparr>hs_world := w'\<rparr>))))))
      else (case rq_file (h_req h) of
          None \<Rightarrow> Inr (h_error os 500 h)
        | Some path \<Rightarrow> post_more os path h))"

section \<open>hex_to_int\<close>

text \<open>
  The arithmetic is that of an \<open>int\<close>; bytes that are no hexadecimal digit (the CR LF of the line
  among them) are skipped.
\<close>

definition hex_digit :: "char \<Rightarrow> int option" where
  "hex_digit c =
     (if 48 \<le> byte c \<and> byte c \<le> 57 then Some (int (byte c) - 48)
      else if 97 \<le> byte c \<and> byte c \<le> 102 then Some (int (byte c) - 97 + 10)
      else if 65 \<le> byte c \<and> byte c \<le> 70 then Some (int (byte c) - 65 + 10)
      else None)"

fun hex_to_int_loop :: "string \<Rightarrow> int \<Rightarrow> int" where
  "hex_to_int_loop [] result = result"
| "hex_to_int_loop (c # cs) result =
     hex_to_int_loop cs (case hex_digit c of None \<Rightarrow> result | Some d \<Rightarrow> wrap32 (result * 16 + d))"

definition hex_to_int :: "string \<Rightarrow> int" where
  "hex_to_int hexStr = hex_to_int_loop hexStr 0"

text \<open>\<open>size_t size = hex_to_int(line)\<close>.\<close>

definition size_of_int :: "int \<Rightarrow> nat" where
  "size_of_int x = nat (x mod 2 ^ 64)"

definition size_add :: "nat \<Rightarrow> nat \<Rightarrow> nat" where
  "size_add a b = (a + b) mod 2 ^ 64"

section \<open>chunked\<close>

lemma rbind_cong [fundef_cong]:
  "m = m' \<Longrightarrow> (\<And>x. m' = Inr x \<Longrightarrow> f x = f' x) \<Longrightarrow> rbind m f = rbind m' f'"
  by (cases m') auto

text \<open>
  The loop of \<open>chunked\<close> over the bytes collected so far.  The result says whether the
  terminating chunk was seen, what is left in \<open>request\<close>, and the state.
\<close>

function chunked_loop ::
  "'w os \<Rightarrow> string \<Rightarrow> 'w hstate \<Rightarrow> (bool \<times> string \<times> 'w hstate) res" where
  "chunked_loop os request h =
     (case str_find crlf request of
        None \<Rightarrow> Inr (False, request, h)
      | Some pos \<Rightarrow>
          (let line = take (pos + 2) request;
               size = size_of_int (hex_to_int line);
               tmp = drop (pos + 2) request
           in if length tmp < size_add size 2 then Inr (False, request, h)
              else if size = 0 then Inr (True, [], h_all_recv h)
              else rbind (hanlde_post_request os (h_s_request (take size tmp) h)) (\<lambda>h1.
                   rbind (substr_from tmp (size_add size 2)) (\<lambda>request'.
                   chunked_loop os request' h1))))"
  by pat_completeness auto
termination
  by (relation "measure (\<lambda>(os, request, h). length request)")
     (auto dest!: str_find_bound simp: crlf_def substr_from_def split: if_splits)

declare chunked_loop.simps [simp del]

definition chunked :: "'w os \<Rightarrow> 'w hstate \<Rightarrow> 'w hstate res" where
  "chunked os h =
     rbind (chunked_loop os (st_chunk_request (hs_st h) @ rq_s_request (h_req h)) h)
       (\<lambda>(fin, request, h1). Inr (h1\<lparr>hs_st := (hs_st h1)\<lparr>st_chunk_request := request\<rparr>\<rparr>))"

section \<open>chunked_for_cgi\<close>

text \<open>
  The loop over \<open>request\<close> and \<open>result\<close>: \<open>Some\<close> when the terminating chunk was seen.  The
  test asks for the chunk's bytes only, the last \<open>substr\<close> also skips its CR LF.
\<close>

function cgi_chunk_loop :: "string \<Rightarrow> string \<Rightarrow> (bool \<times> string \<times> string) res" where
  "cgi_chunk_loop request result =
     (case str_find crlf request of
        None \<Rightarrow> Inr (False, request, result)
      | Some pos \<Rightarrow>
          (let line = take (pos + 2) request;
               size = size_of_int (hex_to_int line);
               tmp = drop (pos + 2) request
           in if size = 0 then Inr (True, request, result)
              else if length tmp < size then Inr (False, request, result)
              else rbind (substr_from tmp (size_add size 2)) (\<lambda>request'.
                   cgi_chunk_loop request' (result @ take size tmp))))"
  by pat_completeness auto
termination
  by (relation "measure (\<lambda>(request, result). length request)")
     (auto dest!: str_find_bound simp: crlf_def substr_from_def split: if_splits)

declare cgi_chunk_loop.simps [simp del]

definition chunked_for_cgi :: "'w hstate \<Rightarrow> (string \<times> 'w hstate) res" where
  "chunked_for_cgi h =
     rbind (cgi_chunk_loop (st_cgi_request (hs_st h) @ rq_s_request (h_req h))
              (st_cgi_result (hs_st h)))
       (\<lambda>(fin, request, result).
         if fin then
           Inr (result, h_s_request result (h_all_recv
             (h\<lparr>hs_st := (hs_st h)\<lparr>st_cgi_request := [], st_cgi_result := []\<rparr>\<rparr>)))
         else Inr ([], h\<lparr>hs_st := (hs_st h)\<lparr>st_cgi_request := request, st_cgi_result := result\<rparr>\<rparr>))"

section \<open>The name generator\<close>

lemma wrap32_id: "- (2 ^ 31) \<le> x \<Longrightarrow> x < 2 ^ 31 \<Longrightarrow> wrap32 x = x"
  by (simp add: wrap32_def)

lemma ft_generate_step:
  "ft_generate_file_names os w e d i =
     (if \<not> os_access_f os (c_str (numbered_name e d i)) w then Some (numbered_name e d i, i)
      else ft_generate_file_names os w e d (wrap32 (i + 1)))"
  by (rule ft_generate_file_names.simps)

lemma ft_generate_finds:
  assumes "\<not> os_access_f os (c_str (numbered_name e d k)) w" "- (2 ^ 31) \<le> i" "i \<le> k" "k < 2 ^ 31"
  shows "\<exists>j. i \<le> j \<and> j \<le> k \<and> \<not> os_access_f os (c_str (numbered_name e d j)) w \<and>
           (\<forall>l. i \<le> l \<and> l < j \<longrightarrow> os_access_f os (c_str (numbered_name e d l)) w) \<and>
           ft_generate_file_names os w e d i = Some (numbered_name e d j, j)"
  using assms(2,3)
proof (induction "nat (k - i)" arbitrary: i)
  case 0
  with assms(1) have "i = k" by simp
  with assms(1) show ?case by (intro exI [of _ k]) (auto simp: ft_generate_step [of os w e d k])
next
  case (Suc m)
  show ?case
  proof (cases "os_access_f os (c_str (numbered_name e d i)) w")
    case False
    then show ?thesis
      using Suc.prems by (intro exI [of _ i]) (auto simp: ft_generate_step [of os w e d i])
  next
    case True
    have "m = nat (k - (i + 1))" "- (2 ^ 31) \<le> i + 1" "i + 1 \<le> k" using Suc.hyps(2) Suc.prems by simp_all
    from Suc.hyps(1) [OF this] obtain j where j: "i + 1 \<le> j" "j \<le> k"
      "\<not> os_access_f os (c_str (numbered_name e d j)) w"
      "\<forall>l. i + 1 \<le> l \<and> l < j \<longrightarrow> os_access_f os (c_str (numbered_name e d l)) w"
      "ft_generate_file_names os w e d (i + 1) = Some (numbered_name e d j, j)" by blast
    have "\<forall>l. i \<le> l \<and> l < j \<longrightarrow> os_access_f os (c_str (numbered_name e d l)) w"
      using j(4) True by (metis add1_zle_eq order_le_less)
    moreover have "wrap32 (i + 1) = i + 1" using Suc.prems \<open>i + 1 \<le> k\<close> assms(4) by (simp add: wrap32_id)
    then have "ft_generate_file_names os w e d i = Some (numbered_name e d j, j)"
      using True j(5) by (simp add: ft_generate_step [of os w e d i])
    ultimately show ?thesis using j(1-3) by (intro exI [of _ j]) auto
  qed
qed

section \<open>Hexadecimal sizes\<close>

definition hex_char :: "nat \<Rightarrow> char" where
  "hex_char n = char_of (if n < 10 then n + 48 else n + 87)"

fun show_hex :: "nat \<Rightarrow> string" where
  "show_hex n = (if n < 16 then [hex_char n] else show_hex (n div 16) @ [hex_char (n mod 16)])"

declare show_hex.simps [simp del]

lemma hex_digit_char [simp]: "n < 16 \<Longrightarrow> hex_digit (hex_char n) = Some (int n)"
  by (auto simp: hex_digit_def hex_char_def byte_char_of)

lemma hex_char_no_CR [simp]: "n < 16 \<Longrightarrow> hex_char n \<noteq> CR"
  by (auto simp: hex_char_def byte_inj [symmetric] byte_char_of) (auto simp: byte_def)

lemma hex_char_no_CR' [simp]: "n < 16 \<Longrightarrow> CR \<noteq> hex_char n"
  by (rule not_sym) simp

lemma show_hex_no_CR: "CR \<notin> set (show_hex n)"
proof (induction n rule: show_hex.induct)
  case (1 n)
  then show ?case by (cases "n < 16") (auto simp: show_hex.simps [of n])
qed

lemma hex_to_int_loop_append:
  "hex_to_int_loop (a @ b) r = hex_to_int_loop b (hex_to_int_loop a r)"
  by (induction a arbitrary: r) auto

lemma hex_to_int_show_hex: "n < 2 ^ 31 \<Longrightarrow> hex_to_int_loop (show_hex n) 0 = int n"
proof (induction n rule: show_hex.induct)
  case (1 n)
  show ?case
  proof (cases "n < 16")
    case True
    then show ?thesis using 1 by (simp add: show_hex.simps [of n] wrap32_id)
  next
    case False
    have "n div 16 < 2 ^ 31" using 1(2) by (simp add: less_mult_imp_div_less)
    with 1(1) False have IH: "hex_to_int_loop (show_hex (n div 16)) 0 = int (n div 16)" by simp
    have e: "int (n div 16) * 16 + int (n mod 16) = int n"
      by (metis div_mult_mod_eq of_nat_add of_nat_mult of_nat_numeral)
    have "hex_to_int_loop (show_hex n) 0 = wrap32 (int (n div 16) * 16 + int (n mod 16))"
      using False IH by (simp add: show_hex.simps [of n] hex_to_int_loop_append)
    also have "\<dots> = int n" using 1(2) e by (simp add: wrap32_id)
    finally show ?thesis .
  qed
qed

lemma hex_line_size:
  "n < 2 ^ 31 \<Longrightarrow> size_of_int (hex_to_int (show_hex n @ crlf)) = n"
proof -
  assume n: "n < 2 ^ 31"
  have "hex_digit CR = None" "hex_digit LF = None" by (simp_all add: hex_digit_def byte_def)
  then have "hex_to_int (show_hex n @ crlf) = int n"
    using hex_to_int_show_hex [OF n]
    by (simp add: hex_to_int_def hex_to_int_loop_append crlf_def)
  with n show ?thesis by (simp add: size_of_int_def)
qed

section \<open>Decoding a chunked body\<close>

definition encode_chunk :: "string \<Rightarrow> string" where
  "encode_chunk d = show_hex (length d) @ crlf @ d @ crlf"

definition last_chunk :: string where
  "last_chunk = show_hex 0 @ crlf @ crlf"

definition chunk_ok :: "string \<Rightarrow> bool" where
  "chunk_ok d \<longleftrightarrow> d \<noteq> [] \<and> length d < 2 ^ 31"

text \<open>One chunk in front of anything, for both decoders.\<close>

lemma chunk_head:
  fixes rest :: string
  assumes "n < 2 ^ 31"
  shows "str_find crlf (show_hex n @ crlf @ rest) = Some (length (show_hex n))"
    and "size_of_int (hex_to_int (take (length (show_hex n) + 2) (show_hex n @ crlf @ rest))) = n"
    and "drop (length (show_hex n) + 2) (show_hex n @ crlf @ rest) = rest"
proof -
  show "str_find crlf (show_hex n @ crlf @ rest) = Some (length (show_hex n))"
    by (rule str_find_crlf_line [OF show_hex_no_CR])
  have "take (length (show_hex n) + 2) (show_hex n @ crlf @ rest) = show_hex n @ crlf"
    by (simp add: crlf_def)
  with hex_line_size [OF assms(1)]
  show "size_of_int (hex_to_int (take (length (show_hex n) + 2) (show_hex n @ crlf @ rest))) = n"
    by simp
  show "drop (length (show_hex n) + 2) (show_hex n @ crlf @ rest) = rest" by (simp add: crlf_def)
qed

lemma size_add_small: "n < 2 ^ 31 \<Longrightarrow> size_add n 2 = n + 2"
  by (simp add: size_add_def)

lemma cgi_chunk_loop_chunk:
  assumes "chunk_ok d"
  shows "cgi_chunk_loop (encode_chunk d @ rest) result = cgi_chunk_loop rest (result @ d)"
proof -
  from assms have n: "length d < 2 ^ 31" and ne: "length d \<noteq> 0" by (auto simp: chunk_ok_def)
  have e: "encode_chunk d @ rest = show_hex (length d) @ crlf @ (d @ crlf @ rest)"
    by (simp add: encode_chunk_def)
  have "substr_from (d @ crlf @ rest) (length d + 2) = Inr rest"
    by (simp add: substr_from_def crlf_def)
  then show ?thesis
    unfolding e by (subst cgi_chunk_loop.simps)
      (simp only: chunk_head [OF n] option.case Let_def ne if_False size_add_small [OF n]
        rbind.simps, simp)
qed

lemma cgi_chunk_loop_last: "cgi_chunk_loop (last_chunk @ rest) result = Inr (True, last_chunk @ rest, result)"
proof -
  have e: "last_chunk @ rest = show_hex 0 @ crlf @ (crlf @ rest)"
    by (simp add: last_chunk_def)
  have n: "(0 :: nat) < 2 ^ 31" by simp
  show ?thesis
    unfolding e by (subst cgi_chunk_loop.simps)
      (simp only: chunk_head [OF n] option.case Let_def if_True simp_thms)
qed

lemma cgi_chunk_loop_encoded:
  "\<forall>d \<in> set ds. chunk_ok d \<Longrightarrow>
     cgi_chunk_loop (concat (map encode_chunk ds) @ last_chunk) result =
     Inr (True, last_chunk, result @ concat ds)"
  by (induction ds arbitrary: result)
     (simp_all add: cgi_chunk_loop_chunk cgi_chunk_loop_last [of "[]", simplified])

text \<open>
  Neither decoder depends on how the bytes are cut into reads: a call that stops for want
  of bytes can be continued with more of them.
\<close>

lemma substr_from_append:
  "substr_from s n = Inr r \<Longrightarrow> substr_from (s @ x) n = Inr (r @ x)"
  by (auto simp: substr_from_def split: if_splits)

lemma cgi_chunk_loop_resume:
  "cgi_chunk_loop r res = Inr (False, r', res') \<Longrightarrow>
     cgi_chunk_loop (r @ x) res = cgi_chunk_loop (r' @ x) res'"
proof (induction r res rule: cgi_chunk_loop.induct)
  case (1 r res)
  show ?case
  proof (cases "str_find crlf r")
    case None
    with 1 show ?thesis by (simp add: cgi_chunk_loop.simps [of r])
  next
    case (Some pos)
    let ?size = "size_of_int (hex_to_int (take (pos + 2) r))"
    let ?tmp = "drop (pos + 2) r"
    from str_find_bound [OF Some] have pl: "pos + 2 \<le> length r" by (simp add: crlf_def)
    then have cut: "take (pos + 2) (r @ x) = take (pos + 2) r" "drop (pos + 2) (r @ x) = ?tmp @ x"
      by simp_all
    show ?thesis
    proof (cases "?size = 0 \<or> length ?tmp < ?size")
      case True
      with Some 1(2) show ?thesis by (auto simp: cgi_chunk_loop.simps [of r] Let_def split: if_splits)
    next
      case False
      with Some 1(2) obtain req where s: "substr_from ?tmp (size_add ?size 2) = Inr req"
        and l: "cgi_chunk_loop req (res @ take ?size ?tmp) = Inr (False, r', res')"
        by (auto simp: cgi_chunk_loop.simps [of r] Let_def rbind_Inr)
      have "cgi_chunk_loop (r @ x) res = cgi_chunk_loop (req @ x) (res @ take ?size ?tmp)"
        using cut False str_find_append [OF Some, of x] substr_from_append [OF s, of x]
        by (subst cgi_chunk_loop.simps) (simp only: option.case Let_def rbind.simps, simp)
      also have "\<dots> = cgi_chunk_loop (r' @ x) res'"
        using 1(1) [OF Some refl refl refl _ _ s l] False by simp
      finally show ?thesis .
    qed
  qed
qed

text \<open>The same for \<open>chunked\<close>, which hands every chunk to \<open>hanlde_post_request\<close>.\<close>

fun feed_chunks :: "'w os \<Rightarrow> string list \<Rightarrow> 'w hstate \<Rightarrow> 'w hstate res" where
  "feed_chunks os [] h = Inr h"
| "feed_chunks os (d # ds) h =
     rbind (hanlde_post_request os (h_s_request d h)) (feed_chunks os ds)"

lemma chunked_loop_chunk:
  assumes "chunk_ok d"
  shows "chunked_loop os (encode_chunk d @ rest) h =
     rbind (hanlde_post_request os (h_s_request d h)) (\<lambda>h1. chunked_loop os rest h1)"
proof -
  from assms have n: "length d < 2 ^ 31" and ne: "length d \<noteq> 0" by (auto simp: chunk_ok_def)
  have e: "encode_chunk d @ rest = show_hex (length d) @ crlf @ (d @ crlf @ rest)"
    by (simp add: encode_chunk_def)
  have s: "substr_from (d @ crlf @ rest) (length d + 2) = Inr rest"
    by (simp add: substr_from_def crlf_def)
  show ?thesis
    unfolding e by (subst chunked_loop.simps)
      (simp only: chunk_head [OF n] option.case Let_def ne if_False size_add_small [OF n] s
        rbind.simps, simp add: crlf_def)
qed

lemma chunked_loop_last: "chunked_loop os (last_chunk @ rest) h = Inr (True, [], h_all_recv h)"
proof -
  have e: "last_chunk @ rest = show_hex 0 @ crlf @ (crlf @ rest)"
    by (simp add: last_chunk_def)
  have n: "(0 :: nat) < 2 ^ 31" by simp
  have g: "\<not> length (crlf @ rest) < size_add 0 2" by (simp add: crlf_def size_add_def)
  show ?thesis
    unfolding e by (subst chunked_loop.simps)
      (simp only: chunk_head [OF n] option.case Let_def if_True if_False g simp_thms)
qed

lemma chunked_loop_encoded:
  "\<forall>d \<in> set ds. chunk_ok d \<Longrightarrow>
     chunked_loop os (concat (map encode_chunk ds) @ last_chunk) h =
     rbind (feed_chunks os ds h) (\<lambda>h1. Inr (True, [], h_all_recv h1))"
proof (induction ds arbitrary: h)
  case Nil
  show ?case using chunked_loop_last [of os "[]" h] by simp
next
  case (Cons d ds)
  then have "\<And>h1. chunked_loop os (concat (map encode_chunk ds) @ last_chunk) h1 =
      rbind (feed_chunks os ds h1) (\<lambda>h2. Inr (True, [], h_all_recv h2))" by simp
  with Cons.prems show ?case
    by (cases "hanlde_post_request os (h_s_request d h)") (simp_all add: chunked_loop_chunk)
qed

text \<open>
  \<open>size + 2\<close> wraps for the sizes -1 and -2, and \<open>chunked\<close> then takes everything that has
  arrived as the chunk.  \<open>chunk_sizes_ok\<close> says that no size line is negative.
\<close>

function chunk_sizes_ok :: "string \<Rightarrow> bool" where
  "chunk_sizes_ok r =
     (case str_find crlf r of
        None \<Rightarrow> True
      | Some pos \<Rightarrow>
          (let n = hex_to_int (take (pos + 2) r); tmp = drop (pos + 2) r
           in 0 \<le> n \<and> n < 2 ^ 31 \<and> (n \<noteq> 0 \<longrightarrow> chunk_sizes_ok (drop (nat n + 2) tmp))))"
  by pat_completeness auto
termination
  by (relation "measure length") (auto dest!: str_find_bound simp: crlf_def)

declare chunk_sizes_ok.simps [simp del]

lemma size_of_int_nonneg: "0 \<le> n \<Longrightarrow> n < 2 ^ 31 \<Longrightarrow> size_of_int n = nat n"
  by (simp add: size_of_int_def)

text \<open>What one round of the loop does, when the size line is not negative.\<close>

lemma chunked_loop_round:
  assumes f: "str_find crlf r = Some pos" and n: "0 \<le> n" "n < 2 ^ 31"
    and line: "hex_to_int (take (pos + 2) r) = n"
  shows "chunked_loop os r h =
     (if length (drop (pos + 2) r) < nat n + 2 then Inr (False, r, h)
      else if n = 0 then Inr (True, [], h_all_recv h)
      else rbind (hanlde_post_request os (h_s_request (take (nat n) (drop (pos + 2) r)) h))
             (\<lambda>h1. chunked_loop os (drop (nat n + 2) (drop (pos + 2) r)) h1))"
proof -
  have sz: "size_of_int n = nat n" "size_add (nat n) 2 = nat n + 2" "nat n = 0 \<longleftrightarrow> n = 0"
    using n by (simp_all add: size_of_int_nonneg size_add_def)
  show ?thesis
  proof (cases "length (drop (pos + 2) r) < nat n + 2")
    case True
    then show ?thesis
      by (subst chunked_loop.simps) (simp only: f option.case Let_def line sz if_True)
  next
    case False
    then have "substr_from (drop (pos + 2) r) (nat n + 2) =
        Inr (drop (nat n + 2) (drop (pos + 2) r))"
      by (simp only: substr_from_def if_False not_less) simp
    with False show ?thesis
      by (subst chunked_loop.simps)
         (simp only: f option.case Let_def line sz if_False rbind.simps)
  qed
qed

definition unfinished :: "'w os \<Rightarrow> string \<Rightarrow> 'w hstate \<Rightarrow> bool" where
  "unfinished os r h \<longleftrightarrow> (\<forall>r' h'. chunked_loop os r h \<noteq> Inr (True, r', h'))"

lemma chunked_loop_resume:
  "chunk_sizes_ok r \<Longrightarrow> unfinished os r h \<Longrightarrow>
     chunked_loop os (r @ x) h =
     rbind (chunked_loop os r h) (\<lambda>(f, r', h'). chunked_loop os (r' @ x) h')"
proof (induction r arbitrary: h rule: chunk_sizes_ok.induct)
  case (1 r)
  show ?case
  proof (cases "str_find crlf r")
    case None
    then show ?thesis by (simp add: chunked_loop.simps [of os r])
  next
    case (Some pos)
    define n where "n = hex_to_int (take (pos + 2) r)"
    define tmp where "tmp = drop (pos + 2) r"
    from Some "1.prems"(1) have n: "0 \<le> n" "n < 2 ^ 31"
      and ok: "n \<noteq> 0 \<Longrightarrow> chunk_sizes_ok (drop (nat n + 2) tmp)"
      by (simp_all add: chunk_sizes_ok.simps [of r] n_def tmp_def Let_def)
    from str_find_bound [OF Some] have "pos + 2 \<le> length r" by (simp add: crlf_def)
    then have cut: "take (pos + 2) (r @ x) = take (pos + 2) r" "drop (pos + 2) (r @ x) = tmp @ x"
      by (simp_all add: tmp_def)
    note step = chunked_loop_round [OF Some n n_def [symmetric], folded tmp_def]
    have n': "hex_to_int (take (pos + 2) (r @ x)) = n" by (simp only: cut(1) n_def)
    note step' = chunked_loop_round [OF str_find_append [OF Some, of x] n n', unfolded cut]
    show ?thesis
    proof (cases "length tmp < nat n + 2")
      case True
      then show ?thesis by (simp add: step)
    next
      case False
      from "1.prems"(2) False have n0: "n \<noteq> 0" by (auto simp: unfinished_def step)
      let ?h = "hanlde_post_request os (h_s_request (take (nat n) tmp) h)"
      have un: "unfinished os (drop (nat n + 2) tmp) h1" if "?h = Inr h1" for h1
        using "1.prems"(2) False n0 that by (simp add: unfinished_def step)
      from False have tk: "take (nat n) (tmp @ x) = take (nat n) tmp"
        "drop (nat n + 2) (tmp @ x) = drop (nat n + 2) tmp @ x"
        "\<not> length (tmp @ x) < nat n + 2" by simp_all
      show ?thesis
      proof (cases ?h)
        case (Inl e)
        with False n0 tk show ?thesis by (simp only: step step' if_False rbind.simps)
      next
        case (Inr h1)
        have "chunked_loop os (drop (nat n + 2) tmp @ x) h1 =
            rbind (chunked_loop os (drop (nat n + 2) tmp) h1)
              (\<lambda>(f, r', h'). chunked_loop os (r' @ x) h')"
          using "1.IH" [OF Some n_def tmp_def n0 ok [OF n0] un [OF Inr]] .
        with False n0 tk Inr show ?thesis by (simp only: step step' if_False rbind.simps)
      qed
    qed
  qed
qed

text \<open>A well-formed stream: its prefixes have proper size lines and finish only when complete.\<close>

definition chunk_stream :: "string list \<Rightarrow> string" where
  "chunk_stream ds = concat (map encode_chunk ds) @ last_chunk"

lemma chunk_stream_simps:
  "chunk_stream [] = show_hex 0 @ crlf @ crlf"
  "chunk_stream (d # ds) = show_hex (length d) @ crlf @ d @ crlf @ chunk_stream ds"
  by (simp_all add: chunk_stream_def last_chunk_def encode_chunk_def)

lemma hex_line_int: "n < 2 ^ 31 \<Longrightarrow> hex_to_int (show_hex n @ crlf) = int n"
proof -
  assume n: "n < 2 ^ 31"
  have "hex_digit CR = None" "hex_digit LF = None" by (simp_all add: hex_digit_def byte_def)
  then show ?thesis
    using hex_to_int_show_hex [OF n] by (simp add: hex_to_int_def hex_to_int_loop_append crlf_def)
qed

text \<open>Where a prefix of one encoded chunk ends: inside its size line, or behind it.\<close>

lemma prefix_of_chunk:
  assumes "prefix p (show_hex n @ crlf @ rest)"
  obtains (short) "str_find crlf p = None"
  | (long) q where "p = show_hex n @ crlf @ q" "prefix q rest"
proof (cases "prefix (show_hex n @ crlf) p")
  case True
  then obtain q where q: "p = show_hex n @ crlf @ q" by (auto simp: prefix_def)
  with assms have "prefix q rest" by simp
  with q show thesis by (rule long)
next
  case False
  have "prefix p (show_hex n @ crlf)"
    using assms False prefix_same_cases [of p "show_hex n @ crlf @ rest" "show_hex n @ crlf"]
    by auto
  with False have p: "strict_prefix p (show_hex n @ crlf)" by (auto simp: strict_prefix_def)
  have "str_find crlf p = None"
  proof (rule ccontr)
    assume "str_find crlf p \<noteq> None"
    then obtain i where i: "str_find crlf p = Some i" by auto
    from p obtain y where y: "show_hex n @ crlf = p @ y" by (auto simp: strict_prefix_def prefix_def)
    from str_find_append [OF i, of y] y have "str_find crlf (show_hex n @ crlf @ []) = Some i" by simp
    with str_find_crlf_line [OF show_hex_no_CR, of n "[]"] have "i = length (show_hex n)" by simp
    with str_find_bound [OF i] have "length (show_hex n @ crlf) \<le> length p" by simp
    with prefix_length_less [OF p] show False by simp
  qed
  then show thesis by (rule short)
qed

lemma chunk_sizes_ok_line:
  assumes "n < 2 ^ 31"
  shows "chunk_sizes_ok (show_hex n @ crlf @ q) \<longleftrightarrow> n = 0 \<or> chunk_sizes_ok (drop (n + 2) q)"
proof -
  have d: "drop (length (show_hex n) + 2) (show_hex n @ crlf @ q) = q" by (simp add: crlf_def)
  have t: "take (length (show_hex n) + 2) (show_hex n @ crlf @ q) = show_hex n @ crlf"
    by (simp add: crlf_def)
  show ?thesis using assms
    by (subst chunk_sizes_ok.simps)
       (simp only: chunk_head(1) [OF assms] option.case Let_def t d hex_line_int [OF assms], auto)
qed

lemma chunked_loop_line:
  assumes "n < 2 ^ 31"
  shows "chunked_loop os (show_hex n @ crlf @ q) h =
     (if length q < n + 2 then Inr (False, show_hex n @ crlf @ q, h)
      else if n = 0 then Inr (True, [], h_all_recv h)
      else rbind (hanlde_post_request os (h_s_request (take n q) h))
             (\<lambda>h1. chunked_loop os (drop (n + 2) q) h1))"
proof -
  have d: "drop (length (show_hex n) + 2) (show_hex n @ crlf @ q) = q" by (simp add: crlf_def)
  have t: "take (length (show_hex n) + 2) (show_hex n @ crlf @ q) = show_hex n @ crlf"
    by (simp add: crlf_def)
  have r: "0 \<le> int n" "int n < 2 ^ 31" using assms by simp_all
  have l: "hex_to_int (take (length (show_hex n) + 2) (show_hex n @ crlf @ q)) = int n"
    by (simp only: t hex_line_int [OF assms])
  show ?thesis
    using chunked_loop_round [OF chunk_head(1) [OF assms] r l, of os h]
    by (simp only: d nat_int of_nat_eq_0_iff)
qed

lemma chunk_stream_prefix:
  assumes "\<forall>d \<in> set ds. chunk_ok d" "prefix p (chunk_stream ds)"
  shows "chunk_sizes_ok p \<and> (p \<noteq> chunk_stream ds \<longrightarrow> unfinished os p h)"
  using assms
proof (induction ds arbitrary: p h)
  case Nil
  have z: "(0 :: nat) < 2 ^ 31" by simp
  from Nil.prems(2) have "prefix p (show_hex 0 @ crlf @ crlf)" by (simp add: chunk_stream_simps)
  then show ?case
  proof (cases rule: prefix_of_chunk)
    case short
    then show ?thesis
      by (simp add: chunk_sizes_ok.simps [of p] unfinished_def chunked_loop.simps [of os p])
  next
    case (long q)
    have len: "length q < 0 + 2" if "q \<noteq> crlf"
      using that long(2) prefix_length_less [of q crlf] by (simp add: strict_prefix_def crlf_def)
    have "p \<noteq> chunk_stream [] \<longrightarrow> unfinished os p h"
    proof
      assume "p \<noteq> chunk_stream []"
      with long(1) have "q \<noteq> crlf" by (auto simp: chunk_stream_simps)
      from len [OF this] show "unfinished os p h"
        by (simp only: long(1) unfinished_def chunked_loop_line [OF z] if_True) simp
    qed
    then show ?thesis by (simp add: long(1) chunk_sizes_ok_line [OF z])
  qed
next
  case (Cons d ds)
  from Cons.prems(1) have n: "length d < 2 ^ 31" and ne: "length d \<noteq> 0" by (auto simp: chunk_ok_def)
  from Cons.prems(2) have "prefix p (show_hex (length d) @ crlf @ d @ crlf @ chunk_stream ds)"
    by (simp add: chunk_stream_simps)
  then show ?case
  proof (cases rule: prefix_of_chunk)
    case short
    then show ?thesis
      by (simp add: chunk_sizes_ok.simps [of p] unfinished_def chunked_loop.simps [of os p])
  next
    case (long q)
    let ?q = "drop (length d + 2) q"
    show ?thesis
    proof (cases "length q < length d + 2")
      case True
      then have "?q = []" by simp
      moreover have "chunk_sizes_ok []" by (subst chunk_sizes_ok.simps) (simp add: crlf_def)
      ultimately show ?thesis using long True
        by (simp add: chunk_sizes_ok_line [OF n] unfinished_def chunked_loop_line [OF n])
    next
      case False
      from long(2) obtain z where z: "d @ crlf @ chunk_stream ds = q @ z" by (auto simp: prefix_def)
      have "drop (length d + 2) (d @ crlf @ chunk_stream ds) = chunk_stream ds" by (simp add: crlf_def)
      with z False have cs: "chunk_stream ds = ?q @ z" by simp
      then have pre: "prefix ?q (chunk_stream ds)" by (simp add: prefix_def)
      have "take (length d + 2) (d @ crlf @ chunk_stream ds) = d @ crlf" by (simp add: crlf_def)
      with z False have qd: "q = d @ crlf @ ?q"
        by (metis append.assoc append_take_drop_id not_less take_append diff_is_0_eq take_0 append_Nil2)
      have IH: "chunk_sizes_ok ?q \<and> (?q \<noteq> chunk_stream ds \<longrightarrow> unfinished os ?q h1)" for h1
        using Cons.IH [OF _ pre] Cons.prems(1) by simp
      have "p \<noteq> chunk_stream (d # ds) \<longrightarrow> unfinished os p h"
      proof
        assume "p \<noteq> chunk_stream (d # ds)"
        with long(1) qd have "?q \<noteq> chunk_stream ds" by (auto simp: chunk_stream_simps)
        with IH have "unfinished os ?q h1" for h1 by blast
        with False ne show "unfinished os p h"
          by (auto simp: unfinished_def long(1) chunked_loop_line [OF n] rbind_Inr)
      qed
      with IH show ?thesis by (simp add: long(1) chunk_sizes_ok_line [OF n])
    qed
  qed
qed

section \<open>Chunked bodies arriving in several reads\<close>

fun rmap :: "('a \<Rightarrow> 'b) \<Rightarrow> 'a res \<Rightarrow> 'b res" where
  "rmap f (Inl e) = Inl e"
| "rmap f (Inr x) = Inr (f x)"

text \<open>
  The server stores every read in \<open>s_request\<close> and calls the handler.  \<open>forget\<close> drops the
  two fields that only carry the bytes of the last read.
\<close>

fun chunked_reads :: "'w os \<Rightarrow> string list \<Rightarrow> 'w hstate \<Rightarrow> 'w hstate res" where
  "chunked_reads os [] h = Inr h"
| "chunked_reads os (s # ss) h = rbind (chunked os (h_s_request s h)) (chunked_reads os ss)"

definition h_chunk :: "string \<Rightarrow> 'w hstate \<Rightarrow> 'w hstate" where
  "h_chunk z h = h\<lparr>hs_st := (hs_st h)\<lparr>st_chunk_request := z\<rparr>\<rparr>"

definition forget :: "'w hstate \<Rightarrow> 'w hstate" where
  "forget h = h_chunk [] (h_s_request [] h)"

lemma forget_simps [simp]:
  "forget (h_chunk z h) = forget h"
  "forget (h_s_request s h) = forget h"
  "forget (forget h) = forget h"
  by (simp_all add: forget_def h_chunk_def h_s_request_def client_simps)

lemma forget_all_recv: "forget (h_all_recv h) = h_all_recv (forget h)"
  by (simp add: forget_def h_chunk_def h_s_request_def h_all_recv_def client_simps)

lemma upload_dir_chunk:
  "upload_dir os dir (h_chunk z h) = map_prod id (h_chunk z) (upload_dir os dir h)"
  by (simp add: upload_dir_def h_chunk_def h_error_def split: option.split)

lemma get_file_name_chunk:
  "get_file_name os (h_chunk z h) = rmap (map_prod id (h_chunk z)) (get_file_name os h)"
proof -
  have c: "hs_cl (h_chunk z h) = hs_cl h" by (simp add: h_chunk_def)
  show ?thesis
    by (cases "current_route (cl_server (hs_cl h))")
       (simp_all add: get_file_name_def c upload_dir_chunk)
qed

lemma post_write_chunk: "post_write os p (h_chunk z h) = rmap (h_chunk z) (post_write os p h)"
  by (simp add: post_write_def h_chunk_def h_file_def h_all_recv_def Let_def split: option.split)

lemma post_more_chunk: "post_more os p (h_chunk z h) = rmap (h_chunk z) (post_more os p h)"
  by (cases "os_append os (c_str p) (rq_s_request (h_req h)) (hs_world h)")
    (simp_all add: post_more_def post_write_chunk, simp_all add: h_chunk_def h_file_def)

lemma hanlde_post_request_chunk:
  "hanlde_post_request os (h_chunk z h) = rmap (h_chunk z) (hanlde_post_request os h)"
proof (cases "st_first (hs_st h)")
  case True
  then have t: "st_first (hs_st (h_chunk z h))" "h_req (h_chunk z h) = h_req h"
    by (simp_all add: h_chunk_def)
  show ?thesis
  proof (cases "rq_file (h_req h)")
    case None
    with True t show ?thesis by (simp add: hanlde_post_request_def) (simp add: h_error_def h_chunk_def)
  next
    case (Some f)
    with True t show ?thesis by (simp add: hanlde_post_request_def post_more_chunk)
  qed
next
  case False
  define h0 where "h0 = h\<lparr>hs_st := (hs_st h)\<lparr>st_first := True\<rparr>\<rparr>"
  have c: "\<not> st_first (hs_st (h_chunk z h))"
    "(h_chunk z h)\<lparr>hs_st := (hs_st (h_chunk z h))\<lparr>st_first := True\<rparr>\<rparr> = h_chunk z h0"
    "h_req (h_chunk z h0) = h_req h0"
    using False by (simp_all add: h_chunk_def h0_def)
  show ?thesis
  proof (cases "get_file_name os h0")
    case (Inl e)
    with False c show ?thesis
      by (simp add: hanlde_post_request_def get_file_name_chunk h0_def [symmetric])
  next
    case (Inr x)
    obtain dirname h1 where x: "x = (dirname, h1)" by (cases x)
    let ?g = "ft_generate_file_names os (hs_world h1) (content_extension (h_req h0)) dirname
                (st_name_index (hs_st h1))"
    have i: "hs_world (h_chunk z h1) = hs_world h1"
      "st_name_index (hs_st (h_chunk z h1)) = st_name_index (hs_st h1)"
      by (simp_all add: h_chunk_def)
    show ?thesis
    proof (cases ?g)
      case None
      with False c Inr x i show ?thesis
        by (simp add: hanlde_post_request_def get_file_name_chunk h0_def [symmetric])
    next
      case (Some y)
      obtain fname j where y: "y = (fname, j)" by (cases y)
      define h2 where "h2 = h1\<lparr>hs_st := (hs_st h1)\<lparr>st_name_index := j\<rparr>\<rparr>"
      have h2: "(h_chunk z h1)\<lparr>hs_st := (hs_st (h_chunk z h1))\<lparr>st_name_index := j\<rparr>\<rparr> = h_chunk z h2"
        "hs_world (h_chunk z h2) = hs_world h2" "h_req (h_chunk z h2) = h_req h2"
        "h_file None (h_chunk z h2) = h_chunk z (h_file None h2)"
        by (simp_all add: h_chunk_def h2_def h_file_def)
      have w: "h_file f ((h_chunk z h2)\<lparr>hs_world := w'\<rparr>) = h_chunk z (h_file f (h2\<lparr>hs_world := w'\<rparr>))"
        for f w' by (simp add: h_chunk_def h_file_def)
      have e: "h_all_recv ((h_chunk z h2)\<lparr>hs_st := (hs_st (h_chunk z h2))\<lparr>st_first := False, st_writed := 0\<rparr>\<rparr>) =
          h_chunk z (h_all_recv (h2\<lparr>hs_st := (hs_st h2)\<lparr>st_first := False, st_writed := 0\<rparr>\<rparr>))"
        by (simp add: h_chunk_def h_all_recv_def)
      show ?thesis
        using False c Inr x i Some y
        by (simp add: hanlde_post_request_def get_file_name_chunk h0_def [symmetric]
            h2_def [symmetric] h2 w e post_write_chunk Let_def split: option.split)
    qed
  qed
qed

lemma rmap_forget_chunk: "rmap forget (rmap (h_chunk z) m) = rmap forget m"
  by (cases m) simp_all

lemma hanlde_forget:
  assumes "forget h = forget k"
  shows "rmap forget (hanlde_post_request os (h_s_request d h)) =
         rmap forget (hanlde_post_request os (h_s_request d k))"
proof -
  have eqn: "h_s_request d g = h_chunk (st_chunk_request (hs_st g)) (h_s_request d (forget g))"
    for g :: "'a hstate" by (simp add: forget_def h_chunk_def h_s_request_def client_simps)
  show ?thesis
    by (subst eqn, subst (2) eqn) (simp add: hanlde_post_request_chunk rmap_forget_chunk assms)
qed

definition forget3 :: "bool \<times> string \<times> 'w hstate \<Rightarrow> bool \<times> string \<times> 'w hstate" where
  "forget3 x = (fst x, fst (snd x), forget (snd (snd x)))"

lemma forget3_simp [simp]: "forget3 (f, r, h) = (f, r, forget h)"
  by (simp add: forget3_def)

lemma rmap_eq_cases:
  assumes "rmap f m = rmap f m'"
  obtains e where "m = Inl e" "m' = Inl e" | x y where "m = Inr x" "m' = Inr y" "f x = f y"
  using assms by (cases m; cases m') auto

lemma chunked_loop_forget:
  "forget h = forget k \<Longrightarrow>
     rmap forget3 (chunked_loop os r h) = rmap forget3 (chunked_loop os r k)"
proof (induction os r h arbitrary: k rule: chunked_loop.induct)
  case (1 os r h)
  show ?case
  proof (cases "str_find crlf r")
    case None
    with "1.prems" show ?thesis by (simp add: chunked_loop.simps [of os r])
  next
    case (Some pos)
    let ?size = "size_of_int (hex_to_int (take (pos + 2) r))"
    let ?tmp = "drop (pos + 2) r"
    consider "length ?tmp < size_add ?size 2" | "\<not> length ?tmp < size_add ?size 2" "?size = 0"
      | "\<not> length ?tmp < size_add ?size 2" "?size \<noteq> 0" by blast
    then show ?thesis
    proof cases
      case 3
      note IH = "1.IH" [OF Some refl refl refl 3]
      have unf: "chunked_loop os r g =
          rbind (hanlde_post_request os (h_s_request (take ?size ?tmp) g)) (\<lambda>h1.
          rbind (substr_from ?tmp (size_add ?size 2)) (\<lambda>request'. chunked_loop os request' h1))" for g
        by (subst chunked_loop.simps) (simp only: Some option.case Let_def 3 if_False)
      from hanlde_forget [OF "1.prems", of os "take ?size ?tmp"] show ?thesis
      proof (cases rule: rmap_eq_cases)
        case (1 e)
        then show ?thesis by (simp only: unf rbind.simps)
      next
        case (2 x y)
        show ?thesis
        proof (cases "substr_from ?tmp (size_add ?size 2)")
          case (Inl e)
          with 2 show ?thesis by (simp only: unf rbind.simps)
        next
          case (Inr req)
          have "rmap forget3 (chunked_loop os req x) = rmap forget3 (chunked_loop os req y)"
            by (rule IH [OF 2(1) Inr 2(3)])
          with 2 Inr show ?thesis by (simp only: unf rbind.simps)
        qed
      qed
    qed (use "1.prems" Some in \<open>simp_all add: chunked_loop.simps [of os r] Let_def forget_all_recv\<close>)
  qed
qed

lemma chunked_as_loop:
  "rmap forget (chunked os (h_s_request s h)) =
   rmap (\<lambda>x. forget (snd (snd x))) (chunked_loop os (st_chunk_request (hs_st h) @ s) (h_s_request s h))"
proof -
  have e: "st_chunk_request (hs_st (h_s_request s h)) @ rq_s_request (h_req (h_s_request s h)) =
      st_chunk_request (hs_st h) @ s" by (simp add: h_s_request_def client_simps)
  show ?thesis
    unfolding chunked_def e
    by (cases "chunked_loop os (st_chunk_request (hs_st h) @ s) (h_s_request s h)")
       (auto simp flip: h_chunk_def)
qed

lemma chunked_step:
  assumes "forget h = forget k"
    and "chunked_loop os (st_chunk_request (hs_st h) @ s) k = Inr (f, r, k1)"
  obtains h1 where "chunked os (h_s_request s h) = Inr h1" "forget h1 = forget k1"
    "st_chunk_request (hs_st h1) = r"
proof -
  have fk: "forget (h_s_request s h) = forget k" using assms(1) by simp
  from chunked_loop_forget [OF fk, of os "st_chunk_request (hs_st h) @ s"] assms(2)
  obtain h2 where l: "chunked_loop os (st_chunk_request (hs_st h) @ s) (h_s_request s h) = Inr (f, r, h2)"
    and f: "forget h2 = forget k1"
    by (cases "chunked_loop os (st_chunk_request (hs_st h) @ s) (h_s_request s h)") auto
  have e: "st_chunk_request (hs_st (h_s_request s h)) @ rq_s_request (h_req (h_s_request s h)) =
      st_chunk_request (hs_st h) @ s" by (simp add: h_s_request_def client_simps)
  have "chunked os (h_s_request s h) = Inr (h_chunk r h2)"
    by (simp add: chunked_def e l h_chunk_def)
  moreover have "forget (h_chunk r h2) = forget k1" using f by simp
  moreover have "st_chunk_request (hs_st (h_chunk r h2)) = r" by (simp add: h_chunk_def)
  ultimately show thesis by (rule that)
qed

lemma chunked_step_err:
  assumes "forget h = forget k"
    and "chunked_loop os (st_chunk_request (hs_st h) @ s) k = Inl e"
  shows "chunked os (h_s_request s h) = Inl e"
proof -
  have fk: "forget (h_s_request s h) = forget k" using assms(1) by simp
  from chunked_loop_forget [OF fk, of os "st_chunk_request (hs_st h) @ s"] assms(2)
  have l: "chunked_loop os (st_chunk_request (hs_st h) @ s) (h_s_request s h) = Inl e"
    by (cases "chunked_loop os (st_chunk_request (hs_st h) @ s) (h_s_request s h)") auto
  have q: "st_chunk_request (hs_st (h_s_request s h)) @ rq_s_request (h_req (h_s_request s h)) =
      st_chunk_request (hs_st h) @ s" by (simp add: h_s_request_def client_simps)
  show ?thesis by (simp add: chunked_def q l)
qed

text \<open>The invariant of a sequence of reads: \<open>p\<close> is what has arrived before.\<close>

lemma chunked_reads_resume:
  assumes ds: "\<forall>d \<in> set ds. chunk_ok d"
    and "p @ concat segs = chunk_stream ds" "\<forall>s \<in> set segs. s \<noteq> []" "segs \<noteq> []"
    and "chunked_loop os p h0 = Inr (False, r, k)"
    and "forget h = forget k" "st_chunk_request (hs_st h) = r"
  shows "rmap forget (chunked_reads os segs h) =
         rmap (\<lambda>x. forget (snd (snd x))) (chunked_loop os (chunk_stream ds) h0)"
  using assms(2-)
proof (induction segs arbitrary: p r k h)
  case Nil
  then show ?case by simp
next
  case (Cons s ss)
  let ?S = "chunk_stream ds"
  let ?p = "p @ s"
  have pS: "prefix p ?S" and psS: "prefix ?p ?S"
    using Cons.prems(1) [symmetric] by simp_all
  have pne: "p \<noteq> ?S" using Cons.prems(1,2) by auto
  from chunk_stream_prefix [OF ds pS] pne have "chunk_sizes_ok p" "unfinished os p h0" by auto
  from chunked_loop_resume [OF this, of s] Cons.prems(4)
  have nxt: "chunked_loop os ?p h0 = chunked_loop os (r @ s) k" by simp
  have rest: "chunked_loop os ?S h0 =
      rbind (chunked_loop os ?p h0) (\<lambda>(f, r', h'). chunked_loop os (r' @ concat ss) h')"
    if "?p \<noteq> ?S"
  proof -
    have "?S = ?p @ concat ss" using Cons.prems(1) by simp
    moreover from chunk_stream_prefix [OF ds psS] that
    have "chunk_sizes_ok ?p" "unfinished os ?p h0" by blast+
    ultimately show ?thesis using chunked_loop_resume [of ?p os h0 "concat ss"] by simp
  qed
  show ?case
  proof (cases "chunked_loop os (r @ s) k")
    case (Inl e)
    have "chunked os (h_s_request s h) = Inl e"
      using chunked_step_err [OF Cons.prems(5)] Inl Cons.prems(6) by simp
    moreover have "chunked_loop os ?S h0 = Inl e"
      using rest nxt Inl by (cases "?p = ?S") auto
    ultimately show ?thesis by simp
  next
    case (Inr x)
    obtain f r1 k1 where x: "x = (f, r1, k1)" by (cases x)
    from chunked_step [OF Cons.prems(5)] Inr x Cons.prems(6) obtain h1
      where h1: "chunked os (h_s_request s h) = Inr h1" "forget h1 = forget k1"
        "st_chunk_request (hs_st h1) = r1" by blast
    show ?thesis
    proof (cases "?p = ?S")
      case True
      have "(p @ s) @ concat ss = chunk_stream ds" using Cons.prems(1) by simp
      then have "chunk_stream ds @ concat ss = chunk_stream ds" by (simp only: True)
      then have "concat ss = []" by (simp only: append_self_conv)
      with Cons.prems(2) have "ss = []" by (cases ss) auto
      with True nxt Inr x h1 show ?thesis by simp
    next
      case False
      with chunk_stream_prefix [OF ds psS] have "unfinished os ?p h0" by blast
      with nxt Inr x have fin: "\<not> f" by (cases f) (auto simp: unfinished_def)
      have ssne: "ss \<noteq> []" using False Cons.prems(1) by auto
      have "rmap forget (chunked_reads os ss h1) =
          rmap (\<lambda>x. forget (snd (snd x))) (chunked_loop os ?S h0)"
      proof (rule Cons.IH [of ?p r1 k1 h1])
        show "chunked_loop os ?p h0 = Inr (False, r1, k1)" using nxt Inr x fin by simp
      qed (use Cons.prems ssne h1 in auto)
      with h1 show ?thesis by simp
    qed
  qed
qed

theorem chunked_reads_decode:
  assumes ds: "\<forall>d \<in> set ds. chunk_ok d" and segs: "concat segs = chunk_stream ds"
    "\<forall>s \<in> set segs. s \<noteq> []" and start: "st_chunk_request (hs_st h) = []"
  shows "rmap forget (chunked_reads os segs h) =
         rmap (\<lambda>h'. forget (h_all_recv h')) (feed_chunks os ds h)"
proof -
  have "chunk_stream ds \<noteq> []" by (simp add: chunk_stream_def last_chunk_def crlf_def)
  with segs(1) have "segs \<noteq> []" by auto
  moreover have "chunked_loop os [] h = Inr (False, [], h)"
    by (subst chunked_loop.simps) (simp add: crlf_def)
  ultimately have "rmap forget (chunked_reads os segs h) =
      rmap (\<lambda>x. forget (snd (snd x))) (chunked_loop os (chunk_stream ds) h)"
    using segs start by (intro chunked_reads_resume [OF ds, of "[]" segs os h "[]" h]) auto
  also have "\<dots> = rmap (\<lambda>h'. forget (h_all_recv h')) (feed_chunks os ds h)"
    using chunked_loop_encoded [OF ds, of os h]
    by (cases "feed_chunks os ds h") (simp_all add: chunk_stream_def)
  finally show ?thesis .
qed

section \<open>The upload itself\<close>

text \<open>
  The contract of the file system that uploads rely on: a created file is empty, appended
  bytes go to its end, and other files do not change.
\<close>

definition file_laws :: "'w os \<Rightarrow> bool" where
  "file_laws os \<longleftrightarrow>
     (\<forall>p w w'. os_create os p w = Some w' \<longrightarrow> os_read os p w' = Some []) \<and>
     (\<forall>p d w w' old. os_append os p d w = Some w' \<longrightarrow> os_read os p w = Some old \<longrightarrow>
        os_read os p w' = Some (old @ d))"

fun post_reads :: "'w os \<Rightarrow> string list \<Rightarrow> 'w hstate \<Rightarrow> 'w hstate res" where
  "post_reads os [] h = Inr h"
| "post_reads os (s # ss) h = rbind (hanlde_post_request os (h_s_request s h)) (post_reads os ss)"

text \<open>An upload in progress: the stream is open and \<open>writed\<close> counts the bytes of the file.\<close>

definition uploading :: "'w os \<Rightarrow> string \<Rightarrow> string \<Rightarrow> nat \<Rightarrow> 'w hstate \<Rightarrow> bool" where
  "uploading os path old n h \<longleftrightarrow>
     st_first (hs_st h) \<and> rq_file (h_req h) = Some path \<and>
     rq_content_length (h_req h) = Some n \<and> st_writed (hs_st h) = length old \<and>
     os_read os (c_str path) (hs_world h) = Some old"

lemma uploading_step:
  assumes laws: "file_laws os" and up: "uploading os path old n h"
    and app: "os_append os (c_str path) s (hs_world h) = Some w'"
  obtains h' where "hanlde_post_request os (h_s_request s h) = Inr h'"
    "hs_world h' = w'" "os_read os (c_str path) w' = Some (old @ s)"
    "length (old @ s) < n \<Longrightarrow> uploading os path (old @ s) n h' \<and>
       cl_all_recv (hs_cl h') = cl_all_recv (hs_cl h)"
    "length (old @ s) \<ge> n \<Longrightarrow> cl_all_recv (hs_cl h') \<and> \<not> st_first (hs_st h') \<and>
       st_writed (hs_st h') = 0"
proof -
  have rd: "os_read os (c_str path) w' = Some (old @ s)"
    using laws up app unfolding file_laws_def uploading_def by blast
  have st: "st_first (hs_st (h_s_request s h))" "rq_file (h_req (h_s_request s h)) = Some path"
    "rq_s_request (h_req (h_s_request s h)) = s" "hs_world (h_s_request s h) = hs_world h"
    "rq_content_length (h_req (h_s_request s h)) = Some n" "st_writed (hs_st (h_s_request s h)) = length old"
    using up by (simp_all add: uploading_def h_s_request_def client_simps)
  obtain h' where h': "hanlde_post_request os (h_s_request s h) = Inr h'"
    and e: "h' = (let h1 = (h_s_request s h)\<lparr>hs_world := w',
          hs_st := (hs_st (h_s_request s h))\<lparr>st_writed := length old + length s\<rparr>\<rparr> in
        if length old + length s \<ge> n
        then h_all_recv (h1\<lparr>hs_st := (hs_st h1)\<lparr>st_first := False, st_writed := 0\<rparr>\<rparr>) else h1)"
    using st app by (simp add: hanlde_post_request_def post_more_def post_write_def Let_def)
  show thesis
  proof (rule that [OF h' _ rd])
    show "hs_world h' = w'" by (simp add: e Let_def h_all_recv_def)
  next
    assume "length (old @ s) < n"
    then show "uploading os path (old @ s) n h' \<and> cl_all_recv (hs_cl h') = cl_all_recv (hs_cl h)"
      using up rd by (simp add: e Let_def uploading_def h_s_request_def client_simps)
  next
    assume "length (old @ s) \<ge> n"
    then show "cl_all_recv (hs_cl h') \<and> \<not> st_first (hs_st h') \<and> st_writed (hs_st h') = 0"
      by (simp add: e Let_def h_all_recv_def)
  qed
qed

text \<open>A stream that is closed while \<open>first\<close> is set answers 500 and stays that way.\<close>

lemma post_stuck:
  assumes "st_first (hs_st h)" "rq_file (h_req h) = None"
  shows "hanlde_post_request os h = Inr (h_error os 500 h) \<and>
         st_first (hs_st (h_error os 500 h)) \<and>
         rs_response_status (cl_response (hs_cl (h_error os 500 h))) = Some 500"
  using assms by (simp add: hanlde_post_request_def h_error_def)

end
