(* ===== verification/Multipart.thy ===== *)
theory Multipart
  imports Upload
begin

text \<open>
  Multipart bodies (\<open>request/post_request.cpp\<close>): \<open>create_file\<close> with its three flags,
  \<open>check_if_have_new_boundary\<close> and the state machine \<open>boundary\<close>, whose states are the
  statics \<open>call_count\<close>, \<open>boundary_str\<close>, \<open>processing_file\<close> and the stream of \<open>create_file\<close>.
\<close>

section \<open>create_file\<close>

definition h_part :: "string option \<Rightarrow> 'w hstate \<Rightarrow> 'w hstate" where
  "h_part f h = h\<lparr>hs_st := (hs_st h)\<lparr>st_part_file := f, st_part_bad := False\<rparr>\<rparr>"

definition h_created :: "bool \<Rightarrow> 'w hstate \<Rightarrow> 'w hstate" where
  "h_created b h = h\<lparr>hs_st := (hs_st h)\<lparr>st_file_created := b\<rparr>\<rparr>"

text \<open>
  \<open>file.write(data); file.flush()\<close>: a failed write leaves the stream bad, and nothing is
  written any more until the file is opened again.
\<close>

definition part_write :: "'w os \<Rightarrow> string \<Rightarrow> 'w hstate \<Rightarrow> 'w hstate" where
  "part_write os data h =
     (case st_part_file (hs_st h) of
        None \<Rightarrow> h
      | Some path \<Rightarrow>
          if st_part_bad (hs_st h) then h
          else (case os_append os (c_str path) data (hs_world h) of
                  None \<Rightarrow> h\<lparr>hs_st := (hs_st h)\<lparr>st_part_bad := True\<rparr>\<rparr>
                | Some w' \<Rightarrow> h\<lparr>hs_world := w'\<rparr>))"

text \<open>The lines left after the part's header, glued again with a newline between them.\<close>

fun join_lines :: "string list \<Rightarrow> string" where
  "join_lines [] = []"
| "join_lines [l] = l"
| "join_lines (l # m # ls) = l @ [LF] @ join_lines (m # ls)"

fun skip_part_header :: "string list \<Rightarrow> string list" where
  "skip_part_header [] = []"
| "skip_part_header (l # ls) = (if l = [] \<or> l = [CR] then ls else skip_part_header ls)"

definition create_file_open :: "'w os \<Rightarrow> string \<Rightarrow> string list \<Rightarrow> 'w hstate \<Rightarrow> 'w hstate" where
  "create_file_open os filename ls h =
     (case os_create os (c_str filename) (hs_world h) of
        None \<Rightarrow> h_error os 500 (h_part None h)
      | Some w' \<Rightarrow>
          (let h1 = h_created True (h_part (Some filename) (h\<lparr>hs_world := w'\<rparr>));
               remaining_content = join_lines (skip_part_header ls)
           in if remaining_content \<noteq> [] then part_write os remaining_content h1 else h1))"

definition create_file_new :: "'w os \<Rightarrow> string \<Rightarrow> 'w hstate \<Rightarrow> 'w hstate res" where
  "create_file_new os buffer h =
     (let ls = getlines LF buffer; line = (case ls of [] \<Rightarrow> [] | l # _ \<Rightarrow> l) in
      if str_contains ''Content-Disposition:'' line then
        (case str_find ''filename=\"'' line of
           None \<Rightarrow> Inr (h_error os 415 h)
         | Some p \<Rightarrow>
             (case str_find_from [DQ] line (p + 10) of
                None \<Rightarrow> Inr (h_error os 400 h)
              | Some file_name_end \<Rightarrow>
                  rbind (get_file_name os h) (\<lambda>(dirname, h1).
                    let filename = dirname @ ''/'' @ take (file_name_end - (p + 10)) (drop (p + 10) line)
                    in if filename = [] \<or> dirname = [] then Inr (h_all_recv h1)
                       else Inr (create_file_open os filename (tl ls) h1))))
      else Inr h)"

text \<open>The flag: 2 closes the file, 1 writes to it, 0 starts a new part.\<close>

definition create_file :: "'w os \<Rightarrow> string \<Rightarrow> nat \<Rightarrow> 'w hstate \<Rightarrow> 'w hstate res" where
  "create_file os buffer flag h =
     (if flag = 2 then Inr (h_created False (h_part None h))
      else if flag = 1 then Inr (part_write os buffer h)
      else create_file_new os buffer h)"

section \<open>boundary\<close>

text \<open>
  The position of the next delimiter (\<open>None\<close> for -1); a delimiter followed by two dashes
  ends the body.
\<close>

definition check_if_have_new_boundary ::
  "string \<Rightarrow> string \<Rightarrow> nat \<Rightarrow> 'w hstate \<Rightarrow> nat option \<times> 'w hstate" where
  "check_if_have_new_boundary buffer boundary start_pos h =
     (let b = ''--'' @ boundary in
      if start_pos \<ge> length buffer then (None, h)
      else (case str_find_from b buffer start_pos of
              None \<Rightarrow> (None, h)
            | Some pos \<Rightarrow>
                (let e = pos + length b in
                 (Some pos,
                  if e + 1 < length buffer \<and> buffer ! e = CHR ''-'' \<and> buffer ! (e + 1) = CHR ''-''
                  then h_all_recv h else h))))"

definition h_processing :: "bool \<Rightarrow> 'w hstate \<Rightarrow> 'w hstate" where
  "h_processing b h = h\<lparr>hs_st := (hs_st h)\<lparr>st_processing_file := b\<rparr>\<rparr>"

text \<open>Behind a delimiter at the start of the buffer a CR and a LF are skipped.\<close>

definition skip_delimiter :: "string \<Rightarrow> string \<Rightarrow> nat" where
  "skip_delimiter boundary buffer =
     (let n0 = length (''--'' @ boundary);
          n1 = (if n0 < length buffer \<and> buffer ! n0 = CR then n0 + 1 else n0)
      in if n1 < length buffer \<and> buffer ! n1 = LF then n1 + 1 else n1)"

definition strip_crlf :: "string \<Rightarrow> string" where
  "strip_crlf s = (if length s \<ge> 2 \<and> drop (length s - 2) s = crlf then take (length s - 2) s else s)"

text \<open>Handing bytes on: as the start of a part, or as more of the open one.\<close>

definition boundary_data :: "'w os \<Rightarrow> string \<Rightarrow> 'w hstate \<Rightarrow> 'w hstate res" where
  "boundary_data os data h =
     (if \<not> st_processing_file (hs_st h)
      then rbind (create_file os data 0 h) (\<lambda>h1. Inr (h_processing True h1))
      else create_file os data 1 h)"

lemma skip_delimiter_ge: "2 \<le> skip_delimiter boundary buffer"
  by (simp add: skip_delimiter_def Let_def)

text \<open>The loop; it ends when no delimiter is left, and the buffer is then empty.\<close>

function boundary_loop :: "'w os \<Rightarrow> string \<Rightarrow> string \<Rightarrow> 'w hstate \<Rightarrow> 'w hstate res" where
  "boundary_loop os bstr buffer h =
     (case check_if_have_new_boundary buffer bstr 0 h of
        (None, h1) \<Rightarrow> boundary_data os buffer h1
      | (Some pos, h1) \<Rightarrow>
          if pos = 0 then
            rbind (if st_processing_file (hs_st h1)
                   then rbind (create_file os buffer 2 h1) (\<lambda>h2. Inr (h_processing False h2))
                   else Inr h1)
              (\<lambda>h2. if skip_delimiter bstr buffer > length buffer then Inl Out_of_range
                    else boundary_loop os bstr (drop (skip_delimiter bstr buffer) buffer) h2)
          else
            rbind (boundary_data os (strip_crlf (take pos buffer)) h1) (\<lambda>h2.
            rbind (create_file os (strip_crlf (take pos buffer)) 2 h2) (\<lambda>h3.
            boundary_loop os bstr (drop pos buffer) (h_processing False h3))))"
  by pat_completeness auto
termination
  by (relation "measure (\<lambda>(os, bstr, buffer, h). length buffer)")
     (auto simp: check_if_have_new_boundary_def Let_def str_find_from_def
        split: if_splits option.splits dest: str_find_bound
        intro!: diff_less less_le_trans [OF _ skip_delimiter_ge])

declare boundary_loop.simps [simp del]

text \<open>The first line of a body names the delimiter; \<open>None\<close> where the function returns.\<close>

definition first_delimiter :: "string \<Rightarrow> (string \<times> string) option" where
  "first_delimiter buffer =
     (case str_find [LF] buffer of
        None \<Rightarrow> None
      | Some e \<Rightarrow>
          (let l0 = take e buffer;
               l = (if l0 \<noteq> [] \<and> last l0 = CR then butlast l0 else l0)
           in if length l > 2 \<and> take 2 l = ''--'' then Some (drop 2 l, drop (e + 1) buffer)
              else None))"

definition h_buffer :: "string \<Rightarrow> 'w hstate \<Rightarrow> 'w hstate" where
  "h_buffer b h = h\<lparr>hs_st := (hs_st h)\<lparr>st_buffer := b\<rparr>\<rparr>"

definition boundary_reset :: "'w hstate \<Rightarrow> 'w hstate" where
  "boundary_reset h = h\<lparr>hs_st := (hs_st h)\<lparr>st_buffer := [], st_boundary_str := [],
     st_call_count := 0, st_processing_file := False\<rparr>\<rparr>"

definition boundary_run :: "'w os \<Rightarrow> string \<Rightarrow> 'w hstate \<Rightarrow> 'w hstate res" where
  "boundary_run os buffer h0 =
     (let h = h0\<lparr>hs_st := (hs_st h0)\<lparr>st_call_count := st_call_count (hs_st h0) + 1\<rparr>\<rparr> in
      rbind (boundary_loop os (st_boundary_str (hs_st h)) buffer h) (\<lambda>h1.
        let h2 = h_buffer [] h1 in
        if cl_all_recv (hs_cl h2) then
          rbind (if st_processing_file (hs_st h2) then create_file os [] 2 h2 else Inr h2)
            (\<lambda>h3. Inr (boundary_reset h3))
        else Inr h2))"

definition boundary :: "'w os \<Rightarrow> 'w hstate \<Rightarrow> 'w hstate res" where
  "boundary os h =
     (let buffer = st_buffer (hs_st h) @ rq_s_request (h_req h) in
      if st_call_count (hs_st h) = 0 then
        (case first_delimiter buffer of
           None \<Rightarrow> Inr (h_buffer buffer h)
         | Some (bstr, rest) \<Rightarrow>
             boundary_run os rest (h\<lparr>hs_st := (hs_st h)\<lparr>st_boundary_str := bstr\<rparr>\<rparr>))
      else boundary_run os buffer h)"

section \<open>The parts of a body\<close>

lemma join_lines_getlines:
  "join_lines (getlines LF s) = (if s \<noteq> [] \<and> last s = LF then butlast s else s)"
proof (induction LF s rule: getlines.induct)
  case 1
  then show ?case by simp
next
  case (2 x xs)
  let ?s = "x # xs" and ?P = "\<lambda>c. c \<noteq> LF"
  show ?case
  proof (cases "LF \<in> set ?s")
    case False
    then have tw: "takeWhile ?P ?s = ?s" and dw: "dropWhile ?P ?s = []"
      by (simp_all only: takeWhile_eq_all_conv dropWhile_eq_Nil_conv) auto
    have "getlines LF ?s = [?s]" by (simp only: getlines.simps(2) tw dw list.sel getlines.simps(1))
    moreover have "last ?s \<noteq> LF" using False last_in_set [of ?s] by auto
    ultimately show ?thesis by simp
  next
    case True
    then obtain a b where s: "?s = a @ LF # b" and a: "LF \<notin> set a"
      by (meson split_list_first)
    have tw: "takeWhile ?P ?s = a" and dw: "dropWhile ?P ?s = LF # b"
      using a unfolding s by (simp_all add: takeWhile_append dropWhile_append)
    have g: "getlines LF ?s = a # getlines LF b"
      by (simp only: getlines.simps(2) tw dw list.sel)
    have IH: "join_lines (getlines LF b) = (if b \<noteq> [] \<and> last b = LF then butlast b else b)"
      using 2 dw by simp
    show ?thesis
    proof (cases "b = []")
      case True
      have "join_lines (getlines LF ?s) = a" unfolding g True by simp
      then show ?thesis unfolding s True by simp
    next
      case False
      then obtain l ls where gb: "getlines LF b = l # ls" by (cases b) (auto simp: getlines.simps(2))
      have "join_lines (getlines LF ?s) = a @ [LF] @ join_lines (getlines LF b)"
        unfolding g gb by simp
      with IH False show ?thesis unfolding s by (simp add: butlast_append)
    qed
  qed
qed

text \<open>
  The content of a part: everything behind the blank line, but without a final newline
  of its own.
\<close>

lemma skip_part_header_lines:
  "\<forall>l \<in> set hs. l \<noteq> [] \<and> l \<noteq> [CR] \<Longrightarrow> skip_part_header (hs @ [CR] # ls) = ls"
  by (induction hs) auto

lemma getlines_lines:
  "\<forall>l \<in> set hs. LF \<notin> set l \<Longrightarrow>
     getlines LF (concat (map (\<lambda>l. l @ [LF]) hs) @ b) = hs @ getlines LF b"
proof (induction hs)
  case (Cons l hs)
  have "getlines LF (l @ LF # (concat (map (\<lambda>l. l @ [LF]) hs) @ b)) =
      l # getlines LF (concat (map (\<lambda>l. l @ [LF]) hs) @ b)"
    using Cons.prems by (intro getlines_piece) simp
  with Cons show ?case by simp
qed simp

definition part_text :: "string \<Rightarrow> string list \<Rightarrow> string \<Rightarrow> string" where
  "part_text name hs data =
     ''Content-Disposition: form-data; filename=\"'' @ name @ [DQ, CR, LF] @
     concat (map (\<lambda>l. l @ [LF]) hs) @ [CR, LF] @ data"

definition stored_data :: "string \<Rightarrow> string" where
  "stored_data data = (if data \<noteq> [] \<and> last data = LF then butlast data else data)"

definition name_ok :: "string \<Rightarrow> bool" where
  "name_ok name \<longleftrightarrow> DQ \<notin> set name \<and> LF \<notin> set name"

lemma part_lines:
  assumes "name_ok name" "\<forall>l \<in> set hs. LF \<notin> set l"
  shows "getlines LF (part_text name hs data) =
     (''Content-Disposition: form-data; filename=\"'' @ name @ [DQ, CR]) # hs @ [CR] # getlines LF data"
proof -
  let ?d = "''Content-Disposition: form-data; filename=\"'' @ name @ [DQ, CR]"
  have e: "part_text name hs data =
      concat (map (\<lambda>l. l @ [LF]) (?d # hs @ [[CR]])) @ data"
    by (simp add: part_text_def)
  have "\<forall>l \<in> set (?d # hs @ [[CR]]). LF \<notin> set l" using assms by (auto simp: name_ok_def)
  from getlines_lines [OF this, of data] show ?thesis unfolding e by simp
qed

lemma disposition_line:
  assumes "name_ok name"
  defines "line \<equiv> ''Content-Disposition: form-data; filename=\"'' @ name @ [DQ, CR]"
  shows "str_contains ''Content-Disposition:'' line"
    and "str_find ''filename=\"'' line = Some 32"
    and "str_find_from [DQ] line 42 = Some (42 + length name)"
    and "take (length name) (drop 42 line) = name"
proof -
  show "str_contains ''Content-Disposition:'' line"
    by (simp add: str_contains_def line_def)
  show "str_find ''filename=\"'' line = Some 32" by (simp add: line_def)
  have d: "drop 42 line = name @ DQ # [CR]" by (simp add: line_def)
  moreover have "str_find [DQ] (name @ DQ # [CR]) = Some (length name)"
    using assms by (intro str_find_char_append) (simp add: name_ok_def)
  ultimately show "str_find_from [DQ] line 42 = Some (42 + length name)"
    by (simp add: str_find_from_def line_def)
  show "take (length name) (drop 42 line) = name" by (simp add: d)
qed

lemma create_file_part:
  assumes "name_ok name" "\<forall>l \<in> set hs. LF \<notin> set l \<and> l \<noteq> [] \<and> l \<noteq> [CR]"
    and "get_file_name os h = Inr (dirname, h1)" "dirname \<noteq> []"
    and "os_create os (c_str (dirname @ ''/'' @ name)) (hs_world h1) = Some w1"
  shows "create_file os (part_text name hs data) 0 h =
     Inr (let h2 = h_created True (h_part (Some (dirname @ ''/'' @ name)) (h1\<lparr>hs_world := w1\<rparr>))
          in if stored_data data \<noteq> [] then part_write os (stored_data data) h2 else h2)"
proof -
  have ls: "\<forall>l \<in> set hs. LF \<notin> set l" "\<forall>l \<in> set hs. l \<noteq> [] \<and> l \<noteq> [CR]" using assms(2) by auto
  have "create_file os (part_text name hs data) 0 h =
      Inr (create_file_open os (dirname @ ''/'' @ name) (hs @ [CR] # getlines LF data) h1)"
    using disposition_line [OF assms(1)] assms(3,4)
    by (simp add: create_file_def create_file_new_def part_lines [OF assms(1) ls(1)] Let_def
        del: append_Cons str_find.simps)
  then show ?thesis
    using assms(5)
    by (simp add: create_file_open_def skip_part_header_lines [OF ls(2)] join_lines_getlines
        stored_data_def Let_def)
qed

section \<open>A whole body in one read\<close>

definition one_part_body :: "string \<Rightarrow> string \<Rightarrow> string" where
  "one_part_body b part = ''--'' @ b @ crlf @ part @ crlf @ ''--'' @ b @ ''--'' @ crlf"

definition delimiter_ok :: "string \<Rightarrow> string \<Rightarrow> bool" where
  "delimiter_ok b part \<longleftrightarrow> b \<noteq> [] \<and> CR \<notin> set b \<and> LF \<notin> set b \<and>
     str_find (''--'' @ b) (part @ crlf @ ''--'' @ b @ ''--'' @ crlf) = Some (length part + 2)"

lemma first_delimiter_body:
  assumes "delimiter_ok b part"
  shows "first_delimiter (one_part_body b part) =
     Some (b, part @ crlf @ ''--'' @ b @ ''--'' @ crlf)"
proof -
  let ?r = "part @ crlf @ ''--'' @ b @ ''--'' @ crlf"
  let ?l = "''--'' @ b @ [CR]"
  have e: "one_part_body b part = ?l @ LF # ?r" by (simp add: one_part_body_def crlf_def)
  have "LF \<notin> set ?l" using assms by (simp add: delimiter_ok_def)
  from str_find_char_append [OF this, of ?r]
  have f: "str_find [LF] (one_part_body b part) = Some (length ?l)" unfolding e .
  have t: "take (length ?l) (one_part_body b part) = ?l" unfolding e by simp
  have d: "drop (length ?l + 1) (one_part_body b part) = ?r" unfolding e by simp
  have l: "last ?l = CR" "butlast ?l = ''--'' @ b" "?l \<noteq> []" by (simp_all add: butlast_append)
  have "length (''--'' @ b) > 2" using assms by (cases b) (auto simp: delimiter_ok_def)
  then show ?thesis
    by (simp only: first_delimiter_def f option.case t d Let_def l simp_thms if_True) simp
qed

text \<open>The buffer that is left when the last delimiter comes up: the delimiter, two dashes, CR LF.\<close>

lemma closing_delimiter:
  assumes "delimiter_ok b part"
  shows "check_if_have_new_boundary (''--'' @ b @ ''--'' @ crlf) b 0 h = (Some 0, h_all_recv h)"
    and "skip_delimiter b (''--'' @ b @ ''--'' @ crlf) = length b + 2"
    and "check_if_have_new_boundary (''--'' @ crlf) b 0 h = (None, h)"
proof -
  have p: "prefix (''--'' @ b) (''--'' @ b @ ''--'' @ crlf)" by simp
  then have "str_find (''--'' @ b) (''--'' @ b @ ''--'' @ crlf) = Some 0"
    by (auto simp: str_find_Some_iff simp del: append_Cons)
  moreover have "(''--'' @ b @ ''--'' @ crlf) ! (length (''--'' @ b)) = CHR ''-''"
    "(''--'' @ b @ ''--'' @ crlf) ! (length (''--'' @ b) + 1) = CHR ''-''"
    by (simp_all add: nth_append)
  ultimately show "check_if_have_new_boundary (''--'' @ b @ ''--'' @ crlf) b 0 h = (Some 0, h_all_recv h)"
    by (simp add: check_if_have_new_boundary_def str_find_from_def Let_def crlf_def
        del: append_Cons str_find.simps)
  show "skip_delimiter b (''--'' @ b @ ''--'' @ crlf) = length b + 2"
    by (simp add: skip_delimiter_def Let_def nth_append)
  obtain c cs where b: "b = c # cs" "c \<noteq> CR" "c \<noteq> LF" "c \<noteq> CHR ''-'' \<or> True"
    using assms by (cases b) (auto simp: delimiter_ok_def)
  have "str_find (''--'' @ b) (''--'' @ crlf) = None"
    using b by (simp add: crlf_def)
  then show "check_if_have_new_boundary (''--'' @ crlf) b 0 h = (None, h)"
    by (simp add: check_if_have_new_boundary_def str_find_from_def Let_def del: append_Cons str_find.simps)
qed

lemma create_file_closing: "create_file os (''--'' @ crlf) 0 h = Inr h"
  by (simp add: create_file_def create_file_new_def crlf_def getlines.simps(2) str_contains_def)

theorem boundary_one_part:
  assumes d: "delimiter_ok b part"
    and start: "st_call_count (hs_st h) = 0" "st_buffer (hs_st h) = []"
      "\<not> st_processing_file (hs_st h)" "rq_s_request (h_req h) = one_part_body b part"
    and part: "create_file os part 0 (h_all_recv
        (h\<lparr>hs_st := (hs_st h)\<lparr>st_boundary_str := b, st_call_count := 1\<rparr>\<rparr>)) = Inr h1"
    and keep: "st_boundary_str (hs_st h1) = b"
  shows "\<exists>h'. boundary os h = Inr h' \<and> hs_world h' = hs_world h1 \<and>
     hs_cl h' = (hs_cl h1)\<lparr>cl_all_recv := True\<rparr> \<and>
     st_call_count (hs_st h') = 0 \<and> st_buffer (hs_st h') = [] \<and>
     st_boundary_str (hs_st h') = [] \<and> \<not> st_processing_file (hs_st h') \<and>
     st_part_file (hs_st h') = None"
proof -
  let ?h0 = "h\<lparr>hs_st := (hs_st h)\<lparr>st_boundary_str := b, st_call_count := 1\<rparr>\<rparr>"
  let ?closing = "''--'' @ b @ ''--'' @ crlf"
  let ?buf = "part @ crlf @ ?closing"
  let ?h3 = "h_processing False (h_created False (h_part None (h_processing True h1)))"
  have np: "\<not> st_processing_file (hs_st (h_all_recv ?h0))" using start by (simp add: h_all_recv_def)
  have "(?buf) ! (length part + 2 + length (''--'' @ b)) = CHR ''-''"
    "(?buf) ! (length part + 2 + length (''--'' @ b) + 1) = CHR ''-''"
    by (simp_all add: nth_append crlf_def)
  then have c1: "check_if_have_new_boundary ?buf b 0 ?h0 = (Some (length part + 2), h_all_recv ?h0)"
    using d by (simp add: check_if_have_new_boundary_def str_find_from_def Let_def delimiter_ok_def
        crlf_def del: append_Cons str_find.simps)
  have st: "strip_crlf (take (length part + 2) ?buf) = part"
    by (simp add: strip_crlf_def crlf_def)
  have dr: "drop (length part + 2) ?buf = ?closing" by (simp add: crlf_def)
  have l1: "boundary_loop os b ?buf ?h0 = boundary_loop os b ?closing ?h3"
    using np part
    by (subst boundary_loop.simps)
      (simp only: c1 prod.case option.case st dr boundary_data_def rbind.simps create_file_def,
       simp add: create_file_def)
  have n3: "\<not> st_processing_file (hs_st (h_all_recv ?h3))"
    by (simp add: h_all_recv_def h_processing_def)
  have dr2: "drop (length b + 2) ?closing = ''--'' @ crlf" by simp
  have le: "\<not> length b + 2 > length ?closing" by simp
  have l2: "boundary_loop os b ?closing ?h3 = boundary_loop os b (''--'' @ crlf) (h_all_recv ?h3)"
    by (subst boundary_loop.simps)
      (simp only: closing_delimiter [OF d] prod.case option.case n3 if_False if_True rbind.simps
        le dr2 simp_thms)
  have l3: "boundary_loop os b (''--'' @ crlf) (h_all_recv ?h3) = Inr (h_processing True (h_all_recv ?h3))"
    by (subst boundary_loop.simps)
      (simp only: closing_delimiter [OF d] prod.case option.case boundary_data_def n3
        create_file_closing rbind.simps if_True simp_thms)
  have loop: "boundary_loop os b ?buf ?h0 = Inr (h_processing True (h_all_recv ?h3))"
    using l1 l2 l3 by simp
  have "boundary os h = boundary_run os ?buf (h\<lparr>hs_st := (hs_st h)\<lparr>st_boundary_str := b\<rparr>\<rparr>)"
    using start first_delimiter_body [OF d] by (simp add: boundary_def del: append_Cons)
  also have "\<dots> = Inr (boundary_reset (h_created False (h_part None
      (h_buffer [] (h_processing True (h_all_recv ?h3))))))"
  proof -
    let ?k = "h\<lparr>hs_st := (hs_st h)\<lparr>st_boundary_str := b\<rparr>\<rparr>"
    have k: "?k\<lparr>hs_st := (hs_st ?k)\<lparr>st_call_count := st_call_count (hs_st ?k) + 1\<rparr>\<rparr> = ?h0"
      "st_boundary_str (hs_st ?h0) = b" using start(1) by simp_all
    have q: "cl_all_recv (hs_cl (h_buffer [] (h_processing True (h_all_recv ?h3))))"
      "st_processing_file (hs_st (h_buffer [] (h_processing True (h_all_recv ?h3))))"
      by (simp_all add: h_buffer_def h_processing_def h_all_recv_def)
    show ?thesis
      by (simp only: boundary_run_def Let_def k loop rbind.simps q if_True create_file_def, simp)
  qed
  finally show ?thesis
    by (simp add: boundary_reset_def h_created_def h_part_def h_buffer_def h_processing_def
        h_all_recv_def)
qed

end
