(* ===== verification/Cgi.thy ===== *)
theory Cgi
  imports Multipart
begin

text \<open>
  Running a script: \<open>cgi.cpp\<close> and \<open>check_if_have_cgi\<close> (\<open>request/tools.cpp\<close>).  What the
  operating system does in one call of \<open>exec_script\<close> (the pipes, the fork, the clock, the
  results of \<open>write\<close> and \<open>read\<close>, the exit status, the effect of the script on the file
  system) is a value of \<open>cgi_run\<close>; a \<open>runner\<close> yields it for the arguments of the call.
\<close>

section \<open>The output of the script\<close>

text \<open>The \<open>int\<close> of \<open>check_status\<close> keeps its indeterminate value when the word is no number.\<close>

definition check_status :: "string \<Rightarrow> int res" where
  "check_status header =
     (let words = words_of header in
      if words \<noteq> [] \<and> hd words = ''Status:'' \<and> length words \<ge> 2
      then (case fst (read_int32 (words ! 1)) of None \<Rightarrow> Inl Undefined | Some n \<Rightarrow> Inr n)
      else Inr 0)"

definition check_content :: "string \<Rightarrow> (int \<times> string) res" where
  "check_content content =
     (case str_find (crlf @ crlf) content of
        None \<Rightarrow> Inr (0, content)
      | Some pos \<Rightarrow> rbind (check_status (take pos content))
          (\<lambda>status. Inr (status, drop (pos + 4) content)))"

text \<open>1 for a \<open>.php\<close> script, 2 for a \<open>.py\<close> script, 0 for anything else.\<close>

definition check_extension :: "string \<Rightarrow> int" where
  "check_extension full_path =
     (if length full_path \<ge> 4 then
        (let extension = drop (length full_path - 4) full_path in
         if extension \<noteq> ''.php'' then (if drop 1 extension = ''.py'' then 2 else 0) else 1)
      else 0)"

section \<open>exec_script\<close>

datatype wait_status = Exited int | Signaled int | Other_wait

text \<open>
  \<open>cg_writes\<close> and \<open>cg_reads\<close> are the rounds of the two loops: the seconds since the start,
  and what \<open>write\<close> returns or what \<open>read\<close> yields (\<open>None\<close> for -1, no byte for the end of
  the output).  A loop that needs a round more than the list has is still running.  \<open>cg_wait\<close> is
  what \<open>waitpid\<close> reports, \<open>None\<close> when the script never ends: the call waits for it without a limit.
\<close>

record 'w cgi_run =
  cg_pipe :: bool
  cg_input_pipe :: bool
  cg_fork :: bool
  cg_writes :: "(int \<times> int) list"
  cg_reads :: "(int \<times> string option) list"
  cg_wait :: "wait_status option"
  cg_world :: 'w

type_synonym 'w runner = "string \<Rightarrow> string \<Rightarrow> string list \<Rightarrow> string \<Rightarrow> 'w \<Rightarrow> 'w cgi_run"

definition CGI_TIMEOUT :: int where
  "CGI_TIMEOUT = 5"

datatype outcome = Completed | Timed_out | Still_running

text \<open>A negative result of \<open>write\<close> starts the next round, like the result zero.\<close>

fun write_loop :: "(int \<times> int) list \<Rightarrow> nat \<Rightarrow> nat \<Rightarrow> outcome" where
  "write_loop rounds total_written data_size =
     (if total_written < data_size then
        (case rounds of
           [] \<Rightarrow> Still_running
         | (t, written) # rounds' \<Rightarrow>
             if t > CGI_TIMEOUT then Timed_out
             else if written > 0 then write_loop rounds' (total_written + nat written) data_size
             else write_loop rounds' total_written data_size)
      else Completed)"

declare write_loop.simps [simp del]

fun read_loop :: "(int \<times> string option) list \<Rightarrow> string \<Rightarrow> outcome \<times> string" where
  "read_loop [] content = (Still_running, content)"
| "read_loop ((t, n) # rounds) content =
     (if t > CGI_TIMEOUT then (Timed_out, content)
      else (case n of
              None \<Rightarrow> read_loop rounds content
            | Some bytes \<Rightarrow> if bytes \<noteq> [] then read_loop rounds (content @ bytes) else (Completed, content)))"

text \<open>What follows the loops: the exit status, then the header block of a PHP script.\<close>

definition exec_finish :: "'w os \<Rightarrow> string \<Rightarrow> wait_status \<Rightarrow> string \<Rightarrow> 'w hstate \<Rightarrow> (int \<times> 'w hstate) res" where
  "exec_finish os full_path status content h =
     (case status of
        Signaled _ \<Rightarrow> Inr (1, h_error os 500 h)
      | _ \<Rightarrow>
        if status = Exited 1 then Inr (1, h_error os 500 h)
        else if status = Exited 2 then Inr (2, h_error os 404 h)
        else rbind (if check_extension full_path = 1 then check_content content else Inr (0, content))
          (\<lambda>(st, content').
            if st = 500 then Inr (1, h_error os 500 h)
            else if st = 404 then Inr (2, h_error os 404 h)
            else Inr (0, h\<lparr>hs_cl := set_response (rs_response (cl_response (hs_cl h)) @ content') (hs_cl h)\<rparr>)))"

definition exec_script :: "'w os \<Rightarrow> 'w runner \<Rightarrow> string \<Rightarrow> string list \<Rightarrow> string \<Rightarrow> string \<Rightarrow> 'w hstate \<Rightarrow>
    (int \<times> 'w hstate) res" where
  "exec_script os run full_path envp interpreter post_data h =
     (let r = run interpreter (c_str full_path) envp post_data (hs_world h) in
      if \<not> cg_pipe r then Inr (-1, h)
      else if post_data \<noteq> [] \<and> \<not> cg_input_pipe r then Inr (-1, h)
      else if \<not> cg_fork r then Inr (-1, h)
      else
        (let h1 = h\<lparr>hs_world := cg_world r\<rparr> in
         case write_loop (cg_writes r) 0 (length post_data) of
           Still_running \<Rightarrow> Inl No_return
         | Timed_out \<Rightarrow> Inr (3, h_error os 504 h1)
         | Completed \<Rightarrow>
             (case read_loop (cg_reads r) [] of
                (Still_running, _) \<Rightarrow> Inl No_return
              | (Timed_out, _) \<Rightarrow> Inr (3, h_error os 504 h1)
              | (Completed, content) \<Rightarrow>
                  (case cg_wait r of
                     None \<Rightarrow> Inl No_return
                   | Some status \<Rightarrow> exec_finish os full_path status content h1))))"

section \<open>The environment\<close>

definition convert_to_up :: "string \<Rightarrow> string" where
  "convert_to_up key = map (\<lambda>c. if c = CHR ''-'' then CHR ''_'' else to_upper c) key"

text \<open>\<open>strcpy\<close> copies each variable up to its first NUL.\<close>

definition header_variables :: "(string, string) std_map \<Rightarrow> string list" where
  "header_variables m =
     [c_str (convert_to_up k @ ''='' @ v). (k, v) \<leftarrow> m,
        convert_to_up k = ''CONTENT_TYPE'' \<or> convert_to_up k = ''CONTENT_LENGTH'']"

definition get_env :: "(string, string) std_map \<Rightarrow> string \<Rightarrow> string \<Rightarrow> string \<Rightarrow> string list" where
  "get_env m full_path method sn =
     header_variables m @
     [''REDIRECT_STATUS=200'', ''GATEWAY_INTERFACE=CGI/1.1'', c_str (''REQUEST_METHOD='' @ method),
      c_str (''SCRIPT_FILENAME='' @ full_path), c_str (''SCRIPT_NAME='' @ sn)]"

definition cgi_handler :: "'w os \<Rightarrow> 'w runner \<Rightarrow> string \<Rightarrow> string \<Rightarrow> 'w hstate \<Rightarrow> (int \<times> 'w hstate) res" where
  "cgi_handler os run body sn h =
     (let full_path = rq_path (h_req h);
          env = get_env (rq_headers_map (h_req h)) full_path (rq_method (h_req h)) sn;
          code = check_extension full_path
      in if code > 0 then
           exec_script os run full_path env
             (if code = 1 then ''/usr/bin/php-cgi'' else ''/usr/bin/python3'') body h
         else Inr (0, h))"

section \<open>check_if_have_cgi\<close>

definition h_body_location :: "string \<Rightarrow> 'w hstate \<Rightarrow> 'w hstate" where
  "h_body_location s h = h\<lparr>hs_st := (hs_st h)\<lparr>st_body_cgi_location := s\<rparr>\<rparr>"

definition h_body :: "string \<Rightarrow> 'w hstate \<Rightarrow> 'w hstate" where
  "h_body s h = h\<lparr>hs_st := (hs_st h)\<lparr>st_body_cgi := s\<rparr>\<rparr>"

definition cgi_ready :: "'w hstate \<Rightarrow> 'w hstate" where
  "cgi_ready h =
     (if cl_keep_alive (hs_cl h)
      then h\<lparr>hs_cl := set_response_status 200 (set_response_index True (hs_cl h))\<rparr> else h)"

lemmas cgi_updates [h_simps] = h_body_location_def h_body_def cgi_ready_def

text \<open>
  The two copies of the POST code differ only in the \<open>body_cgi\<close> they collect the body in,
  so they are one definition over its selector and its update.
\<close>

definition cgi_post :: "'w os \<Rightarrow> 'w runner \<Rightarrow> string \<Rightarrow> (statics \<Rightarrow> string) \<Rightarrow>
    (string \<Rightarrow> 'w hstate \<Rightarrow> 'w hstate) \<Rightarrow> 'w hstate \<Rightarrow> 'w hstate res" where
  "cgi_post os run path body set_body h =
     (if get_map_values ''Transfer-Encoding'' (h_req h) = ''chunked'' then
        rbind (chunked_for_cgi h) (\<lambda>(tmp, h1).
          (let h2 = set_body (body (hs_st h1) @ tmp) h1 in
           if cl_all_recv (hs_cl h2) then
             rbind (cgi_handler os run (body (hs_st h2)) path h2) (\<lambda>(_, h3). Inr (set_body [] h3))
           else Inr h2))
      else
        (let h1 = set_body (body (hs_st h) @ rq_s_request (h_req h)) h in
         case rq_content_length (h_req h1) of
           None \<Rightarrow> Inl Undefined
         | Some n \<Rightarrow>
             if n = length (body (hs_st h1)) then
               rbind (cgi_handler os run (body (hs_st h1)) path h1)
                 (\<lambda>(_, h2). Inr (h_all_recv (set_body [] h2)))
             else Inr h1))"

text \<open>The loop over the CGI extensions of the location; the flag says that it returned early.\<close>

fun cgi_location_loop :: "'w os \<Rightarrow> 'w runner \<Rightarrow> string \<Rightarrow> string \<Rightarrow> string list \<Rightarrow> bool \<Rightarrow> 'w hstate \<Rightarrow>
    (bool \<times> 'w hstate) res" where
  "cgi_location_loop os run path ex [] bol h = Inr (bol, h)"
| "cgi_location_loop os run path ex (v # vec) bol h =
     (if v = ex then
        (if rq_method (h_req h) = ''POST'' then
           rbind (cgi_post os run path st_body_cgi_location h_body_location h)
             (\<lambda>h1. cgi_location_loop os run path ex vec True (cgi_ready h1))
         else if rq_method (h_req h) = ''GET'' then
           rbind (cgi_handler os run [] path (h_all_recv h))
             (\<lambda>(_, h1). cgi_location_loop os run path ex vec True (cgi_ready h1))
         else Inr (True, h_error os 415 h))
      else cgi_location_loop os run path ex vec bol h)"

definition is_script :: "string \<Rightarrow> bool" where
  "is_script path =
     (case find_last CHR ''.'' path of
        None \<Rightarrow> False
      | Some pos \<Rightarrow> drop pos path = ''.php'' \<or> drop pos path = ''.py'')"

definition check_if_have_cgi :: "'w os \<Rightarrow> 'w runner \<Rightarrow> 'w hstate \<Rightarrow> (bool \<times> 'w hstate) res" where
  "check_if_have_cgi os run h =
     (let path = rq_path (h_req h) in
      case find_last CHR ''.'' path of
        None \<Rightarrow> Inr (False, h)
      | Some pos \<Rightarrow>
          (let ex = drop pos path in
           if ex = ''.php'' \<or> ex = ''.py'' then
             (if is_location_url (cl_server (hs_cl h)) > -1 then
                rbind (current_route (cl_server (hs_cl h)))
                  (\<lambda>r. cgi_location_loop os run path ex (rb_cgi_extension r) False h)
              else if rq_method (h_req h) = ''POST'' then
                rbind (cgi_post os run path st_body_cgi h_body h) (\<lambda>h1. Inr (True, cgi_ready h1))
              else if rq_method (h_req h) = ''GET'' then
                rbind (cgi_handler os run [] path h) (\<lambda>(_, h1). Inr (True, cgi_ready (h_all_recv h1)))
              else Inr (True, h_error os 405 h))
           else Inr (False, h)))"

section \<open>The loops end\<close>

text \<open>Once the clock has passed the limit, neither loop can still be running.\<close>

lemma write_loop_ends:
  "\<exists>r \<in> set rounds. fst r > CGI_TIMEOUT \<Longrightarrow> write_loop rounds n size_n \<noteq> Still_running"
proof (induction rounds arbitrary: n)
  case (Cons r rounds)
  then show ?case by (cases r) (subst write_loop.simps, auto)
qed simp

lemma read_loop_ends:
  "\<exists>r \<in> set rounds. fst r > CGI_TIMEOUT \<Longrightarrow> fst (read_loop rounds content) \<noteq> Still_running"
proof (induction rounds arbitrary: content)
  case (Cons r rounds)
  then show ?case by (cases r) (auto split: option.split)
qed simp

text \<open>Output read within the limit and closed is collected whole, whatever its pieces.\<close>

lemma read_loop_output:
  assumes "\<forall>r \<in> set rounds. fst r \<le> CGI_TIMEOUT \<and> snd r \<noteq> Some []" and "t \<le> CGI_TIMEOUT"
  shows "read_loop (rounds @ (t, Some []) # later) content =
      (Completed, content @ concat (map (\<lambda>r. case snd r of None \<Rightarrow> [] | Some b \<Rightarrow> b) rounds))"
  using assms(1)
proof (induction rounds arbitrary: content)
  case Nil then show ?case using assms(2) by simp
next
  case (Cons r rounds)
  then show ?case by (cases r) (auto split: option.split)
qed

section \<open>Responses of the script\<close>

lemma words_of_not_blank: "x \<in> set (words_of s) \<Longrightarrow> dropWhile is_space x \<noteq> []"
proof (induction s rule: words_of.induct)
  case (1 s)
  show ?case
  proof (cases "dropWhile is_space s = []")
    case True with 1 show ?thesis by simp
  next
    case False
    from False have "\<not> is_space (hd (dropWhile is_space s))" by (rule hd_dropWhile)
    with False obtain c r where d: "dropWhile is_space s = c # r" "\<not> is_space c"
      by (cases "dropWhile is_space s") auto
    from 1(2) False have "x = takeWhile (\<lambda>c. \<not> is_space c) (c # r) \<or>
        x \<in> set (words_of (dropWhile (\<lambda>c. \<not> is_space c) (c # r)))"
      by (subst (asm) words_of_step [OF False]) (simp add: d)
    then show ?thesis
    proof
      assume "x = takeWhile (\<lambda>c. \<not> is_space c) (c # r)"
      with d show ?thesis by simp
    next
      assume "x \<in> set (words_of (dropWhile (\<lambda>c. \<not> is_space c) (c # r)))"
      with 1(1) [OF False] d show ?thesis by simp
    qed
  qed
qed

lemma read_int32_some: "dropWhile is_space s \<noteq> [] \<Longrightarrow> \<exists>n. fst (read_int32 s) = Some n"
  by (auto simp: read_int32_def Let_def split: prod.split)

text \<open>So the conversion always finds a word to read, and \<open>status\<close> is never indeterminate.\<close>

lemma check_status_total: "\<exists>n. check_status header = Inr n"
proof (cases "length (words_of header) \<ge> 2")
  case True
  then have "words_of header ! 1 \<in> set (words_of header)" by simp
  from read_int32_some [OF words_of_not_blank [OF this]]
  show ?thesis by (auto simp: check_status_def Let_def)
qed (simp add: check_status_def Let_def)

lemma check_content_total: "\<exists>n c. check_content content = Inr (n, c)"
  using check_status_total by (cases "str_find (crlf @ crlf) content")
    (auto simp: check_content_def, metis rbind.simps(2))

lemma exec_finish_total: "\<exists>n h'. exec_finish os p st content h = Inr (n, h')"
proof -
  obtain s c where "(if check_extension p = 1 then check_content content else Inr (0, content)) = Inr (s, c)"
    using check_content_total [of content] by (cases "check_extension p = 1") auto
  then show ?thesis by (cases st) (auto simp: exec_finish_def)
qed

lemma write_loop_nothing [simp]: "write_loop rounds n 0 = Completed"
  by (subst write_loop.simps) simp

text \<open>A script that has taken its input and closed its output within the time limit, and runs on.\<close>

definition runs_on :: "'w cgi_run \<Rightarrow> string \<Rightarrow> bool" where
  "runs_on r body \<longleftrightarrow> cg_pipe r \<and> (body = [] \<or> cg_input_pipe r) \<and> cg_fork r \<and>
     write_loop (cg_writes r) 0 (length body) = Completed \<and> fst (read_loop (cg_reads r) []) = Completed \<and>
     cg_wait r = None"

lemma exec_script_total:
  assumes "\<exists>r \<in> set (cg_writes (run interp (c_str p) env body (hs_world h))). fst r > CGI_TIMEOUT"
    and "\<exists>r \<in> set (cg_reads (run interp (c_str p) env body (hs_world h))). fst r > CGI_TIMEOUT"
  shows "if runs_on (run interp (c_str p) env body (hs_world h)) body
    then exec_script os run p env interp body h = Inl No_return
    else \<exists>n h'. exec_script os run p env interp body h = Inr (n, h')"
proof -
  let ?r = "run interp (c_str p) env body (hs_world h)"
  from write_loop_ends [OF assms(1)] have w: "write_loop (cg_writes ?r) 0 (length body) \<noteq> Still_running" .
  obtain o' c where l: "read_loop (cg_reads ?r) [] = (o', c)" by (cases "read_loop (cg_reads ?r) []")
  with read_loop_ends [OF assms(2)] have o': "o' \<noteq> Still_running" by (metis fst_conv)
  show ?thesis using w l o' exec_finish_total
    by (auto simp: exec_script_def runs_on_def Let_def split: outcome.split option.split)
qed

section \<open>A body that arrives in pieces\<close>

text \<open>The successive calls for one POST request, each with the bytes of one read.\<close>

fun cgi_reads :: "'w os \<Rightarrow> 'w runner \<Rightarrow> string list \<Rightarrow> 'w hstate \<Rightarrow> 'w hstate res" where
  "cgi_reads os run [] h = Inr h"
| "cgi_reads os run (p # ps) h =
     rbind (check_if_have_cgi os run (h_s_request p h)) (\<lambda>(_, h1). cgi_reads os run ps h1)"

text \<open>A client whose request is a script outside every location, sent with a Content-Length.\<close>

definition posting_script :: "nat \<Rightarrow> 'w hstate \<Rightarrow> bool" where
  "posting_script n h \<longleftrightarrow> is_script (rq_path (h_req h)) \<and>
     is_location_url (cl_server (hs_cl h)) = -1 \<and> rq_method (h_req h) = ''POST'' \<and>
     get_map_values ''Transfer-Encoding'' (h_req h) \<noteq> ''chunked'' \<and>
     rq_content_length (h_req h) = Some n \<and> \<not> cl_keep_alive (hs_cl h)"

lemma posting_script_piece: "posting_script n h \<Longrightarrow> posting_script n (h_body b (h_s_request p h))"
  by (simp add: posting_script_def h_simps client_simps get_map_values_def)

lemma posting_script_step:
  assumes "posting_script n h"
  shows "check_if_have_cgi os run h =
      rbind (cgi_post os run (rq_path (h_req h)) st_body_cgi h_body h) (\<lambda>h1. Inr (True, cgi_ready h1))"
proof -
  from assms obtain pos where pos: "find_last CHR ''.'' (rq_path (h_req h)) = Some pos"
    and ext: "drop pos (rq_path (h_req h)) = ''.php'' \<or> drop pos (rq_path (h_req h)) = ''.py''"
    by (auto simp: posting_script_def is_script_def split: option.splits)
  show ?thesis using assms ext
    by (simp only: check_if_have_cgi_def Let_def pos option.case posting_script_def if_True) simp
qed

lemma h_body_s_request: "h_s_request p (h_body b h) = h_body b (h_s_request p h)"
  by (simp add: h_simps client_simps)

lemma h_body_twice [simp]: "h_body a (h_body b h) = h_body a h"
  by (simp add: h_simps)

lemma h_body_get [simp]: "st_body_cgi (hs_st (h_body b h)) = b"
  by (simp add: h_simps)

lemma h_s_request_twice [simp]: "h_s_request p (h_s_request q h) = h_s_request p h"
  by (simp add: h_simps client_simps)

lemma h_piece_get [simp]:
  "rq_s_request (h_req (h_s_request p h)) = p" "st_body_cgi (hs_st (h_s_request p h)) = st_body_cgi (hs_st h)"
  "rq_path (h_req (h_s_request p h)) = rq_path (h_req h)"
  by (simp_all add: h_simps client_simps)

lemma rbind_assoc: "rbind (rbind m f) g = rbind m (\<lambda>x. rbind (f x) g)"
  by (cases m) simp_all

lemma cgi_post_piece:
  assumes "posting_script n h" and "length (st_body_cgi (hs_st h)) + length p < n"
  shows "check_if_have_cgi os run (h_s_request p h) =
      Inr (True, h_body (st_body_cgi (hs_st h) @ p) (h_s_request p h))"
proof -
  have p: "posting_script n (h_s_request p h)"
    using assms(1) by (simp add: posting_script_def h_simps client_simps get_map_values_def)
  show ?thesis using assms p
    by (simp add: posting_script_step [OF p] cgi_post_def Let_def posting_script_def)
      (simp add: h_simps client_simps)
qed

lemma cgi_post_last:
  assumes "posting_script n h" and "length (st_body_cgi (hs_st h)) + length p = n"
  shows "check_if_have_cgi os run (h_s_request p h) =
      rbind (cgi_handler os run (st_body_cgi (hs_st h) @ p) (rq_path (h_req h))
               (h_body (st_body_cgi (hs_st h) @ p) (h_s_request p h)))
        (\<lambda>(_, h2). Inr (True, cgi_ready (h_all_recv (h_body [] h2))))"
proof -
  have p: "posting_script n (h_s_request p h)"
    using assms(1) by (simp add: posting_script_def h_simps client_simps get_map_values_def)
  have c: "rq_content_length (h_req (h_body b (h_s_request p h))) = Some n" for b
    using assms(1) by (simp add: posting_script_def h_simps client_simps)
  have t: "get_map_values ''Transfer-Encoding'' (h_req (h_s_request p h)) \<noteq> ''chunked''"
    using p by (simp add: posting_script_def)
  show ?thesis using assms(2)
    by (simp only: posting_script_step [OF p] cgi_post_def Let_def c t if_False option.case
        h_body_get h_piece_get length_append if_True simp_thms)
      (simp add: rbind_assoc split_def)
qed

text \<open>
  However the body is cut, the script runs once, on the whole body; \<open>b\<close> is what has been
  collected before.
\<close>

lemma cgi_reads_collect:
  assumes "posting_script n h" and "st_body_cgi (hs_st h) = b" and "ps \<noteq> []"
    and "\<forall>p \<in> set ps. p \<noteq> []" and "length b + length (concat ps) = n"
  shows "cgi_reads os run ps h =
      rbind (cgi_handler os run (b @ concat ps) (rq_path (h_req h))
               (h_body (b @ concat ps) (h_s_request (last ps) h)))
        (\<lambda>(_, h2). Inr (cgi_ready (h_all_recv (h_body [] h2))))"
  using assms
proof (induction ps arbitrary: h b)
  case Nil then show ?case by simp
next
  case (Cons p ps)
  show ?case
  proof (cases "ps = []")
    case True
    with Cons.prems have "length (st_body_cgi (hs_st h)) + length p = n" by simp
    from cgi_post_last [OF Cons.prems(1) this] True Cons.prems(2)
    show ?thesis by (simp add: rbind_assoc split_def)
  next
    case False
    then obtain q qs where "ps = q # qs" by (cases ps) auto
    with Cons.prems have "length (concat ps) = length q + length (concat qs)" "length q > 0" by auto
    with Cons.prems have "length (st_body_cgi (hs_st h)) + length p < n"
      by (simp del: length_greater_0_conv)
    note step = cgi_post_piece [OF Cons.prems(1) this]
    let ?h1 = "h_body (b @ p) (h_s_request p h)"
    have "cgi_reads os run ps ?h1 =
        rbind (cgi_handler os run ((b @ p) @ concat ps) (rq_path (h_req ?h1))
                 (h_body ((b @ p) @ concat ps) (h_s_request (last ps) ?h1)))
          (\<lambda>(_, h2). Inr (cgi_ready (h_all_recv (h_body [] h2))))"
      using Cons.prems False
      by (intro Cons.IH) (auto intro: posting_script_piece)
    moreover have "rq_path (h_req ?h1) = rq_path (h_req h)" by (simp add: h_simps client_simps)
    ultimately show ?thesis using step Cons.prems(2) False by (simp add: h_body_s_request)
  qed
qed

section \<open>The environment of the script\<close>

definition fixed_variables :: "string \<Rightarrow> string \<Rightarrow> string \<Rightarrow> string list" where
  "fixed_variables full_path method sn =
     [''REDIRECT_STATUS=200'', ''GATEWAY_INTERFACE=CGI/1.1'', c_str (''REQUEST_METHOD='' @ method),
      c_str (''SCRIPT_FILENAME='' @ full_path), c_str (''SCRIPT_NAME='' @ sn)]"

lemma c_str_prefix: "no_nul p \<Longrightarrow> c_str (p @ s) = p @ c_str s"
  by (induction p) (auto simp: c_str_def no_nul_def)

lemma env_entry:
  assumes "e \<in> set (get_env m full_path method sn)"
  shows "e \<in> set (fixed_variables full_path method sn) \<or> prefix ''CONTENT_TYPE='' e \<or> prefix ''CONTENT_LENGTH='' e"
proof -
  have t: "no_nul ''CONTENT_TYPE=''" "no_nul ''CONTENT_LENGTH=''" by (simp_all add: no_nul_def)
  from assms consider "e \<in> set (fixed_variables full_path method sn)"
    | k v where "e = c_str (convert_to_up k @ ''='' @ v)"
        "convert_to_up k = ''CONTENT_TYPE'' \<or> convert_to_up k = ''CONTENT_LENGTH''"
    by (auto simp: get_env_def header_variables_def fixed_variables_def)
  then show ?thesis
  proof cases
    case 2
    from c_str_prefix [OF t(1), of v] c_str_prefix [OF t(2), of v] 2 show ?thesis by auto
  qed simp
qed

text \<open>A runner whose system calls fail.\<close>

definition no_runner :: "'w runner" where
  "no_runner i p env body w = \<lparr>cg_pipe = False, cg_input_pipe = False, cg_fork = False,
     cg_writes = [], cg_reads = [], cg_wait = None, cg_world = w\<rparr>"

end
