(* ===== verification/Dispatch.thy ===== *)
theory Dispatch
  imports Cgi
begin

text \<open>
  Answering a request: \<open>check_auto_index\<close> and \<open>response_to_get\<close>
  (\<open>response/response.cpp\<close>), \<open>handle_delete_request\<close> and \<open>check_request\<close>
  (\<open>request/request_implementation.cpp\<close>), \<open>check_uri\<close> (\<open>request/tools.cpp\<close>).
\<close>

section \<open>GET\<close>

definition h_client :: "(Client \<Rightarrow> Client) \<Rightarrow> 'w hstate \<Rightarrow> 'w hstate" where
  "h_client f h = h\<lparr>hs_cl := f (hs_cl h)\<rparr>"

lemmas client_update [h_simps] = h_client_def

text \<open>Every route on the directory without autoindex sets the error again; the first returns.\<close>

definition check_auto_index :: "'w os \<Rightarrow> 'w hstate \<Rightarrow> int \<times> 'w hstate" where
  "check_auto_index os h =
     (if \<exists>r \<in> set (sb_routes (cl_server (hs_cl h))).
           rq_path (h_req h) = rb_root r @ rb_URI r \<and> \<not> rb_autoindex r
      then (1, h_error os 403 h) else (2, h))"

text \<open>The loop over the index names: the first that exists, or the last one tried.\<close>

fun first_index :: "'w os \<Rightarrow> 'w \<Rightarrow> string \<Rightarrow> string list \<Rightarrow> string \<Rightarrow> string" where
  "first_index os w path [] str = str"
| "first_index os w path (i # is) str =
     (let str' = path @ ''/'' @ i in
      if os_stat os (c_str str') w \<noteq> None then str' else first_index os w path is str')"

definition index_file :: "'w os \<Rightarrow> 'w \<Rightarrow> string \<Rightarrow> ServerBlock \<Rightarrow> string res" where
  "index_file os w path s =
     (if sb_index s = [] \<and> is_location_url s = -1 then Inr (path @ ''/'' @ ''index.html'')
      else if is_location_url s > -1 then
        rbind (current_route s) (\<lambda>r.
          if rb_index r = [] then Inr (path @ ''/'' @ ''index.html'')
          else Inr (first_index os w path (rb_index r) []))
      else if is_location_url s = -1 \<and> sb_index s \<noteq> [] then
        Inr (first_index os w path (sb_index s) [])
      else Inr [])"

definition listing_start :: string where
  "listing_start =
     ''<html>'' @ [LF] @ ''<head>'' @ [LF] @ ''<title>Found Files</title>'' @ [LF] @
     ''<style>'' @ [LF] @
     ''  body { font-family: Arial, sans-serif; background-color: #f4f4f4; color: #333; }'' @ [LF] @
     ''  h1 { color: #4CAF50; }'' @ [LF] @
     ''  ul { list-style-type: none; padding: 0; }'' @ [LF] @
     ''  li { background-color: #fff; border: 1px solid #ddd; margin: 5px 0; padding: 10px; border-radius: 5px; }'' @ [LF] @
     ''  a { text-decoration: none; color: #007BFF; font-size: 18px; }'' @ [LF] @
     ''  a:hover { color: #0056b3; }'' @ [LF] @
     ''  .container { max-width: 800px; margin: 0 auto; padding: 20px; background-color: #fff; border-radius: 8px; box-shadow: 0 4px 8px rgba(0,0,0,0.1); }'' @ [LF] @
     ''</style>'' @ [LF] @
     ''</head>'' @ [LF] @ ''<body>'' @ [LF] @
     ''<div class='' @ [CHR 0x27] @ ''container'' @ [CHR 0x27] @ ''>'' @ [LF] @
     ''<h1>Found Files in Directory</h1>'' @ [LF] @ ''<ul>'' @ [LF]"

definition listing_end :: string where
  "listing_end = ''</ul>'' @ [LF] @ ''</div>'' @ [LF] @ ''</body>'' @ [LF] @ ''</html>'' @ [LF]"

definition listing_item :: "string \<Rightarrow> string \<Rightarrow> string" where
  "listing_item url name =
     ''<li><a href='' @ [DQ] @ url @ ''/'' @ name @ [DQ] @ ''>'' @ name @ ''</a></li>'' @ [LF]"

text \<open>The link of an entry is the path without the root; \<open>substr\<close> throws past the end.\<close>

definition listing_url :: "ServerBlock \<Rightarrow> string \<Rightarrow> string res" where
  "listing_url s path =
     (if is_location_url s > -1
      then rbind (current_route s) (\<lambda>r. substr_from path (length (rb_root r)))
      else substr_from path (length (sb_server_root s)))"

fun listing_items :: "ServerBlock \<Rightarrow> string \<Rightarrow> string list \<Rightarrow> string \<Rightarrow> string res" where
  "listing_items s path [] found = Inr found"
| "listing_items s path (n # names) found =
     rbind (listing_url s path) (\<lambda>url. listing_items s path names (found @ listing_item url n))"

text \<open>The length is taken before the end of the page is appended.\<close>

definition listing_response :: "Client \<Rightarrow> string \<Rightarrow> string" where
  "listing_response c found =
     ''HTTP/1.1 200 OK'' @ crlf @
     ''Content-Length: '' @ show_nat (length found) @ crlf @
     ''Content-Type: text/html; charset=UTF-8'' @ crlf @
     connection_line c @ crlf @ crlf @ found @ listing_end"

definition serve_file :: "'w os \<Rightarrow> string \<Rightarrow> 'w hstate \<Rightarrow> 'w hstate" where
  "serve_file os path h =
     (let (res, c) = fill_response os (hs_world h) path (hs_cl h) 200
      in h\<lparr>hs_cl := set_response res c\<rparr>)"

definition response_to_dir :: "'w os \<Rightarrow> string \<Rightarrow> string list \<Rightarrow> 'w hstate \<Rightarrow> 'w hstate res" where
  "response_to_dir os pat names h =
     (let s = cl_server (hs_cl h) in
      rbind (index_file os (hs_world h) pat s) (\<lambda>str.
        let (flag, h1) = (if os_stat os (c_str str) (hs_world h) = None
                          then check_auto_index os h else (0, h))
        in if flag = 1 then Inr h1
           else if flag = 2 \<and> is_location_url s = -1 then Inr (h_error os 403 h1)
           else rbind (if is_location_url s > -1 then rbind (current_route s) (\<lambda>r. Inr (rb_autoindex r))
                       else Inr True) (\<lambda>autoindex.
             if \<not> autoindex then
               (if flag = 2 then Inr (h_error os 404 h1) else Inr (serve_file os str h1))
             else if flag = 0 then Inr (serve_file os str h1)
             else
               (let h2 = h_client (set_response_status 200) h1 in
                rbind (listing_items s pat names listing_start) (\<lambda>found.
                  Inr (h_client (set_response (listing_response (hs_cl h2) found)) h2))))))"

definition response_to_get :: "'w os \<Rightarrow> 'w hstate \<Rightarrow> 'w hstate res" where
  "response_to_get os h =
     (let pat = rq_path (h_req h) in
      case os_stat os (c_str pat) (hs_world h) of
        None \<Rightarrow> Inr (h_error os 404 h)
      | Some st \<Rightarrow>
          (case st_type st of
             Directory \<Rightarrow>
               if \<not> os_access_r os (c_str pat) (hs_world h) then Inr (h_error os 403 h)
               else (case os_opendir os (c_str pat) (hs_world h) of
                   None \<Rightarrow> Inr (h_error os 404 h)
                 | Some names \<Rightarrow> response_to_dir os pat names h)
           | Regular \<Rightarrow>
               if \<not> st_rusr st then Inr (h_error os 403 h) else Inr (serve_file os pat h)
           | Other_type \<Rightarrow> Inr (h_error os 404 h)))"

section \<open>DELETE\<close>

text \<open>
  The loop over the entries with the recursive call as an argument; the results say
  whether the call returned (true) or threw (false).
\<close>

fun delete_entries :: "(string \<Rightarrow> 'w \<Rightarrow> (bool \<times> 'w) option) \<Rightarrow> string \<Rightarrow> string list \<Rightarrow> 'w \<Rightarrow>
    (bool \<times> 'w) option" where
  "delete_entries f path [] w = Some (True, w)"
| "delete_entries f path (n # names) w =
     (if n = ''.'' \<or> n = ''..'' then delete_entries f path names w
      else Option.bind (f (path @ ''/'' @ n) w) (\<lambda>(ok, w').
        if ok then delete_entries f path names w' else Some (False, w')))"

lemma delete_entries_mono [partial_function_mono]:
  assumes "\<And>p w. mono_option (\<lambda>f. g f p w)"
  shows "mono_option (\<lambda>f. delete_entries (g f) path names w)"
proof (induction names arbitrary: w)
  case Nil
  then show ?case by (simp add: option.const_mono)
next
  case (Cons n names)
  show ?case
    by (cases "n = ''.'' \<or> n = ''..''", simp only: delete_entries.simps if_True Cons.IH,
        simp only: delete_entries.simps if_False, intro bind_mono assms,
        simp add: split_def, intro if_mono Cons.IH option.const_mono)
qed

partial_function (option) handle_delete_request ::
  "'w os \<Rightarrow> string \<Rightarrow> 'w \<Rightarrow> (bool \<times> 'w) option" where
  "handle_delete_request os path w =
     (case os_stat os (c_str path) w of
        None \<Rightarrow> Some (False, w)
      | Some st \<Rightarrow>
          if st_type st = Directory then
            (case os_opendir os (c_str path) w of
               None \<Rightarrow> Some (False, w)
             | Some names \<Rightarrow>
                 Option.bind (delete_entries (handle_delete_request os) path names w) (\<lambda>(ok, w1).
                   if ok then Some (os_remove os (c_str path) w1) else Some (False, w1)))
          else Some (os_remove os (c_str path) w))"

declare handle_delete_request.simps [code]

section \<open>check_request\<close>

definition check_uri :: "'w os \<Rightarrow> 'w hstate \<Rightarrow> bool \<times> 'w hstate" where
  "check_uri os h =
     (case os_stat os (c_str (rq_path (h_req h))) (hs_world h) of
        None \<Rightarrow> (False, h_error os 404 h)
      | Some st \<Rightarrow> if st_type st \<noteq> Directory then (False, h_error os 405 h) else (True, h))"

definition post_request :: "'w os \<Rightarrow> string \<Rightarrow> string \<Rightarrow> 'w hstate \<Rightarrow> 'w hstate res" where
  "post_request os content_type check h =
     (let (ok, h1) = check_uri os h in
      if \<not> ok then Inr h1
      else rbind (if str_contains ''boundary='' content_type \<and> check \<noteq> [] then boundary os h1
                  else if check = ''chunked'' then chunked os h1
                  else hanlde_post_request os h1)
        (\<lambda>h2. Inr (if cl_all_recv (hs_cl h2) \<and> \<not> rs_Ready_to_send (cl_response (hs_cl h2))
                   then h_error os 201 h2 else h2)))"

definition delete_request :: "'w os \<Rightarrow> 'w hstate \<Rightarrow> 'w hstate res" where
  "delete_request os h =
     (let h1 = h_all_recv h in
      case handle_delete_request os (rq_path (h_req h1)) (hs_world h1) of
        None \<Rightarrow> Inl No_return
      | Some (ok, w') \<Rightarrow> Inr (h_error os (if ok then 204 else 404) (h1\<lparr>hs_world := w'\<rparr>)))"

definition answer_request :: "'w os \<Rightarrow> 'w hstate \<Rightarrow> 'w hstate res" where
  "answer_request os h =
     (let method = rq_method (h_req h);
          content_type = get_map_values ''Content-Type'' (h_req h);
          transfer_encoding = get_map_values ''Transfer-Encoding'' (h_req h)
      in if method = ''GET'' then rbind (response_to_get os h) (\<lambda>h1. Inr (h_all_recv h1))
         else if method = ''POST'' then post_request os content_type transfer_encoding h
         else if method = ''DELETE'' then delete_request os h
         else Inr h)"

definition dispatch_request :: "'w os \<Rightarrow> 'w runner \<Rightarrow> 'w hstate \<Rightarrow> 'w hstate res" where
  "dispatch_request os run h =
     (if rs_Ready_to_send (cl_response (hs_cl h)) then Inr (h_all_recv h)
      else rbind (check_if_have_cgi os run h) (\<lambda>(cgi, h1).
        if cgi then Inr h1
        else if rs_Ready_to_send (cl_response (hs_cl h1)) then Inr (h_all_recv h1)
        else answer_request os h1))"

text \<open>
  \<open>is_location_url\<close> is reset by every call, also by the calls that only bring more of the
  body and do not parse again.
\<close>

definition h_start :: "'w hstate \<Rightarrow> 'w hstate" where
  "h_start h = h_client (\<lambda>c. c\<lparr>cl_server := (cl_server c)\<lparr>is_location_url := -1\<rparr>\<rparr>) h"

definition check_request :: "'w os \<Rightarrow> 'w runner \<Rightarrow> 'w hstate \<Rightarrow> 'w hstate res" where
  "check_request os run h =
     (let h0 = h_start h in
      rbind (if \<not> rq_index (h_req h0)
             then rbind (parse_request os (hs_world h0) (hs_cl h0)) (\<lambda>c. Inr (h0\<lparr>hs_cl := c\<rparr>))
             else Inr h0) (dispatch_request os run))"

section \<open>What DELETE touches\<close>

text \<open>
  \<open>below p q\<close>: \<open>q\<close> is \<open>p\<close> or reached from it by names of directory entries, none of them
  a dot name or one with a slash in it.
\<close>

inductive below :: "string \<Rightarrow> string \<Rightarrow> bool" for p where
  here: "below p p"
| entry: "below p q \<Longrightarrow> n \<noteq> ''.'' \<Longrightarrow> n \<noteq> ''..'' \<Longrightarrow> CHR ''/'' \<notin> set n \<Longrightarrow> below p (q @ ''/'' @ n)"

lemma below_entry:
  "below (p @ ''/'' @ n) q \<Longrightarrow> n \<noteq> ''.'' \<Longrightarrow> n \<noteq> ''..'' \<Longrightarrow> CHR ''/'' \<notin> set n \<Longrightarrow> below p q"
proof (induction rule: below.induct)
  case here
  then show ?case using below.entry [OF below.here] by simp
next
  case (entry q n')
  then show ?case using below.entry by blast
qed

lemma below_prefix: "below p q \<Longrightarrow> prefix p q"
  by (induction rule: below.induct) auto

text \<open>The changes that calls of \<open>remove\<close> on names below \<open>p\<close> can make.\<close>

inductive removals :: "'w os \<Rightarrow> string \<Rightarrow> 'w \<Rightarrow> 'w \<Rightarrow> bool" for os p w where
  none: "removals os p w w"
| more: "removals os p w w1 \<Longrightarrow> below p q \<Longrightarrow> removals os p w (snd (os_remove os (c_str q) w1))"

lemma removals_trans: "removals os p w1 w2 \<Longrightarrow> removals os p w w1 \<Longrightarrow> removals os p w w2"
  by (induction rule: removals.induct) (auto intro: removals.more)

lemma removals_entry:
  assumes "removals os (p @ ''/'' @ n) w w'" and "n \<noteq> ''.''" "n \<noteq> ''..''" "CHR ''/'' \<notin> set n"
  shows "removals os p w w'"
  using assms(1)
proof (induction rule: removals.induct)
  case none
  show ?case by (rule removals.none)
next
  case (more w1 q)
  from below_entry [OF more.hyps(2) assms(2-4)] more.IH show ?case by (intro removals.more)
qed

text \<open>What \<open>readdir\<close> documents: the names have no slash.\<close>

definition names_ok :: "'w os \<Rightarrow> bool" where
  "names_ok os \<longleftrightarrow> (\<forall>p w ns. os_opendir os p w = Some ns \<longrightarrow> (\<forall>n \<in> set ns. CHR ''/'' \<notin> set n))"

lemma delete_entries_removals:
  assumes "\<And>p w r. f p w = Some r \<Longrightarrow> removals os p w (snd r)"
    and "delete_entries f path names w = Some r" and "\<forall>n \<in> set names. CHR ''/'' \<notin> set n"
  shows "removals os path w (snd r)"
  using assms(2,3)
proof (induction names arbitrary: w)
  case Nil
  then show ?case by (auto intro: removals.none)
next
  case (Cons n names)
  show ?case
  proof (cases "n = ''.'' \<or> n = ''..''")
    case True
    with Cons show ?thesis by simp
  next
    case False
    with Cons.prems obtain ok w1 where f: "f (path @ ''/'' @ n) w = Some (ok, w1)"
      and rest: "if ok then delete_entries f path names w1 = Some r else r = (False, w1)"
      by (auto simp: bind_eq_Some_conv split: if_splits)
    from assms(1) [OF f] False Cons.prems(2) have r: "removals os path w w1"
      by (intro removals_entry [of os path n]) auto
    show ?thesis
    proof (cases ok)
      case True
      with rest Cons have "removals os path w1 (snd r)" by simp
      then show ?thesis using r by (rule removals_trans)
    qed (use rest r in simp)
  qed
qed

definition delete_spec :: "'w os \<Rightarrow> string \<Rightarrow> 'w \<Rightarrow> bool \<times> 'w \<Rightarrow> bool" where
  "delete_spec os p w r \<longleftrightarrow> removals os p w (snd r) \<and>
     (fst r \<longrightarrow> (\<exists>w1. removals os p w w1 \<and> os_remove os (c_str p) w1 = r))"

lemma delete_meets_spec:
  assumes "handle_delete_request os p w = Some r" and "names_ok os"
  shows "delete_spec os p w r"
proof -
  have "names_ok os \<longrightarrow> delete_spec os p w r"
  proof (rule handle_delete_request.raw_induct
      [where P = "\<lambda>os p w r. names_ok os \<longrightarrow> delete_spec os p w r", OF _ assms(1)], rule impI)
    fix f and os :: "'a os" and path w r
    assume IH: "\<And>os p w r. f os p w = Some r \<Longrightarrow> names_ok os \<longrightarrow> delete_spec os p w r"
      and run: "(case os_stat os (c_str path) w of None \<Rightarrow> Some (False, w)
        | Some st \<Rightarrow> if st_type st = Directory then
            (case os_opendir os (c_str path) w of None \<Rightarrow> Some (False, w)
             | Some names \<Rightarrow> Option.bind (delete_entries (f os) path names w) (\<lambda>(ok, w1).
                 if ok then Some (os_remove os (c_str path) w1) else Some (False, w1)))
          else Some (os_remove os (c_str path) w)) = Some r" and ok: "names_ok os"
    have f: "f os p w = Some r \<Longrightarrow> removals os p w (snd r)" for p w r
      using IH [of os p w r] ok by (simp add: delete_spec_def)
    have rm: "removals os path w1 (snd (os_remove os (c_str path) w1))" for w1
      by (rule removals.more [OF removals.none below.here])
    show "delete_spec os path w r"
    proof (cases "os_stat os (c_str path) w")
      case None
      with run show ?thesis by (auto simp: delete_spec_def intro: removals.none)
    next
      case (Some st)
      show ?thesis
      proof (cases "st_type st = Directory")
        case False
        with Some run have "r = os_remove os (c_str path) w" by simp
        then show ?thesis using rm [of w] removals.none [of os path w] by (auto simp: delete_spec_def)
      next
        case dir: True
        show ?thesis
        proof (cases "os_opendir os (c_str path) w")
          case None
          with Some dir run show ?thesis by (auto simp: delete_spec_def intro: removals.none)
        next
          case names: (Some names)
          with Some dir run obtain ok1 w1 where e: "delete_entries (f os) path names w = Some (ok1, w1)"
            and r: "r = (if ok1 then os_remove os (c_str path) w1 else (False, w1))"
            by (auto simp: bind_eq_Some_conv split: if_splits)
          from ok names have "\<forall>n \<in> set names. CHR ''/'' \<notin> set n" by (auto simp: names_ok_def)
          from delete_entries_removals [OF f e this] have w1: "removals os path w w1" by simp
          then show ?thesis using r removals_trans [OF rm w1] by (auto simp: delete_spec_def)
        qed
      qed
    qed
  qed
  with assms(2) show ?thesis by simp
qed

section \<open>DELETE returns\<close>

text \<open>
  \<open>depth_le W d os p\<close>: in every state of \<open>W\<close> the directories under \<open>p\<close> are nested at most
  \<open>d\<close> deep.
\<close>

fun depth_le :: "('w \<Rightarrow> bool) \<Rightarrow> nat \<Rightarrow> 'w os \<Rightarrow> string \<Rightarrow> bool" where
  "depth_le W 0 os p \<longleftrightarrow>
     (\<forall>w st. W w \<longrightarrow> os_stat os (c_str p) w = Some st \<longrightarrow> st_type st \<noteq> Directory)"
| "depth_le W (Suc d) os p \<longleftrightarrow>
     (\<forall>w names. W w \<longrightarrow> os_opendir os (c_str p) w = Some names \<longrightarrow>
        (\<forall>n \<in> set names. n \<noteq> ''.'' \<longrightarrow> n \<noteq> ''..'' \<longrightarrow> depth_le W d os (p @ ''/'' @ n)))"

lemma delete_entries_returns:
  assumes "\<And>n w. n \<in> set names \<Longrightarrow> n \<noteq> ''.'' \<Longrightarrow> n \<noteq> ''..'' \<Longrightarrow> W w \<Longrightarrow>
      \<exists>ok w'. f (path @ ''/'' @ n) w = Some (ok, w') \<and> W w'" and "W w"
  shows "\<exists>ok w'. delete_entries f path names w = Some (ok, w') \<and> W w'"
  using assms
proof (induction names arbitrary: w)
  case Nil then show ?case by (simp, blast)
next
  case (Cons n names)
  have rest: "W w \<Longrightarrow> \<exists>ok w'. delete_entries f path names w = Some (ok, w') \<and> W w'" for w
    using Cons.prems(1) by (intro Cons.IH) auto
  show ?case
  proof (cases "n = ''.'' \<or> n = ''..''")
    case True
    with rest [OF Cons.prems(2)] show ?thesis by simp
  next
    case False
    with Cons.prems obtain ok w1 where "f (path @ ''/'' @ n) w = Some (ok, w1)" "W w1"
      by (metis list.set_intros(1))
    with False rest [of w1] show ?thesis by (cases ok; simp; blast?)
  qed
qed

lemma handle_delete_returns:
  assumes closed: "\<And>p w. W w \<Longrightarrow> W (snd (os_remove os p w))"
    and depth: "depth_le W d os p" and w: "W w"
  shows "\<exists>ok w'. handle_delete_request os p w = Some (ok, w') \<and> W w'"
proof -
  have rm: "W w \<Longrightarrow> \<exists>ok w'. os_remove os p w = (ok, w') \<and> W w'" for p w
    using closed [of w p] by (metis snd_conv surj_pair)
  from depth w show ?thesis
  proof (induction d arbitrary: p w)
    case 0
    then have leaf: "os_stat os (c_str p) w = Some st \<Longrightarrow> st_type st \<noteq> Directory" for st by auto
    show ?case
    proof (cases "os_stat os (c_str p) w")
      case None
      with 0 show ?thesis by (subst handle_delete_request.simps) (simp, blast)
    next
      case (Some st)
      with leaf [OF Some] rm [OF 0(2), of "c_str p"] show ?thesis
        by (subst handle_delete_request.simps) simp
    qed
  next
    case (Suc d)
    show ?case
    proof (cases "os_stat os (c_str p) w")
      case None
      with Suc show ?thesis by (subst handle_delete_request.simps) (simp, blast)
    next
      case st: (Some st)
      show ?thesis
      proof (cases "st_type st = Directory")
        case False
        with st rm [OF Suc.prems(2), of "c_str p"] show ?thesis
          by (subst handle_delete_request.simps) simp
      next
        case dir: True
        show ?thesis
        proof (cases "os_opendir os (c_str p) w")
          case None
          with st dir Suc show ?thesis by (subst handle_delete_request.simps) (simp, blast)
        next
          case (Some names)
          with Suc.prems Suc.IH
          have "\<exists>ok w'. delete_entries (handle_delete_request os) p names w = Some (ok, w') \<and> W w'"
            by (intro delete_entries_returns) auto
          then obtain ok w1 where e: "delete_entries (handle_delete_request os) p names w = Some (ok, w1)"
            and w1: "W w1" by blast
          show ?thesis
            by (subst handle_delete_request.simps)
              (use st dir Some e w1 rm [OF w1, of "c_str p"] in \<open>cases ok; simp; blast?\<close>)
        qed
      qed
    qed
  qed
qed

section \<open>What a directory listing says\<close>

definition listing_lines :: "Client \<Rightarrow> nat \<Rightarrow> string list" where
  "listing_lines c n =
     [''HTTP/1.1 200 OK'', ''Content-Length: '' @ show_nat n,
      ''Content-Type: text/html; charset=UTF-8'', connection_line c]"

lemma listing_response_message:
  "listing_response c found = http_message (listing_lines c (length found)) (found @ listing_end)"
  by (simp add: listing_response_def listing_lines_def http_message_def)

lemma listing_lines_ok: "\<forall>l \<in> set (listing_lines c n). http_line l"
  using connection_line_ok [of c] by (simp add: listing_lines_def http_line_def show_nat_no_CR)

lemma serve_file_response:
  assumes "os_read os (c_str path) (hs_world h) = Some bytes" and "rq_redirection (h_req h) = -1"
  shows "rs_response (cl_response (hs_cl (serve_file os path h))) =
           http_message (file_lines (hs_cl h) path 200 (length bytes)) []"
    and "rs_fileStream (cl_response (hs_cl (serve_file os path h))) =
           \<lparr>is_open = True, unread = bytes, eof_bit = False\<rparr>"
    and "hs_world (serve_file os path h) = hs_world h"
  using assms fill_response_message [of os path "hs_world h" bytes "hs_cl h" 200]
  by (simp_all add: serve_file_def fill_response_def client_simps Let_def)

section \<open>A parsed request stays inside the configured roots\<close>

lemma request_line_status_ok:
  "request_line_status m p v = None \<Longrightarrow> m \<in> {''GET'', ''POST'', ''DELETE''}"
  by (auto simp: request_line_status_def split: if_splits)

lemma parse_request_pending:
  assumes res: "parse_request os w c = Inr c'" and p: "pending c'"
    and root: "sb_server_root (cl_server c) \<noteq> []"
  shows "contained (cl_server c) (rq_path (cl_request c')) \<and>
         rq_method (cl_request c') \<in> {''GET'', ''POST'', ''DELETE''} \<and>
         is_valid_method (cl_server c') (rq_path (cl_request c')) (rq_method (cl_request c')) \<and>
         length_accepted (rq_method (cl_request c')) c'"
proof -
  let ?rd = "rq_s_request (cl_request c)"
  from res p obtain b where b: "body_start ?rd = Some b"
    by (cases "body_start ?rd") (auto simp: parse_request_def)
  let ?k = "(b + 4) mod 2 ^ 64"
  obtain nr where sub: "substr_from ?rd ?k = Inr nr"
    using res b by (cases "substr_from ?rd ?k") (auto simp: parse_request_def Let_def)
  define line where "line = takeWhile (\<lambda>x. x \<noteq> LF) (take ?k ?rd)"
  define m where "m = word_at (words_of line) 0"
  define path where "path = word_at (words_of line) 1"
  define v where "v = word_at (words_of line) 2"
  define c1 where "c1 = set_s_request nr
    (c\<lparr>cl_request := (cl_request c)\<lparr>rq_index := True\<rparr>, cl_keep_alive := False\<rparr>)"
  define c2 where "c2 = c1\<lparr>cl_request := (cl_request c1)\<lparr>rq_method := m, rq_path := path,
    rq_version := v\<rparr>\<rparr>"
  let ?rest = "tl (dropWhile (\<lambda>x. x \<noteq> LF) (take ?k ?rd))"
  have rd: "rq_s_request (cl_request (c\<lparr>cl_request := (cl_request c)\<lparr>rq_index := True\<rparr>,
    cl_keep_alive := False\<rparr>)) = ?rd" by simp
  have run: "(if \<not> check_request_line line then Inr (set_response_error os w 400 c1)
      else if word_at (words_of line) 3 \<noteq> [] \<or> m = [] \<or> path = [] \<or> v = []
        then Inr (set_response_error os w 400 c1)
      else case request_line_status m path v of
          Some st \<Rightarrow> Inr (set_response_error os w st c2)
        | None \<Rightarrow> parse_target os w m ?rest path c2) = Inr c'"
    using res unfolding parse_request_def Let_def line_def m_def path_def v_def c1_def c2_def
    by (simp only: rd b sub option.case rbind.simps)
  have t: "parse_target os w m ?rest path c2 = Inr c'" and m: "request_line_status m path v = None"
    using run p by (auto split: if_splits option.splits)
  have c2: "cl_server c2 = cl_server c" "rq_method (cl_request c2) = m"
    by (simp_all add: c2_def c1_def client_simps)
  from parse_target_pending [OF t p] root c2 request_line_status_ok [OF m] show ?thesis by simp
qed

section \<open>DELETE from the request to the file system\<close>

lemma h_error_world: "hs_world (h_error os st h) = hs_world h"
  by (simp add: h_error_def)

lemma cgi_location_loop_other:
  assumes "rq_method (h_req h) \<notin> {''GET'', ''POST''}"
    and "cgi_location_loop os run path ex vec bol h = Inr (b, h2)"
  shows "hs_world h2 = hs_world h \<and> (\<not> b \<longrightarrow> h2 = h)"
  using assms by (induction vec) (auto simp: h_error_def split: if_splits)

lemma check_if_have_cgi_other:
  assumes "rq_method (h_req h) \<notin> {''GET'', ''POST''}" and "check_if_have_cgi os run h = Inr (b, h2)"
  shows "hs_world h2 = hs_world h" and "\<not> b \<Longrightarrow> h2 = h"
proof -
  have m: "rq_method (h_req h) \<noteq> ''GET''" "rq_method (h_req h) \<noteq> ''POST''" using assms(1) by auto
  have "hs_world h2 = hs_world h \<and> (\<not> b \<longrightarrow> h2 = h)"
  proof (cases "find_last CHR ''.'' (rq_path (h_req h))")
    case None
    with assms(2) show ?thesis by (simp add: check_if_have_cgi_def)
  next
    case (Some pos)
    define ex where "ex = drop pos (rq_path (h_req h))"
    have eq: "check_if_have_cgi os run h =
        (if ex = ''.php'' \<or> ex = ''.py'' then
           (if is_location_url (cl_server (hs_cl h)) > -1 then
              rbind (current_route (cl_server (hs_cl h)))
                (\<lambda>r. cgi_location_loop os run (rq_path (h_req h)) ex (rb_cgi_extension r) False h)
            else Inr (True, h_error os 405 h))
         else Inr (False, h))"
      by (simp only: check_if_have_cgi_def Let_def Some option.case ex_def m if_False)
    show ?thesis
      using assms(2) cgi_location_loop_other [OF assms(1), of os run "rq_path (h_req h)" ex _ False b h2]
      unfolding eq by (auto simp only: rbind_Inr h_error_world sum.inject prod.inject
          simp_thms split: if_splits)
  qed
  then show "hs_world h2 = hs_world h" and "\<not> b \<Longrightarrow> h2 = h" by simp_all
qed

text \<open>What is left of \<open>check_request\<close> once a DELETE request has been parsed.\<close>

lemma check_request_delete:
  assumes "\<not> rq_index (h_req h)"
    and "parse_request os (hs_world h) (hs_cl (h_start h)) = Inr c"
    and "rq_method (cl_request c) = ''DELETE''" and "check_request os run h = Inr h'"
  shows "hs_world h' = hs_world h \<or>
      pending c \<and> delete_request os ((h_start h)\<lparr>hs_cl := c\<rparr>) = Inr h'"
proof -
  let ?h1 = "(h_start h)\<lparr>hs_cl := c\<rparr>"
  have w: "hs_world ?h1 = hs_world h" by (simp add: h_start_def h_simps)
  have i: "\<not> rq_index (h_req (h_start h))" "hs_world (h_start h) = hs_world h"
    using assms(1) by (simp_all add: h_start_def h_simps)
  have run: "dispatch_request os run ?h1 = Inr h'"
    using assms(2,4) i by (simp add: check_request_def)
  have m: "rq_method (h_req ?h1) \<notin> {''GET'', ''POST''}" using assms(3) by simp
  show ?thesis
  proof (cases "rs_Ready_to_send (cl_response c)")
    case True
    with run w show ?thesis by (auto simp: dispatch_request_def h_all_recv_def)
  next
    case ready: False
    then obtain b h2 where cgi: "check_if_have_cgi os run ?h1 = Inr (b, h2)"
      and rest: "(if b then Inr h2 else if rs_Ready_to_send (cl_response (hs_cl h2))
        then Inr (h_all_recv h2) else answer_request os h2) = Inr h'"
      using run by (auto simp: dispatch_request_def rbind_Inr)
    show ?thesis
    proof (cases b)
      case True
      with rest check_if_have_cgi_other(1) [OF m cgi] w show ?thesis by simp
    next
      case False
      with check_if_have_cgi_other(2) [OF m cgi] have "h2 = ?h1" by simp
      with rest False ready assms(3) show ?thesis by (simp add: answer_request_def pending_def Let_def)
    qed
  qed
qed

lemma delete_request_world:
  assumes "delete_request os h = Inr h'"
  obtains ok where "handle_delete_request os (rq_path (h_req h)) (hs_world h) = Some (ok, hs_world h')"
    "rs_response_status (cl_response (hs_cl h')) = Some (if ok then 204 else 404)"
proof -
  have r: "rq_path (h_req (h_all_recv h)) = rq_path (h_req h)" "hs_world (h_all_recv h) = hs_world h"
    by (simp_all add: h_all_recv_def)
  obtain ok w' where d: "handle_delete_request os (rq_path (h_req h)) (hs_world h) = Some (ok, w')"
    and e: "h' = h_error os (if ok then 204 else 404) ((h_all_recv h)\<lparr>hs_world := w'\<rparr>)"
    using assms unfolding delete_request_def Let_def r
    by (cases "handle_delete_request os (rq_path (h_req h)) (hs_world h)") (auto simp only:
        option.case prod.case sum.inject sum.distinct)
  show thesis by (rule that [of ok]) (simp_all add: d e h_error_def)
qed

text \<open>From the request to the file system: only removals below a path inside a root.\<close>

lemma delete_stays_inside:
  assumes "\<not> rq_index (h_req h)"
    and "parse_request os (hs_world h) (hs_cl (h_start h)) = Inr c"
    and "rq_method (cl_request c) = ''DELETE''" and "check_request os run h = Inr h'"
    and "names_ok os" and "sb_server_root (cl_server (hs_cl h)) \<noteq> []"
  shows "\<exists>p. contained (cl_server (hs_cl h)) p \<and> removals os p (hs_world h) (hs_world h')"
proof -
  let ?s = "cl_server (hs_cl (h_start h))"
  have s: "served_roots ?s = served_roots (cl_server (hs_cl h))" "sb_server_root ?s \<noteq> []"
    using assms(6) by (simp_all add: h_start_def h_simps served_roots_def)
  from check_request_delete [OF assms(1-4)] show ?thesis
  proof
    assume "hs_world h' = hs_world h"
    moreover have "contained (cl_server (hs_cl h)) (sb_server_root (cl_server (hs_cl h)))"
      by (simp add: contained_def served_roots_def)
    ultimately show ?thesis using removals.none by metis
  next
    assume d: "pending c \<and> delete_request os ((h_start h)\<lparr>hs_cl := c\<rparr>) = Inr h'"
    with parse_request_pending [OF assms(2) _ s(2)]
    have "contained (cl_server (hs_cl h)) (rq_path (cl_request c))"
      using s(1) by (simp add: contained_def)
    moreover from d obtain ok where "handle_delete_request os (rq_path (cl_request c)) (hs_world h) =
        Some (ok, hs_world h')"
      by (auto elim: delete_request_world simp: h_start_def h_simps)
    ultimately show ?thesis using delete_meets_spec [OF _ assms(5)] unfolding delete_spec_def by fastforce
  qed
qed

end
