(* ===== verification/Client_frame.thy ===== *)
theory Client_frame
  imports Dispatch
begin

text \<open>
  What a request leaves of its client: no handler changes the client's descriptor or turns
  keep-alive on.  The event loop relies on both.
\<close>

section \<open>Postconditions of fallible operations\<close>

definition rpost :: "('a \<Rightarrow> bool) \<Rightarrow> 'a res \<Rightarrow> bool" where
  "rpost P m \<longleftrightarrow> (\<forall>x. m = Inr x \<longrightarrow> P x)"

lemma rpost_simps [simp]:
  "rpost P (Inr x) = P x" "rpost P (Inl e)"
  "rpost P (rbind m f) = rpost (\<lambda>x. rpost P (f x)) m"
  by (simp_all add: rpost_def) (cases m; simp)

lemma rpost_bind: "rpost Q m \<Longrightarrow> (\<And>x. Q x \<Longrightarrow> rpost P (f x)) \<Longrightarrow> rpost P (rbind m f)"
  by (cases m) (simp_all add: rpost_def)

text \<open>For a first part whose value does not matter.\<close>

lemma rpost_any: "(\<And>x. rpost P (f x)) \<Longrightarrow> rpost P (rbind m f)"
  by (cases m) simp_all

lemma rpost_mono: "rpost P m \<Longrightarrow> (\<And>x. P x \<Longrightarrow> Q x) \<Longrightarrow> rpost Q m"
  by (simp add: rpost_def)

lemma rpostD: "rpost P m \<Longrightarrow> m = Inr x \<Longrightarrow> P x"
  by (simp add: rpost_def)

section \<open>The part of the client that handlers keep\<close>

definition ck :: "'w hstate \<Rightarrow> int \<times> bool" where
  "ck h = (cl_client_id (hs_cl h), cl_keep_alive (hs_cl h))"

named_theorems ck_simps \<open>updates that keep the descriptor and the keep-alive flag\<close>

lemma ck_updates:
  "ck (h_error os st h) = ck h" "ck (h_all_recv h) = ck h" "ck (h_s_request s h) = ck h"
  "ck (h_file f h) = ck h" "ck (h\<lparr>hs_world := w\<rparr>) = ck h" "ck (h\<lparr>hs_st := t\<rparr>) = ck h"
  "ck (h_part f h) = ck h" "ck (h_created b h) = ck h" "ck (h_processing b h) = ck h"
  "ck (h_buffer s h) = ck h" "ck (boundary_reset h) = ck h"
  "ck (h_body_location s h) = ck h" "ck (h_body s h) = ck h" "ck (cgi_ready h) = ck h"
  "ck (h\<lparr>hs_cl := set_response r c\<rparr>) = ck (h\<lparr>hs_cl := c\<rparr>)"
  "ck (h_client (set_response r) h) = ck h" "ck (h_client (set_response_status n) h) = ck h"
  "ck (h\<lparr>hs_cl := hs_cl h\<rparr>) = ck h"
  by (simp_all add: ck_def h_simps client_simps h_part_def h_created_def h_processing_def
      h_buffer_def boundary_reset_def)

definition kept :: "int \<times> bool \<Rightarrow> 'w hstate \<Rightarrow> bool" where
  "kept k h \<longleftrightarrow> ck h = k"

lemma kept_cong: "ck h' = ck h \<Longrightarrow> kept k h' = kept k h"
  by (simp add: kept_def)

lemmas kept_updates [ck_simps] = ck_updates [THEN kept_cong]

section \<open>Uploads\<close>

lemma upload_dir_ck [ck_simps]: "kept k (snd (upload_dir os dir h)) = kept k h"
  by (simp add: upload_dir_def ck_simps split: option.split)

lemma get_file_name_ck: "kept k h \<Longrightarrow> rpost (\<lambda>(d, h1). kept k h1) (get_file_name os h)"
  by (simp add: get_file_name_def ck_simps split_def) (simp add: rpost_def)

lemma post_write_ck: "kept k h \<Longrightarrow> rpost (kept k) (post_write os path h)"
  by (simp add: post_write_def ck_simps Let_def split: option.split)

lemma post_more_ck: "kept k h \<Longrightarrow> rpost (kept k) (post_more os path h)"
  by (simp add: post_more_def post_write_ck ck_simps)

lemma hanlde_post_request_ck: "kept k h \<Longrightarrow> rpost (kept k) (hanlde_post_request os h)"
  unfolding hanlde_post_request_def Let_def
  by (auto simp: ck_simps post_write_ck post_more_ck split: option.split
      intro!: rpost_mono [OF get_file_name_ck [of k]])

lemma chunked_loop_ck: "kept k h \<Longrightarrow> rpost (\<lambda>(b, r, h1). kept k h1) (chunked_loop os request h)"
proof (induction "length request" arbitrary: request h rule: less_induct)
  case less
  show ?case
  proof (cases "str_find crlf request")
    case None
    with less show ?thesis by (subst chunked_loop.simps) simp
  next
    case (Some pos)
    let ?line = "take (pos + 2) request" and ?tmp = "drop (pos + 2) request"
    let ?n = "size_of_int (hex_to_int ?line)"
    from str_find_bound [OF Some] have pos: "pos < length request" by (simp add: crlf_def)
    have "rpost (\<lambda>(b, r, h1). kept k h1) (rbind (hanlde_post_request os (h_s_request (take ?n ?tmp) h))
        (\<lambda>h1. rbind (substr_from ?tmp (size_add ?n 2)) (\<lambda>request'. chunked_loop os request' h1)))"
    proof (rule rpost_bind [OF hanlde_post_request_ck [of k]])
      show "kept k (h_s_request (take ?n ?tmp) h)" by (simp add: ck_simps less(2))
    next
      fix h1 :: "'a hstate" assume "kept k h1"
      with pos show "rpost (\<lambda>(b, r, h1). kept k h1) (rbind (substr_from ?tmp (size_add ?n 2))
          (\<lambda>request'. chunked_loop os request' h1))"
        by (auto simp: substr_from_def intro!: less(1))
    qed
    then show ?thesis
      using less(2) by (subst chunked_loop.simps) (simp add: Some Let_def ck_simps)
  qed
qed

lemma chunked_ck: "kept k h \<Longrightarrow> rpost (kept k) (chunked os h)"
  unfolding chunked_def by (rule rpost_bind [OF chunked_loop_ck]) (auto simp: ck_simps)

lemma chunked_for_cgi_ck: "kept k h \<Longrightarrow> rpost (\<lambda>(t, h1). kept k h1) (chunked_for_cgi h)"
  by (simp add: chunked_for_cgi_def split_def ck_simps) (simp add: rpost_def ck_simps)

section \<open>Multipart bodies\<close>

lemma part_write_ck [ck_simps]: "kept k (part_write os d h) = kept k h"
  by (simp add: part_write_def ck_simps split: option.split)

lemma create_file_open_ck [ck_simps]: "kept k (create_file_open os f ls h) = kept k h"
  by (simp add: create_file_open_def ck_simps Let_def split: option.split)

lemma create_file_ck: "kept k h \<Longrightarrow> rpost (kept k) (create_file os buffer flag h)"
  unfolding create_file_def create_file_new_def Let_def
  by (auto simp: ck_simps split: option.split intro!: rpost_mono [OF get_file_name_ck [of k]])

lemma boundary_data_ck: "kept k h \<Longrightarrow> rpost (kept k) (boundary_data os data h)"
  unfolding boundary_data_def
  by (auto simp: ck_simps intro: create_file_ck intro!: rpost_mono [OF create_file_ck [of k]])

lemma new_boundary_ck: "kept k (snd (check_if_have_new_boundary buffer b n h)) = kept k h"
  by (simp add: check_if_have_new_boundary_def Let_def ck_simps split: option.split)

lemma boundary_loop_ck: "kept k h \<Longrightarrow> rpost (kept k) (boundary_loop os bstr buffer h)"
proof (induction "length buffer" arbitrary: buffer h rule: less_induct)
  case less
  obtain p h1 where c: "check_if_have_new_boundary buffer bstr 0 h = (p, h1)"
    by (cases "check_if_have_new_boundary buffer bstr 0 h")
  with new_boundary_ck [of k buffer bstr 0 h] less have h1: "kept k h1" by simp
  show ?case
  proof (cases p)
    case None
    with c h1 show ?thesis by (subst boundary_loop.simps) (simp add: boundary_data_ck)
  next
    case (Some pos)
    from c Some have ne: "buffer \<noteq> []"
      by (auto simp: check_if_have_new_boundary_def Let_def split: if_splits)
    have at: "rpost (kept k) (boundary_loop os bstr (drop n buffer) h')" if "kept k h'" "0 < n" for n h'
      using that ne by (intro less(1)) auto
    have skip: "0 < skip_delimiter bstr buffer" using skip_delimiter_ge [of bstr buffer] by simp
    show ?thesis
    proof (cases "pos = 0")
      case True
      have "rpost (kept k) (if st_processing_file (hs_st h1)
          then rbind (create_file os buffer 2 h1) (\<lambda>h2. Inr (h_processing False h2)) else Inr h1)"
        using h1 by (simp add: ck_simps create_file_ck del: rpost_simps(3))
          (auto intro!: rpost_bind [OF create_file_ck [of k]] simp: ck_simps simp del: rpost_simps(3))
      then show ?thesis
        by (subst boundary_loop.simps, simp only: c Some True prod.case option.case if_True simp_thms)
          (erule rpost_bind, auto intro: at skip)
    next
      case False
      show ?thesis
        by (subst boundary_loop.simps, simp only: c Some False prod.case option.case if_False,
            intro rpost_bind [OF boundary_data_ck [OF h1]] rpost_bind [OF create_file_ck [of k]] at)
          (use False in \<open>simp_all add: ck_simps\<close>)
    qed
  qed
qed

lemma boundary_ck: "kept k h \<Longrightarrow> rpost (kept k) (boundary os h)"
proof -
  have run: "kept k h \<Longrightarrow> rpost (kept k) (boundary_run os buffer h)" for buffer h
    unfolding boundary_run_def Let_def
    by (rule rpost_bind [OF boundary_loop_ck [of k]])
      (auto simp: ck_simps intro!: rpost_mono [OF create_file_ck [of k]])
  assume "kept k h"
  then show ?thesis
    unfolding boundary_def Let_def by (auto simp: ck_simps intro!: run split: option.split)
qed

section \<open>Scripts\<close>

lemma exec_script_ck: "kept k h \<Longrightarrow> rpost (\<lambda>(n, h1). kept k h1) (exec_script os run p env i body h)"
proof -
  have fin: "kept k h1 \<Longrightarrow> rpost (\<lambda>(n, h1). kept k h1) (exec_finish os p st content h1)" for st content h1
    by (simp add: exec_finish_def ck_simps split_def split: wait_status.split)
      (simp add: rpost_def kept_def ck_def client_simps)
  assume "kept k h"
  then show ?thesis
    by (auto simp: exec_script_def Let_def ck_simps intro!: fin split: outcome.split prod.split option.split)
qed

lemma cgi_handler_ck: "kept k h \<Longrightarrow> rpost (\<lambda>(n, h1). kept k h1) (cgi_handler os run body sn h)"
  by (simp add: cgi_handler_def Let_def exec_script_ck)

lemma cgi_post_ck:
  assumes "kept k h" and set: "\<And>s h. kept k (set_body s h) = kept k h"
  shows "rpost (kept k) (cgi_post os run path body set_body h)"
  unfolding cgi_post_def Let_def
  by (auto simp: ck_simps set assms(1) simp del: rpost_simps(3) split: option.split
      intro!: rpost_bind [OF chunked_for_cgi_ck [OF assms(1)]] rpost_bind [OF cgi_handler_ck [of k]])

lemma cgi_location_loop_ck:
  "kept k h \<Longrightarrow> rpost (\<lambda>(b, h1). kept k h1) (cgi_location_loop os run path ex vec bol h)"
proof (induction vec arbitrary: bol h)
  case (Cons v vec)
  then show ?case
    by (auto simp: ck_simps simp del: rpost_simps(3)
        intro!: rpost_bind [OF cgi_post_ck [of k]] rpost_bind [OF cgi_handler_ck [of k]])
qed simp

lemma check_if_have_cgi_ck:
  "kept k h \<Longrightarrow> rpost (\<lambda>(b, h1). kept k h1) (check_if_have_cgi os run h)"
  unfolding check_if_have_cgi_def Let_def
  by (auto simp: ck_simps simp del: rpost_simps(3) split: option.split
      intro!: rpost_any [of _ _ "current_route s" for s] cgi_location_loop_ck rpost_bind [OF cgi_post_ck [of k]]
        rpost_bind [OF cgi_handler_ck [of k]])

section \<open>GET, DELETE and the whole request\<close>

lemma serve_file_ck [ck_simps]: "kept k (serve_file os path h) = kept k h"
  by (simp add: serve_file_def kept_def ck_def fill_response_def client_simps Let_def split: option.split)

lemma response_to_get_ck: "kept k h \<Longrightarrow> rpost (kept k) (response_to_get os h)"
proof -
  have dir: "kept k h \<Longrightarrow> rpost (kept k) (response_to_dir os pat names h)" for pat names
    unfolding response_to_dir_def Let_def check_auto_index_def
    by (intro rpost_any) (auto simp: ck_simps simp del: rpost_simps(3) intro!: rpost_any)
  assume "kept k h"
  then show ?thesis
    unfolding response_to_get_def Let_def
    by (auto simp: ck_simps intro!: dir split: option.split file_type.split)
qed

lemma answer_request_ck: "kept k h \<Longrightarrow> rpost (kept k) (answer_request os h)"
proof -
  assume h: "kept k h"
  have "kept k (snd (check_uri os h))"
    by (simp add: check_uri_def ck_simps h split: option.split)
  then have post: "rpost (kept k) (post_request os t c h)" for t c
    unfolding post_request_def Let_def
    by (auto simp: split_def ck_simps simp del: rpost_simps(3)
        intro!: rpost_bind [OF boundary_ck [of k]] rpost_bind [OF chunked_ck [of k]]
          rpost_bind [OF hanlde_post_request_ck [of k]])
  have del: "rpost (kept k) (delete_request os h)"
    using h by (simp add: delete_request_def Let_def ck_simps split: option.split)
  show ?thesis
    using h post del rpost_mono [OF response_to_get_ck [OF h]]
    by (simp add: answer_request_def Let_def ck_simps)
qed

lemma dispatch_request_ck: "kept k h \<Longrightarrow> rpost (kept k) (dispatch_request os run h)"
  unfolding dispatch_request_def
  by (auto simp: ck_simps simp del: rpost_simps(3) intro!: answer_request_ck
      rpost_bind [OF check_if_have_cgi_ck [of k]])

lemma redirection_ck:
  "rpost (\<lambda>c1. cl_client_id c1 = cl_client_id c \<and> cl_keep_alive c1 = cl_keep_alive c)
     (check_if_have_redirection os w c)"
  by (auto simp: check_if_have_redirection_def redirection_loop_frame simp del: rpost_simps(3)
      intro!: rpost_any)

lemma parse_body_length_ck:
  "\<not> cl_keep_alive c \<Longrightarrow>
     rpost (\<lambda>c1. cl_client_id c1 = cl_client_id c \<and> \<not> cl_keep_alive c1)
       (parse_body_length os w m tmp c)"
  unfolding parse_body_length_def Let_def
  by (auto simp: split_def intro: rpost_mono [OF redirection_ck])

lemma parse_target_ck:
  "\<not> cl_keep_alive c \<Longrightarrow>
     rpost (\<lambda>c1. cl_client_id c1 = cl_client_id c \<and> \<not> cl_keep_alive c1)
       (parse_target os w m rest pa c)"
proof -
  let ?P = "\<lambda>c1. cl_client_id c1 = cl_client_id c \<and> \<not> cl_keep_alive c1"
  assume c: "\<not> cl_keep_alive c"
  have root: "rpost (\<lambda>(ok, pa', c1). ?P c1) (out_root_dir os w pa c)" for pa
    unfolding out_root_dir_def using c by (intro rpost_any) (auto split: option.split)
  have headers: "?P c1 \<Longrightarrow> ?P (snd (fill_headers_map os w rest (set_path pa' c1)))" for c1 pa'
    using fill_headers_map_frame(1) [of os w rest "set_path pa' c1"
        "fst (fill_headers_map os w rest (set_path pa' c1))" "snd (fill_headers_map os w rest (set_path pa' c1))"]
    by (auto simp: headers_frame_def client_simps)
  have len: "?P c1 \<Longrightarrow> rpost ?P (parse_body_length os w m t c1)" for t c1
    using parse_body_length_ck [of c1 os w m t] by (auto elim: rpost_mono)
  have cont: "rpost ?P (if \<not> ok
       then Inr (set_response_index True (set_response (rs_response (cl_response c1)) c1))
       else let (ok2, c2) = fill_headers_map os w rest (set_path pa' c1)
       in if \<not> ok2 then Inr (set_response_index True c2)
          else let tmp = get_map_values ''Content-Length'' (cl_request c2)
               in rbind (is_location_path (cl_server c2) pa')
                   (\<lambda>(located, s).
                       let c3 = c2\<lparr>cl_server := s\<rparr>; pa' = target_path s located pa';
                           c4 = if pa' \<noteq> [] then set_path pa' c3 else c3
                       in if \<not> is_valid_method s pa' m then Inr (set_response_error os w 405 c4)
                          else parse_body_length os w m tmp c4))" if c1: "?P c1" for ok pa' and c1 :: Client
  proof -
    from headers [OF c1, of pa'] obtain ok2 c2
      where f: "fill_headers_map os w rest (set_path pa' c1) = (ok2, c2)" and p: "?P c2"
      by (cases "fill_headers_map os w rest (set_path pa' c1)") auto
    show ?thesis
      unfolding f Let_def prod.case using p c1
      by (auto simp: client_simps simp del: rpost_simps(3) intro!: rpost_any len split: prod.split)
  qed
  show ?thesis
    unfolding parse_target_def
    by (rule rpost_bind [OF root], simp only: split_paired_all prod.case, rule cont)
qed

lemma parse_request_ck:
  "rpost (\<lambda>c1. cl_client_id c1 = cl_client_id c \<and> \<not> cl_keep_alive c1) (parse_request os w c)"
  unfolding parse_request_def Let_def
  by (auto simp: client_simps simp del: rpost_simps(3) split: option.split
     intro!: rpost_any rpost_mono [OF parse_target_ck])

lemma check_request_ck:
  assumes "\<not> cl_keep_alive (hs_cl h)"
  shows "rpost (\<lambda>h1. cl_client_id (hs_cl h1) = cl_client_id (hs_cl h) \<and> \<not> cl_keep_alive (hs_cl h1))
    (check_request os run h)"
proof -
  let ?k = "(cl_client_id (hs_cl h), False)"
  have s: "kept ?k (h_start h)" using assms by (simp add: kept_def ck_def h_start_def h_simps)
  have "rpost (kept ?k) (check_request os run h)"
    unfolding check_request_def Let_def
  proof (rule rpost_bind [OF _ dispatch_request_ck])
    have "rpost (kept ?k) (rbind (parse_request os (hs_world (h_start h)) (hs_cl (h_start h)))
               (\<lambda>c. Inr ((h_start h)\<lparr>hs_cl := c\<rparr>)))"
      by (rule rpost_bind [OF parse_request_ck]) (use s in \<open>auto simp: kept_def ck_def\<close>)
    with s show "rpost (kept ?k) (if \<not> rq_index (h_req (h_start h))
        then rbind (parse_request os (hs_world (h_start h)) (hs_cl (h_start h)))
               (\<lambda>c. Inr ((h_start h)\<lparr>hs_cl := c\<rparr>))
        else Inr (h_start h))"
      by (simp del: rpost_simps(3))
  qed
  then show ?thesis by (rule rpost_mono) (simp add: kept_def ck_def)
qed

end
