(* ===== verification/Memory_os.thy ===== *)
theory Memory_os
  imports Client_state "HOL-Library.Code_Target_Nat"
begin

text \<open>
  A file system in memory: an instance of the interface \<open>os\<close> on which the properties are
  evaluated.  A path is bound to the bytes of a file or, for a directory, to \<open>None\<close>.
\<close>

type_synonym fs = "(string \<times> string option) list"

definition mem_stat :: "string \<Rightarrow> fs \<Rightarrow> file_stat option" where
  "mem_stat p w = (case map_of w p of
     None \<Rightarrow> None
   | Some n \<Rightarrow> Some \<lparr>st_type = (if n = None then Directory else Regular), st_rusr = True, st_wusr = True\<rparr>)"

definition mem_exists :: "string \<Rightarrow> fs \<Rightarrow> bool" where
  "mem_exists p w \<longleftrightarrow> map_of w p \<noteq> None"

definition mem_opendir :: "string \<Rightarrow> fs \<Rightarrow> string list option" where
  "mem_opendir p w = (if map_of w p = Some None
     then Some (filter (\<lambda>n. CHR ''/'' \<notin> set n)
       (map (\<lambda>e. drop (length p + 1) (fst e)) (filter (\<lambda>e. prefix (p @ ''/'') (fst e)) w)))
     else None)"

definition mem_remove :: "string \<Rightarrow> fs \<Rightarrow> bool \<times> fs" where
  "mem_remove p w = (map_of w p \<noteq> None, filter (\<lambda>e. fst e \<noteq> p) w)"

definition mem_read :: "string \<Rightarrow> fs \<Rightarrow> string option" where
  "mem_read p w = (case map_of w p of None \<Rightarrow> None | Some n \<Rightarrow> n)"

definition mem_create :: "string \<Rightarrow> fs \<Rightarrow> fs option" where
  "mem_create p w = (if map_of w p = Some None then None
     else Some ((p, Some []) # filter (\<lambda>e. fst e \<noteq> p) w))"

definition mem_append :: "string \<Rightarrow> string \<Rightarrow> fs \<Rightarrow> fs option" where
  "mem_append p d w = (case mem_read p w of
     None \<Rightarrow> None
   | Some old \<Rightarrow> Some ((p, Some (old @ d)) # filter (\<lambda>e. fst e \<noteq> p) w))"

definition mem_os :: "fs os" where
  "mem_os = \<lparr>os_stat = mem_stat, os_access_r = mem_exists, os_access_f = mem_exists,
     os_opendir = mem_opendir, os_remove = mem_remove, os_read = mem_read,
     os_create = mem_create, os_append = mem_append\<rparr>"

lemmas mem_defs = mem_stat_def mem_exists_def mem_opendir_def mem_remove_def mem_read_def
  mem_create_def mem_append_def

lemma mem_os_simps [simp]:
  "os_stat mem_os = mem_stat" "os_access_r mem_os = mem_exists" "os_access_f mem_os = mem_exists"
  "os_opendir mem_os = mem_opendir" "os_remove mem_os = mem_remove" "os_read mem_os = mem_read"
  "os_create mem_os = mem_create" "os_append mem_os = mem_append"
  by (simp_all add: mem_os_def)

end
