(* ===== verification/Request_properties.thy ===== *)
theory Request_properties
  imports Dispatch Client_frame Memory_os
begin

text \<open>
  The properties of request handling, from the bytes of a request to the files, scripts and
  responses it leads to, with their instances on the file system in memory.
\<close>

section \<open>The file system in memory meets the contracts\<close>

lemma mem_file_laws: "file_laws mem_os"
  by (auto simp: file_laws_def mem_defs split: if_splits option.splits)

lemma mem_names_ok: "names_ok mem_os"
  by (auto simp: names_ok_def mem_defs split: if_splits)

text \<open>A file that can be read can be appended to.\<close>

definition appends_ok :: "'w os \<Rightarrow> bool" where
  "appends_ok os \<longleftrightarrow> (\<forall>p d w old. os_read os p w = Some old \<longrightarrow> os_append os p d w \<noteq> None)"

lemma mem_appends_ok: "appends_ok mem_os"
  by (auto simp: appends_ok_def mem_defs split: option.splits)

section \<open>Requests\<close>

text \<open>
  C2: a request that the parser does not answer itself names a file inside one of the
  configured roots, uses a known method that the location allows, and, for POST, announces a
  length that is positive and within the limit.
\<close>

theorem parsed_request_contained:
  assumes "parse_request os w c = Inr c'" and "\<not> rs_Ready_to_send (cl_response c')"
    and "sb_server_root (cl_server c) \<noteq> []"
  shows "contained (cl_server c) (rq_path (cl_request c')) \<and>
         rq_method (cl_request c') \<in> {''GET'', ''POST'', ''DELETE''} \<and>
         is_valid_method (cl_server c') (rq_path (cl_request c')) (rq_method (cl_request c')) \<and>
         length_accepted (rq_method (cl_request c')) c'"
  using parse_request_pending [OF assms(1) _ assms(3)] assms(2) by (simp add: pending_def)

definition example_fs :: fs where
  "example_fs = [(''./html'', None), (''./html/a'', Some ''xyz''), (''./upload'', None)]"

definition example_request :: "string \<Rightarrow> fs hstate" where
  "example_request s = \<lparr>hs_world = example_fs, hs_st = init_statics,
     hs_cl = (new_Client 5 new_ServerBlock)\<lparr>cl_request := new_Request\<lparr>rq_s_request := s\<rparr>\<rparr>\<rparr>"

definition delete_text :: string where
  "delete_text = ''DELETE /x/../a HTTP/1.1'' @ crlf @ ''Host: h'' @ crlf @ crlf"

definition delete_client :: Client where
  "delete_client = (case parse_request mem_os example_fs (hs_cl (h_start (example_request delete_text))) of
     Inr c \<Rightarrow> c | Inl e \<Rightarrow> hs_cl (example_request []))"

lemma delete_client:
  "parse_request mem_os example_fs (hs_cl (h_start (example_request delete_text))) = Inr delete_client"
  "\<not> rs_Ready_to_send (cl_response delete_client)"
  "rq_method (cl_request delete_client) = ''DELETE''"
  "sb_server_root (cl_server (hs_cl (h_start (example_request delete_text)))) \<noteq> []"
  by code_simp+

theorem parsed_request_contained_witness:
  "contained (cl_server (hs_cl (h_start (example_request delete_text)))) (rq_path (cl_request delete_client)) \<and>
   rq_method (cl_request delete_client) \<in> {''GET'', ''POST'', ''DELETE''} \<and>
   is_valid_method (cl_server delete_client) (rq_path (cl_request delete_client)) (rq_method (cl_request delete_client)) \<and>
   length_accepted (rq_method (cl_request delete_client)) delete_client"
  by (rule parsed_request_contained [OF delete_client(1,2,4)])

text \<open>
  C15: parsing never leaves the program: whatever the bytes of a request are, no access is
  out of range and no exception escapes.
\<close>

theorem parse_request_returns:
  assumes "length (rq_s_request (cl_request c)) < 2 ^ 64" and "location_ok (cl_server c)"
  shows "\<exists>c'. parse_request os w c = Inr c'"
  using assms by (rule parse_request_total)

theorem parse_request_returns_witness:
  "\<exists>c'. parse_request mem_os example_fs (hs_cl (example_request ''GET'')) = Inr c'"
  by (rule parse_request_returns) code_simp+

text \<open>Header lines as a client writes them, and what a name and a value may contain.\<close>

definition header_text :: "(string \<times> string) list \<Rightarrow> string" where
  "header_text kvs = concat (map (\<lambda>(k, v). k @ '': '' @ v @ crlf) kvs)"

definition visible :: "char \<Rightarrow> bool" where
  "visible c \<longleftrightarrow> is_print c \<and> \<not> is_space c"

definition field_ok :: "string \<times> string \<Rightarrow> bool" where
  "field_ok kv \<longleftrightarrow> (case kv of (k, v) \<Rightarrow> k \<noteq> [] \<and> hd k \<noteq> SP \<and> CHR '':'' \<notin> set k \<and> CR \<notin> set k \<and>
     LF \<notin> set k \<and> v \<noteq> [] \<and> visible (hd v) \<and> visible (last v) \<and> LF \<notin> set v)"

lemma trim_class_around:
  assumes "\<forall>c \<in> set a \<union> set b. P c" and "v \<noteq> []" and "\<not> P (hd v)" and "\<not> P (last v)"
  shows "trim_class P (a @ v @ b) = v"
proof -
  have "dropWhile P (a @ v @ b) = v @ b"
    using assms by (cases v) (simp_all add: dropWhile_append2)
  moreover have "dropWhile P (rev b @ rev v) = rev v"
    using assms by (cases v rule: rev_cases) (auto simp: dropWhile_append)
  ultimately show ?thesis by (simp add: trim_class_def)
qed

lemma field_value:
  assumes "v \<noteq> []" and "visible (hd v)" and "visible (last v)"
  shows "trim (trim_non_printable (SP # v @ [CR])) = v"
proof -
  have "trim_class (\<lambda>c. \<not> is_print c) ([] @ (SP # v) @ [CR]) = SP # v"
    using assms by (intro trim_class_around) (simp_all add: visible_def eval_simps)
  moreover have "trim_class is_space ([SP] @ v @ []) = v"
    using assms by (intro trim_class_around) (simp_all add: visible_def eval_simps)
  ultimately show ?thesis by (simp add: trim_def trim_non_printable_def)
qed

lemma header_line:
  assumes "field_ok (k, v)"
  shows "fill_headers_loop os w ((k @ CHR '':'' # SP # v @ [CR]) # ls) val c =
     fill_headers_loop os w ls v (add_header k v c)"
proof -
  have "str_find '':'' (k @ '':'' @ SP # v @ [CR]) = Some (length k)"
    using assms str_find_char_append [of "CHR '':''" k "SP # v @ [CR]"] by (simp add: field_ok_def)
  then have "header_split (k @ '': '' @ v @ [CR]) val = (k, SP # v @ [CR])"
    by (simp add: header_split_def)
  then show ?thesis
    using assms field_value [of v]
    by (auto simp: field_ok_def fill_headers_loop.simps Let_def)
qed

lemma add_header_map: "rq_headers_map (cl_request (add_header k v c)) = map_put k v (rq_headers_map (cl_request c))"
  by (simp add: add_header_def client_simps Let_def)

lemma header_lines:
  "\<forall>kv \<in> set kvs. field_ok kv \<Longrightarrow>
     \<exists>val' c'. fill_headers_loop os w (map (\<lambda>(k, v). k @ '': '' @ v @ [CR]) kvs @ ls) val c =
         fill_headers_loop os w ls val' c' \<and>
       rq_headers_map (cl_request c') = std_map.put_all kvs (rq_headers_map (cl_request c))"
proof (induction kvs arbitrary: val c)
  case (Cons kv kvs)
  obtain k v where kv: "kv = (k, v)" by (cases kv)
  with Cons.prems Cons.IH [of v "add_header k v c"] show ?case
    by (simp add: header_line add_header_map)
qed auto

lemma getlines_header_text:
  assumes "\<forall>kv \<in> set kvs. field_ok kv"
  shows "getlines LF (header_text kvs @ crlf) = map (\<lambda>(k, v). k @ '': '' @ v @ [CR]) kvs @ [[CR]]"
proof -
  let ?ls = "map (\<lambda>(k, v). k @ '': '' @ v @ [CR]) kvs @ [[CR]]"
  have "header_text kvs @ crlf = concat (map (\<lambda>l. l @ [LF]) ?ls) @ []"
    by (simp add: header_text_def crlf_def comp_def split_def)
  moreover have "\<forall>l \<in> set ?ls. LF \<notin> set l" using assms by (auto simp: field_ok_def)
  ultimately show ?thesis using getlines_lines [of ?ls "[]"] by simp
qed

lemma headers_text_parsed:
  assumes "\<forall>kv \<in> set kvs. field_ok kv" and "rq_headers_map (cl_request c) = []"
  shows "\<exists>c'. fill_headers_map os w (header_text kvs @ crlf) c = (True, c') \<and>
      (\<forall>name. name \<noteq> [CR] \<longrightarrow> map_of (rq_headers_map (cl_request c')) name = map_of (rev kvs) name) \<and>
      map_of (rq_headers_map (cl_request c')) [CR] \<noteq> None"
proof -
  obtain val c1 where c1: "fill_headers_map os w (header_text kvs @ crlf) c =
        fill_headers_loop os w [[CR]] val c1"
    and m1: "rq_headers_map (cl_request c1) = std_map.put_all kvs []"
    using header_lines [OF assms(1), of os w "[[CR]]" "[]" c] assms(2)
    by (auto simp: fill_headers_map_def getlines_header_text [OF assms(1)])
  let ?v = "trim (trim_non_printable val)" and ?m = "std_map.put_all kvs []"
  let ?c' = "add_header [CR] ?v c1"
  have wf: "map_wf ?m" by (rule std_map.ok_put_all) auto
  have m: "rq_headers_map (cl_request ?c') = map_put [CR] ?v ?m" by (simp add: add_header_map m1)
  have look: "map_of (map_put [CR] ?v ?m) name = (if name = [CR] then Some ?v else map_of (rev kvs) name)" for name
    using std_map.lookup_put [OF wf] std_map.lookup_put_all_emp [of kvs] by simp
  have ne: "map_put [CR] ?v ?m \<noteq> []" using look [of "[CR]"] by auto
  have "header_split [CR] val = ([CR], val)" by (simp add: header_split_def)
  then have "fill_headers_loop os w [[CR]] val c1 = (True, ?c')"
    using ne m by (simp add: fill_headers_loop.simps(2))
  with c1 m look show ?thesis by simp
qed

text \<open>
  C8: header lines are read back: every name is bound to the value of its last line.  The
  empty line that ends the head is stored too, as a header named CR, so a request without any
  header is never found out.
\<close>

theorem headers_parsed:
  assumes "\<forall>kv \<in> set kvs. field_ok kv" and "rq_headers_map (cl_request c) = []"
  shows "\<exists>c'. fill_headers_map os w (header_text kvs @ crlf) c = (True, c') \<and>
      (\<forall>name. name \<noteq> [CR] \<longrightarrow> map_of (rq_headers_map (cl_request c')) name = map_of (rev kvs) name) \<and>
      map_of (rq_headers_map (cl_request c')) [CR] \<noteq> None"
  using assms by (rule headers_text_parsed)

theorem headers_parsed_witness:
  "\<exists>c'. fill_headers_map mem_os example_fs (header_text [(''Host'', ''a''), (''Host'', ''b'')] @ crlf)
        (new_Client 3 new_ServerBlock) = (True, c') \<and>
      map_of (rq_headers_map (cl_request c')) ''Host'' = Some ''b'' \<and>
      map_of (rq_headers_map (cl_request c')) [CR] \<noteq> None"
proof -
  have "\<forall>kv \<in> set [(''Host'', ''a''), (''Host'', ''b'')]. field_ok kv"
    and "rq_headers_map (cl_request (new_Client 3 new_ServerBlock)) = []" by code_simp+
  from headers_parsed [OF this, of mem_os example_fs] show ?thesis by force
qed

section \<open>DELETE\<close>

text \<open>
  C3: whatever a DELETE request names, the only changes to the file system are calls of
  \<open>remove\<close> on a path inside one of the configured roots and on entries below it.
\<close>

theorem delete_contained:
  assumes "\<not> rq_index (h_req h)"
    and "parse_request os (hs_world h) (hs_cl (h_start h)) = Inr c"
    and "rq_method (cl_request c) = ''DELETE''" and "check_request os run h = Inr h'"
    and "names_ok os" and "sb_server_root (cl_server (hs_cl h)) \<noteq> []"
  shows "\<exists>p. contained (cl_server (hs_cl h)) p \<and> removals os p (hs_world h) (hs_world h')"
  using assms by (rule delete_stays_inside)

definition delete_state :: "fs hstate" where
  "delete_state = (case check_request mem_os no_runner (example_request delete_text) of
     Inr h \<Rightarrow> h | Inl e \<Rightarrow> example_request [])"

lemma delete_state:
  "\<not> rq_index (h_req (example_request delete_text))"
  "hs_world (example_request delete_text) = example_fs"
  "check_request mem_os no_runner (example_request delete_text) = Inr delete_state"
  "sb_server_root (cl_server (hs_cl (example_request delete_text))) \<noteq> []"
  by code_simp+

theorem delete_contained_witness:
  "\<exists>p. contained (cl_server (hs_cl (example_request delete_text))) p \<and>
     removals mem_os p (hs_world (example_request delete_text)) (hs_world delete_state)"
  by (rule delete_contained [OF delete_state(1) _ delete_client(3) delete_state(3) mem_names_ok delete_state(4)])
    (simp only: delete_state(2) delete_client(1))

text \<open>
  C16: DELETE returns: on directories that are nested at most \<open>d\<close> deep, in every state that
  calls of \<open>remove\<close> lead to, the recursion ends.
\<close>

theorem delete_returns:
  assumes "\<And>p w. W w \<Longrightarrow> W (snd (os_remove os p w))" and "depth_le W d os p" and "W w"
  shows "\<exists>ok w'. handle_delete_request os p w = Some (ok, w') \<and> W w'"
  using assms by (rule handle_delete_returns)

definition small_fs :: "fs \<Rightarrow> bool" where
  "small_fs w \<longleftrightarrow> set w \<subseteq> {(''d'', None), (''d/f'', Some ''x'')}"

lemma small_fs_depth: "depth_le small_fs 1 mem_os ''d''"
proof -
  have "n = ''f''" if "small_fs w" "mem_opendir ''d'' w = Some names" "n \<in> set names" for w names n
    using that by (fastforce simp: mem_opendir_def small_fs_def split: if_splits)
  moreover have "st_type st \<noteq> Directory" if "small_fs w" "mem_stat ''d/f'' w = Some st" for w st
    using that by (auto simp: mem_stat_def small_fs_def split: option.splits if_splits dest!: map_of_SomeD)
  ultimately show ?thesis by (fastforce simp: c_str_def)
qed

theorem delete_returns_witness:
  "\<exists>ok w'. handle_delete_request mem_os ''d'' [(''d'', None), (''d/f'', Some ''x'')] = Some (ok, w') \<and> small_fs w'"
  by (rule delete_returns [OF _ small_fs_depth]) (auto simp: small_fs_def mem_remove_def)

section \<open>GET\<close>

text \<open>
  C13: a GET for a readable regular file answers 200 with a head that parses into its lines,
  the length of the file among them, and leaves exactly the bytes of the file to be sent.
\<close>

theorem get_regular_file:
  assumes "os_stat os (c_str (rq_path (h_req h))) (hs_world h) = Some st" and "st_type st = Regular"
    and "st_rusr st" and "os_read os (c_str (rq_path (h_req h))) (hs_world h) = Some bytes"
    and "rq_redirection (h_req h) = -1"
  shows "\<exists>h'. response_to_get os h = Inr h' \<and>
      parse_http (rs_response (cl_response (hs_cl h'))) =
        Some (file_lines (hs_cl h) (rq_path (h_req h)) 200 (length bytes), []) \<and>
      rs_fileStream (cl_response (hs_cl h')) = \<lparr>is_open = True, unread = bytes, eof_bit = False\<rparr> \<and>
      hs_world h' = hs_world h"
proof -
  have "response_to_get os h = Inr (serve_file os (rq_path (h_req h)) h)"
    using assms(1-3) by (simp add: response_to_get_def Let_def)
  with serve_file_response [OF assms(4,5)] parse_http_message [OF file_lines_ok] show ?thesis by simp
qed

definition get_state :: "fs hstate" where
  "get_state = (example_request [])\<lparr>hs_cl := set_path ''./html/a'' (hs_cl (example_request []))\<rparr>"

theorem get_regular_file_witness:
  "\<exists>h'. response_to_get mem_os get_state = Inr h' \<and>
      parse_http (rs_response (cl_response (hs_cl h'))) =
        Some (file_lines (hs_cl get_state) (rq_path (h_req get_state)) 200 (length ''xyz''), []) \<and>
      rs_fileStream (cl_response (hs_cl h')) = \<lparr>is_open = True, unread = ''xyz'', eof_bit = False\<rparr> \<and>
      hs_world h' = hs_world get_state"
  by (rule get_regular_file [where st = "\<lparr>st_type = Regular, st_rusr = True, st_wusr = True\<rparr>"]) code_simp+

text \<open>
  A directory listing announces fewer bytes than it has: the length is taken before the
  end of the page is appended.
\<close>

theorem listing_length_short:
  "parse_http (listing_response c found) = Some (listing_lines c (length found), found @ listing_end) \<and>
   ''Content-Length: '' @ show_nat (length found) \<in> set (listing_lines c (length found)) \<and>
   length (found @ listing_end) = length found + 29"
  using parse_http_message [OF listing_lines_ok, of c "length found" "found @ listing_end"]
  by (simp add: listing_response_message) (simp add: listing_lines_def listing_end_def)

section \<open>Error pages\<close>

text \<open>
  C14: without a configured page and without a redirection the answer for a status is a
  message that parses into its four lines and the page, and the announced length is the
  length of the page; the client is ready to be written to.
\<close>

theorem builtin_page_sent:
  assumes "find_error_page_path (cl_server c) status = ''NULL''" and "rq_redirection (cl_request c) = -1"
  shows "parse_http (rs_response (cl_response (set_response_error os w status c))) =
           Some (builtin_lines c status, status_page status) \<and>
         ''Content-Length: '' @ show_nat (length (status_page status)) \<in> set (builtin_lines c status) \<and>
         rs_Ready_to_send (cl_response (set_response_error os w status c)) \<and>
         cl_all_recv (set_response_error os w status c)"
proof -
  let ?c = "c\<lparr>cl_all_recv := True\<rparr>"
  have b: "builtin_lines ?c status = builtin_lines c status"
    by (simp add: builtin_lines_def connection_line_def)
  have "rs_response (cl_response (set_response_error os w status c)) = builtin_response ?c status"
    using assms(1) by (simp add: set_response_error_def client_simps Let_def)
  also have "\<dots> = http_message (builtin_lines c status) (status_page status)"
    using builtin_response_message [of ?c status] assms(2) b by simp
  finally show ?thesis using parse_http_message [OF builtin_lines_ok] by (simp add: builtin_lines_def)
qed

theorem builtin_page_sent_witness:
  "parse_http (rs_response (cl_response (set_response_error mem_os example_fs 413 (new_Client 3 new_ServerBlock)))) =
     Some (builtin_lines (new_Client 3 new_ServerBlock) 413, status_page 413) \<and>
   ''Content-Length: '' @ show_nat (length (status_page 413)) \<in> set (builtin_lines (new_Client 3 new_ServerBlock) 413) \<and>
   rs_Ready_to_send (cl_response (set_response_error mem_os example_fs 413 (new_Client 3 new_ServerBlock))) \<and>
   cl_all_recv (set_response_error mem_os example_fs 413 (new_Client 3 new_ServerBlock))"
  by (rule builtin_page_sent) code_simp+

text \<open>
  The status line of a built-in page has no blank between the code and the reason.
\<close>

theorem status_line_404:
  "rq_redirection (cl_request c) = -1 \<Longrightarrow>
     take 24 (builtin_response c 404) = ''HTTP/1.1 404Not Found '' @ crlf"
  by (simp add: builtin_response_def get_response_title_def Let_def show_int_def eval_simps
      show_nat.simps digit_char_def crlf_def)

theorem status_line_404_witness:
  "take 24 (builtin_response (new_Client 3 new_ServerBlock) 404) = ''HTTP/1.1 404Not Found '' @ crlf"
  by (rule status_line_404) code_simp

section \<open>POST\<close>

lemma content_extension_s_request: "content_extension (rq\<lparr>rq_s_request := s\<rparr>) = content_extension rq"
  by (simp add: content_extension_def get_map_values_def)

text \<open>The first piece opens the file; \<open>dir\<close> is where uploads go when no location applies.\<close>

lemma post_first:
  assumes laws: "file_laws os"
    and st: "\<not> st_first (hs_st h)" "st_writed (hs_st h) = 0"
    and loc: "is_location_url (cl_server (hs_cl h)) = -1"
    and dir: "os_stat os ''./upload'' (hs_world h) = Some ds" "st_type ds = Directory" "st_wusr ds"
    and gen: "ft_generate_file_names os (hs_world h) (content_extension (h_req h)) ''./upload''
      (st_name_index (hs_st h)) = Some (name, i)"
    and create: "os_create os (c_str name) (hs_world h) = Some w1" and closed: "rq_file (h_req h) = None"
  obtains h2 where "\<And>s. os_append os (c_str name) s w1 \<noteq> None \<Longrightarrow>
      hanlde_post_request os (h_s_request s h) = hanlde_post_request os (h_s_request s h2)"
    "rq_content_length (h_req h2) = rq_content_length (h_req h)" "st_first (hs_st h2)"
    "rq_file (h_req h2) = Some name" "hs_world h2 = w1" "st_writed (hs_st h2) = 0"
    "cl_all_recv (hs_cl h2) = cl_all_recv (hs_cl h)"
proof -
  let ?h2 = "(h_file (Some name) h)\<lparr>hs_world := w1,
    hs_st := (hs_st h)\<lparr>st_first := True, st_name_index := i\<rparr>\<rparr>"
  have cd: "c_str ''./upload'' = ''./upload''" by (simp add: c_str_def)
  have swap: "h\<lparr>hs_st := st, hs_world := w, hs_cl := c\<rparr> = h\<lparr>hs_world := w, hs_st := st, hs_cl := c\<rparr>"
    "r\<lparr>rq_s_request := s, rq_file := f\<rparr> = r\<lparr>rq_file := f, rq_s_request := s\<rparr>"
    for h :: "'a hstate" and st w c r s f by simp_all
  have "hanlde_post_request os (h_s_request s h) = post_write os name (h_s_request s ?h2)" for s
    using st loc dir gen create cd closed
    by (simp add: hanlde_post_request_def h_s_request_def get_file_name_def upload_dir_def client_simps
        h_file_def content_extension_s_request swap Let_def)
  moreover have "hanlde_post_request os (h_s_request s ?h2) = post_write os name (h_s_request s ?h2)"
    if "os_append os (c_str name) s w1 \<noteq> None" for s
    using that by (cases "os_append os (c_str name) s w1")
      (simp_all add: hanlde_post_request_def post_more_def h_s_request_def client_simps h_file_def)
  ultimately show thesis
    by (intro that [of ?h2]) (simp_all add: st(2) h_file_def)
qed

lemma post_rest:
  assumes laws: "file_laws os" "appends_ok os"
  shows "uploading os path old n h \<Longrightarrow> ss \<noteq> [] \<Longrightarrow> \<forall>s \<in> set ss. s \<noteq> [] \<Longrightarrow>
     length old + length (concat ss) = n \<Longrightarrow>
     \<exists>h'. post_reads os ss h = Inr h' \<and> os_read os (c_str path) (hs_world h') = Some (old @ concat ss) \<and>
       cl_all_recv (hs_cl h') \<and> \<not> st_first (hs_st h') \<and> st_writed (hs_st h') = 0"
proof (induction ss arbitrary: old h)
  case (Cons s ss)
  obtain w' where app: "os_append os (c_str path) s (hs_world h) = Some w'"
    using Cons.prems(1) laws(2) unfolding uploading_def appends_ok_def by blast
  obtain h1 where h1: "hanlde_post_request os (h_s_request s h) = Inr h1" "hs_world h1 = w'"
    "os_read os (c_str path) w' = Some (old @ s)"
    and more: "length (old @ s) < n \<Longrightarrow> uploading os path (old @ s) n h1 \<and> cl_all_recv (hs_cl h1) = cl_all_recv (hs_cl h)"
    and last: "length (old @ s) \<ge> n \<Longrightarrow> cl_all_recv (hs_cl h1) \<and> \<not> st_first (hs_st h1) \<and> st_writed (hs_st h1) = 0"
    using uploading_step [OF laws(1) Cons.prems(1) app] by metis
  show ?case
  proof (cases "ss = []")
    case True
    with Cons.prems(4) have "length (old @ s) \<ge> n" by simp
    with last h1 True show ?thesis by simp
  next
    case False
    then obtain q qs where "ss = q # qs" by (cases ss) auto
    with Cons.prems(3) have "length (concat ss) = length q + length (concat qs)" "length q > 0" by auto
    with Cons.prems(4) have "length (old @ s) < n" by (simp del: length_greater_0_conv)
    with more have "uploading os path (old @ s) n h1" by blast
    with Cons.IH [of "old @ s" h1] False Cons.prems(3,4) obtain h' where
      "post_reads os ss h1 = Inr h'" "os_read os (c_str path) (hs_world h') = Some (old @ s @ concat ss)"
      "cl_all_recv (hs_cl h') \<and> \<not> st_first (hs_st h') \<and> st_writed (hs_st h') = 0" by auto
    with h1 show ?thesis by simp
  qed
qed simp

text \<open>
  A POST that has been parsed and not been stored yet, with no location and a free name; no other
  upload is under way and the request has no open file.
\<close>

definition ready_to_post :: "'w os \<Rightarrow> nat \<Rightarrow> string \<Rightarrow> 'w hstate \<Rightarrow> bool" where
  "ready_to_post os n name h \<longleftrightarrow> \<not> st_first (hs_st h) \<and> st_writed (hs_st h) = 0 \<and> rq_file (h_req h) = None \<and>
     is_location_url (cl_server (hs_cl h)) = -1 \<and> rq_content_length (h_req h) = Some n \<and>
     (\<exists>ds. os_stat os ''./upload'' (hs_world h) = Some ds \<and> st_type ds = Directory \<and> st_wusr ds) \<and>
     (\<exists>i. ft_generate_file_names os (hs_world h) (content_extension (h_req h)) ''./upload''
        (st_name_index (hs_st h)) = Some (name, i)) \<and>
     os_create os (c_str name) (hs_world h) \<noteq> None"

text \<open>
  C5: a plain upload is stored whole.  For a POST without a location, while no other upload is under
  way, the request has no open file and the file system takes every write: however the body is cut
  into non-empty reads that add up to the announced length, after the last of them the new file has
  exactly the bytes of the body, the request is complete and the upload state is as before.
\<close>

theorem upload_stored:
  assumes "file_laws os" and "appends_ok os" and "ready_to_post os (length (concat ss)) name h"
    and "ss \<noteq> []" and "\<forall>s \<in> set ss. s \<noteq> []"
  shows "\<exists>h'. post_reads os ss h = Inr h' \<and>
      os_read os (c_str name) (hs_world h') = Some (concat ss) \<and> cl_all_recv (hs_cl h') \<and>
      \<not> st_first (hs_st h') \<and> st_writed (hs_st h') = 0"
proof -
  obtain ds i w1 where r: "os_stat os ''./upload'' (hs_world h) = Some ds" "st_type ds = Directory" "st_wusr ds"
    "ft_generate_file_names os (hs_world h) (content_extension (h_req h)) ''./upload''
      (st_name_index (hs_st h)) = Some (name, i)" "os_create os (c_str name) (hs_world h) = Some w1"
    "rq_file (h_req h) = None"
    using assms(3) by (auto simp: ready_to_post_def)
  have b: "\<not> st_first (hs_st h)" "st_writed (hs_st h) = 0" "is_location_url (cl_server (hs_cl h)) = -1"
    "rq_content_length (h_req h) = Some (length (concat ss))"
    using assms(3) by (simp_all add: ready_to_post_def)
  from post_first [OF assms(1) b(1-3) r] obtain h2
    where h2: "\<And>s. os_append os (c_str name) s w1 \<noteq> None \<Longrightarrow>
        hanlde_post_request os (h_s_request s h) = hanlde_post_request os (h_s_request s h2)"
      "rq_content_length (h_req h2) = rq_content_length (h_req h)" "st_first (hs_st h2)"
      "rq_file (h_req h2) = Some name" "hs_world h2 = w1" "st_writed (hs_st h2) = 0" by metis
  have "os_read os (c_str name) w1 = Some []" using assms(1) r(5) unfolding file_laws_def by blast
  then have up: "uploading os name [] (length (concat ss)) h2"
    using h2 b(4) by (simp add: uploading_def)
  have "post_reads os ss h = post_reads os ss h2"
    using assms(2,4) h2(1) \<open>os_read os (c_str name) w1 = Some []\<close> by (cases ss) (auto simp: appends_ok_def)
  with post_rest [OF assms(1,2) up assms(4,5)] show ?thesis by simp
qed

definition post_state :: "nat \<Rightarrow> fs hstate" where
  "post_state n = (example_request [])\<lparr>hs_cl := (hs_cl (example_request []))\<lparr>cl_request :=
     new_Request\<lparr>rq_method := ''POST'', rq_content_length := Some n,
       rq_headers_map := [(''Content-Type'', ''text/plain'')]\<rparr>\<rparr>\<rparr>"

lemma post_state_ready: "ready_to_post mem_os 5 ''./upload/file0.plain'' (post_state 5)"
proof -
  have "ft_generate_file_names mem_os (hs_world (post_state 5)) (content_extension (h_req (post_state 5)))
      ''./upload'' (st_name_index (hs_st (post_state 5))) = Some (''./upload/file0.plain'', 0)"
    by code_simp
  moreover have "mem_stat ''./upload'' (hs_world (post_state 5)) =
      Some \<lparr>st_type = Directory, st_rusr = True, st_wusr = True\<rparr>" by code_simp
  moreover have "mem_create (c_str ''./upload/file0.plain'') (hs_world (post_state 5)) \<noteq> None" by code_simp
  ultimately show ?thesis
    by (auto simp: ready_to_post_def post_state_def example_request_def init_statics_def new_Client_def
        new_ServerBlock_def ServerBlock_assign_def new_Request_def)
qed

theorem upload_stored_witness:
  "\<exists>h'. post_reads mem_os [''he'', ''llo''] (post_state 5) = Inr h' \<and>
      os_read mem_os (c_str ''./upload/file0.plain'') (hs_world h') = Some (concat [''he'', ''llo'']) \<and>
      cl_all_recv (hs_cl h') \<and> \<not> st_first (hs_st h') \<and> st_writed (hs_st h') = 0"
proof (rule upload_stored [OF mem_file_laws mem_appends_ok])
  have five: "length (concat [''he'', ''llo'']) = 5" by simp
  then show "ready_to_post mem_os (length (concat [''he'', ''llo''])) ''./upload/file0.plain'' (post_state 5)"
    by (simp only: five post_state_ready)
qed simp_all

text \<open>
  C4: the chunked decoder does not depend on how the network cuts the stream: the encoded
  chunks, in whatever reads they arrive, do what handing on the chunks one by one does.
\<close>

theorem chunked_segmentation:
  assumes "\<forall>d \<in> set ds. chunk_ok d" and "concat segs = chunk_stream ds" and "\<forall>s \<in> set segs. s \<noteq> []"
    and "st_chunk_request (hs_st h) = []"
  shows "rmap forget (chunked_reads os segs h) =
         rmap (\<lambda>h'. forget (h_all_recv h')) (feed_chunks os ds h)"
  using assms by (rule chunked_reads_decode)

theorem chunked_segmentation_witness:
  "rmap forget (chunked_reads mem_os [''3'', [CR, LF] @ ''ab'', ''c'' @ [CR], [LF] @ ''0'' @ [CR, LF, CR, LF]] (post_state 3)) =
   rmap (\<lambda>h'. forget (h_all_recv h')) (feed_chunks mem_os [''abc''] (post_state 3))"
  by (rule chunked_segmentation) code_simp+

text \<open>
  Once the file of an upload could not be opened, every later POST of any client is
  answered with 500.
\<close>

theorem upload_stuck:
  assumes "st_first (hs_st h)" and "rq_file (h_req h) = None"
  shows "hanlde_post_request os h = Inr (h_error os 500 h) \<and>
         st_first (hs_st (h_error os 500 h)) \<and>
         rs_response_status (cl_response (hs_cl (h_error os 500 h))) = Some 500"
  using assms by (rule post_stuck)

definition stuck_state :: "fs hstate" where
  "stuck_state = (post_state 5)\<lparr>hs_st := init_statics\<lparr>st_first := True\<rparr>\<rparr>"

theorem upload_stuck_witness:
  "hanlde_post_request mem_os stuck_state = Inr (h_error mem_os 500 stuck_state) \<and>
   st_first (hs_st (h_error mem_os 500 stuck_state)) \<and>
   rs_response_status (cl_response (hs_cl (h_error mem_os 500 stuck_state))) = Some 500"
  by (rule upload_stuck) code_simp+

text \<open>
  A read that brings more of a request that has been parsed is handled without the
  location of the request: whatever location was chosen, it is reset first.
\<close>

theorem location_forgotten:
  "rq_index (h_req h) \<Longrightarrow>
     check_request os run h =
     check_request os run (h_client (\<lambda>c. c\<lparr>cl_server := (cl_server c)\<lparr>is_location_url := i\<rparr>\<rparr>) h)"
  by (simp add: check_request_def h_start_def h_simps)

theorem location_forgotten_witness:
  "check_request mem_os no_runner ((post_state 5)\<lparr>hs_cl := (hs_cl (post_state 5))\<lparr>cl_request :=
      (h_req (post_state 5))\<lparr>rq_index := True\<rparr>\<rparr>\<rparr>) =
   check_request mem_os no_runner (h_client (\<lambda>c. c\<lparr>cl_server := (cl_server c)\<lparr>is_location_url := 0\<rparr>\<rparr>)
      ((post_state 5)\<lparr>hs_cl := (hs_cl (post_state 5))\<lparr>cl_request :=
      (h_req (post_state 5))\<lparr>rq_index := True\<rparr>\<rparr>\<rparr>))"
  by (rule location_forgotten) simp

end
