(* ===== verification/Body_properties.thy ===== *)
theory Body_properties
  imports Request_properties
begin

text \<open>
  Properties of the request bodies and of the scripts: the file of a multipart part, the
  body a script is given, and the environment it runs in.
\<close>

section \<open>Multipart uploads\<close>

text \<open>The upload directory is there and can be written to; no location applies.\<close>

definition upload_ready :: "'w os \<Rightarrow> 'w hstate \<Rightarrow> bool" where
  "upload_ready os h \<longleftrightarrow> is_location_url (cl_server (hs_cl h)) = -1 \<and>
     (\<exists>ds. os_stat os ''./upload'' (hs_world h) = Some ds \<and> st_type ds = Directory \<and> st_wusr ds)"

lemma upload_ready_dir: "upload_ready os h \<Longrightarrow> get_file_name os h = Inr (''./upload'', h)"
  by (auto simp: upload_ready_def get_file_name_def upload_dir_def c_str_def)

lemma create_file_stores:
  assumes laws: "file_laws os" "appends_ok os" and up: "upload_ready os h"
    and name: "name_ok name" and hs: "\<forall>l \<in> set hs. LF \<notin> set l \<and> l \<noteq> [] \<and> l \<noteq> [CR]"
    and create: "os_create os (c_str (''./upload/'' @ name)) (hs_world h) \<noteq> None"
  obtains h1 where "create_file os (part_text name hs data) 0 h = Inr h1"
    "os_read os (c_str (''./upload/'' @ name)) (hs_world h1) = Some (stored_data data)"
    "hs_cl h1 = hs_cl h" "st_boundary_str (hs_st h1) = st_boundary_str (hs_st h)"
proof -
  let ?p = "''./upload'' @ ''/'' @ name"
  obtain w1 where w1: "os_create os (c_str ?p) (hs_world h) = Some w1" using create by auto
  then have empty: "os_read os (c_str ?p) w1 = Some []" using laws(1) unfolding file_laws_def by blast
  let ?h2 = "h_created True (h_part (Some ?p) (h\<lparr>hs_world := w1\<rparr>))"
  let ?h1 = "if stored_data data \<noteq> [] then part_write os (stored_data data) ?h2 else ?h2"
  have c: "create_file os (part_text name hs data) 0 h = Inr ?h1"
    using create_file_part [OF name hs upload_ready_dir [OF up] _ w1] by (simp add: Let_def)
  obtain w2 where w2: "os_append os (c_str ?p) (stored_data data) w1 = Some w2"
    using laws(2) empty unfolding appends_ok_def by blast
  then have rd: "os_read os (c_str ?p) w2 = Some (stored_data data)"
    using laws(1) empty unfolding file_laws_def by fastforce
  show thesis
  proof (rule that [OF c])
    show "os_read os (c_str (''./upload/'' @ name)) (hs_world ?h1) = Some (stored_data data)"
      using empty rd w2 by (simp add: part_write_def h_created_def h_part_def)
  qed (simp_all add: part_write_def h_created_def h_part_def split: option.split)
qed


definition multipart_text :: string where
  "multipart_text = one_part_body ''XX'' (part_text ''n'' [''Content-Type: t'' @ [CR]] ''data'')"

definition multipart_state :: "fs hstate" where
  "multipart_state = example_request multipart_text"

lemma multipart_upload: "upload_ready mem_os multipart_state"
proof -
  have "mem_stat ''./upload'' (hs_world multipart_state) =
      Some \<lparr>st_type = Directory, st_rusr = True, st_wusr = True\<rparr>"
    and "is_location_url (cl_server (hs_cl multipart_state)) = -1" by code_simp+
  then show ?thesis by (simp add: upload_ready_def)
qed


section \<open>Scripts\<close>


definition script_state :: "fs hstate" where
  "script_state = (post_state 5)\<lparr>hs_cl := set_path ''./html/a.py'' (hs_cl (post_state 5))\<rparr>"


text \<open>
  C17: once its clocks pass the time limit, \<open>exec_script\<close> returns, whatever the pipes do, unless the
  script has closed its output in time and runs on: then the server waits for it without a limit.
\<close>

theorem script_ends:
  assumes "\<exists>r \<in> set (cg_writes (run interp (c_str p) env body (hs_world h))). fst r > CGI_TIMEOUT"
    and "\<exists>r \<in> set (cg_reads (run interp (c_str p) env body (hs_world h))). fst r > CGI_TIMEOUT"
  shows "if runs_on (run interp (c_str p) env body (hs_world h)) body
    then exec_script os run p env interp body h = Inl No_return
    else \<exists>n h'. exec_script os run p env interp body h = Inr (n, h')"
  using assms by (rule exec_script_total)

definition stuck_runner :: "wait_status option \<Rightarrow> (int \<times> string option) list \<Rightarrow> 'w runner" where
  "stuck_runner st reads i p env body w = \<lparr>cg_pipe = True, cg_input_pipe = True, cg_fork = True,
     cg_writes = [(0, 3), (CGI_TIMEOUT + 1, -1)], cg_reads = reads @ [(CGI_TIMEOUT + 1, None)],
     cg_wait = st, cg_world = w\<rparr>"

text \<open>A script that neither writes nor ends is killed; one that closes its output first is waited for.\<close>

theorem script_ends_witness:
  "(\<exists>n h'. exec_script mem_os (stuck_runner None []) ''a.py'' [] ''python'' ''abc'' script_state = Inr (n, h')) \<and>
   exec_script mem_os (stuck_runner None [(1, Some [])]) ''a.py'' [] ''python'' ''abc'' script_state = Inl No_return"
proof
  have "\<not> runs_on (stuck_runner None [] ''python'' (c_str ''a.py'') [] ''abc'' (hs_world script_state)) ''abc''"
    by (simp add: runs_on_def stuck_runner_def CGI_TIMEOUT_def)
  with script_ends [of "stuck_runner None []" "''python''" "''a.py''" "[]" "''abc''" script_state mem_os]
  show "\<exists>n h'. exec_script mem_os (stuck_runner None []) ''a.py'' [] ''python'' ''abc'' script_state = Inr (n, h')"
    by (simp add: stuck_runner_def)
  have "runs_on (stuck_runner None [(1, Some [])] ''python'' (c_str ''a.py'') [] ''abc'' (hs_world script_state)) ''abc''"
    by (simp add: runs_on_def stuck_runner_def CGI_TIMEOUT_def write_loop.simps)
  with script_ends [of "stuck_runner None [(1, Some [])]" "''python''" "''a.py''" "[]" "''abc''" script_state mem_os]
  show "exec_script mem_os (stuck_runner None [(1, Some [])]) ''a.py'' [] ''python'' ''abc'' script_state = Inl No_return"
    by (simp add: stuck_runner_def)
qed

text \<open>
  C18: a client chooses no environment variable of a script but \<open>CONTENT_TYPE\<close> and
  \<open>CONTENT_LENGTH\<close>: every other entry is one of the five the server sets.
\<close>

theorem script_environment:
  assumes "e \<in> set (get_env m full_path method sn)"
  shows "e \<in> set (fixed_variables full_path method sn) \<or>
     prefix ''CONTENT_TYPE='' e \<or> prefix ''CONTENT_LENGTH='' e"
  using assms by (rule env_entry)

theorem script_environment_witness:
  "''CONTENT_TYPE=x'' \<in> set (fixed_variables ''a.py'' ''GET'' ''a'') \<or>
     prefix ''CONTENT_TYPE='' ''CONTENT_TYPE=x'' \<or> prefix ''CONTENT_LENGTH='' ''CONTENT_TYPE=x''"
  by (rule script_environment [where m = "[(''Accept'', ''y''), (''Content-Type'', ''x'')]"]) code_simp

end
