(* ===== verification/Server_loop.thy ===== *)
theory Server_loop
  imports Dispatch
begin

text \<open>
  The event loop: \<open>server/server.cpp\<close>.  The state of \<open>Server\<close> is a record with the file
  system, the statics of the handlers and two logs added: the descriptors passed to
  \<open>close\<close> and the bytes accepted by \<open>send\<close>.  What the socket calls return is an argument
  of each operation.
\<close>

section \<open>State\<close>

record ServerConfig =
  sc_block :: int
  sc_host :: string
  sc_port :: int
  sc_fd :: int
  sc_name :: string

datatype poll_event = POLLIN | POLLOUT

text \<open>The bits of \<open>revents\<close> the loop tests: an error (\<open>POLLERR | POLLHUP | POLLNVAL\<close>), \<open>POLLIN\<close>, \<open>POLLOUT\<close>.\<close>

record revents =
  rv_err :: bool
  rv_in :: bool
  rv_out :: bool

definition no_revents :: revents where
  "no_revents = \<lparr>rv_err = False, rv_in = False, rv_out = False\<rparr>"

record pollfd =
  pfd_fd :: int
  pfd_events :: poll_event
  pfd_revents :: revents

definition new_pollfd :: "int \<Rightarrow> pollfd" where
  "new_pollfd fd = \<lparr>pfd_fd = fd, pfd_events = POLLIN, pfd_revents = no_revents\<rparr>"

record 'w server =
  sv_configs :: "ServerConfig list"
  sv_clients :: "Client list"
  sv_pollfds :: "pollfd list"
  sv_pollfds_clients :: "pollfd list"
  sv_pollfds_servers :: "pollfd list"
  sv_blocks :: "ServerBlock list"
  sv_world :: 'w
  sv_st :: statics
  sv_closed :: "int list"
  sv_sent :: "(int \<times> string) list"

definition new_Server :: "'w \<Rightarrow> 'w server" where
  "new_Server w = \<lparr>sv_configs = [], sv_clients = [], sv_pollfds = [], sv_pollfds_clients = [],
     sv_pollfds_servers = [], sv_blocks = [], sv_world = w, sv_st = init_statics, sv_closed = [],
     sv_sent = []\<rparr>"

definition sv_close :: "int \<Rightarrow> 'w server \<Rightarrow> 'w server" where
  "sv_close fd s = s\<lparr>sv_closed := sv_closed s @ [fd]\<rparr>"

text \<open>\<open>v.erase(v.begin() + i)\<close>.\<close>

definition erase_at :: "nat \<Rightarrow> 'a list \<Rightarrow> 'a list" where
  "erase_at i xs = take i xs @ drop (Suc i) xs"

section \<open>Configuration\<close>

definition addServerConfig :: "int \<Rightarrow> string \<Rightarrow> int list \<Rightarrow> string \<Rightarrow> 'w server \<Rightarrow> 'w server" where
  "addServerConfig idx host ports name s =
     s\<lparr>sv_configs := sv_configs s @
       map (\<lambda>p. \<lparr>sc_block = idx, sc_host = host, sc_port = p, sc_fd = -1, sc_name = name\<rparr>) ports\<rparr>"

definition getServerConfig :: "nat \<Rightarrow> 'w server \<Rightarrow> ServerConfig res" where
  "getServerConfig i s =
     (if i \<ge> length (sv_configs s) then Inl (Runtime_error ''Invalid server index in getServerConfig'')
      else Inr (sv_configs s ! i))"

definition getServerCount :: "'w server \<Rightarrow> nat" where
  "getServerCount s = length (sv_configs s)"

text \<open>What the calls of \<open>createServer\<close> return, in their order.\<close>

record socket_run =
  so_socket :: int
  so_getfl :: int
  so_setfl :: int
  so_reuse :: int
  so_bind :: int
  so_listen :: int

definition createServer :: "socket_run \<Rightarrow> 'w server \<Rightarrow> int \<times> 'w server" where
  "createServer r s =
     (if so_socket r < 0 then (-1, s)
      else if so_getfl r < 0 then (-1, sv_close (so_socket r) s)
      else if so_setfl r < 0 then (-1, sv_close (so_socket r) s)
      else if so_reuse r < 0 then (-1, sv_close (so_socket r) s)
      else if so_bind r < 0 then (-1, sv_close (so_socket r) s)
      else if so_listen r < 0 then (-1, sv_close (so_socket r) s)
      else (so_socket r, s))"

fun initialize_loop :: "nat \<Rightarrow> socket_run list \<Rightarrow> 'w server \<Rightarrow> 'w server" where
  "initialize_loop i [] s = s"
| "initialize_loop i (r # rs) s =
     (let (fd, s1) = createServer r s;
          s2 = s1\<lparr>sv_configs := (sv_configs s1)[i := (sv_configs s1 ! i)\<lparr>sc_fd := fd\<rparr>]\<rparr>;
          s3 = (if fd \<ge> 0 then s2\<lparr>sv_pollfds := sv_pollfds s2 @ [new_pollfd fd],
                                  sv_pollfds_servers := sv_pollfds_servers s2 @ [new_pollfd fd]\<rparr>
                else s2)
      in initialize_loop (i + 1) rs s3)"

text \<open>One \<open>socket_run\<close> for each configuration.\<close>

definition initializeServers :: "socket_run list \<Rightarrow> 'w server \<Rightarrow> 'w server" where
  "initializeServers rs s = initialize_loop 0 (take (length (sv_configs s)) rs) s"

section \<open>Clients\<close>

fun client_index :: "int \<Rightarrow> Client list \<Rightarrow> nat" where
  "client_index fd [] = 0"
| "client_index fd (c # cs) = (if cl_client_id c = fd then 0 else Suc (client_index fd cs))"

definition getClientIndexByFd :: "int \<Rightarrow> 'w server \<Rightarrow> nat" where
  "getClientIndexByFd fd s = client_index fd (sv_clients s)"

text \<open>\<open>ar_getfl\<close> and \<open>ar_setfl\<close> are the two calls of \<open>fcntl\<close>.\<close>

record accept_run =
  ar_accept :: int
  ar_getfl :: int
  ar_setfl :: int

definition acceptClient :: "accept_run \<Rightarrow> ServerBlock \<Rightarrow> 'w server \<Rightarrow> int \<times> 'w server" where
  "acceptClient r block s =
     (let fd = ar_accept r in
      if fd < 0 then (-1, s)
      else if ar_getfl r < 0 \<or> ar_setfl r < 0 then (-1, sv_close fd s)
      else (fd, s\<lparr>sv_clients := sv_clients s @ [new_Client fd block],
                  sv_pollfds := sv_pollfds s @ [new_pollfd fd],
                  sv_pollfds_clients := sv_pollfds_clients s @ [new_pollfd fd]\<rparr>))"

fun erase_fd :: "int \<Rightarrow> pollfd list \<Rightarrow> pollfd list" where
  "erase_fd fd [] = []"
| "erase_fd fd (p # ps) = (if pfd_fd p = fd then ps else p # erase_fd fd ps)"

definition set_events :: "nat \<Rightarrow> poll_event \<Rightarrow> 'w server \<Rightarrow> 'w server" where
  "set_events i e s = s\<lparr>sv_pollfds := (sv_pollfds s)[i := (sv_pollfds s ! i)\<lparr>pfd_events := e\<rparr>]\<rparr>"

definition close_stream :: "Client \<Rightarrow> Client" where
  "close_stream c =
     (let f = rs_fileStream (cl_response c)
      in if is_open f then set_fileStream (ifstream_close f) c else c)"

definition closeClientConnection :: "nat \<Rightarrow> 'w server \<Rightarrow> 'w server" where
  "closeClientConnection index s =
     (if index \<ge> length (sv_pollfds s) then s
      else
        (let fd = pfd_fd (sv_pollfds s ! index); k = getClientIndexByFd fd s in
         if k \<ge> length (sv_clients s) then
           (sv_close fd s)\<lparr>sv_pollfds := erase_at index (sv_pollfds s)\<rparr>
         else
           (let c = close_stream (sv_clients s ! k) in
            if \<not> cl_keep_alive c then
              (sv_close fd s)\<lparr>sv_pollfds_clients := erase_fd fd (sv_pollfds_clients s),
                sv_clients := erase_at k (sv_clients s),
                sv_pollfds := erase_at index (sv_pollfds s)\<rparr>
            else set_events index POLLIN (s\<lparr>sv_clients := (sv_clients s)[k := Client_reset c]\<rparr>))))"

definition closeServer :: "'w server \<Rightarrow> 'w server" where
  "closeServer s =
     s\<lparr>sv_closed := sv_closed s @ map cl_client_id (sv_clients s) @
         [sc_fd c. c \<leftarrow> sv_configs s, sc_fd c \<ge> 0],
       sv_configs := map (\<lambda>c. if sc_fd c \<ge> 0 then c\<lparr>sc_fd := -1\<rparr> else c) (sv_configs s),
       sv_pollfds := [], sv_pollfds_clients := [], sv_pollfds_servers := [], sv_clients := []\<rparr>"

section \<open>Writing a response\<close>

text \<open>
  \<open>io_recv\<close> is what \<open>recv\<close> yields; \<open>io_send_response\<close> and \<open>io_send_file\<close> are the two calls of
  \<open>send\<close>: how many bytes the socket takes at most, not positive when the call fails.
\<close>

record io =
  io_accept :: accept_run
  io_recv :: "string option"
  io_send_response :: int
  io_send_file :: int

text \<open>\<open>client_write\<close> is the body of \<open>handleClientWrite\<close> on its client: the bytes sent, the
  client, and whether the connection is to be closed.\<close>

definition write_head :: "int \<Rightarrow> Client \<Rightarrow> string \<times> Client \<times> bool" where
  "write_head n c =
     (if \<not> rq_is_string_req_send (cl_request c) then
        (if n \<le> 0 then ([], c, True)
         else (take (nat n) (rs_response (cl_response c)),
               c\<lparr>cl_request := (cl_request c)\<lparr>rq_is_string_req_send := True\<rparr>\<rparr>, False))
      else ([], c, False))"

definition write_body :: "int \<Rightarrow> Client \<Rightarrow> string \<times> Client \<times> bool" where
  "write_body n c =
     (let f = rs_fileStream (cl_response c) in
      if is_open f \<and> \<not> eof_bit f then
        (let (buffer, f1) = ifstream_read 4096 f in
         if buffer \<noteq> [] \<and> n \<le> 0 then ([], set_fileStream f1 c, True)
         else (take (nat n) buffer,
               set_fileStream (if eof_bit f1 then ifstream_close f1 else f1) c, False))
      else ([], c, False))"

definition client_write :: "io \<Rightarrow> Client \<Rightarrow> string \<times> Client \<times> bool" where
  "client_write io c =
     (let (out1, c1, closing) = write_head (io_send_response io) c in
      if closing then (out1, c1, True)
      else (let (out2, c2, closing2) = write_body (io_send_file io) c1 in (out1 @ out2, c2, closing2)))"

definition handleClientWrite :: "io \<Rightarrow> nat \<Rightarrow> 'w server \<Rightarrow> 'w server" where
  "handleClientWrite io index s =
     (if index \<ge> length (sv_pollfds s) then s
      else
        (let fd = pfd_fd (sv_pollfds s ! index); k = getClientIndexByFd fd s in
         if k \<ge> length (sv_clients s) then closeClientConnection index s
         else
           (let (out, c, closing) = client_write io (sv_clients s ! k);
                s1 = s\<lparr>sv_clients := (sv_clients s)[k := c],
                       sv_sent := (if out = [] then sv_sent s else sv_sent s @ [(fd, out)])\<rparr>
            in if closing then closeClientConnection index s1 else s1)))"

section \<open>One entry of the poll set\<close>

fun config_of_fd :: "int \<Rightarrow> ServerConfig list \<Rightarrow> ServerConfig option" where
  "config_of_fd fd [] = None"
| "config_of_fd fd (c # cs) = (if fd = sc_fd c then Some c else config_of_fd fd cs)"

definition serve_accept :: "io \<Rightarrow> ServerConfig \<Rightarrow> 'w server \<Rightarrow> 'w server" where
  "serve_accept io c s =
     (if 0 \<le> sc_block c \<and> sc_block c < int (length (sv_blocks s))
      then snd (acceptClient (io_accept io) (sv_blocks s ! nat (sc_block c)) s) else s)"

definition serve_read :: "'w os \<Rightarrow> 'w runner \<Rightarrow> io \<Rightarrow> nat \<Rightarrow> 'w server \<Rightarrow> 'w server res" where
  "serve_read os run io idx s =
     (let k = getClientIndexByFd (pfd_fd (sv_pollfds s ! idx)) s in
      if k \<ge> length (sv_clients s) then Inr (closeClientConnection idx s)
      else (case io_recv io of
          None \<Rightarrow> Inr (closeClientConnection idx s)
        | Some req \<Rightarrow>
            if req = [] then Inr (closeClientConnection idx s)
            else rbind (check_request os run
                   \<lparr>hs_world = sv_world s, hs_st = sv_st s,
                    hs_cl = set_s_request req (sv_clients s ! k)\<rparr>) (\<lambda>h.
              (let s1 = s\<lparr>sv_world := hs_world h, sv_st := hs_st h,
                          sv_clients := (sv_clients s)[k := hs_cl h]\<rparr>
               in Inr (if cl_all_recv (hs_cl h) then set_events idx POLLOUT s1 else s1)))))"

text \<open>
  The reference \<open>client\<close> is taken before \<open>handleClientWrite\<close> and used after it.  When the
  call has erased the client, the reference is to the client that moved to its place, or to
  none; \<open>pollfds[idx]\<close> may be past the end as well.
\<close>

definition serve_write :: "io \<Rightarrow> nat \<Rightarrow> 'w server \<Rightarrow> 'w server res" where
  "serve_write io idx s =
     (let k = getClientIndexByFd (pfd_fd (sv_pollfds s ! idx)) s in
      if k \<ge> length (sv_clients s) then Inr (closeClientConnection idx s)
      else
        (let s1 = handleClientWrite io idx s in
         if k \<ge> length (sv_clients s1) then Inl Undefined
         else
           (let client = sv_clients s1 ! k; f = rs_fileStream (cl_response client) in
            if \<not> is_open f \<or> eof_bit f then
              (if idx \<ge> length (sv_pollfds s1) then Inl Undefined
               else
                 (let s2 = set_events idx POLLIN s1 in
                  Inr (if \<not> cl_keep_alive client then closeClientConnection idx s2
                       else s2\<lparr>sv_clients := (sv_clients s2)[k := Client_reset client]\<rparr>)))
            else Inr s1)))"

definition serve_fd :: "'w os \<Rightarrow> 'w runner \<Rightarrow> io \<Rightarrow> nat \<Rightarrow> 'w server \<Rightarrow> 'w server res" where
  "serve_fd os run io idx s =
     (if idx \<ge> length (sv_pollfds s) then Inr s
      else
        (let p = sv_pollfds s ! idx; r = pfd_revents p in
         if rv_err r then
           Inr (if \<exists>q \<in> set (sv_pollfds_servers s). pfd_fd p = pfd_fd q then s
                else closeClientConnection idx s)
         else if rv_in r then
           (case config_of_fd (pfd_fd p) (sv_configs s) of
              Some c \<Rightarrow> Inr (serve_accept io c s)
            | None \<Rightarrow> serve_read os run io idx s)
         else if rv_out r then serve_write io idx s
         else Inr s))"

section \<open>The loop\<close>

text \<open>
  One round: \<open>poll\<close> stores the events of each entry, and the entries are served from the
  last to the first; \<open>ios\<close> holds what the calls made for each of them return.
\<close>

fun serve_down :: "'w os \<Rightarrow> 'w runner \<Rightarrow> (nat \<Rightarrow> io) \<Rightarrow> nat \<Rightarrow> 'w server \<Rightarrow> 'w server res" where
  "serve_down os run ios 0 s = Inr s"
| "serve_down os run ios (Suc i) s =
     rbind (serve_fd os run (ios i) i s) (serve_down os run ios i)"

definition set_revents :: "(nat \<Rightarrow> revents) \<Rightarrow> 'w server \<Rightarrow> 'w server" where
  "set_revents rs s =
     s\<lparr>sv_pollfds := map (\<lambda>(i, p). p\<lparr>pfd_revents := rs i\<rparr>) (enumerate 0 (sv_pollfds s))\<rparr>"

text \<open>\<open>None\<close> for a \<open>poll\<close> that fails.\<close>

fun poll_round :: "'w os \<Rightarrow> 'w runner \<Rightarrow> (nat \<Rightarrow> revents) option \<Rightarrow> (nat \<Rightarrow> io) \<Rightarrow> 'w server \<Rightarrow>
    'w server res" where
  "poll_round os run None ios s = Inr s"
| "poll_round os run (Some rs) ios s =
     serve_down os run ios (length (sv_pollfds s)) (set_revents rs s)"

fun run_rounds :: "'w os \<Rightarrow> 'w runner \<Rightarrow> ((nat \<Rightarrow> revents) option \<times> (nat \<Rightarrow> io)) list \<Rightarrow> 'w server \<Rightarrow>
    'w server res" where
  "run_rounds os run [] s = Inr s"
| "run_rounds os run ((rs, ios) # later) s =
     rbind (poll_round os run rs ios s) (run_rounds os run later)"

text \<open>\<open>startServer\<close>, cut after a number of rounds.\<close>

definition startServer :: "'w os \<Rightarrow> 'w runner \<Rightarrow> socket_run list \<Rightarrow>
    ((nat \<Rightarrow> revents) option \<times> (nat \<Rightarrow> io)) list \<Rightarrow> 'w server \<Rightarrow> 'w server res" where
  "startServer os run socks rounds s = run_rounds os run rounds (initializeServers socks s)"

end
