(* ===== verification/Server_safety.thy ===== *)
theory Server_safety
  imports Server_loop Client_frame Memory_os
begin

text \<open>
  The invariant of the event loop of \<open>server/server.cpp\<close>: the three descriptor vectors and
  the vector of clients stay aligned, whatever the sockets return and in whatever order
  events arrive.
\<close>

section \<open>The invariant\<close>

definition open_fds :: "'w server \<Rightarrow> int list" where
  "open_fds s = map pfd_fd (sv_pollfds s)"

definition config_fds :: "'w server \<Rightarrow> int list" where
  "config_fds s = [sc_fd c. c \<leftarrow> sv_configs s, sc_fd c \<ge> 0]"

abbreviation n_servers :: "'w server \<Rightarrow> nat" where
  "n_servers s \<equiv> length (sv_pollfds_servers s)"

text \<open>An entry of a listening socket: it waits for connections and never reports POLLOUT.\<close>

definition listening :: "pollfd \<Rightarrow> bool" where
  "listening p \<longleftrightarrow> pfd_events p = POLLIN \<and> \<not> rv_out (pfd_revents p)"

definition aligned_fds :: "int list \<Rightarrow> int list \<Rightarrow> int list \<Rightarrow> int list \<Rightarrow> int list \<Rightarrow> bool" where
  "aligned_fds polled listeners polled_clients ids configured \<longleftrightarrow>
     polled = listeners @ ids \<and> polled_clients = ids \<and> set listeners = set configured \<and>
     distinct polled \<and> (\<forall>fd \<in> set polled. fd \<ge> 0)"

definition aligned :: "'w server \<Rightarrow> bool" where
  "aligned s \<longleftrightarrow>
     aligned_fds (open_fds s) (map pfd_fd (sv_pollfds_servers s)) (map pfd_fd (sv_pollfds_clients s))
       (map cl_client_id (sv_clients s)) (config_fds s) \<and>
     (\<forall>p \<in> set (take (n_servers s) (sv_pollfds s)). listening p) \<and>
     (\<forall>c \<in> set (sv_clients s). \<not> cl_keep_alive c)"

lemma alignedD:
  assumes "aligned s"
  shows "open_fds s = map pfd_fd (sv_pollfds_servers s) @ map cl_client_id (sv_clients s)"
    and "map pfd_fd (sv_pollfds_clients s) = map cl_client_id (sv_clients s)"
    and "set (map pfd_fd (sv_pollfds_servers s)) = set (config_fds s)"
    and "distinct (open_fds s)" and "\<forall>fd \<in> set (open_fds s). fd \<ge> 0"
    and "distinct (map pfd_fd (sv_pollfds_servers s) @ map cl_client_id (sv_clients s))"
    and "\<forall>p \<in> set (take (n_servers s) (sv_pollfds s)). listening p"
    and "\<forall>c \<in> set (sv_clients s). \<not> cl_keep_alive c"
proof -
  note a = assms [unfolded aligned_def aligned_fds_def]
  from a show o': "open_fds s = map pfd_fd (sv_pollfds_servers s) @ map cl_client_id (sv_clients s)"
    and "map pfd_fd (sv_pollfds_clients s) = map cl_client_id (sv_clients s)"
    and "set (map pfd_fd (sv_pollfds_servers s)) = set (config_fds s)"
    and d: "distinct (open_fds s)" and "\<forall>fd \<in> set (open_fds s). fd \<ge> 0"
    and "\<forall>p \<in> set (take (n_servers s) (sv_pollfds s)). listening p"
    and "\<forall>c \<in> set (sv_clients s). \<not> cl_keep_alive c" by blast+
  from d show "distinct (map pfd_fd (sv_pollfds_servers s) @ map cl_client_id (sv_clients s))"
    by (simp only: o')
qed

section \<open>Indices\<close>

lemma client_index_le: "client_index fd cs \<le> length cs"
  by (induction cs) auto

lemma client_index_found:
  "fd \<in> cl_client_id ` set cs \<longleftrightarrow> client_index fd cs < length cs"
  by (induction cs) auto

lemma client_index_nth:
  "distinct (map cl_client_id cs) \<Longrightarrow> k < length cs \<Longrightarrow> client_index (cl_client_id (cs ! k)) cs = k"
proof (induction cs arbitrary: k)
  case (Cons c cs)
  then show ?case by (cases k) auto
qed simp

lemma length_erase_at: "i < length xs \<Longrightarrow> length (erase_at i xs) = length xs - 1"
  by (simp add: erase_at_def)

lemma map_erase_at: "map f (erase_at i xs) = erase_at i (map f xs)"
  by (simp add: erase_at_def take_map drop_map)

lemma set_erase_at: "set (erase_at i xs) \<subseteq> set xs"
  by (auto simp: erase_at_def dest: in_set_takeD in_set_dropD)

lemma distinct_erase_at: "distinct xs \<Longrightarrow> distinct (erase_at i xs)"
  using set_take_disj_set_drop_if_distinct [of xs i "Suc i"] by (simp add: erase_at_def)

lemma erase_at_notin: "distinct xs \<Longrightarrow> i < length xs \<Longrightarrow> xs ! i \<notin> set (erase_at i xs)"
proof -
  assume d: "distinct xs" and i: "i < length xs"
  from i have "xs = take i xs @ xs ! i # drop (Suc i) xs" by (rule id_take_nth_drop)
  with d have "distinct (take i xs @ xs ! i # drop (Suc i) xs)" by simp
  then show ?thesis by (simp add: erase_at_def)
qed

lemma erase_at_append: "erase_at (length xs + k) (xs @ ys) = xs @ erase_at k ys"
  by (simp add: erase_at_def)

lemma erase_fd_at:
  "distinct (map pfd_fd ps) \<Longrightarrow> k < length ps \<Longrightarrow> erase_fd (pfd_fd (ps ! k)) ps = erase_at k ps"
proof (induction ps arbitrary: k)
  case (Cons p ps)
  show ?case
  proof (cases k)
    case 0
    then show ?thesis by (simp add: erase_at_def)
  next
    case (Suc j)
    with Cons.prems have "pfd_fd p \<noteq> pfd_fd (ps ! j)" by auto
    with Cons Suc show ?thesis by (simp add: erase_at_def)
  qed
qed simp

lemma config_of_fd_None: "config_of_fd fd cs = None \<longleftrightarrow> fd \<notin> sc_fd ` set cs"
  by (induction cs) auto

lemma config_fds_iff: "fd \<in> set (config_fds s) \<longleftrightarrow> fd \<in> sc_fd ` set (sv_configs s) \<and> fd \<ge> 0"
  by (auto simp: config_fds_def)

lemma aligned_length: "aligned s \<Longrightarrow> length (sv_pollfds s) = n_servers s + length (sv_clients s)"
  using alignedD(1) [of s] unfolding open_fds_def by (metis length_append length_map)

lemma aligned_nth:
  assumes "aligned s" and "idx < length (sv_pollfds s)"
  shows "pfd_fd (sv_pollfds s ! idx) =
      (if idx < n_servers s then pfd_fd (sv_pollfds_servers s ! idx)
       else cl_client_id (sv_clients s ! (idx - n_servers s)))"
proof -
  have "pfd_fd (sv_pollfds s ! idx) = open_fds s ! idx" using assms(2) by (simp add: open_fds_def)
  also have "\<dots> = (map pfd_fd (sv_pollfds_servers s) @ map cl_client_id (sv_clients s)) ! idx"
    using alignedD(1) [OF assms(1)] by simp
  finally show ?thesis
    using assms(2) aligned_length [OF assms(1)] by (auto simp: nth_append)
qed

text \<open>The client of an entry behind the listening sockets is the one at the same distance.\<close>

lemma aligned_client:
  assumes "aligned s" and "idx < length (sv_pollfds s)" and "n_servers s \<le> idx"
  shows "getClientIndexByFd (pfd_fd (sv_pollfds s ! idx)) s = idx - n_servers s"
    and "idx - n_servers s < length (sv_clients s)"
    and "config_of_fd (pfd_fd (sv_pollfds s ! idx)) (sv_configs s) = None"
proof -
  let ?fd = "pfd_fd (sv_pollfds s ! idx)"
  from assms aligned_length [OF assms(1)] show k: "idx - n_servers s < length (sv_clients s)" by auto
  note d = alignedD(6) [OF assms(1)]
  have fd: "?fd = cl_client_id (sv_clients s ! (idx - n_servers s))"
    using aligned_nth [OF assms(1,2)] assms(3) by simp
  then show "getClientIndexByFd ?fd s = idx - n_servers s"
    using d client_index_nth [OF _ k] by (simp add: getClientIndexByFd_def)
  have "?fd \<in> set (map cl_client_id (sv_clients s))" using fd k by simp
  with d have "?fd \<notin> set (map pfd_fd (sv_pollfds_servers s))" by auto
  then have "?fd \<notin> set (config_fds s)" using alignedD(3) [OF assms(1)] by simp
  moreover have "?fd \<ge> 0" using alignedD(5) [OF assms(1)] assms(2) by (simp add: open_fds_def)
  ultimately show "config_of_fd ?fd (sv_configs s) = None"
    by (simp add: config_of_fd_None config_fds_iff)
qed

lemma aligned_server:
  assumes "aligned s" and "idx < n_servers s"
  shows "config_of_fd (pfd_fd (sv_pollfds s ! idx)) (sv_configs s) \<noteq> None"
    and "listening (sv_pollfds s ! idx)"
    and "\<exists>q \<in> set (sv_pollfds_servers s). pfd_fd (sv_pollfds s ! idx) = pfd_fd q"
proof -
  have i: "idx < length (sv_pollfds s)" using assms aligned_length [OF assms(1)] by simp
  have fd: "pfd_fd (sv_pollfds s ! idx) = pfd_fd (sv_pollfds_servers s ! idx)"
    using aligned_nth [OF assms(1) i] assms(2) by simp
  then show q: "\<exists>q \<in> set (sv_pollfds_servers s). pfd_fd (sv_pollfds s ! idx) = pfd_fd q"
    using assms(2) by (metis nth_mem)
  then have "pfd_fd (sv_pollfds s ! idx) \<in> set (config_fds s)"
    using alignedD(3) [OF assms(1)] by fastforce
  then show "config_of_fd (pfd_fd (sv_pollfds s ! idx)) (sv_configs s) \<noteq> None"
    by (simp add: config_of_fd_None config_fds_iff)
  have "sv_pollfds s ! idx \<in> set (take (n_servers s) (sv_pollfds s))"
    using assms(2) i by (metis length_take min_less_iff_conj nth_mem nth_take)
  with assms(1) show "listening (sv_pollfds s ! idx)" by (simp add: aligned_def)
qed

section \<open>Every operation keeps the alignment\<close>

lemma aligned_update_client:
  assumes "aligned s" and "k < length (sv_clients s)"
    and "cl_client_id c = cl_client_id (sv_clients s ! k)" and "\<not> cl_keep_alive c"
  shows "aligned (s\<lparr>sv_clients := (sv_clients s)[k := c]\<rparr>)"
proof -
  have "map cl_client_id ((sv_clients s)[k := c]) = map cl_client_id (sv_clients s)"
    using assms(2,3) by (metis list_update_id map_update)
  moreover have "\<forall>c' \<in> set ((sv_clients s)[k := c]). \<not> cl_keep_alive c'"
    using alignedD(8) [OF assms(1)] assms(4) set_update_subset_insert by fastforce
  ultimately show ?thesis
    using assms(1) by (simp add: aligned_def open_fds_def config_fds_def)
qed

lemma aligned_other:
  "aligned (s\<lparr>sv_world := w\<rparr>) = aligned s" "aligned (s\<lparr>sv_st := t\<rparr>) = aligned s"
  "aligned (s\<lparr>sv_sent := x\<rparr>) = aligned s" "aligned (sv_close fd s) = aligned s"
  by (simp_all add: aligned_def open_fds_def config_fds_def sv_close_def)

lemma aligned_set_events: "aligned s \<Longrightarrow> n_servers s \<le> idx \<Longrightarrow> aligned (set_events idx e s)"
proof -
  assume a: "aligned s" and i: "n_servers s \<le> idx"
  have "map pfd_fd ((sv_pollfds s)[idx := (sv_pollfds s ! idx)\<lparr>pfd_events := e\<rparr>]) = map pfd_fd (sv_pollfds s)"
    by (cases "idx < length (sv_pollfds s)")
      (simp add: map_update list_update_same_conv, simp add: list_update_beyond)
  with a i show ?thesis
    by (simp add: aligned_def open_fds_def config_fds_def set_events_def)
qed

lemma aligned_erase:
  assumes "aligned s" and "idx < length (sv_pollfds s)" and "n_servers s \<le> idx"
    and "k = idx - n_servers s"
  shows "aligned (s\<lparr>sv_pollfds_clients := erase_at k (sv_pollfds_clients s),
            sv_clients := erase_at k (sv_clients s), sv_pollfds := erase_at idx (sv_pollfds s)\<rparr>)"
proof -
  note a = alignedD [OF assms(1)]
  have idx: "idx = length (map pfd_fd (sv_pollfds_servers s)) + k" using assms(3,4) by simp
  have o': "map pfd_fd (erase_at idx (sv_pollfds s)) =
      map pfd_fd (sv_pollfds_servers s) @ map cl_client_id (erase_at k (sv_clients s))"
    unfolding map_erase_at a(1) [unfolded open_fds_def] idx by (simp only: erase_at_append)
  define t where "t = s\<lparr>sv_pollfds_clients := erase_at k (sv_pollfds_clients s),
      sv_clients := erase_at k (sv_clients s), sv_pollfds := erase_at idx (sv_pollfds s)\<rparr>"
  have sel: "open_fds t = erase_at idx (open_fds s)" "sv_pollfds t = erase_at idx (sv_pollfds s)"
    "sv_pollfds_servers t = sv_pollfds_servers s"
    "map pfd_fd (sv_pollfds_clients t) = erase_at k (map pfd_fd (sv_pollfds_clients s))"
    "map cl_client_id (sv_clients t) = erase_at k (map cl_client_id (sv_clients s))"
    "sv_clients t = erase_at k (sv_clients s)" "config_fds t = config_fds s"
    by (simp_all add: t_def open_fds_def config_fds_def map_erase_at)
  have "aligned_fds (open_fds t) (map pfd_fd (sv_pollfds_servers t)) (map pfd_fd (sv_pollfds_clients t))
      (map cl_client_id (sv_clients t)) (config_fds t)"
    unfolding aligned_fds_def
  proof (intro conjI)
    show "open_fds t = map pfd_fd (sv_pollfds_servers t) @ map cl_client_id (sv_clients t)"
      using o' unfolding sel by (simp add: open_fds_def map_erase_at)
    show "map pfd_fd (sv_pollfds_clients t) = map cl_client_id (sv_clients t)"
      by (simp only: sel(4,5) a(2))
    show "set (map pfd_fd (sv_pollfds_servers t)) = set (config_fds t)" by (simp only: sel a(3))
    show "distinct (open_fds t)" unfolding sel using a(4) by (rule distinct_erase_at)
    show "\<forall>fd \<in> set (open_fds t). fd \<ge> 0"
      unfolding sel using a(5) set_erase_at [of idx "open_fds s"] by blast
  qed
  moreover have "\<forall>p \<in> set (take (n_servers t) (sv_pollfds t)). listening p"
    using a(7) assms(2,3) by (simp add: sel erase_at_def)
  moreover have "\<forall>c \<in> set (sv_clients t). \<not> cl_keep_alive c"
    unfolding sel using a(8) set_erase_at [of k "sv_clients s"] by blast
  ultimately show ?thesis unfolding aligned_def t_def [symmetric] by blast
qed

lemma close_stream_keep [simp]:
  "cl_keep_alive (close_stream c) = cl_keep_alive c" "cl_client_id (close_stream c) = cl_client_id c"
  by (simp_all add: close_stream_def client_simps Let_def)

text \<open>Closing the connection of a client's entry erases it from the three vectors.\<close>

lemma close_client:
  assumes "aligned s" and "idx < length (sv_pollfds s)" and "n_servers s \<le> idx"
    and "k = idx - n_servers s"
  shows "closeClientConnection idx s =
      (sv_close (cl_client_id (sv_clients s ! k)) s)\<lparr>
         sv_pollfds_clients := erase_at k (sv_pollfds_clients s),
         sv_clients := erase_at k (sv_clients s), sv_pollfds := erase_at idx (sv_pollfds s)\<rparr>"
proof -
  note c = aligned_client [OF assms(1-3)]
  let ?fd = "pfd_fd (sv_pollfds s ! idx)"
  have fd: "?fd = cl_client_id (sv_clients s ! k)"
    using aligned_nth [OF assms(1,2)] assms(3,4) by simp
  have alive: "\<not> cl_keep_alive (sv_clients s ! k)"
    using alignedD(8) [OF assms(1)] c(2) assms(4) by simp
  have l: "length (sv_pollfds_clients s) = length (sv_clients s)"
    using alignedD(2) [OF assms(1)] by (metis length_map)
  have "pfd_fd (sv_pollfds_clients s ! k) = cl_client_id (sv_clients s ! k)"
    using alignedD(2) [OF assms(1)] c(2) l assms(4) by (metis nth_map)
  moreover have "distinct (map pfd_fd (sv_pollfds_clients s))"
    using alignedD(6) [OF assms(1)] alignedD(2) [OF assms(1)] by simp
  ultimately have "erase_fd ?fd (sv_pollfds_clients s) = erase_at k (sv_pollfds_clients s)"
    using erase_fd_at [of "sv_pollfds_clients s" k] c(2) l assms(4) fd by simp
  then show ?thesis
    using c assms(2,4) alive fd by (simp add: closeClientConnection_def Let_def)
qed

lemma aligned_close:
  assumes "aligned s" and "n_servers s \<le> idx"
  shows "aligned (closeClientConnection idx s)"
proof (cases "idx < length (sv_pollfds s)")
  case True
  have sv: "n_servers (sv_close fd s) = n_servers s" "sv_pollfds (sv_close fd s) = sv_pollfds s" for fd
    by (simp_all add: sv_close_def)
  from aligned_erase [of "sv_close fd s" idx for fd] True assms
  show ?thesis
    by (simp add: close_client [OF assms(1) True assms(2)] aligned_other sv) (simp add: sv_close_def)
next
  case False
  with assms(1) show ?thesis by (simp add: closeClientConnection_def)
qed

lemma n_servers_close: "n_servers (closeClientConnection idx s) = n_servers s"
  by (simp add: closeClientConnection_def Let_def sv_close_def set_events_def)

lemma client_write_keep:
  "client_write io c = (out, c', closing) \<Longrightarrow>
     cl_client_id c' = cl_client_id c \<and> cl_keep_alive c' = cl_keep_alive c"
  by (auto simp: client_write_def write_head_def write_body_def client_simps Let_def
      split: if_splits prod.splits)

lemma aligned_write:
  assumes "aligned s" and "n_servers s \<le> idx"
  shows "aligned (handleClientWrite io idx s)" and "n_servers (handleClientWrite io idx s) = n_servers s"
proof -
  have "aligned (handleClientWrite io idx s) \<and> n_servers (handleClientWrite io idx s) = n_servers s"
  proof (cases "idx < length (sv_pollfds s)")
    case True
    note c = aligned_client [OF assms(1) True assms(2)]
    let ?k = "idx - n_servers s"
    obtain out c' closing where w: "client_write io (sv_clients s ! ?k) = (out, c', closing)"
      by (cases "client_write io (sv_clients s ! ?k)")
    let ?s1 = "s\<lparr>sv_clients := (sv_clients s)[?k := c'],
      sv_sent := (if out = [] then sv_sent s
        else sv_sent s @ [(pfd_fd (sv_pollfds s ! idx), out)])\<rparr>"
    have "aligned (s\<lparr>sv_clients := (sv_clients s)[?k := c']\<rparr>)"
      using aligned_update_client [OF assms(1) c(2)] client_write_keep [OF w] alignedD(8) [OF assms(1)] c(2)
      by simp
    then have a1: "aligned ?s1" by (simp add: aligned_def open_fds_def config_fds_def)
    have eq: "handleClientWrite io idx s = (if closing then closeClientConnection idx ?s1 else ?s1)"
      using True c w by (simp add: handleClientWrite_def Let_def)
    show ?thesis using a1 assms(2) unfolding eq by (auto simp: n_servers_close intro: aligned_close)
  qed (use assms(1) in \<open>simp add: handleClientWrite_def\<close>)
  then show "aligned (handleClientWrite io idx s)" and "n_servers (handleClientWrite io idx s) = n_servers s"
    by simp_all
qed

section \<open>Serving an entry\<close>

text \<open>What \<open>accept\<close> documents: the descriptor it returns is not in use.\<close>

definition fresh_accept :: "io \<Rightarrow> 'w server \<Rightarrow> bool" where
  "fresh_accept io s \<longleftrightarrow> ar_accept (io_accept io) \<notin> set (open_fds s)"

lemma aligned_accept:
  assumes "aligned s" and "fresh_accept io s"
  shows "aligned (serve_accept io c s)"
proof -
  let ?fd = "ar_accept (io_accept io)"
  note a = alignedD [OF assms(1)]
  have new: "aligned (s\<lparr>sv_clients := sv_clients s @ [new_Client ?fd block],
      sv_pollfds := sv_pollfds s @ [new_pollfd ?fd],
      sv_pollfds_clients := sv_pollfds_clients s @ [new_pollfd ?fd]\<rparr>)" (is "aligned ?t")
    if "?fd \<ge> 0" for block
  proof -
    have id: "cl_client_id (new_Client ?fd block) = ?fd" "\<not> cl_keep_alive (new_Client ?fd block)"
      by (simp_all add: new_Client_def)
    have sel: "open_fds ?t = open_fds s @ [?fd]" "config_fds ?t = config_fds s"
      by (simp_all add: open_fds_def config_fds_def new_pollfd_def)
    have "aligned_fds (open_fds ?t) (map pfd_fd (sv_pollfds_servers ?t)) (map pfd_fd (sv_pollfds_clients ?t))
        (map cl_client_id (sv_clients ?t)) (config_fds ?t)"
      using a(1-5) assms(2) that unfolding aligned_fds_def sel
      by (simp add: id new_pollfd_def fresh_accept_def)
    moreover have "take (n_servers s) (sv_pollfds ?t) = take (n_servers s) (sv_pollfds s)"
      using aligned_length [OF assms(1)] by simp
    ultimately show ?thesis using a(7,8) id by (simp add: aligned_def)
  qed
  have "aligned (snd (acceptClient (io_accept io) block s))" for block
    using assms(1) new [of block] by (auto simp: acceptClient_def Let_def aligned_other)
  then show ?thesis using assms(1) by (simp add: serve_accept_def)
qed

lemma aligned_read:
  assumes a: "aligned s" and i: "idx < length (sv_pollfds s)" "n_servers s \<le> idx"
    and run: "serve_read os rn io idx s = Inr s'"
  shows "aligned s'"
proof -
  note c = aligned_client [OF a i]
  let ?k = "idx - n_servers s"
  have closed: "aligned (closeClientConnection idx s)" using a i(2) by (rule aligned_close)
  show ?thesis
  proof (cases "io_recv io")
    case None
    with run closed c show ?thesis by (simp add: serve_read_def)
  next
    case (Some req)
    show ?thesis
    proof (cases "req = []")
      case True
      with run closed c Some show ?thesis by (simp add: serve_read_def)
    next
      case False
      let ?h = "\<lparr>hs_world = sv_world s, hs_st = sv_st s, hs_cl = set_s_request req (sv_clients s ! ?k)\<rparr>"
      from run c Some False obtain h where h: "check_request os rn ?h = Inr h"
        and s': "s' = (let s1 = s\<lparr>sv_world := hs_world h, sv_st := hs_st h,
                          sv_clients := (sv_clients s)[?k := hs_cl h]\<rparr>
               in if cl_all_recv (hs_cl h) then set_events idx POLLOUT s1 else s1)"
        by (auto simp: serve_read_def rbind_Inr Let_def)
      have alive: "\<not> cl_keep_alive (sv_clients s ! ?k)" using alignedD(8) [OF a] c(2) by simp
      have "\<not> cl_keep_alive (hs_cl ?h)" "cl_client_id (hs_cl ?h) = cl_client_id (sv_clients s ! ?k)"
        using alive by (simp_all add: client_simps)
      with rpostD [OF check_request_ck [of ?h os rn] h]
      have "cl_client_id (hs_cl h) = cl_client_id (sv_clients s ! ?k)" "\<not> cl_keep_alive (hs_cl h)" by simp_all
      from aligned_update_client [OF a c(2) this]
      have "aligned (s\<lparr>sv_world := hs_world h, sv_st := hs_st h, sv_clients := (sv_clients s)[?k := hs_cl h]\<rparr>)"
        (is "aligned ?s1")
        by (simp add: aligned_def open_fds_def config_fds_def)
      then show ?thesis
        using s' i(2) aligned_set_events [of ?s1 idx POLLOUT] by (auto simp: Let_def)
    qed
  qed
qed

lemma aligned_serve_write:
  assumes a: "aligned s" and i: "idx < length (sv_pollfds s)" "n_servers s \<le> idx"
    and run: "serve_write io idx s = Inr s'"
  shows "aligned s'"
proof -
  note c = aligned_client [OF a i]
  let ?k = "idx - n_servers s"
  let ?s1 = "handleClientWrite io idx s"
  note w = aligned_write [OF a i(2), of io]
  have n2: "n_servers (set_events idx POLLIN ?s1) = n_servers s" using w(2) by (simp add: set_events_def)
  have a2: "aligned (set_events idx POLLIN ?s1)" using aligned_set_events [OF w(1)] w(2) i(2) by simp
  have k: "?k < length (sv_clients ?s1)"
    using run c by (auto simp: serve_write_def Let_def split: if_splits)
  have alive: "\<not> cl_keep_alive (sv_clients ?s1 ! ?k)" using alignedD(8) [OF w(1)] k by simp
  have "s' = ?s1 \<or> s' = closeClientConnection idx (set_events idx POLLIN ?s1)"
    using run c k alive by (auto simp: serve_write_def Let_def split: if_splits)
  then show ?thesis
    using w(1) aligned_close [OF a2, of idx] n2 i(2) by auto
qed

lemma aligned_serve_fd:
  assumes a: "aligned s" and fresh: "fresh_accept io s"
    and run: "serve_fd os rn io idx s = Inr s'"
  shows "aligned s'"
proof (cases "idx < length (sv_pollfds s)")
  case False
  with run a show ?thesis by (simp add: serve_fd_def)
next
  case i: True
  let ?p = "sv_pollfds s ! idx"
  show ?thesis
  proof (cases "idx < n_servers s")
    case True
    note l = aligned_server [OF a True]
    then obtain c where "config_of_fd (pfd_fd ?p) (sv_configs s) = Some c" by auto
    then have "s' = s \<or> s' = serve_accept io c s"
      using run i l(2,3) by (auto simp: serve_fd_def listening_def Let_def split: if_splits)
    then show ?thesis using a aligned_accept [OF a fresh] by auto
  next
    case False
    then have n: "n_servers s \<le> idx" by simp
    note c = aligned_client [OF a i n]
    have close: "aligned (closeClientConnection idx s)" using a n by (rule aligned_close)
    let ?r = "pfd_revents ?p"
    have eq: "serve_fd os rn io idx s =
        (if rv_err ?r then
           Inr (if \<exists>q \<in> set (sv_pollfds_servers s). pfd_fd ?p = pfd_fd q then s
                else closeClientConnection idx s)
         else if rv_in ?r then serve_read os rn io idx s
         else if rv_out ?r then serve_write io idx s else Inr s)"
      using i by (simp only: serve_fd_def Let_def c(3) option.case not_le if_not_P [of "_ \<le> _"] not_less)
    consider "s' = s" | "s' = closeClientConnection idx s"
      | "serve_read os rn io idx s = Inr s'" | "serve_write io idx s = Inr s'"
      using run unfolding eq
      by (cases "rv_err ?r"; cases "rv_in ?r"; cases "rv_out ?r"; simp only: if_True if_False sum.inject)
        (auto split: if_splits)
    then show ?thesis
      by cases (use a close aligned_read [OF a i n] aligned_serve_write [OF a i n] in auto)
  qed
qed

section \<open>Reachable states\<close>

text \<open>\<open>poll\<close> reports \<open>POLLOUT\<close> only where it was asked for.\<close>

definition poll_ok :: "(nat \<Rightarrow> revents) \<Rightarrow> 'w server \<Rightarrow> bool" where
  "poll_ok rs s \<longleftrightarrow>
     (\<forall>i < length (sv_pollfds s). rv_out (rs i) \<longrightarrow> pfd_events (sv_pollfds s ! i) = POLLOUT)"

inductive server_step :: "'w os \<Rightarrow> 'w runner \<Rightarrow> 'w server \<Rightarrow> 'w server \<Rightarrow> bool" for os rn where
  polled: "poll_ok rs s \<Longrightarrow> server_step os rn s (set_revents rs s)"
| served: "fresh_accept io s \<Longrightarrow> serve_fd os rn io idx s = Inr s' \<Longrightarrow> server_step os rn s s'"

inductive_cases server_stepE: "server_step os rn s s'"

lemma aligned_set_revents:
  assumes "aligned s" and "poll_ok rs s"
  shows "aligned (set_revents rs s)"
proof -
  have f: "map pfd_fd (map (\<lambda>(i, p). p\<lparr>pfd_revents := rs i\<rparr>) (enumerate 0 ps)) = map pfd_fd ps" for ps
    by (induction ps rule: rev_induct) (auto simp: enumerate_append_eq)
  have t: "listening ((sv_pollfds s ! i)\<lparr>pfd_revents := rs i\<rparr>)" if "i < n_servers s" for i
    using aligned_server(2) [OF assms(1) that] assms(2) that aligned_length [OF assms(1)]
    by (auto simp: listening_def poll_ok_def)
  have "\<forall>p \<in> set (take (n_servers s) (map (\<lambda>(i, p). p\<lparr>pfd_revents := rs i\<rparr>) (enumerate 0 (sv_pollfds s)))).
      listening p"
    using t aligned_length [OF assms(1)]
    by (auto simp: in_set_conv_nth nth_enumerate_eq)
  then show ?thesis
    using assms(1) f [of "sv_pollfds s"]
    by (simp add: aligned_def set_revents_def open_fds_def config_fds_def)
qed

text \<open>The state in which \<open>startServer\<close> enters its loop.\<close>

definition listening_start :: "'w server \<Rightarrow> bool" where
  "listening_start s \<longleftrightarrow> sv_clients s = [] \<and> sv_pollfds_clients s = [] \<and>
     sv_pollfds s = sv_pollfds_servers s \<and> distinct (map pfd_fd (sv_pollfds s)) \<and>
     set (map pfd_fd (sv_pollfds_servers s)) = set (config_fds s) \<and>
     (\<forall>p \<in> set (sv_pollfds s). listening p)"

lemma aligned_start: "listening_start s \<Longrightarrow> aligned s"
proof -
  assume l: "listening_start s"
  have "\<forall>fd \<in> set (config_fds s). fd \<ge> 0" by (simp add: config_fds_iff)
  with l show ?thesis
    by (auto simp: listening_start_def aligned_def aligned_fds_def open_fds_def dest: in_set_takeD)
qed

interpretation event_loop: invariant_system listening_start "server_step os rn" aligned for os rn
proof
  show "listening_start s \<Longrightarrow> aligned s" for s :: "'a server" by (rule aligned_start)
  show "aligned s \<Longrightarrow> server_step os rn s s' \<Longrightarrow> aligned s'" for s s'
    by (erule server_stepE) (auto intro: aligned_set_revents aligned_serve_fd)
qed

section \<open>From the start to any round\<close>

text \<open>A call of \<open>createServer\<close> that ends with a listening socket.\<close>

definition listens :: "socket_run \<Rightarrow> bool" where
  "listens r \<longleftrightarrow> so_socket r \<ge> 0 \<and> so_getfl r \<ge> 0 \<and> so_setfl r \<ge> 0 \<and> so_reuse r \<ge> 0 \<and>
     so_bind r \<ge> 0 \<and> so_listen r \<ge> 0"

lemma createServer_cases:
  "createServer r s = (if listens r then (so_socket r, s)
     else if so_socket r < 0 then (-1, s) else (-1, sv_close (so_socket r) s))"
  by (auto simp: createServer_def listens_def)

text \<open>A server that has been configured and not started.\<close>

definition configured :: "'w server \<Rightarrow> bool" where
  "configured s \<longleftrightarrow> sv_clients s = [] \<and> sv_pollfds s = [] \<and> sv_pollfds_clients s = [] \<and>
     sv_pollfds_servers s = [] \<and> (\<forall>c \<in> set (sv_configs s). sc_fd c = -1)"

definition starting :: "nat \<Rightarrow> int set \<Rightarrow> 'w server \<Rightarrow> bool" where
  "starting i used s \<longleftrightarrow> listening_start s \<and> set (open_fds s) = used \<and>
     (\<forall>j. i \<le> j \<and> j < length (sv_configs s) \<longrightarrow> sc_fd (sv_configs s ! j) = -1)"

lemma set_update_eq:
  "i < length xs \<Longrightarrow> set (xs[i := x]) = insert x (set (take i xs) \<union> set (drop (Suc i) xs))"
  by (simp add: upd_conv_take_nth_drop)

lemma starting_fail:
  assumes "starting i used s" and "i < length (sv_configs s)"
  shows "starting (Suc i) used (s\<lparr>sv_configs := (sv_configs s)[i := (sv_configs s ! i)\<lparr>sc_fd := -1\<rparr>]\<rparr>)"
proof -
  have "(sv_configs s ! i)\<lparr>sc_fd := -1\<rparr> = sv_configs s ! i"
    using assms by (auto simp: starting_def)
  then have "s\<lparr>sv_configs := (sv_configs s)[i := (sv_configs s ! i)\<lparr>sc_fd := -1\<rparr>]\<rparr> = s" by simp
  with assms(1) show ?thesis by (simp add: starting_def)
qed

lemma starting_listen:
  assumes st: "starting i used s" and i: "i < length (sv_configs s)" and fd: "fd \<ge> 0" "fd \<notin> used"
  shows "starting (Suc i) (insert fd used)
      (s\<lparr>sv_configs := (sv_configs s)[i := (sv_configs s ! i)\<lparr>sc_fd := fd\<rparr>],
         sv_pollfds := sv_pollfds s @ [new_pollfd fd],
         sv_pollfds_servers := sv_pollfds_servers s @ [new_pollfd fd]\<rparr>)" (is "starting _ _ ?t")
proof -
  have old: "sc_fd (sv_configs s ! i) = -1" using st i by (simp add: starting_def)
  have split: "sv_configs s = take i (sv_configs s) @ sv_configs s ! i # drop (Suc i) (sv_configs s)"
    using i by (rule id_take_nth_drop)
  have "config_fds s = [sc_fd c. c \<leftarrow> take i (sv_configs s) @ drop (Suc i) (sv_configs s), sc_fd c \<ge> 0]"
    unfolding config_fds_def by (subst split) (simp add: old)
  moreover have "config_fds ?t = [sc_fd c. c \<leftarrow> take i (sv_configs s), sc_fd c \<ge> 0] @ fd #
      [sc_fd c. c \<leftarrow> drop (Suc i) (sv_configs s), sc_fd c \<ge> 0]"
    using i fd(1) by (simp add: config_fds_def upd_conv_take_nth_drop)
  ultimately have cfg: "set (config_fds ?t) = insert fd (set (config_fds s))" by auto
  have "listening_start ?t"
    using st fd cfg
    by (auto simp: starting_def listening_start_def open_fds_def new_pollfd_def listening_def no_revents_def)
  moreover have "set (open_fds ?t) = insert fd used"
    using st by (simp add: starting_def open_fds_def new_pollfd_def)
  ultimately show ?thesis using st by (auto simp: starting_def)
qed

lemma starting_close: "starting i used (sv_close fd s) = starting i used s"
  by (simp add: starting_def listening_start_def open_fds_def config_fds_def sv_close_def)

lemma initialize_starting:
  assumes "starting i used s" and "i + length rs \<le> length (sv_configs s)"
    and "distinct (map so_socket (filter listens rs))"
    and "set (map so_socket (filter listens rs)) \<inter> used = {}"
  shows "listening_start (initialize_loop i rs s)"
  using assms
proof (induction rs arbitrary: i used s)
  case Nil
  then show ?case by (simp add: starting_def)
next
  case (Cons r rs)
  have i: "i < length (sv_configs s)" using Cons.prems(2) by simp
  show ?case
  proof (cases "listens r")
    case True
    then have fd: "so_socket r \<ge> 0" by (simp add: listens_def)
    have "so_socket r \<notin> used" using Cons.prems(4) True by auto
    from starting_listen [OF Cons.prems(1) i fd this] True Cons.prems fd show ?thesis
      by (simp add: createServer_cases) (rule Cons.IH, assumption, simp_all)
  next
    case False
    obtain s1 where s1: "createServer r s = (-1, s1)" "starting i used s1" "sv_configs s1 = sv_configs s"
    proof (cases "so_socket r < 0")
      case True
      with False Cons.prems(1) show ?thesis by (intro that [of s]) (simp_all add: createServer_cases)
    next
      case neg: False
      with False Cons.prems(1) show ?thesis
        by (intro that [of "sv_close (so_socket r) s"])
          (simp_all add: createServer_cases starting_close, simp add: sv_close_def)
    qed
    from starting_fail [OF s1(2)] i s1 Cons.prems False show ?thesis
      by simp (rule Cons.IH, assumption, simp_all)
  qed
qed

text \<open>Freshness of every accepted descriptor during a round, and during a run.\<close>

fun fresh_down :: "'w os \<Rightarrow> 'w runner \<Rightarrow> (nat \<Rightarrow> io) \<Rightarrow> nat \<Rightarrow> 'w server \<Rightarrow> bool" where
  "fresh_down os rn ios 0 s = True"
| "fresh_down os rn ios (Suc i) s \<longleftrightarrow> fresh_accept (ios i) s \<and>
     (case serve_fd os rn (ios i) i s of Inl _ \<Rightarrow> True | Inr s' \<Rightarrow> fresh_down os rn ios i s')"

fun fresh_run :: "'w os \<Rightarrow> 'w runner \<Rightarrow> ((nat \<Rightarrow> revents) option \<times> (nat \<Rightarrow> io)) list \<Rightarrow> 'w server \<Rightarrow> bool" where
  "fresh_run os rn [] s = True"
| "fresh_run os rn ((rs, ios) # later) s \<longleftrightarrow>
     (case rs of None \<Rightarrow> True
      | Some r \<Rightarrow> poll_ok r s \<and> fresh_down os rn ios (length (sv_pollfds s)) (set_revents r s)) \<and>
     (case poll_round os rn rs ios s of Inl _ \<Rightarrow> True | Inr s' \<Rightarrow> fresh_run os rn later s')"

lemma serve_down_steps:
  "fresh_down os rn ios n s \<Longrightarrow> serve_down os rn ios n s = Inr s' \<Longrightarrow> (server_step os rn)\<^sup>*\<^sup>* s s'"
proof (induction n arbitrary: s)
  case (Suc i)
  then obtain s1 where "serve_fd os rn (ios i) i s = Inr s1" "serve_down os rn ios i s1 = Inr s'"
    by (auto simp: rbind_Inr)
  with Suc show ?case by (auto intro: converse_rtranclp_into_rtranclp server_step.served)
qed simp

lemma run_rounds_steps:
  "fresh_run os rn rounds s \<Longrightarrow> run_rounds os rn rounds s = Inr s' \<Longrightarrow> (server_step os rn)\<^sup>*\<^sup>* s s'"
proof (induction rounds arbitrary: s)
  case (Cons r rounds)
  obtain rs ios where r: "r = (rs, ios)" by (cases r)
  with Cons.prems obtain s1 where s1: "poll_round os rn rs ios s = Inr s1"
    and rest: "run_rounds os rn rounds s1 = Inr s'" by (auto simp: rbind_Inr)
  have "(server_step os rn)\<^sup>*\<^sup>* s s1"
  proof (cases rs)
    case None
    with s1 show ?thesis by simp
  next
    case (Some ev)
    with s1 r Cons.prems(1) show ?thesis
      by (auto intro: converse_rtranclp_into_rtranclp server_step.polled serve_down_steps)
  qed
  moreover have "(server_step os rn)\<^sup>*\<^sup>* s1 s'"
    using Cons.IH [of s1] Cons.prems(1) r s1 rest by simp
  ultimately show ?case by simp
qed simp

section \<open>Sending a response\<close>

definition sent_to :: "int \<Rightarrow> 'w server \<Rightarrow> string" where
  "sent_to fd s = concat (map snd (filter (\<lambda>e. fst e = fd) (sv_sent s)))"

definition finished :: "Client \<Rightarrow> bool" where
  "finished c \<longleftrightarrow> \<not> is_open (rs_fileStream (cl_response c)) \<or> eof_bit (rs_fileStream (cl_response c))"

text \<open>A client with the head \<open>h\<close> and then the bytes \<open>b\<close> of a file still to send.\<close>

definition to_send :: "string \<Rightarrow> string \<Rightarrow> Client \<Rightarrow> bool" where
  "to_send h b c \<longleftrightarrow>
     (if rq_is_string_req_send (cl_request c) then h = [] else rs_response (cl_response c) = h \<and> h \<noteq> []) \<and>
     rs_fileStream (cl_response c) = \<lparr>is_open = True, unread = b, eof_bit = False\<rparr>"

text \<open>A socket with room for the head and for a buffer.\<close>

definition roomy :: "string \<Rightarrow> io \<Rightarrow> bool" where
  "roomy h io \<longleftrightarrow> int (length h) \<le> io_send_response io \<and> 0 < io_send_response io \<and> 4096 \<le> io_send_file io"

lemma client_write_step:
  assumes "to_send h b c" and "roomy h io"
  obtains c' where "client_write io c = (h @ take 4096 b, c', False)"
    "length b < 4096 \<Longrightarrow> finished c'" "4096 \<le> length b \<Longrightarrow> to_send [] (drop 4096 b) c'"
    "4096 \<le> length b \<Longrightarrow> \<not> finished c'"
proof -
  let ?c1 = "c\<lparr>cl_request := (cl_request c)\<lparr>rq_is_string_req_send := True\<rparr>\<rparr>"
  have head: "write_head (io_send_response io) c =
      (h, if rq_is_string_req_send (cl_request c) then c else ?c1, False)"
    using assms by (auto simp: write_head_def to_send_def roomy_def)
  obtain c1 where c1: "write_head (io_send_response io) c = (h, c1, False)"
    "rs_fileStream (cl_response c1) = \<lparr>is_open = True, unread = b, eof_bit = False\<rparr>"
    "rq_is_string_req_send (cl_request c1)"
    using assms(1) by (cases "rq_is_string_req_send (cl_request c)") (auto simp: head to_send_def)
  have n: "\<not> io_send_file io \<le> 0" "take (nat (io_send_file io)) (take 4096 b) = take 4096 b"
    using assms(2) by (auto simp: roomy_def)
  let ?f = "\<lparr>is_open = True, unread = drop 4096 b, eof_bit = length b < 4096\<rparr>"
  have "write_body (io_send_file io) c1 =
      (take 4096 b, set_fileStream (if length b < 4096 then ifstream_close ?f else ?f) c1, False)"
    using n by (simp add: write_body_def c1(2) ifstream_read_def Let_def)
  then have w: "client_write io c = (h @ take 4096 b,
      set_fileStream (if length b < 4096 then ifstream_close ?f else ?f) c1, False)"
    by (simp add: client_write_def c1(1))
  show thesis
    by (rule that [OF w]) (use c1(3) in
        \<open>auto simp: finished_def to_send_def client_simps ifstream_close_def\<close>)
qed

fun write_polls :: "io list \<Rightarrow> nat \<Rightarrow> 'w server \<Rightarrow> 'w server res" where
  "write_polls [] idx s = Inr s"
| "write_polls (io # ios) idx s = rbind (serve_write io idx s) (write_polls ios idx)"

lemma sent_to_close: "sent_to fd (closeClientConnection idx s) = sent_to fd s"
  by (simp add: sent_to_def closeClientConnection_def sv_close_def set_events_def Let_def)

lemma serve_write_step:
  assumes a: "aligned s" and i: "idx < length (sv_pollfds s)" "n_servers s \<le> idx"
    and k: "k = idx - n_servers s"
    and w: "client_write io (sv_clients s ! k) = (out, c', False)"
  obtains s1 where "aligned s1" "n_servers s1 = n_servers s" "sv_clients s1 = (sv_clients s)[k := c']"
    "sv_pollfds s1 = sv_pollfds s" "sv_closed s1 = sv_closed s"
    "sent_to fd s1 = (if fd = cl_client_id (sv_clients s ! k) then sent_to fd s @ out else sent_to fd s)"
    "\<not> finished c' \<Longrightarrow> serve_write io idx s = Inr s1"
    "finished c' \<Longrightarrow> serve_write io idx s = Inr (closeClientConnection idx (set_events idx POLLIN s1))"
proof -
  note c = aligned_client [OF a i, folded k]
  have fd: "pfd_fd (sv_pollfds s ! idx) = cl_client_id (sv_clients s ! k)"
    using aligned_nth [OF a i(1)] i(2) k by simp
  let ?s1 = "s\<lparr>sv_clients := (sv_clients s)[k := c'], sv_sent := (if out = [] then sv_sent s
      else sv_sent s @ [(pfd_fd (sv_pollfds s ! idx), out)])\<rparr>"
  have h: "handleClientWrite io idx s = ?s1"
    using i c w by (simp add: handleClientWrite_def Let_def)
  have alive: "\<not> cl_keep_alive c'"
    using client_write_keep [OF w] alignedD(8) [OF a] c(2) by simp
  have sw: "serve_write io idx s = (if finished c'
      then Inr (closeClientConnection idx (set_events idx POLLIN ?s1)) else Inr ?s1)"
    using i c alive by (simp add: serve_write_def h Let_def finished_def)
  show thesis
  proof (rule that [of ?s1])
    show "aligned ?s1" "n_servers ?s1 = n_servers s" using aligned_write [OF a i(2), of io] by (simp_all add: h)
    show "sent_to fd ?s1 = (if fd = cl_client_id (sv_clients s ! k) then sent_to fd s @ out else sent_to fd s)"
      using fd by (simp add: sent_to_def)
  qed (simp_all add: sw)
qed

lemma transmits:
  assumes "aligned s" and "idx < length (sv_pollfds s)" and "n_servers s \<le> idx"
    and "to_send h b (sv_clients s ! (idx - n_servers s))"
    and "length ios = length b div 4096 + 1" and "\<forall>io \<in> set ios. roomy h io"
    and "fd = cl_client_id (sv_clients s ! (idx - n_servers s))"
  shows "\<exists>s'. write_polls ios idx s = Inr s' \<and> sent_to fd s' = sent_to fd s @ h @ b \<and>
      fd \<notin> set (open_fds s') \<and> sv_closed s' = sv_closed s @ [fd]"
  using assms
proof (induction ios arbitrary: s h b)
  case Nil then show ?case by simp
next
  case (Cons io ios)
  let ?k = "idx - n_servers s"
  from Cons.prems(4,6) obtain c' where w: "client_write io (sv_clients s ! ?k) = (h @ take 4096 b, c', False)"
    and last_piece: "length b < 4096 \<Longrightarrow> finished c'"
    and more: "4096 \<le> length b \<Longrightarrow> to_send [] (drop 4096 b) c'" "4096 \<le> length b \<Longrightarrow> \<not> finished c'"
    by (metis client_write_step list.set_intros(1))
  from serve_write_step [OF Cons.prems(1-3) refl w, of fd] obtain s1
    where s1: "aligned s1" "n_servers s1 = n_servers s" "sv_clients s1 = (sv_clients s)[?k := c']"
      "sv_pollfds s1 = sv_pollfds s" "sv_closed s1 = sv_closed s"
      "sent_to fd s1 = sent_to fd s @ h @ take 4096 b"
    and sw: "\<not> finished c' \<Longrightarrow> serve_write io idx s = Inr s1"
      "finished c' \<Longrightarrow> serve_write io idx s = Inr (closeClientConnection idx (set_events idx POLLIN s1))"
    using Cons.prems(7) by auto
  have k: "?k < length (sv_clients s)" using aligned_client(2) [OF Cons.prems(1-3)] .
  have id: "cl_client_id c' = fd" using client_write_keep [OF w] Cons.prems(7) by simp
  show ?case
  proof (cases "length b < 4096")
    case True
    let ?s2 = "set_events idx POLLIN s1"
    have a2: "aligned ?s2" "n_servers ?s2 = n_servers s" "idx < length (sv_pollfds ?s2)"
      "sv_clients ?s2 = (sv_clients s)[?k := c']" "sv_closed ?s2 = sv_closed s"
      using aligned_set_events [OF s1(1)] s1 Cons.prems(2,3) by (simp_all add: set_events_def)
    have close: "closeClientConnection idx ?s2 = (sv_close fd ?s2)\<lparr>
         sv_pollfds_clients := erase_at ?k (sv_pollfds_clients ?s2),
         sv_clients := erase_at ?k (sv_clients ?s2), sv_pollfds := erase_at idx (sv_pollfds ?s2)\<rparr>"
      using close_client [OF a2(1,3)] a2 Cons.prems(3) k id by simp
    have "pfd_fd (sv_pollfds ?s2 ! idx) = fd"
      using aligned_nth [OF a2(1,3)] a2 Cons.prems(3) k id by simp
    then have "fd \<notin> set (erase_at idx (open_fds ?s2))"
      using erase_at_notin [OF alignedD(4) [OF a2(1)], of idx] a2(3) by (simp add: open_fds_def)
    then have gone: "fd \<notin> set (open_fds (closeClientConnection idx ?s2))"
      by (simp add: close open_fds_def map_erase_at)
    have "sent_to fd (closeClientConnection idx ?s2) = sent_to fd s @ h @ b"
      using s1(6) True by (simp add: sent_to_close) (simp add: sent_to_def set_events_def)
    moreover have "sv_closed (closeClientConnection idx ?s2) = sv_closed s @ [fd]"
      using a2(5) by (simp add: close sv_close_def)
    moreover have "ios = []" using Cons.prems(5) True by simp
    ultimately show ?thesis using sw(2) [OF last_piece [OF True]] gone by simp
  next
    case False
    then have le: "4096 \<le> length b" by simp
    have len: "length ios = length (drop 4096 b) div 4096 + 1"
      using Cons.prems(5) le by (simp add: le_div_geq)
    have room: "\<forall>io \<in> set ios. roomy [] io" using Cons.prems(6) by (auto simp: roomy_def)
    have "\<exists>s'. write_polls ios idx s1 = Inr s' \<and> sent_to fd s' = sent_to fd s1 @ [] @ drop 4096 b \<and>
      fd \<notin> set (open_fds s') \<and> sv_closed s' = sv_closed s1 @ [fd]"
      using s1 Cons.prems(2,3) more(1) [OF le] k id len room by (intro Cons.IH) simp_all
    then show ?thesis using sw(1) [OF more(2) [OF le]] s1(5,6) by auto
  qed
qed

section \<open>Properties\<close>

text \<open>
  C1: from a configured server, however the sockets answer and whichever events arrive, the
  descriptors polled are those of the listening sockets followed by those of the clients,
  without repetition, and no client is kept alive.
\<close>

theorem start_aligned:
  assumes "configured s" and "length socks = length (sv_configs s)"
    and "distinct (map so_socket (filter listens socks))"
    and "fresh_run os rn rounds (initializeServers socks s)"
    and "startServer os rn socks rounds s = Inr s'"
  shows "aligned s'"
proof -
  have c: "config_fds s = []" using assms(1) by (auto simp: configured_def config_fds_def)
  then have "starting 0 {} s"
    using assms(1) by (simp add: starting_def listening_start_def configured_def open_fds_def)
  from initialize_starting [OF this] assms(2,3) have "listening_start (initializeServers socks s)"
    by (simp add: initializeServers_def)
  moreover have "(server_step os rn)\<^sup>*\<^sup>* (initializeServers socks s) s'"
    using assms(4,5) by (intro run_rounds_steps) (auto simp: startServer_def)
  ultimately show ?thesis by (rule event_loop.inv_reachable)
qed

text \<open>A server with one block on port 80, and a first round that accepts a client.\<close>

definition example_server :: "fs server" where
  "example_server = addServerConfig 0 ''127.0.0.1'' [80] ''s'' ((new_Server [])\<lparr>sv_blocks := [new_ServerBlock]\<rparr>)"

definition example_socks :: "socket_run list" where
  "example_socks = [\<lparr>so_socket = 3, so_getfl = 0, so_setfl = 0, so_reuse = 0, so_bind = 0, so_listen = 0\<rparr>]"

definition example_io :: io where
  "example_io = \<lparr>io_accept = \<lparr>ar_accept = 4, ar_getfl = 0, ar_setfl = 0\<rparr>, io_recv = None,
     io_send_response = 100000, io_send_file = 100000\<rparr>"

definition example_events :: "nat \<Rightarrow> revents" where
  "example_events i = no_revents\<lparr>rv_in := True\<rparr>"

definition example_rounds :: "((nat \<Rightarrow> revents) option \<times> (nat \<Rightarrow> io)) list" where
  "example_rounds = [(None, \<lambda>i. example_io), (Some example_events, \<lambda>i. example_io)]"

definition example_run :: "fs server" where
  "example_run = (case startServer mem_os no_runner example_socks example_rounds example_server of
     Inr s \<Rightarrow> s | Inl e \<Rightarrow> example_server)"

lemma poll_ok_quiet: "(\<And>i. \<not> rv_out (rs i)) \<Longrightarrow> poll_ok rs s"
  by (simp add: poll_ok_def)

lemma example_fresh:
  "fresh_run mem_os no_runner example_rounds (initializeServers example_socks example_server)"
proof -
  let ?s = "initializeServers example_socks example_server"
  have "fresh_down mem_os no_runner (\<lambda>i. example_io) (length (sv_pollfds ?s)) (set_revents example_events ?s)"
    by code_simp
  moreover have "poll_ok example_events s" for s :: "fs server"
    by (rule poll_ok_quiet) (simp add: example_events_def no_revents_def)
  ultimately show ?thesis by (simp add: example_rounds_def split: sum.split)
qed

theorem start_aligned_witness: "aligned example_run \<and> map cl_client_id (sv_clients example_run) = [4]"
proof
  show "aligned example_run"
    by (rule start_aligned [where socks = example_socks, OF _ _ _ example_fresh]) code_simp+
  show "map cl_client_id (sv_clients example_run) = [4]" by code_simp
qed

text \<open>
  C6: a response is delivered whole and once: while the socket takes what it is given, the
  rounds that write to a client send its response head and then every byte of the file, in
  order, and the last of them closes the descriptor, which is then no longer polled.
\<close>

theorem response_delivered:
  assumes "aligned s" and "idx < length (sv_pollfds s)" and "n_servers s \<le> idx"
    and "c = sv_clients s ! (idx - n_servers s)"
    and "\<not> rq_is_string_req_send (cl_request c)" and "rs_response (cl_response c) = h" and "h \<noteq> []"
    and "rs_fileStream (cl_response c) = \<lparr>is_open = True, unread = b, eof_bit = False\<rparr>"
    and "length ios = length b div 4096 + 1" and "\<forall>io \<in> set ios. roomy h io"
  shows "\<exists>s'. write_polls ios idx s = Inr s' \<and>
      sent_to (cl_client_id c) s' = sent_to (cl_client_id c) s @ h @ b \<and>
      cl_client_id c \<notin> set (open_fds s') \<and> sv_closed s' = sv_closed s @ [cl_client_id c]"
proof -
  have "to_send h b (sv_clients s ! (idx - n_servers s))"
    using assms(4-8) by (simp add: to_send_def)
  from transmits [OF assms(1-3) this assms(9,10)] assms(4) show ?thesis by simp
qed

text \<open>Two clients whose responses are ready; the first has a file of five bytes to send.\<close>

definition sending :: "int \<Rightarrow> ifstream \<Rightarrow> Client" where
  "sending fd f = (new_Client fd new_ServerBlock)\<lparr>cl_response :=
     (cl_response (new_Client fd new_ServerBlock))\<lparr>rs_response := ''head'', rs_fileStream := f\<rparr>\<rparr>"

definition two_clients :: "fs server" where
  "two_clients = (new_Server [])\<lparr>sv_configs := [\<lparr>sc_block = 0, sc_host = [], sc_port = 80, sc_fd = 3, sc_name = []\<rparr>],
     sv_pollfds := map new_pollfd [3, 4, 5], sv_pollfds_clients := map new_pollfd [4, 5],
     sv_pollfds_servers := [new_pollfd 3],
     sv_clients := [sending 4 \<lparr>is_open = True, unread = ''bytes'', eof_bit = False\<rparr>,
                    sending 5 \<lparr>is_open = False, unread = [], eof_bit = False\<rparr>]\<rparr>"

lemma two_clients: "aligned two_clients"
  by code_simp

theorem response_delivered_witness:
  "\<exists>s'. write_polls [example_io] 1 two_clients = Inr s' \<and>
      sent_to 4 s' = sent_to 4 two_clients @ ''head'' @ ''bytes'' \<and>
      4 \<notin> set (open_fds s') \<and> sv_closed s' = sv_closed two_clients @ [4]"
proof -
  let ?c = "sending 4 \<lparr>is_open = True, unread = ''bytes'', eof_bit = False\<rparr>"
  have id: "cl_client_id ?c = 4" by code_simp
  show ?thesis
    by (rule response_delivered [where c = ?c, unfolded id, OF two_clients]) code_simp+
qed

text \<open>
  A \<open>send\<close> that fails for one client also takes away the next one: the reference that
  \<open>startServer\<close> keeps across \<open>handleClientWrite\<close> is by then to the next client, and when no
  file is open for that one its connection is closed too.
\<close>

theorem write_failure_closes_next:
  assumes a: "aligned s" and i: "idx < length (sv_pollfds s)" "n_servers s \<le> idx"
    and k: "k = idx - n_servers s" and fresh: "\<not> rq_is_string_req_send (cl_request (sv_clients s ! k))"
    and fail: "io_send_response io \<le> 0" and nxt: "Suc k < length (sv_clients s)"
    and stream: "\<not> is_open (rs_fileStream (cl_response (sv_clients s ! Suc k)))"
  shows "\<exists>s'. serve_write io idx s = Inr s' \<and>
      sv_closed s' = sv_closed s @ [cl_client_id (sv_clients s ! k), cl_client_id (sv_clients s ! Suc k)] \<and>
      sv_clients s' = take k (sv_clients s) @ drop (Suc (Suc k)) (sv_clients s)"
proof -
  note c = aligned_client [OF a i, folded k]
  have w: "client_write io (sv_clients s ! k) = ([], sv_clients s ! k, True)"
    using fresh fail by (simp add: client_write_def write_head_def)
  have same: "s\<lparr>sv_clients := (sv_clients s)[k := sv_clients s ! k], sv_sent := sv_sent s\<rparr> = s" by simp
  let ?s1 = "closeClientConnection idx s"
  note cl = close_client [OF a i k]
  have h: "handleClientWrite io idx s = ?s1"
    using i c w same by (simp add: handleClientWrite_def Let_def)
  have s1: "aligned ?s1" "n_servers ?s1 = n_servers s" "sv_clients ?s1 = erase_at k (sv_clients s)"
    "sv_closed ?s1 = sv_closed s @ [cl_client_id (sv_clients s ! k)]"
    "length (sv_pollfds ?s1) = length (sv_pollfds s) - 1"
    using aligned_close [OF a i(2)] n_servers_close [of idx s] i(1)
    by (simp_all add: cl) (simp_all add: sv_close_def length_erase_at)
  have idx: "idx < length (sv_pollfds ?s1)"
    using s1(5) aligned_length [OF a] nxt k i by simp
  have nth: "erase_at k (sv_clients s) ! k = sv_clients s ! Suc k"
    using nxt by (simp add: erase_at_def nth_append)
  let ?s2 = "set_events idx POLLIN ?s1"
  have s2: "aligned ?s2" "idx < length (sv_pollfds ?s2)" "n_servers ?s2 \<le> idx" "k = idx - n_servers ?s2"
    "sv_clients ?s2 = erase_at k (sv_clients s)" "sv_closed ?s2 = sv_closed ?s1"
    using aligned_set_events [OF s1(1)] s1 i(2) k idx by (simp_all add: set_events_def)
  have alive: "\<not> cl_keep_alive (sv_clients s ! Suc k)" using alignedD(8) [OF a] nxt by simp
  have kk: "k < length (sv_clients ?s1)" using s1(3) nxt by (simp add: length_erase_at)
  have "serve_write io idx s = Inr (closeClientConnection idx ?s2)"
    using i c kk idx alive stream nth s1(3) by (simp add: serve_write_def h Let_def)
  moreover have "sv_closed (closeClientConnection idx ?s2) =
      sv_closed s @ [cl_client_id (sv_clients s ! k), cl_client_id (sv_clients s ! Suc k)]"
    using s1(4) s2(5,6) nth by (simp add: close_client [OF s2(1-4)]) (simp add: sv_close_def)
  moreover have "sv_clients (closeClientConnection idx ?s2) = take k (sv_clients s) @ drop (Suc (Suc k)) (sv_clients s)"
    using s2(5) nxt by (simp add: close_client [OF s2(1-4)]) (simp add: erase_at_def)
  ultimately show ?thesis by blast
qed

theorem write_failure_closes_next_witness:
  "\<exists>s'. serve_write (example_io\<lparr>io_send_response := -1\<rparr>) 1 two_clients = Inr s' \<and>
      sv_closed s' = sv_closed two_clients @ [cl_client_id (sv_clients two_clients ! 0), cl_client_id (sv_clients two_clients ! Suc 0)] \<and>
      sv_clients s' = take 0 (sv_clients two_clients) @ drop (Suc (Suc 0)) (sv_clients two_clients)"
  by (rule write_failure_closes_next [OF two_clients]) code_simp+

text \<open>
  A \<open>send\<close> that takes only part of the response is treated as if it had taken all of it:
  the rest is never sent.
\<close>

theorem short_send_truncates:
  assumes "\<not> rq_is_string_req_send (cl_request c)" and "0 < io_send_response io"
    and "\<not> is_open (rs_fileStream (cl_response c))"
  shows "\<exists>c'. client_write io c = (take (nat (io_send_response io)) (rs_response (cl_response c)), c', False) \<and>
      finished c'"
  using assms by (auto simp: client_write_def write_head_def write_body_def finished_def Let_def)

theorem short_send_truncates_witness:
  "\<exists>c'. client_write (example_io\<lparr>io_send_response := 2\<rparr>) (sv_clients two_clients ! 1) =
      (take (nat 2) (rs_response (cl_response (sv_clients two_clients ! 1))), c', False) \<and> finished c'"
proof -
  have two: "io_send_response (example_io\<lparr>io_send_response := 2\<rparr>) = 2" by simp
  show ?thesis
    by (rule short_send_truncates [where io = "example_io\<lparr>io_send_response := 2\<rparr>", unfolded two]) code_simp+
qed

end
