(* ===== verification/Config.thy ===== *)
theory Config
  imports Server_loop
begin

text \<open>
  The configuration file: \<open>get_parts\<close> and \<open>main\<close> (\<open>main.cpp\<close>), \<open>parsing/parsing.cpp\<close>,
  \<open>parsing/pars_route.cpp\<close>, \<open>parsing/Confile.cpp\<close> and \<open>parsing/check_tools.cpp\<close>.  A
  directive's parser yields its value and the flag \<open>status\<close>; an access outside a vector or
  a string is \<open>Undefined\<close>.  The parsers of blocks walk over the parts with an index and
  rewrite the part at the index; they never look back, so here they take the parts from the
  index on.
\<close>

section \<open>Text\<close>

definition get_lines :: "string list \<Rightarrow> string list" where
  "get_lines parts = concat (map (getlines LF) parts)"

abbreviation get_words :: "string \<Rightarrow> string list" where
  "get_words line \<equiv> words_of line"

definition split_brace :: "string \<Rightarrow> string list" where
  "split_brace line =
     (case str_find ''{'' line of
        None \<Rightarrow> [line] | Some found \<Rightarrow> [take found line, drop (found + 1) line])"

fun split_words_loop :: "string \<Rightarrow> string \<Rightarrow> string list" where
  "split_words_loop tmp [] = [tmp]"
| "split_words_loop tmp (c # cs) =
     (if c = CHR ''.'' then tmp # split_words_loop [] cs else split_words_loop (tmp @ [c]) cs)"

text \<open>A line without a point has no words at all.\<close>

definition split_words :: "string \<Rightarrow> string list" where
  "split_words line = (if CHR ''.'' \<in> set line then split_words_loop [] line else [])"

text \<open>On the empty string \<open>size() - 1\<close> wraps, and \<open>str[len]\<close> is far out of range.\<close>

definition trimstr :: "string \<Rightarrow> string res" where
  "trimstr str =
     (if str = [] then Inl Undefined
      else (let s = dropWhile (\<lambda>c. c = SP) str in Inr (rev (dropWhile (\<lambda>c. c = SP) (rev s)))))"

text \<open>True when the C string has anything but blanks, newlines and tabs.\<close>

definition check_empt :: "string \<Rightarrow> bool" where
  "check_empt line \<longleftrightarrow> (\<exists>c \<in> set (c_str line). c \<noteq> SP \<and> c \<noteq> LF \<and> c \<noteq> TAB)"

definition has_brace :: "string \<Rightarrow> bool" where
  "has_brace w \<longleftrightarrow> str_contains ''{'' w \<or> str_contains ''}'' w"

definition all_digits :: "string \<Rightarrow> bool" where
  "all_digits s \<longleftrightarrow> (\<forall>c \<in> set s. is_digit c)"

text \<open>The loop never advances: a digit or a point is looked at again and again.\<close>

partial_function (option) check_words :: "string \<Rightarrow> nat \<Rightarrow> nat option" where
  "check_words str x =
     (if x < length str then
        (if \<not> is_digit (str ! x) \<and> str ! x \<noteq> CHR ''.'' then Some 1 else check_words str x)
      else Some 0)"

section \<open>Paths\<close>

definition check_path :: "'w os \<Rightarrow> 'w \<Rightarrow> string \<Rightarrow> bool" where
  "check_path os w path \<longleftrightarrow> os_stat os (c_str path) w \<noteq> None"

definition check_type :: "'w os \<Rightarrow> 'w \<Rightarrow> string \<Rightarrow> nat" where
  "check_type os w path =
     (case os_stat os (c_str path) w of
        None \<Rightarrow> 2
      | Some st \<Rightarrow> if st_type st = Regular then 1 else if st_type st = Directory then 0 else 2)"

fun check_index_loop :: "'w os \<Rightarrow> 'w \<Rightarrow> string list \<Rightarrow> string \<Rightarrow> bool" where
  "check_index_loop os w [] root = True"
| "check_index_loop os w (i # index) root =
     (let tmp_path = root @ ''/'' @ i in
      check_path os w tmp_path \<and> check_type os w tmp_path = 1 \<and>
      os_access_r os (c_str tmp_path) w \<and> check_index_loop os w index root)"

definition check_index :: "'w os \<Rightarrow> 'w \<Rightarrow> string list \<Rightarrow> string \<Rightarrow> bool" where
  "check_index os w index root =
     (if index = [] then True else if root = [] then False
      else check_index_loop os w (tl index) root)"

section \<open>Directives\<close>

definition get_root :: "'w os \<Rightarrow> 'w \<Rightarrow> string list \<Rightarrow> string \<times> bool" where
  "get_root os w words =
     (if length words \<noteq> 2 then ([], False)
      else if has_brace (words ! 1) then ([], False)
      else if \<not> check_path os w (words ! 1) then ([], False)
      else if check_type os w (words ! 1) \<noteq> 0 then ([], False)
      else (words ! 1, True))"

fun double_dot :: "string \<Rightarrow> bool" where
  "double_dot (a # b # s) = ((a = CHR ''.'' \<and> b = CHR ''.'') \<or> double_dot (b # s))"
| "double_dot s = False"

text \<open>
  The octets: \<open>numb\<close> is declared outside the loop, so an octet that is empty leaves it as the
  octet before set it, or undefined when there is none.
\<close>

fun octets_loop :: "string list \<Rightarrow> int option \<Rightarrow> bool res" where
  "octets_loop [] numb = Inr True"
| "octets_loop (oct # octets) numb =
     (if \<not> all_digits (c_str oct) then Inr False
      else if c_str oct \<noteq> [] \<and> c_at oct 0 = CHR ''0'' \<and> length oct > 1 then Inr False
      else
        (let numb' = (case fst (read_int32 oct) of None \<Rightarrow> numb | Some n \<Rightarrow> Some n) in
         case numb' of
           None \<Rightarrow> Inl Undefined
         | Some n \<Rightarrow> if n > 255 \<or> n < 0 then Inr False else octets_loop octets (Some n)))"

definition pars_host :: "string list \<Rightarrow> (string \<times> bool) res" where
  "pars_host words =
     (if length words \<noteq> 2 then Inr ([], False)
      else
        (let address = words ! 1 in
         if has_brace address then Inr ([], False)
         else if address = ''localhost'' then Inr (''127.0.0.1'', True)
         else if double_dot (c_str address) then Inr ([], False)
         else
           (let octets = split_words address in
            if length octets \<noteq> 4 then Inr ([], False)
            else rbind (octets_loop octets None)
              (\<lambda>ok. Inr (if ok then (address, True) else ([], False))))))"

definition pars_port :: "string list \<Rightarrow> (int \<times> bool) res" where
  "pars_port words =
     (if length words \<noteq> 2 then Inr (-1, False)
      else if \<not> all_digits (c_str (words ! 1)) then Inr (-1, False)
      else (case fst (read_int32 (words ! 1)) of
          None \<Rightarrow> Inl Undefined
        | Some n \<Rightarrow> Inr (if n < 1 \<or> n > 65535 then (-1, False) else (n, True))))"

definition pars_server_names :: "string list \<Rightarrow> string \<times> bool" where
  "pars_server_names words =
     (if length words \<noteq> 2 then ([], False)
      else if has_brace (words ! 1) then ([], False) else (words ! 1, True))"

definition pars_index :: "string list \<Rightarrow> string list \<times> bool" where
  "pars_index words =
     (if length words = 1 then ([], False)
      else if \<exists>w \<in> set words. has_brace w then ([], False) else (tl words, True))"

text \<open>\<open>size_t\<close> arithmetic: the multiplication by the unit wraps.\<close>

definition size_mul :: "nat \<Rightarrow> nat \<Rightarrow> nat" where
  "size_mul a b = (a * b) mod 2 ^ 64"

definition with_unit :: "string \<Rightarrow> nat \<Rightarrow> nat" where
  "with_unit digits u =
     size_mul (case fst (read_uint64 (digits @ [NUL])) of None \<Rightarrow> 0 | Some n \<Rightarrow> n) u"

definition pars_cbs :: "string list \<Rightarrow> nat \<times> bool" where
  "pars_cbs words =
     (if length words \<noteq> 2 then (0, False)
      else
        (let word = words ! 1; digits = butlast word; c = last word in
         if \<not> all_digits digits then (0, False)
         else if is_digit c then
           ((case fst (read_uint64 word) of None \<Rightarrow> 0 | Some n \<Rightarrow> n), True)
         else if c = CHR ''G'' \<or> c = CHR ''g'' then (with_unit digits (1024 * 1024 * 1024), True)
         else if c = CHR ''M'' \<or> c = CHR ''m'' then (with_unit digits (1024 * 1024), True)
         else if c = CHR ''K'' \<or> c = CHR ''k'' then (with_unit digits 1024, True)
         else (0, False)))"

definition error_codes :: "int list" where
  "error_codes = [500, 504, 415, 201, 505, 413, 502, 200, 400, 405, 403, 401, 404]"

fun error_pages_loop :: "string list \<Rightarrow> string \<Rightarrow> (int, string) std_map \<Rightarrow>
    ((int, string) std_map \<times> bool) res" where
  "error_pages_loop [] page pages = Inr (pages, True)"
| "error_pages_loop (word # ws) page pages =
     (if \<not> all_digits word then Inr (pages, False)
      else (case fst (read_int32 word) of
          None \<Rightarrow> Inl Undefined
        | Some code \<Rightarrow>
            if code \<notin> set error_codes then Inr (pages, False)
            else error_pages_loop ws page (map_put code page pages)))"

definition pars_error_pages :: "'w os \<Rightarrow> 'w \<Rightarrow> string list \<Rightarrow> ((int, string) std_map \<times> bool) res" where
  "pars_error_pages os w words =
     (if length words < 3 then Inr ([], False)
      else
        (let page = last words in
         if has_brace page then Inr ([], False)
         else if \<not> check_path os w page then Inr ([], False)
         else if check_type os w page \<noteq> 1 then Inr ([], False)
         else if \<not> os_access_r os (c_str page) w then Inr ([], False)
         else error_pages_loop (butlast (tl words)) page []))"

section \<open>Location blocks\<close>

fun isinvec :: "string list \<Rightarrow> string \<Rightarrow> bool" where
  "isinvec [] method = False"
| "isinvec (m # ms) method = (if m = method then True else isinvec ms method)"

fun methods_loop :: "string list \<Rightarrow> string list \<Rightarrow> string list \<times> bool" where
  "methods_loop [] methods = (methods, True)"
| "methods_loop (w # ws) methods =
     (if isinvec methods w then methods_loop ws methods
      else if has_brace w then (methods, False)
      else if w \<noteq> ''GET'' \<and> w \<noteq> ''POST'' \<and> w \<noteq> ''DELETE'' then (methods, False)
      else methods_loop ws (methods @ [w]))"

definition pars_methods :: "string list \<Rightarrow> string list \<times> bool" where
  "pars_methods words = (if length words = 1 then ([], False) else methods_loop (tl words) [])"

definition pars_autoindex :: "string list \<Rightarrow> bool \<times> bool" where
  "pars_autoindex words =
     (if length words \<noteq> 2 then (False, False)
      else if words ! 1 = ''on'' then (True, True)
      else if words ! 1 = ''off'' then (False, True)
      else (False, False))"

fun cgi_ext_loop :: "string list \<Rightarrow> string list \<Rightarrow> string list \<times> bool" where
  "cgi_ext_loop [] extension = (extension, True)"
| "cgi_ext_loop (w # ws) extension =
     (if c_at w 0 \<noteq> CHR ''.'' then (extension, False)
      else if has_brace w then (extension, False)
      else cgi_ext_loop ws (extension @ [w]))"

definition pars_cgi_ext :: "string list \<Rightarrow> string list \<times> bool" where
  "pars_cgi_ext words = (if length words = 1 then ([], False) else cgi_ext_loop (tl words) [])"

definition pars_temp_path :: "'w os \<Rightarrow> 'w \<Rightarrow> string list \<Rightarrow> string \<times> bool" where
  "pars_temp_path os w words =
     (if length words \<noteq> 2 then ([], False)
      else if has_brace (words ! 1) then ([], False)
      else if \<not> check_path os w (words ! 1) then ([], False)
      else if check_type os w (words ! 1) \<noteq> 0 then ([], False)
      else (words ! 1, True))"

definition redirection_codes :: "int list" where
  "redirection_codes = [301, 302, 303, 307, 308]"

definition get_redirection :: "string list \<Rightarrow> ((int, string) std_map \<times> bool) res" where
  "get_redirection words =
     (if length words \<noteq> 3 then Inr ([], False)
      else if has_brace (words ! 2) then Inr ([], False)
      else if \<not> all_digits (words ! 1) then Inr ([], False)
      else (case fst (read_int32 (words ! 1)) of
          None \<Rightarrow> Inl Undefined
        | Some code \<Rightarrow>
            if code \<notin> set redirection_codes then Inr ([], False)
            else Inr (map_put code (words ! 2) [], True)))"

text \<open>
  The part that is left when some words have been used: \<open>joined\<close> puts a blank before every
  word, \<open>closing\<close> takes a brace from the front and puts a blank behind every word.
\<close>

definition joined :: "string list \<Rightarrow> string" where
  "joined ws = concat (map (\<lambda>w. SP # w) ws)"

definition closing :: "string list \<Rightarrow> string" where
  "closing words =
     (let w0 = (if length (hd words) > 1 then tl (hd words) else [SP])
      in concat (map (\<lambda>w. w @ [SP]) (w0 # tl words)))"

datatype 'a header = End_of_block | Bad_header | Header 'a

text \<open>\<open>check_first_line\<close> on the part at hand: the URI and what is left of the part.\<close>

definition check_first_line :: "string \<Rightarrow> (string \<times> string) header res" where
  "check_first_line line =
     (let words = get_words line in
      if words = [] then Inl Undefined
      else if words ! 0 \<noteq> ''location'' \<and> words ! 0 \<noteq> ''location{'' then Inr End_of_block
      else if length words < 4 then Inr Bad_header
      else
        (let glued = (last (words ! 1) = CHR ''{'');
             URI = (if glued then butlast (words ! 1) else words ! 1);
             s = (if glued then 2 else 3)
         in if \<not> glued \<and> words ! 2 \<noteq> ''{'' then Inr Bad_header
            else if has_brace URI then Inr Bad_header
            else if c_at URI 0 \<noteq> CHR ''/'' then Inr Bad_header
            else Inr (Header (URI, joined (drop s words)))))"

definition is_closing :: "string list \<Rightarrow> bool" where
  "is_closing words \<longleftrightarrow> words ! 0 = ''}'' \<or> c_at (words ! 0) 0 = CHR ''}''"

text \<open>One directive of a location; \<open>None\<close> for a word that names none.\<close>

definition route_directive :: "'w os \<Rightarrow> 'w \<Rightarrow> string list \<Rightarrow> RouteBlock \<Rightarrow> (RouteBlock \<times> bool) option res" where
  "route_directive os w words r =
     (let d = words ! 0 in
      if d = ''allowed_methods'' then
        (let (v, ok) = pars_methods words in Inr (Some (r\<lparr>rb_methods := v\<rparr>, ok)))
      else if d = ''autoindex'' then
        (let (v, ok) = pars_autoindex words in Inr (Some (r\<lparr>rb_autoindex := v\<rparr>, ok)))
      else if d = ''index'' then
        (let (v, ok) = pars_index words in Inr (Some (r\<lparr>rb_index := v\<rparr>, ok)))
      else if d = ''cgi_extension'' then
        (let (v, ok) = pars_cgi_ext words in Inr (Some (r\<lparr>rb_cgi_extension := v\<rparr>, ok)))
      else if d = ''client_body_temp_path'' then
        (let (v, ok) = pars_temp_path os w words in Inr (Some (r\<lparr>rb_client_body_temp_path := v\<rparr>, ok)))
      else if d = ''root'' then
        (let (v, ok) = get_root os w words in Inr (Some (r\<lparr>rb_root := v\<rparr>, ok)))
      else if d = ''return'' then
        rbind (get_redirection words) (\<lambda>(v, ok). Inr (Some (set_redirections v r, ok)))
      else Inr None)"

text \<open>
  The next part is split into words before \<open>status\<close> is tested, also when there is no next
  part.
\<close>

fun fill_route :: "'w os \<Rightarrow> 'w \<Rightarrow> RouteBlock \<Rightarrow> bool \<Rightarrow> string list \<Rightarrow>
    (bool \<times> RouteBlock \<times> string list) res" where
  "fill_route os w r status [] = Inl Undefined"
| "fill_route os w r status (l # ls) =
     (let words = get_words l in
      if \<not> status then Inr (False, r, l # ls)
      else if words = [] then Inl Undefined
      else if is_closing words then
        (if words ! 0 = ''}'' \<and> length words = 1 then Inr (False, r, l # ls)
         else Inr (True, r, closing words # ls))
      else rbind (route_directive os w words r) (\<lambda>x. case x of
          None \<Rightarrow> Inr (False, r, l # ls)
        | Some (r', ok) \<Rightarrow> fill_route os w r' ok ls))"

text \<open>\<open>check_route_status\<close>, which only prints besides.\<close>

definition check_route_status :: "RouteBlock \<Rightarrow> bool \<Rightarrow> bool" where
  "check_route_status r status \<longleftrightarrow> status \<and> rb_index r \<noteq> [] \<and> rb_cgi_extension r \<noteq> []"

text \<open>What is left to parse, for termination: the characters that are no white space.\<close>

definition ink :: "string \<Rightarrow> nat" where
  "ink s = length (filter (\<lambda>c. \<not> is_space c) s)"

definition inks :: "string list \<Rightarrow> nat" where
  "inks ls = sum_list (map ink ls)"

lemma ink_simps [simp]: "ink [] = 0" "ink (a @ b) = ink a + ink b"
  by (simp_all add: ink_def)

lemma space_SP [simp]: "is_space SP"
  by (simp add: eval_simps)

lemma ink_space [simp]: "ink (SP # s) = ink s"
  by (simp add: ink_def)

lemma inks_Cons [simp]: "inks (l # ls) = ink l + inks ls"
  by (simp add: inks_def)

lemma ink_words: "ink s = inks (words_of s)"
proof (induction s rule: words_of.induct)
  case (1 s)
  let ?t = "dropWhile is_space s"
  have s: "ink s = ink ?t"
  proof -
    have "filter (\<lambda>c. \<not> is_space c) (takeWhile is_space s) = []"
      by (auto simp: filter_empty_conv dest: set_takeWhileD)
    then show ?thesis
      using takeWhile_dropWhile_id [of is_space s] unfolding ink_def by (metis append_Nil filter_append)
  qed
  show ?case
  proof (cases "?t = []")
    case True
    with s show ?thesis by (simp add: inks_def)
  next
    case False
    have "ink ?t = ink (takeWhile (\<lambda>c. \<not> is_space c) ?t) + ink (dropWhile (\<lambda>c. \<not> is_space c) ?t)"
      by (metis ink_simps(2) takeWhile_dropWhile_id)
    with s 1 [OF False] words_of_step [OF False] show ?thesis by simp
  qed
qed

lemma ink_joined: "ink (joined ws) = inks ws"
  by (induction ws) (simp_all add: joined_def inks_def)

lemma ink_spaced: "ink (concat (map (\<lambda>w. w @ [SP]) ws)) = inks ws"
  by (induction ws) (simp_all add: inks_def)

lemma inks_drop: "inks (drop n ws) \<le> inks ws"
proof -
  have "inks (take n ws) + inks (drop n ws) = inks ws"
    unfolding inks_def by (metis append_take_drop_id map_append sum_list_append)
  then show ?thesis by simp
qed

lemma ink_closing: "words \<noteq> [] \<Longrightarrow> ink (closing words) \<le> inks words"
proof -
  assume "words \<noteq> []"
  then obtain w ws where w: "words = w # ws" by (cases words) auto
  have "ink (tl w) \<le> ink w" by (cases w) (simp_all add: ink_def)
  moreover have "ink [SP] = 0" by simp
  ultimately show ?thesis unfolding closing_def w Let_def by (simp add: ink_spaced inks_def [symmetric])
qed

lemma check_first_line_shorter:
  assumes "check_first_line line = Inr (Header (uri, rest))"
  shows "ink rest < ink line"
proof -
  define ws where "ws = words_of line"
  from assms have l: "length ws \<ge> 4" and r: "\<exists>n \<ge> 2. rest = joined (drop n ws)"
    unfolding check_first_line_def Let_def ws_def [symmetric]
    by (auto split: if_splits intro: exI [of _ 2] exI [of _ 3])
  from r obtain n where n: "n \<ge> 2" "rest = joined (drop n ws)" by blast
  from l obtain w ws' where w: "ws = w # ws'" by (cases ws) auto
  from w have "w \<in> set (words_of line)" by (simp add: ws_def [symmetric])
  from words_of_ok [OF this] have "ink w = length w" "w \<noteq> []"
    by (auto simp: ink_def filter_id_conv)
  then have "inks ws' < inks ws" by (simp add: w)
  moreover have "inks (drop n ws) \<le> inks ws'"
    using n(1) inks_drop [of "n - 1" ws'] by (simp add: w drop_Cons')
  ultimately show ?thesis using n(2) by (simp add: ink_joined ink_words [of line] ws_def)
qed

lemma fill_route_shorter:
  "fill_route os w r st lines = Inr (b, r', lines') \<Longrightarrow> inks lines' \<le> inks lines"
proof (induction os w r st lines rule: fill_route.induct)
  case (2 os w r status l ls)
  show ?case
  proof (cases "status \<and> words_of l \<noteq> [] \<and> \<not> is_closing (words_of l)")
    case False
    then show ?thesis
      using 2(2) ink_closing [of "words_of l"] by (auto simp: Let_def ink_words [of l] split: if_splits)
  next
    case True
    then obtain x where x: "route_directive os w (words_of l) r = Inr x"
      using 2(2) by (cases "route_directive os w (words_of l) r") (auto simp: Let_def)
    show ?thesis
    proof (cases x)
      case None
      with True 2(2) x show ?thesis by (simp add: Let_def)
    next
      case (Some p)
      obtain r1 ok where p: "p = (r1, ok)" by (cases p)
      with True 2(2) x Some have "fill_route os w r1 ok ls = Inr (b, r', lines')" by (simp add: Let_def)
      with 2(1) [OF refl] True x Some p have "inks lines' \<le> inks ls" by simp
      then show ?thesis by simp
    qed
  qed
qed simp

function pars_routes :: "'w os \<Rightarrow> 'w \<Rightarrow> string list \<Rightarrow> (bool \<times> RouteBlock list \<times> string list) res" where
  "pars_routes os w lines =
     (case lines of
        [] \<Rightarrow> Inr (True, [], [])
      | l # ls \<Rightarrow>
          rbind (check_first_line l) (\<lambda>head. case head of
              End_of_block \<Rightarrow> Inr (True, [], l # ls)
            | Bad_header \<Rightarrow> Inr (False, [], l # ls)
            | Header (uri, rest) \<Rightarrow>
                rbind (fill_route os w (new_RouteBlock\<lparr>rb_URI := uri\<rparr>) True (rest # ls))
                  (\<lambda>(ok, route, lines').
                    if \<not> ok then Inr (False, [], lines')
                    else rbind (pars_routes os w lines') (\<lambda>(st, routes, lines'').
                           Inr (st, route # routes, lines'')))))"
  by pat_completeness auto
termination
proof (relation "measure (\<lambda>(os, w, lines). inks lines)", goal_cases)
  case (2 os w lines l ls head x uri rest y ok z route lines')
  then show ?case
    using check_first_line_shorter fill_route_shorter by fastforce
qed simp

declare pars_routes.simps [simp del]

end
