(* ===== verification/Config_file.thy ===== *)
theory Config_file
  imports Config
begin

text \<open>
  The server block and the whole file: \<open>fill_rest\<close> and \<open>check_status\<close>
  (\<open>parsing/parsing.cpp\<close>), \<open>Confile\<close> (\<open>parsing/Confile.cpp\<close>), \<open>get_parts\<close> and \<open>main\<close>
  (\<open>main.cpp\<close>).
\<close>

section \<open>The server block\<close>

definition check_line :: "string \<Rightarrow> string option res" where
  "check_line line =
     (case split_brace line of
        [w0, w1] \<Rightarrow>
          rbind (trimstr w0) (\<lambda>first_word.
            Inr (if first_word \<noteq> ''server'' then None else Some (SP # w1)))
      | _ \<Rightarrow> Inr None)"

definition check_server_status :: "ServerBlock \<Rightarrow> bool \<times> ServerBlock" where
  "check_server_status s =
     (if sb_Host s = [] then (False, s)
      else if sb_Port s = [] then (False, s)
      else (True, case find (\<lambda>r. rb_URI r = ''/'') (sb_routes s) of
          None \<Rightarrow> s | Some r \<Rightarrow> update_server_info r s))"

text \<open>One directive of a server but \<open>location\<close>; \<open>None\<close> for a word that names none.\<close>

definition server_directive :: "'w os \<Rightarrow> 'w \<Rightarrow> string list \<Rightarrow> ServerBlock \<Rightarrow>
    (ServerBlock \<times> bool) option res" where
  "server_directive os w words s =
     (let d = words ! 0 in
      if d = ''host'' then
        rbind (pars_host words) (\<lambda>(v, ok). Inr (Some (s\<lparr>sb_Host := v\<rparr>, ok)))
      else if d = ''listen'' then
        rbind (pars_port words) (\<lambda>(v, ok). Inr (Some (set_port v s, ok)))
      else if d = ''server_name'' then
        (let (v, ok) = pars_server_names words in Inr (Some (s\<lparr>sb_Server_names := v\<rparr>, ok)))
      else if d = ''index'' then
        (let (v, ok) = pars_index words in Inr (Some (set_index v s, ok)))
      else if d = ''client_max_body_size'' then
        (let (v, ok) = pars_cbs words in Inr (Some (s\<lparr>sb_client_body_size := v\<rparr>, ok)))
      else if d = ''error_page'' then
        rbind (pars_error_pages os w words) (\<lambda>(v, ok). Inr (Some (set_error_pages v s, ok)))
      else if d = ''root'' then
        (let (v, ok) = get_root os w words in Inr (Some (s\<lparr>sb_server_root := v\<rparr>, ok)))
      else Inr None)"

text \<open>\<open>pars_routes\<close> uses at least the words \<open>location\<close> it starts with, so \<open>fill_rest\<close> ends.\<close>

lemma pars_routes_le: "pars_routes os w lines = Inr (st, routes, lines') \<Longrightarrow> inks lines' \<le> inks lines"
proof (induction "inks lines" arbitrary: lines routes rule: less_induct)
  case less
  show ?case
  proof (cases lines)
    case Nil
    with less(2) show ?thesis by (subst (asm) pars_routes.simps) simp
  next
    case (Cons l ls)
    obtain head where h: "check_first_line l = Inr head"
      using less(2) Cons by (subst (asm) pars_routes.simps) (cases "check_first_line l"; simp)
    show ?thesis
    proof (cases head)
      case (Header p)
      obtain uri rest where p: "p = (uri, rest)" by (cases p)
      let ?r = "new_RouteBlock\<lparr>rb_URI := uri\<rparr>"
      obtain ok route l2 where f: "fill_route os w ?r True (rest # ls) = Inr (ok, route, l2)"
        using less(2) Cons h Header p
        by (subst (asm) pars_routes.simps) (cases "fill_route os w ?r True (rest # ls)"; force)
      have l2: "inks l2 < inks lines"
        using check_first_line_shorter [of l uri rest] fill_route_shorter [OF f] h Header p Cons by simp
      show ?thesis
      proof (cases ok)
        case False
        with less(2) Cons h Header p f l2 show ?thesis by (subst (asm) pars_routes.simps) simp
      next
        case True
        with less(2) Cons h Header p f obtain rs where "pars_routes os w l2 = Inr (st, rs, lines')"
          by (subst (asm) pars_routes.simps) (auto simp: rbind_Inr)
        from less(1) [OF l2 this] l2 show ?thesis by simp
      qed
    qed (use less(2) Cons h in \<open>subst (asm) pars_routes.simps, simp\<close>)+
  qed
qed

lemma pars_routes_less:
  assumes "pars_routes os w (l # ls) = Inr (True, routes, lines')" and "words_of l ! 0 = ''location''"
  shows "inks lines' < inks (l # ls)"
proof -
  obtain head where h: "check_first_line l = Inr head"
    using assms(1) by (subst (asm) pars_routes.simps) (cases "check_first_line l"; simp)
  have "head \<noteq> End_of_block" using h assms(2) by (auto simp: check_first_line_def Let_def split: if_splits)
  moreover have "head \<noteq> Bad_header" using assms(1) h by (subst (asm) pars_routes.simps) auto
  ultimately obtain uri rest where p: "head = Header (uri, rest)" by (cases head) auto
  let ?r = "new_RouteBlock\<lparr>rb_URI := uri\<rparr>"
  obtain ok route l2 where f: "fill_route os w ?r True (rest # ls) = Inr (ok, route, l2)"
    using assms(1) h p
    by (subst (asm) pars_routes.simps) (cases "fill_route os w ?r True (rest # ls)"; force)
  have l2: "inks l2 < inks (l # ls)"
    using check_first_line_shorter [of l uri rest] fill_route_shorter [OF f] h p by simp
  have ok using assms(1) h p f by (subst (asm) pars_routes.simps) (auto split: if_splits)
  with assms(1) h p f obtain rs where "pars_routes os w l2 = Inr (True, rs, lines')"
    by (subst (asm) pars_routes.simps) (auto simp: rbind_Inr)
  from pars_routes_le [OF this] l2 show ?thesis by simp
qed

lemma ink_words_pos: "words_of l \<noteq> [] \<Longrightarrow> 0 < ink l"
proof -
  assume "words_of l \<noteq> []"
  then obtain w ws where w: "words_of l = w # ws" by (cases "words_of l") auto
  with words_of_ok [of w l] have "0 < ink w" by (auto simp: ink_def filter_id_conv)
  then show ?thesis by (simp add: ink_words [of l] w)
qed

function fill_rest :: "'w os \<Rightarrow> 'w \<Rightarrow> ServerBlock \<Rightarrow> bool \<Rightarrow> string list \<Rightarrow>
    (bool \<times> ServerBlock \<times> string list) res" where
  "fill_rest os w s status lines =
     (case lines of
        [] \<Rightarrow> Inl Undefined
      | l # ls \<Rightarrow>
          if \<not> status then Inr (False, s, l # ls)
          else if get_words l = [] then Inl Undefined
          else if is_closing (get_words l) then
            (if get_words l ! 0 = ''}'' \<and> length (get_words l) = 1 then Inr (ls = [], s, [SP] # ls)
             else Inr (True, s, closing (get_words l) # ls))
          else if get_words l ! 0 = ''location'' then
            rbind (pars_routes os w (l # ls)) (\<lambda>(ok, routes, lines').
              fill_rest os w (set_routes routes s) ok lines')
          else rbind (server_directive os w (get_words l) s) (\<lambda>x. case x of
              None \<Rightarrow> Inr (False, s, l # ls)
            | Some (s', ok) \<Rightarrow> fill_rest os w s' ok ls))"
  by pat_completeness auto
termination
proof (relation "measure (\<lambda>(os, w, s, status, lines). 2 * inks lines + (if status then 1 else 0))",
    goal_cases)
  case (2 os w s status lines l ls x ok y routes lines')
  then show ?case
    using pars_routes_le [of os w "l # ls" ok routes lines'] pars_routes_less [of os w l ls routes lines']
    by (cases ok) auto
next
  case (3 os w s status lines l ls x p s' ok)
  then show ?case using ink_words_pos [of l] by (auto split: if_splits)
qed simp

declare fill_rest.simps [simp del]

text \<open>\<open>Confile::pars_server\<close>: the flag, the server and the parts that are left.\<close>

definition pars_server :: "'w os \<Rightarrow> 'w \<Rightarrow> string list \<Rightarrow> (bool \<times> ServerBlock \<times> string list) res" where
  "pars_server os w lines =
     (case lines of
        [] \<Rightarrow> Inl Undefined
      | l # ls \<Rightarrow>
          rbind (check_line l) (\<lambda>x. case x of
              None \<Rightarrow> Inr (False, new_ServerBlock, l # ls)
            | Some rest \<Rightarrow>
                rbind (fill_rest os w new_ServerBlock True (rest # ls)) (\<lambda>(ok, s, lines').
                  if \<not> ok then Inr (False, s, lines')
                  else (let (ok', s') = check_server_status s in Inr (ok', s', lines')))))"

section \<open>The file\<close>

lemma fill_rest_le: "fill_rest os w s status lines = Inr (b, s', lines') \<Longrightarrow> inks lines' \<le> inks lines"
proof (induction os w s status lines rule: fill_rest.induct)
  case (1 os w s status lines)
  show ?case
  proof (cases lines)
    case Nil
    with 1(3) show ?thesis by (subst (asm) fill_rest.simps) simp
  next
    case (Cons l ls)
    have sp: "inks ([SP] # ls) \<le> inks (l # ls)" by simp
    show ?thesis
    proof (cases "status \<and> words_of l \<noteq> [] \<and> \<not> is_closing (words_of l)")
      case False
      then show ?thesis
        using 1(3) Cons ink_closing [of "words_of l"] sp
        by (subst (asm) fill_rest.simps) (auto simp: ink_words [of l] split: if_splits)
    next
      case go: True
      show ?thesis
      proof (cases "words_of l ! 0 = ''location''")
        case True
        with 1(3) Cons go obtain ok routes l2 where p: "pars_routes os w (l # ls) = Inr (ok, routes, l2)"
          and f: "fill_rest os w (set_routes routes s) ok l2 = Inr (b, s', lines')"
          by (subst (asm) fill_rest.simps) (auto simp: rbind_Inr)
        from 1(1) [OF Cons _ _ _ True p refl refl f] go pars_routes_le [OF p] Cons
        show ?thesis by auto
      next
        case False
        with 1(3) Cons go obtain x where d: "server_directive os w (words_of l) s = Inr x"
          by (subst (asm) fill_rest.simps) (auto simp: rbind_Inr)
        show ?thesis
        proof (cases x)
          case None
          with 1(3) Cons go False d show ?thesis by (subst (asm) fill_rest.simps) simp
        next
          case (Some q)
          obtain s1 ok where q: "q = (s1, ok)" by (cases q)
          with 1(3) Cons go False d Some have f: "fill_rest os w s1 ok ls = Inr (b, s', lines')"
            by (subst (asm) fill_rest.simps) simp
          from 1(2) [OF Cons _ _ _ False d Some q [symmetric] f] go Cons show ?thesis by auto
        qed
      qed
    qed
  qed
qed

lemma check_line_shorter:
  assumes "check_line l = Inr (Some rest)"
  shows "ink rest < ink l"
proof -
  from assms obtain i where i: "str_find ''{'' l = Some i" and r: "rest = SP # drop (i + 1) l"
    and t: "trimstr (take i l) = Inr ''server''"
    by (auto simp: check_line_def split_brace_def rbind_Inr split: option.splits if_splits)
  have "\<exists>c \<in> set (take i l). \<not> is_space c"
  proof -
    from t have "rev (dropWhile (\<lambda>c. c = SP) (rev (dropWhile (\<lambda>c. c = SP) (take i l)))) = ''server''"
      by (auto simp: trimstr_def Let_def split: if_splits)
    then have "set ''server'' \<subseteq> set (take i l)"
      by (metis set_dropWhileD set_rev subsetI)
    then have "CHR ''s'' \<in> set (take i l)" by simp
    moreover have "\<not> is_space (CHR ''s'')" by (simp add: eval_simps)
    ultimately show ?thesis by blast
  qed
  then have "0 < ink (take i l)" by (auto simp: ink_def filter_empty_conv)
  moreover have "ink l = ink (take i l) + ink (drop i l)" by (metis append_take_drop_id ink_simps(2))
  moreover have "ink (drop (i + 1) l) \<le> ink (drop i l)"
    by (cases "drop i l") (auto simp: drop_Suc ink_def tl_drop [symmetric])
  ultimately show ?thesis using r by simp
qed

lemma pars_server_less:
  assumes "pars_server os w lines = Inr (True, s, lines')"
  shows "inks lines' < inks lines"
proof (cases lines)
  case Nil
  with assms show ?thesis by (simp add: pars_server_def)
next
  case (Cons l ls)
  with assms obtain rest where c: "check_line l = Inr (Some rest)"
    by (auto simp: pars_server_def rbind_Inr split: option.splits)
  with assms Cons obtain s1 ok l2 where f: "fill_rest os w new_ServerBlock True (rest # ls) = Inr (ok, s1, l2)"
    by (auto simp: pars_server_def rbind_Inr)
  with assms Cons c have "lines' = l2" by (auto simp: pars_server_def split: if_splits prod.splits)
  with fill_rest_le [OF f] check_line_shorter [OF c] Cons show ?thesis by simp
qed

text \<open>The loop of \<open>Confile::set_server\<close>: the flag and the servers.\<close>

function servers_loop :: "'w os \<Rightarrow> 'w \<Rightarrow> string list \<Rightarrow> ServerBlock list \<Rightarrow> (bool \<times> ServerBlock list) res" where
  "servers_loop os w parts servers =
     (if parts = [] then Inr (True, servers)
      else if get_words (hd parts) = [] then Inr (True, servers)
      else rbind (pars_server os w parts) (\<lambda>(status, s, parts').
        if status then servers_loop os w parts' (servers @ [s]) else Inr (False, servers)))"
  by pat_completeness auto
termination
  by (relation "measure (\<lambda>(os, w, parts, servers). inks parts)") (auto dest: pars_server_less)

declare servers_loop.simps [simp del]

definition default_page :: string where
  "default_page = ''<!DOCTYPE html>'' @ [LF] @ ''<html lang=\"en\">'' @ [LF] @ ''<head>'' @ [LF] @
     ''    <meta charset=\"UTF-8\">'' @ [LF] @
     ''    <meta name=\"viewport\" content=\"width=device-width, initial-scale=1.0\">'' @ [LF] @
     ''    <title>Document</title>'' @ [LF] @ ''</head>'' @ [LF] @ ''<body>'' @ [LF] @
     ''    <center><h1>Welcome to webserv 0.1</h1></center>'' @ [LF] @ ''</body>'' @ [LF] @
     ''</html>'' @ [LF]"

text \<open>True is the return value 0.\<close>

definition set_default_page :: "'w os \<Rightarrow> 'w \<Rightarrow> bool \<times> 'w" where
  "set_default_page os w =
     (if \<not> os_access_f os ''html'' w then (False, w)
      else (case os_create os ''html/index.html'' w of
          None \<Rightarrow> (False, w)
        | Some w1 \<Rightarrow> (case os_append os ''html/index.html'' default_page w1 of
              None \<Rightarrow> (True, w1) | Some w2 \<Rightarrow> (True, w2))))"

definition set_server :: "'w os \<Rightarrow> string list \<Rightarrow> 'w \<Rightarrow> (bool \<times> ServerBlock list \<times> 'w) res" where
  "set_server os parts w =
     (let (ok, w1) = set_default_page os w in
      if \<not> ok then Inr (False, [], w1)
      else rbind (servers_loop os w1 parts []) (\<lambda>(status, servers). Inr (status, servers, w1)))"

fun check_dup_serv :: "ServerBlock list \<Rightarrow> ServerBlock \<Rightarrow> bool" where
  "check_dup_serv [] s = False"
| "check_dup_serv (v # vs) s =
     (if sb_Host v = sb_Host s \<and> sb_Port v = sb_Port s then True else check_dup_serv vs s)"

section \<open>main\<close>

definition full_line :: "string \<Rightarrow> bool" where
  "full_line l \<longleftrightarrow> l \<noteq> [] \<and> check_empt l"

fun last_full_line :: "string list \<Rightarrow> nat \<Rightarrow> nat \<Rightarrow> nat" where
  "last_full_line [] i found = found"
| "last_full_line (l # ls) i found = last_full_line ls (i + 1) (if full_line l then i else found)"

definition strip_comments :: "string list \<Rightarrow> string list" where
  "strip_comments ls = map (\<lambda>l. if full_line l then takeWhile (\<lambda>c. c \<noteq> CHR ''#'') l else l) ls"

text \<open>\<open>None\<close> is the return value 1.\<close>

definition get_parts :: "'w os \<Rightarrow> string \<Rightarrow> 'w \<Rightarrow> string list option res" where
  "get_parts os path w =
     (case os_read os path w of
        None \<Rightarrow> Inr None
      | Some bytes \<Rightarrow>
          (let ls = getlines LF bytes; n = last_full_line ls 0 0; lines = strip_comments ls in
           if ls = [] then Inr None
           else if n = 0 then Inr None
           else rbind (trimstr (lines ! n)) (\<lambda>newlastline.
             if str_contains '';'' newlastline then Inr None
             else
               (let parts = getlines CHR '';'' (concat lines) in
                if \<exists>p \<in> set parts. p = [] \<or> \<not> check_empt p then Inr None else Inr (Some parts)))))"

fun add_configs :: "nat \<Rightarrow> ServerBlock list \<Rightarrow> 'w server \<Rightarrow> 'w server" where
  "add_configs i [] s = s"
| "add_configs i (b # bs) s =
     add_configs (i + 1) bs (addServerConfig (int i) (sb_Host b) (sb_Port b) (sb_Server_names b) s)"

text \<open>\<open>main\<close> up to \<open>startServer\<close>: the argument is the configuration file, if one is given.\<close>

definition main_server :: "'w os \<Rightarrow> string option \<Rightarrow> 'w \<Rightarrow> 'w server option res" where
  "main_server os arg w =
     (case arg of
        Some path \<Rightarrow>
          rbind (get_parts os path w) (\<lambda>x. case x of
              None \<Rightarrow> Inr None
            | Some parts \<Rightarrow>
                rbind (set_server os parts w) (\<lambda>(status, servers, w1).
                  if \<not> status then Inr None
                  else Inr (Some (add_configs 0 servers ((new_Server w1)\<lparr>sv_blocks := servers\<rparr>)))))
      | None \<Rightarrow>
          (let servers = [set_dafault_data new_ServerBlock]; (ok, w1) = set_default_page os w in
           if \<not> ok then Inr None
           else Inr (Some (add_configs 0 servers ((new_Server w1)\<lparr>sv_blocks := servers\<rparr>)))))"

end
