(* ===== verification/Config_safety.thy ===== *)
theory Config_safety
  imports Config_file Server_safety
begin

text \<open>
  What a configuration that is accepted guarantees (\<open>parsing/\<close>, \<open>main.cpp\<close>), and which hosts
  and sizes the directives accept.
\<close>

section \<open>Well-formed blocks\<close>

definition keys :: "('k, 'v) std_map \<Rightarrow> 'k set" where
  "keys m = fst ` set m"

lemma keys_Nil [simp]: "keys [] = {}"
  by (simp add: keys_def)

lemma keys_Cons [simp]: "keys ((k, v) # m) = insert k (keys m)"
  by (simp add: keys_def)

lemma keys_map_put [simp]: "keys (map_put k v m) = insert k (keys m)"
  by (simp add: keys_def keys_put)

definition route_ok :: "RouteBlock \<Rightarrow> bool" where
  "route_ok r \<longleftrightarrow> c_at (rb_URI r) 0 = CHR ''/'' \<and>
     set (rb_methods r) \<subseteq> {''GET'', ''POST'', ''DELETE''} \<and>
     keys (rb_redirections r) \<subseteq> set redirection_codes \<and>
     (\<forall>e \<in> set (rb_cgi_extension r). c_at e 0 = CHR ''.'')"

definition server_ok :: "ServerBlock \<Rightarrow> bool" where
  "server_ok s \<longleftrightarrow> (\<forall>p \<in> set (sb_Port s). 1 \<le> p \<and> p \<le> 65535) \<and>
     keys (sb_error_pages s) \<subseteq> set error_codes \<and>
     (\<forall>r \<in> set (sb_routes s). route_ok r)"

text \<open>What the server may be started with.\<close>

definition usable :: "ServerBlock \<Rightarrow> bool" where
  "usable s \<longleftrightarrow> server_ok s \<and> sb_Host s \<noteq> [] \<and> sb_Port s \<noteq> []"

lemma isinvec_iff: "isinvec ms m \<longleftrightarrow> m \<in> set ms"
  by (induction ms) auto

lemma methods_loop_ok:
  "methods_loop ws ms = (v, True) \<Longrightarrow> set ms \<subseteq> {''GET'', ''POST'', ''DELETE''} \<Longrightarrow>
     set v \<subseteq> {''GET'', ''POST'', ''DELETE''}"
  by (induction ws ms rule: methods_loop.induct) (auto split: if_splits)

lemma cgi_ext_loop_ok:
  "cgi_ext_loop ws es = (v, True) \<Longrightarrow> \<forall>e \<in> set es. c_at e 0 = CHR ''.'' \<Longrightarrow>
     \<forall>e \<in> set v. c_at e 0 = CHR ''.''"
  by (induction ws es rule: cgi_ext_loop.induct) (auto split: if_splits)

lemma keys_ins_all: "keys (map_ins_all m n) \<subseteq> keys m \<union> keys n"
proof (induction m n rule: map_ins_all.induct)
  case (2 k v r m)
  have "keys (map_ins k v m) \<subseteq> insert k (keys m)"
    by (auto simp: map_ins_def)
  with 2 show ?case by (auto simp: keys_def)
qed (simp add: keys_def)

lemma get_redirection_ok:
  "get_redirection words = Inr (m, True) \<Longrightarrow> keys m \<subseteq> set redirection_codes"
  by (auto simp: get_redirection_def split: if_splits option.splits)

lemma route_directive_ok:
  assumes "route_directive os w words r = Inr (Some (r', True))" and "route_ok r"
  shows "route_ok r'"
proof -
  have m: "pars_methods words = (v, True) \<Longrightarrow> set v \<subseteq> {''GET'', ''POST'', ''DELETE''}" for v
    unfolding pars_methods_def by (auto split: if_splits dest: methods_loop_ok)
  have c: "pars_cgi_ext words = (v, True) \<Longrightarrow> \<forall>e \<in> set v. c_at e 0 = CHR ''.''" for v
    unfolding pars_cgi_ext_def by (auto split: if_splits dest: cgi_ext_loop_ok)
  have red: "get_redirection words = Inr (v, True) \<Longrightarrow>
      keys (rb_redirections (set_redirections v r)) \<subseteq> set redirection_codes" for v
    using get_redirection_ok [of words v] keys_ins_all [of v "rb_redirections r"] assms(2)
    by (auto simp: set_redirections_def route_ok_def)
  have "rpost (\<lambda>x. x = Some (r', True) \<longrightarrow> route_ok r') (route_directive os w words r)"
    unfolding route_directive_def Let_def
    by (simp only: split: if_split, intro conjI impI; use assms(2) m c red in
        \<open>auto simp: route_ok_def rpost_def rbind_Inr set_redirections_def split: prod.split\<close>)
  with assms(1) show ?thesis by (auto simp: rpost_def)
qed

lemma fill_route_ok:
  "fill_route os w r st lines = Inr (True, r', lines') \<Longrightarrow> route_ok r \<Longrightarrow> route_ok r'"
proof (induction os w r st lines rule: fill_route.induct)
  case (2 os w r status l ls)
  show ?case
  proof (cases "status \<and> words_of l \<noteq> [] \<and> \<not> is_closing (words_of l)")
    case False
    with 2 show ?thesis by (auto simp: Let_def split: if_splits)
  next
    case True
    then obtain r1 ok where d: "route_directive os w (words_of l) r = Inr (Some (r1, ok))"
      and f: "fill_route os w r1 ok ls = Inr (True, r', lines')"
      using 2(2) by (auto simp: Let_def rbind_Inr split: option.splits)
    have ok: "ok" using f by (cases ls) (auto simp: Let_def split: if_splits)
    with route_directive_ok [of os w "words_of l" r r1] d 2(3) have "route_ok r1" by simp
    with 2(1) [OF refl] True d f show ?thesis by simp
  qed
qed simp

lemma check_first_line_uri:
  "check_first_line l = Inr (Header (uri, rest)) \<Longrightarrow> c_at uri 0 = CHR ''/''"
  by (auto simp: check_first_line_def Let_def split: if_splits)

lemma pars_routes_ok:
  "pars_routes os w lines = Inr (True, routes, lines') \<Longrightarrow> \<forall>r \<in> set routes. route_ok r"
proof (induction "inks lines" arbitrary: lines routes rule: less_induct)
  case less
  show ?case
  proof (cases lines)
    case Nil
    with less(2) show ?thesis by (subst (asm) pars_routes.simps) simp
  next
    case (Cons l ls)
    obtain head where h: "check_first_line l = Inr head"
      using less(2) Cons by (subst (asm) pars_routes.simps) (cases "check_first_line l"; simp)
    show ?thesis
    proof (cases head)
      case (Header p)
      obtain uri rest where p: "p = (uri, rest)" by (cases p)
      let ?r = "new_RouteBlock\<lparr>rb_URI := uri\<rparr>"
      obtain route l2 rs where f: "fill_route os w ?r True (rest # ls) = Inr (True, route, l2)"
        and rs: "pars_routes os w l2 = Inr (True, rs, lines')" "routes = route # rs"
        using less(2) Cons h Header p
        by (subst (asm) pars_routes.simps) (auto simp: rbind_Inr split: if_splits)
      have "inks l2 < inks lines"
        using check_first_line_shorter [of l uri rest] fill_route_shorter [OF f] h Header p Cons by simp
      from less(1) [OF this rs(1)] have "\<forall>r \<in> set rs. route_ok r" .
      moreover have "route_ok ?r"
        using check_first_line_uri [of l uri rest] h Header p by (simp add: route_ok_def new_RouteBlock_def)
      ultimately show ?thesis using fill_route_ok [OF f] rs(2) by simp
    qed (use less(2) Cons h in \<open>subst (asm) pars_routes.simps, simp\<close>)+
  qed
qed

lemma error_pages_loop_ok:
  "error_pages_loop ws page pages = Inr (m, True) \<Longrightarrow> keys pages \<subseteq> set error_codes \<Longrightarrow>
     keys m \<subseteq> set error_codes"
  by (induction ws page pages rule: error_pages_loop.induct)
    (auto split: if_splits option.splits)

lemma pars_port_ok: "pars_port words = Inr (v, True) \<Longrightarrow> 1 \<le> v \<and> v \<le> 65535"
  by (auto simp: pars_port_def split: if_splits option.splits)

lemma server_directive_ok:
  assumes "server_directive os w words s = Inr (Some (s', True))" and "server_ok s"
  shows "server_ok s'"
proof -
  have pages: "pars_error_pages os w words = Inr (v, True) \<Longrightarrow>
      keys (sb_error_pages (set_error_pages v s)) \<subseteq> set error_codes" for v
  proof -
    assume p: "pars_error_pages os w words = Inr (v, True)"
    have "keys v \<subseteq> set error_codes"
    proof (cases "error_pages_loop (butlast (tl words)) (last words) [] = Inr (v, True)")
      case True
      from error_pages_loop_ok [OF True] show ?thesis by simp
    next
      case False
      with p show ?thesis by (simp add: pars_error_pages_def Let_def split: if_splits)
    qed
    with keys_ins_all [of v "sb_error_pages s"] assms(2) show ?thesis
      unfolding server_ok_def set_error_pages_def by simp blast
  qed
  have port: "pars_port words = Inr (v, True) \<Longrightarrow> server_ok (set_port v s)" for v
    using pars_port_ok [of words v] assms(2) by (auto simp: server_ok_def set_port_def)
  have "rpost (\<lambda>x. x = Some (s', True) \<longrightarrow> server_ok s') (server_directive os w words s)"
    unfolding server_directive_def Let_def
    by (simp only: split: if_split, intro conjI impI; use assms(2) pages port in
        \<open>auto simp: server_ok_def set_index_def set_error_pages_def rpost_def rbind_Inr split: prod.split\<close>)
  with assms(1) show ?thesis by (auto simp: rpost_def)
qed

lemma fill_rest_ok:
  "fill_rest os w s status lines = Inr (True, s', lines') \<Longrightarrow> server_ok s \<Longrightarrow> server_ok s'"
proof (induction "2 * inks lines + (if status then 1 else 0)" arbitrary: s status lines rule: less_induct)
  case less
  show ?case
  proof (cases lines)
    case Nil
    with less(2) show ?thesis by (subst (asm) fill_rest.simps) simp
  next
    case (Cons l ls)
    have st: status "words_of l \<noteq> []" using less(2) Cons
      by (subst (asm) fill_rest.simps, simp split: if_splits)+
    show ?thesis
    proof (cases "is_closing (words_of l)")
      case True
      with less(2,3) Cons st show ?thesis by (subst (asm) fill_rest.simps) (auto split: if_splits)
    next
      case open_block: False
      show ?thesis
      proof (cases "words_of l ! 0 = ''location''")
        case True
        with less(2) Cons st open_block obtain ok routes l2
          where p: "pars_routes os w (l # ls) = Inr (ok, routes, l2)"
            and f: "fill_rest os w (set_routes routes s) ok l2 = Inr (True, s', lines')"
          by (subst (asm) fill_rest.simps) (auto simp: rbind_Inr)
        have ok by (rule ccontr) (use f in \<open>subst (asm) fill_rest.simps, simp split: list.splits\<close>)
        with p have p: "pars_routes os w (l # ls) = Inr (True, routes, l2)" by simp
        have "server_ok (set_routes routes s)"
          using pars_routes_ok [OF p] less(3) by (auto simp: server_ok_def set_routes_def)
        with less(1) [OF _ f] pars_routes_less [OF p True] Cons st \<open>ok\<close> show ?thesis by simp
      next
        case False
        with less(2) Cons st open_block obtain s1 ok
          where d: "server_directive os w (words_of l) s = Inr (Some (s1, ok))"
            and f: "fill_rest os w s1 ok ls = Inr (True, s', lines')"
          by (subst (asm) fill_rest.simps) (auto simp: rbind_Inr split: option.splits)
        have ok by (rule ccontr) (use f in \<open>subst (asm) fill_rest.simps, simp split: list.splits\<close>)
        with server_directive_ok [of os w "words_of l" s s1] d less(3) have "server_ok s1" by simp
        with less(1) [OF _ f] ink_words_pos [OF st(2)] Cons st \<open>ok\<close> show ?thesis by simp
      qed
    qed
  qed
qed

lemma pars_server_usable:
  assumes "pars_server os w lines = Inr (True, s, lines')"
  shows "usable s"
proof (cases lines)
  case Nil
  with assms show ?thesis by (simp add: pars_server_def)
next
  case (Cons l ls)
  with assms obtain rest where c: "check_line l = Inr (Some rest)"
    by (auto simp: pars_server_def rbind_Inr split: option.splits)
  with assms Cons obtain s1 ok l2 where f: "fill_rest os w new_ServerBlock True (rest # ls) = Inr (ok, s1, l2)"
    by (auto simp: pars_server_def rbind_Inr)
  with assms Cons c have ok: ok and s: "check_server_status s1 = (True, s)"
    by (auto simp: pars_server_def split: if_splits prod.splits)
  have "server_ok new_ServerBlock" by (simp add: server_ok_def new_ServerBlock_def)
  with fill_rest_ok [of os w new_ServerBlock True "rest # ls" s1 l2] f ok have "server_ok s1" by simp
  with s show ?thesis
    by (auto simp: check_server_status_def usable_def server_ok_def update_server_info_def
        split: if_splits option.splits)
qed

lemma servers_loop_usable:
  "servers_loop os w parts servers = Inr (True, servers') \<Longrightarrow> \<forall>s \<in> set servers. usable s \<Longrightarrow>
     \<forall>s \<in> set servers'. usable s"
proof (induction os w parts servers rule: servers_loop.induct)
  case (1 os w parts servers)
  show ?case
  proof (cases "parts = [] \<or> words_of (hd parts) = []")
    case True
    with 1(2,3) show ?thesis by (subst (asm) servers_loop.simps) (auto split: if_splits)
  next
    case False
    with 1(2) obtain s parts' where p: "pars_server os w parts = Inr (True, s, parts')"
      and l: "servers_loop os w parts' (servers @ [s]) = Inr (True, servers')"
      by (subst (asm) servers_loop.simps) (auto simp: rbind_Inr split: if_splits)
    from 1(1) [OF _ _ p refl refl _ l] False pars_server_usable [OF p] 1(3) show ?thesis by simp
  qed
qed

section \<open>From the file to the configured server\<close>

text \<open>Every listening socket belongs to a block of the configuration and to one of its ports.\<close>

definition configs_ok :: "'w server \<Rightarrow> bool" where
  "configs_ok s \<longleftrightarrow> (\<forall>c \<in> set (sv_configs s). \<exists>i < length (sv_blocks s).
     sc_block c = int i \<and> sc_host c = sb_Host (sv_blocks s ! i) \<and>
     sc_port c \<in> set (sb_Port (sv_blocks s ! i)) \<and> 1 \<le> sc_port c \<and> sc_port c \<le> 65535)"

lemma add_configs_ok:
  assumes "configured s" and "configs_ok s" and "sv_blocks s = done_blocks @ bs" and "\<forall>b \<in> set bs. usable b"
  shows "configured (add_configs (length done_blocks) bs s) \<and>
      configs_ok (add_configs (length done_blocks) bs s) \<and>
      sv_blocks (add_configs (length done_blocks) bs s) = done_blocks @ bs"
  using assms
proof (induction bs arbitrary: s done_blocks)
  case (Cons b bs)
  let ?i = "length done_blocks"
  let ?s = "addServerConfig (int ?i) (sb_Host b) (sb_Port b) (sb_Server_names b) s"
  have b: "sv_blocks s ! ?i = b" "?i < length (sv_blocks s)" using Cons.prems(3) by simp_all
  have "configured ?s" using Cons.prems(1) by (auto simp: configured_def addServerConfig_def)
  moreover have "configs_ok ?s"
    using Cons.prems(2,4) b by (auto simp: configs_ok_def addServerConfig_def usable_def server_ok_def)
  moreover have "sv_blocks ?s = (done_blocks @ [b]) @ bs"
    using Cons.prems(3) by (simp add: addServerConfig_def)
  ultimately show ?case
    using Cons.IH [of ?s "done_blocks @ [b]"] Cons.prems(4) by simp
qed simp

text \<open>
  C11: when \<open>main\<close> goes on to start the server, no socket is open yet, every server block has a
  host, ports between 1 and 65535, only the three methods and the known redirection and
  error codes, and every socket to open belongs to a port of its block.
\<close>

theorem main_server_ok:
  assumes "main_server os arg w = Inr (Some s)"
  shows "configured s \<and> configs_ok s \<and> (\<forall>b \<in> set (sv_blocks s). usable b)"
proof -
  obtain servers w1 where s: "s = add_configs 0 servers ((new_Server w1)\<lparr>sv_blocks := servers\<rparr>)"
    and u: "\<forall>b \<in> set servers. usable b"
  proof (cases arg)
    case None
    have "usable (set_dafault_data new_ServerBlock)"
      by (simp add: usable_def server_ok_def set_dafault_data_def new_ServerBlock_def)
    moreover obtain ok w1 where "set_default_page os w = (ok, w1)" by (cases "set_default_page os w")
    ultimately show thesis
      using assms None that [of "[set_dafault_data new_ServerBlock]" w1]
      by (auto simp: main_server_def Let_def split: if_splits)
  next
    case (Some path)
    with assms obtain parts servers w1 where "set_server os parts w = Inr (True, servers, w1)"
      and "s = add_configs 0 servers ((new_Server w1)\<lparr>sv_blocks := servers\<rparr>)"
      by (auto simp: main_server_def rbind_Inr split: option.splits if_splits)
    moreover from this(1) servers_loop_usable [of os _ parts "[]" servers]
    have "\<forall>b \<in> set servers. usable b"
      by (auto simp: set_server_def rbind_Inr split: prod.splits if_splits)
    ultimately show thesis using that by blast
  qed
  let ?s0 = "(new_Server w1)\<lparr>sv_blocks := servers\<rparr>"
  have "configured ?s0" "configs_ok ?s0"
    by (simp_all add: configured_def configs_ok_def new_Server_def)
  from add_configs_ok [OF this, of "[]" servers] u s show ?thesis by (simp add: new_Server_def)
qed

definition config_text :: string where
  "config_text = ''server {'' @ [LF] @ ''  host 127.0.0.1;'' @ [LF] @ ''  listen 80;'' @ [LF] @
     ''  location /up {'' @ [LF] @ ''    allowed_methods GET;'' @ [LF] @ ''  }'' @ [LF] @ ''}'' @ [LF]"

definition config_fs :: fs where
  "config_fs = [(''html'', None), (''web.conf'', Some config_text)]"

definition configured_server :: "fs server" where
  "configured_server = (case main_server mem_os (Some ''web.conf'') config_fs of
     Inr (Some s) \<Rightarrow> s | _ \<Rightarrow> new_Server [])"

theorem main_server_ok_witness:
  "configured configured_server \<and> configs_ok configured_server \<and>
   list_all usable (sv_blocks configured_server)"
proof -
  have "main_server mem_os (Some ''web.conf'') config_fs = Inr (Some configured_server)" by code_simp
  from main_server_ok [OF this] show ?thesis by (simp add: list_all_iff)
qed

lemma last_full_line_skip:
  "\<forall>l \<in> set ys. \<not> full_line l \<Longrightarrow> last_full_line ys i found = found"
  by (induction ys arbitrary: i) auto

lemma last_full_line_at:
  "full_line l \<Longrightarrow> \<forall>y \<in> set ys. \<not> full_line y \<Longrightarrow>
     last_full_line (xs @ l # ys) i found = i + length xs"
  by (induction xs arbitrary: i found) (auto simp: last_full_line_skip)

text \<open>
  A configuration whose last line with text is a comment makes \<open>get_parts\<close> read out of
  range: the line is empty once the comment is cut off, and \<open>trimstr\<close> is called on it.
\<close>

theorem comment_at_end:
  assumes "os_read os path w = Some bytes" and "getlines LF bytes = xs @ (CHR ''#'' # comment) # ys"
    and "xs \<noteq> []" and "\<forall>y \<in> set ys. \<not> full_line y"
  shows "get_parts os path w = Inl Undefined"
proof -
  have f: "full_line (CHR ''#'' # comment)"
    by (simp add: full_line_def check_empt_def c_str_def)
  have n: "last_full_line (getlines LF bytes) 0 0 = length xs"
    using last_full_line_at [OF f assms(4), of xs 0 0] assms(2) by simp
  have l: "strip_comments (getlines LF bytes) ! length xs = []"
    using f by (simp add: assms(2) strip_comments_def nth_append)
  show ?thesis
    using assms(1,3) n l by (simp add: get_parts_def assms(2) [symmetric] Let_def trimstr_def)
      (simp add: assms(2))
qed

theorem comment_at_end_witness:
  "get_parts mem_os ''c'' [(''c'', Some (''server {'' @ [LF] @ ''#x''))] = Inl Undefined"
  by (rule comment_at_end [where xs = "[''server {'']" and comment = "''x''" and ys = "[]"]) code_simp+

section \<open>Hosts and sizes\<close>

text \<open>A numeral without a leading zero is the one its value is written as.\<close>

definition canonical :: "string \<Rightarrow> bool" where
  "canonical s \<longleftrightarrow> s \<noteq> [] \<and> all_digits s \<and> (hd s = CHR ''0'' \<longrightarrow> length s = 1)"

lemma digit_char_val: "is_digit c \<Longrightarrow> digit_char (digit_val c) = c"
  by (simp add: byte_inj [symmetric] digit_char_def digit_val_def is_digit_def byte_char_of)

lemma digit_val_less: "is_digit c \<Longrightarrow> digit_val c < 10"
  by (auto simp: digit_val_def is_digit_def)

lemma digit_char_zero: "digit_char 0 = CHR ''0''"
  using digit_char_val [of "CHR ''0''"] by (simp add: is_digit_def digit_val_def byte_def)

lemma show_nat_dec_val: "canonical s \<Longrightarrow> show_nat (dec_val s) = s"
proof (induction s rule: rev_induct)
  case Nil
  then show ?case by (simp add: canonical_def)
next
  case (snoc c ds)
  then have c: "is_digit c" by (simp add: canonical_def all_digits_def)
  note d = digit_val_less [OF c] digit_char_val [OF c]
  show ?case
  proof (cases "ds = []")
    case True
    with d show ?thesis by (simp add: show_nat.simps)
  next
    case False
    with snoc.prems have can: "canonical ds" and h: "hd ds \<noteq> CHR ''0''"
      by (auto simp: canonical_def all_digits_def)
    from snoc.IH [OF can] have s: "show_nat (dec_val ds) = ds" .
    have "dec_val ds \<noteq> 0"
    proof
      assume "dec_val ds = 0"
      with s have "ds = [digit_char 0]" by (simp add: show_nat.simps)
      with h show False by (simp add: digit_char_zero)
    qed
    with s d show ?thesis by (subst show_nat.simps) simp
  qed
qed

lemma canonical_show: "canonical (show_nat n)"
proof -
  have "hd (show_nat n) = CHR ''0'' \<Longrightarrow> n = 0"
  proof (induction n rule: show_nat.induct)
    case (1 n)
    show ?case
    proof (cases "n < 10")
      case True
      with 1(2) have "digit_char n = CHR ''0''" by (simp add: show_nat.simps)
      then have "digit_val (digit_char n) = 0" by (simp add: digit_val_def byte_def)
      with True show ?thesis by simp
    next
      case False
      with 1 show ?thesis by (subst (asm) (2) show_nat.simps) simp
    qed
  qed
  then show ?thesis
    by (auto simp: canonical_def all_digits_def show_nat_digits) (simp add: show_nat.simps)
qed

lemma canonical_iff: "canonical s \<longleftrightarrow> s = show_nat (dec_val s)"
  using show_nat_dec_val canonical_show by metis

lemma octets_loop_iff:
  "\<forall>x \<in> set xs. x \<noteq> [] \<and> no_nul x \<Longrightarrow>
     octets_loop xs numb = Inr True \<longleftrightarrow> (\<forall>x \<in> set xs. canonical x \<and> dec_val x \<le> 255)"
proof (induction xs arbitrary: numb)
  case (Cons x xs)
  then have x: "x \<noteq> []" "c_str x = x" by simp_all
  show ?case
  proof (cases "all_digits x \<and> (hd x = CHR ''0'' \<longrightarrow> length x = 1)")
    case False
    with x show ?thesis by (cases x) (auto simp: canonical_def c_at_def)
  next
    case True
    with x have can: "canonical x" by (simp add: canonical_def)
    have r: "read_int32 x = (if dec_val x < 2 ^ 31 then (Some (int (dec_val x)), False)
                      else (Some (2 ^ 31 - 1), True))"
      using True x by (intro read_int32_digits) (auto simp: all_digits_def)
    have z: "\<not> (c_str x \<noteq> [] \<and> c_at x 0 = CHR ''0'' \<and> length x > 1)"
      using True x by (cases x) (auto simp: c_at_def)
    have "octets_loop (x # xs) numb = Inr True \<longleftrightarrow> dec_val x \<le> 255 \<and>
        octets_loop xs (Some (int (dec_val x))) = Inr True"
      using True x z by (auto simp: r Let_def)
    with Cons can show ?thesis by auto
  qed
qed simp

lemma split_words_cons: "CHR ''.'' \<notin> set a \<Longrightarrow>
    split_words_loop tmp (a @ CHR ''.'' # b) = (tmp @ a) # split_words_loop [] b"
  by (induction a arbitrary: tmp) auto

lemma split_words_last: "CHR ''.'' \<notin> set a \<Longrightarrow> split_words_loop tmp a = [tmp @ a]"
  by (induction a arbitrary: tmp) auto

lemma split_words_join:
  "split_words_loop tmp s = [a, b, c, d] \<Longrightarrow> tmp @ s = a @ ''.'' @ b @ ''.'' @ c @ ''.'' @ d"
proof -
  have j: "tmp @ s = concat (map (\<lambda>x. x @ ''.'') (butlast (split_words_loop tmp s))) @ last (split_words_loop tmp s)
      \<and> split_words_loop tmp s \<noteq> []" for tmp s
  proof (induction tmp s rule: split_words_loop.induct)
    case (2 tmp c cs)
    then show ?case by (cases "c = CHR ''.''") auto
  qed simp
  assume "split_words_loop tmp s = [a, b, c, d]"
  with j [of tmp s] show ?thesis by simp
qed

lemma double_dot_empty: "double_dot s \<Longrightarrow> [] \<in> set (split_words_loop tmp s)"
proof (induction s arbitrary: tmp rule: double_dot.induct)
  case (1 a b s)
  show ?case
  proof (cases "a = CHR ''.''")
    case True
    show ?thesis
    proof (cases "b = CHR ''.''")
      case False
      with 1 True have "double_dot (b # s)" by simp
      from 1(1) [OF this, of "[]"] True show ?thesis by simp
    qed (use True in simp)
  next
    case False
    with 1(2) have "double_dot (b # s)" by simp
    from 1(1) [OF this, of "tmp @ [a]"] False show ?thesis by simp
  qed
qed simp_all

lemma octets_nonempty:
  "\<not> double_dot s \<Longrightarrow> s \<noteq> [] \<Longrightarrow> last s \<noteq> CHR ''.'' \<Longrightarrow> tmp \<noteq> [] \<or> hd s \<noteq> CHR ''.'' \<Longrightarrow>
     [] \<notin> set (split_words_loop tmp s)"
proof (induction s arbitrary: tmp)
  case (Cons a s)
  show ?case
  proof (cases s)
    case Nil
    with Cons.prems show ?thesis by auto
  next
    case (Cons b t)
    have dd: "\<not> double_dot s" "a = CHR ''.'' \<Longrightarrow> b \<noteq> CHR ''.''" using Cons.prems(1) Cons by auto
    have l: "last s \<noteq> CHR ''.''" using Cons.prems(3) Cons by simp
    have "[] \<notin> set (split_words_loop tmp' s)" if "tmp' \<noteq> [] \<or> b \<noteq> CHR ''.''" for tmp'
      using Cons.IH [of tmp'] dd(1) l that Cons by simp
    then show ?thesis using Cons.prems(4) dd(2) by auto
  qed
qed simp

definition quad :: "nat \<Rightarrow> nat \<Rightarrow> nat \<Rightarrow> nat \<Rightarrow> string" where
  "quad a b c d = show_nat a @ ''.'' @ show_nat b @ ''.'' @ show_nat c @ ''.'' @ show_nat d"

lemma show_nat_no: "\<not> is_digit c \<Longrightarrow> c \<notin> set (show_nat n)"
  using show_nat_digits [of n] by blast

lemma dot_brace: "\<not> is_digit (CHR ''.'')" "\<not> is_digit (CHR ''{'')" "\<not> is_digit (CHR ''}'')"
  "\<not> is_digit NUL" "\<not> is_digit (CHR ''l'')"
  by (simp_all add: is_digit_def byte_def)

lemma split_quad: "split_words (quad a b c d) = map show_nat [a, b, c, d]"
  by (simp add: split_words_def quad_def split_words_cons [of "show_nat _", simplified]
      split_words_last show_nat_no dot_brace)

lemma pars_host_address:
  assumes "\<not> has_brace addr" and "addr \<noteq> ''localhost''" and "no_nul addr"
  shows "pars_host [k, addr] = (if double_dot addr then Inr ([], False)
     else if length (split_words addr) \<noteq> 4 then Inr ([], False)
     else rbind (octets_loop (split_words addr) None) (\<lambda>ok. Inr (if ok then (addr, True) else ([], False))))"
  using assms by (simp add: pars_host_def Let_def)

lemma pars_host_octets:
  assumes "\<not> has_brace addr" and "addr \<noteq> ''localhost''" and "no_nul addr" and "addr \<noteq> []"
    and "hd addr \<noteq> CHR ''.''" and "last addr \<noteq> CHR ''.''"
  shows "pars_host [k, addr] = Inr (addr, True) \<longleftrightarrow>
      (\<exists>a b c d. a \<le> 255 \<and> b \<le> 255 \<and> c \<le> 255 \<and> d \<le> 255 \<and> addr = quad a b c d)"
proof
  assume "pars_host [k, addr] = Inr (addr, True)"
  then have dd: "\<not> double_dot addr" and l: "length (split_words addr) = 4"
    and o': "octets_loop (split_words addr) None = Inr True"
    using assms(4) by (auto simp: pars_host_address [OF assms(1-3)] rbind_Inr split: if_splits)
  from l obtain a b c d where s: "split_words addr = [a, b, c, d]"
    by (auto simp: length_Suc_conv numeral_eq_Suc)
  then have sl: "split_words_loop [] addr = [a, b, c, d]" by (auto simp: split_words_def split: if_splits)
  from split_words_join [OF sl] have addr: "addr = a @ ''.'' @ b @ ''.'' @ c @ ''.'' @ d" by simp
  have "[] \<notin> set [a, b, c, d]"
    using octets_nonempty [OF dd assms(4,6), of "[]"] assms(5) sl by metis
  moreover have "\<forall>x \<in> set [a, b, c, d]. no_nul x" using assms(3) by (simp add: addr no_nul_def)
  ultimately have "\<forall>x \<in> set [a, b, c, d]. canonical x \<and> dec_val x \<le> 255"
    using o' s octets_loop_iff [of "[a, b, c, d]" None] by auto
  then show "\<exists>a b c d. a \<le> 255 \<and> b \<le> 255 \<and> c \<le> 255 \<and> d \<le> 255 \<and> addr = quad a b c d"
    unfolding canonical_iff quad_def addr
    by (intro exI [of _ "dec_val a"] exI [of _ "dec_val b"] exI [of _ "dec_val c"] exI [of _ "dec_val d"]) auto
next
  assume "\<exists>a b c d. a \<le> 255 \<and> b \<le> 255 \<and> c \<le> 255 \<and> d \<le> 255 \<and> addr = quad a b c d"
  then obtain a b c d where abcd: "a \<le> 255" "b \<le> 255" "c \<le> 255" "d \<le> 255" and addr: "addr = quad a b c d"
    by blast
  have sl: "split_words_loop [] addr = map show_nat [a, b, c, d]"
    using split_quad [of a b c d] by (auto simp: addr split_words_def split: if_splits)
  have ne: "[] \<noteq> show_nat n" for n using show_nat_nonempty [of n] by metis
  have "\<not> double_dot addr" using double_dot_empty [of addr "[]"] sl ne by auto
  moreover have "octets_loop (split_words addr) None = Inr True"
    unfolding addr split_quad using abcd canonical_show
    by (subst octets_loop_iff) (auto simp: no_nul_def show_nat_no dot_brace)
  moreover have "length (split_words addr) = 4" unfolding addr split_quad by simp
  ultimately show "pars_host [k, addr] = Inr (addr, True)"
    by (simp add: pars_host_address [OF assms(1-3)])
qed

text \<open>
  C12: Of the arguments without braces that neither begin nor end with a point, the \<open>host\<close> directive
  accepts \<open>localhost\<close>, for which it stores \<open>127.0.0.1\<close>, and exactly those that are four numerals
  from 0 to 255, without leading zeros, joined by points, which it stores as they are.
\<close>

theorem pars_host_quad:
  assumes "\<not> has_brace addr" "no_nul addr" "addr \<noteq> []" "hd addr \<noteq> CHR ''.''" "last addr \<noteq> CHR ''.''"
  shows "pars_host [k, addr] = Inr (host, True) \<longleftrightarrow>
      addr = ''localhost'' \<and> host = ''127.0.0.1'' \<or>
      (\<exists>a b c d. a \<le> 255 \<and> b \<le> 255 \<and> c \<le> 255 \<and> d \<le> 255 \<and> addr = quad a b c d \<and> host = addr)"
proof (cases "addr = ''localhost''")
  case True
  have "''localhost'' \<noteq> quad a b c d" for a b c d
  proof
    assume "''localhost'' = quad a b c d"
    moreover obtain x r where "show_nat a = x # r" "is_digit x" using show_nat_hd by blast
    ultimately have "is_digit CHR ''l''" by (simp add: quad_def)
    then show False by (simp add: is_digit_def byte_def)
  qed
  with True assms(1) show ?thesis by (auto simp: pars_host_def)
next
  case False
  have "host = addr" if "pars_host [k, addr] = Inr (host, True)"
    using that by (auto simp: pars_host_address [OF assms(1) False assms(2)] rbind_Inr split: if_splits)
  with pars_host_octets [OF assms(1) False assms(2-5), of k] False show ?thesis by blast
qed

theorem pars_host_quad_witness:
  "pars_host [''host'', ''10.13.5.1''] = Inr (''10.13.5.1'', True) \<longleftrightarrow>
      ''10.13.5.1'' = ''localhost'' \<and> ''10.13.5.1'' = ''127.0.0.1'' \<or>
      (\<exists>a b c d. a \<le> 255 \<and> b \<le> 255 \<and> c \<le> 255 \<and> d \<le> 255 \<and> ''10.13.5.1'' = quad a b c d \<and> ''10.13.5.1'' = ''10.13.5.1'')"
  by (rule pars_host_quad) code_simp+

text \<open>
  An empty last octet is accepted: the number read for the octet before it is looked at
  again.
\<close>

theorem pars_host_trailing_point:
  "pars_host [''host'', ''1.2.3.''] = Inr (''1.2.3.'', True)"
  by (simp add: pars_host_def has_brace_def str_contains_def split_words_def c_str_def all_digits_def
      c_at_def read_int32_def read_sign_def dec_val_def digit_val_def eval_simps Let_def)

lemma read_uint64_nul: "n < 2 ^ 64 \<Longrightarrow> read_uint64 (show_nat n @ [NUL]) = (Some n, False)"
proof -
  assume n: "n < 2 ^ 64"
  obtain c r where c: "show_nat n = c # r" "is_digit c" using show_nat_hd by blast
  have "takeWhile is_digit (show_nat n @ [NUL]) = show_nat n"
    using show_nat_digits [of n] dot_brace(4) by (simp add: takeWhile_append2)
  then have "takeWhile is_digit (c # r @ [NUL]) = show_nat n" by (simp only: c append_Cons)
  then show ?thesis
    using n by (simp only: read_uint64_def c(1) append_Cons dropWhile_space_digit [OF c(2)]
        read_sign_digit [OF c(2)] Let_def prod.case) (simp add: c(1) [symmetric] del: takeWhile.simps)
qed

definition unit_of :: "char \<Rightarrow> nat" where
  "unit_of u = (if u \<in> {CHR ''K'', CHR ''k''} then 1024
     else if u \<in> {CHR ''M'', CHR ''m''} then 1024 * 1024 else 1024 * 1024 * 1024)"

text \<open>
  \<open>client_max_body_size\<close> with a unit stores the number times the unit, reduced modulo
  2 to the 64: a size from \<open>17179869184G\<close> on wraps.
\<close>

theorem pars_cbs_unit:
  assumes "n < 2 ^ 64" and "u \<in> {CHR ''K'', CHR ''k'', CHR ''M'', CHR ''m'', CHR ''G'', CHR ''g''}"
  shows "pars_cbs [k, show_nat n @ [u]] = ((n * unit_of u) mod 2 ^ 64, True)"
proof -
  have d: "all_digits (show_nat n)" using show_nat_digits by (simp add: all_digits_def)
  have w: "with_unit (show_nat n) x = (n * x) mod 2 ^ 64" for x
    using read_uint64_nul [OF assms(1)] by (simp add: with_unit_def size_mul_def)
  have u: "\<not> is_digit u" using assms(2) by (auto simp: is_digit_def byte_def)
  have "pars_cbs [k, show_nat n @ [u]] =
      (if u = CHR ''G'' \<or> u = CHR ''g'' then (with_unit (show_nat n) (1024 * 1024 * 1024), True)
       else if u = CHR ''M'' \<or> u = CHR ''m'' then (with_unit (show_nat n) (1024 * 1024), True)
       else if u = CHR ''K'' \<or> u = CHR ''k'' then (with_unit (show_nat n) 1024, True)
       else (0, False))"
    using d u by (simp add: pars_cbs_def Let_def)
  then show ?thesis using assms(2) unfolding w unit_of_def by auto
qed

theorem pars_cbs_unit_witness:
  "pars_cbs [''client_max_body_size'', show_nat 17179869184 @ ''G''] = ((17179869184 * unit_of CHR ''G'') mod 2 ^ 64, True) \<and>
   (17179869184 * unit_of CHR ''G'') mod 2 ^ 64 = 0"
  using pars_cbs_unit [of 17179869184 "CHR ''G''"] by (simp add: unit_of_def)

text \<open>
  \<open>check_words\<close> does not return on a string that starts with a digit or a point: the
  loop never moves to the next character.
\<close>

theorem check_words_diverges:
  assumes "str \<noteq> []" and "is_digit (hd str) \<or> hd str = CHR ''.''"
  shows "check_words str 0 = None"
proof -
  have "check_words str x = Some y \<Longrightarrow> x = 0 \<longrightarrow> \<not> (str \<noteq> [] \<and> (is_digit (hd str) \<or> hd str = CHR ''.''))"
    for str x y
    by (rule check_words.raw_induct [where P = "\<lambda>str x y. x = 0 \<longrightarrow>
        \<not> (str \<noteq> [] \<and> (is_digit (hd str) \<or> hd str = CHR ''.''))" and xa = "(str, x)", unfolded prod.case])
      (auto simp: hd_conv_nth split: if_splits)
  with assms show ?thesis by (cases "check_words str 0") auto
qed

theorem check_words_diverges_witness: "check_words ''1.2'' 0 = None"
  by (rule check_words_diverges) code_simp+

end
