(* ===== verification/Siege_strings.thy ===== *)
theory Siege_strings
  imports Paths
begin

text \<open>
  The string functions of siege: \<open>siege-4.1.7/src/perl.c\<close>, the pure part of \<open>util.c\<close>, the
  wrappers of \<open>memory.c\<close>, and the character macros of \<open>include/joedog/defs.h\<close>.  A \<open>char *\<close>
  is the list of its bytes before the NUL; \<open>NULL\<close> is \<open>None\<close> where a function tests for it.
  A function that changes its argument in place returns the new contents.
\<close>

section \<open>Integers\<close>

text \<open>A C \<open>int\<close> result: overflow is undefined.\<close>

definition c_int :: "int \<Rightarrow> int res" where
  "c_int n = (if - (2 ^ 31) \<le> n \<and> n < 2 ^ 31 then Inr n else Inl Undefined)"

text \<open>\<open>atoi\<close>: white space, a sign, digits.\<close>

definition atoi_val :: "string \<Rightarrow> int" where
  "atoi_val s = (let (neg, r) = read_sign (dropWhile is_space s); n = int (dec_val (takeWhile is_digit r))
                 in if neg then - n else n)"

definition atoi :: "string \<Rightarrow> int res" where
  "atoi s = c_int (atoi_val s)"

section \<open>perl.c\<close>

definition chomp :: "string \<Rightarrow> string" where
  "chomp str = (if str \<noteq> [] \<and> last str = LF then butlast str else str)"

definition rtrim :: "string \<Rightarrow> string" where
  "rtrim str = rev (dropWhile is_space (rev str))"

definition ltrim :: "string \<Rightarrow> string" where
  "ltrim str = dropWhile is_space str"

definition trim_c :: "string \<Rightarrow> string" where
  "trim_c str = ltrim (rtrim str)"

definition empty :: "string option \<Rightarrow> bool" where
  "empty s = (case s of None \<Rightarrow> True | Some str \<Rightarrow> dropWhile is_space str = [])"

fun word_count_loop :: "char \<Rightarrow> string \<Rightarrow> bool \<Rightarrow> nat \<Rightarrow> nat" where
  "word_count_loop p [] in_word count = count"
| "word_count_loop p (c # cs) in_word count =
     (if c \<noteq> p then word_count_loop p cs True (if in_word then count else count + 1)
      else word_count_loop p cs False count)"

definition word_count :: "char \<Rightarrow> string \<Rightarrow> nat" where
  "word_count p s = word_count_loop p s False 0"

text \<open>
  The loop of \<open>split\<close> on the rest \<open>str0\<close>: \<open>n\<close> cells are left in the array; a word of
  \<open>SPLITSZ\<close> bytes or more, or a word without a cell, is written outside its block.
\<close>

definition SPLITSZ :: nat where
  "SPLITSZ = 4096"

function split_loop :: "char \<Rightarrow> string \<Rightarrow> nat \<Rightarrow> string list res" where
  "split_loop p str0 n =
     (if str0 = [] then Inr []
      else
        (let word = takeWhile (\<lambda>c. c \<noteq> p) str0; rest = dropWhile (\<lambda>c. c \<noteq> p) str0 in
         if word = [] then split_loop p (tl rest) n
         else if n = 0 \<or> length word \<ge> SPLITSZ then Inl Undefined
         else if rest = [] then Inr [word]
         else rbind (split_loop p (tl rest) (n - 1)) (\<lambda>ws. Inr (word # ws))))"
  by pat_completeness auto
termination
  by (relation "measure (\<lambda>(p, s, n). length s)")
    (auto simp: length_greater_0_conv [symmetric] simp del: length_greater_0_conv
      intro!: diff_less_mono2 le_less_trans [OF diff_le_mono [OF length_dropWhile_le]])

declare split_loop.simps [simp del]

definition split :: "char \<Rightarrow> string \<Rightarrow> (string list option \<times> nat) res" where
  "split p s =
     (let n = word_count p s in
      if n = 0 then Inr (None, 0)
      else rbind (split_loop p s n) (\<lambda>ws. Inr (Some ws, n)))"

lemma split_loop_ft_split:
  "\<forall>w \<in> set (ft_split s p). length w < SPLITSZ \<Longrightarrow> length (ft_split s p) \<le> n \<Longrightarrow>
     split_loop p s n = Inr (ft_split s p)"
proof (induction p s n rule: split_loop.induct)
  case (1 p str0 n)
  let ?P = "\<lambda>c. c \<noteq> p"
  show ?case
  proof (cases str0)
    case Nil
    then show ?thesis by (simp add: split_loop.simps)
  next
    case (Cons x xs)
    show ?thesis
    proof (cases "x = p")
      case True
      have "split_loop p xs n = Inr (ft_split xs p)"
        using "1.IH"(1) [OF _ refl refl] "1.prems" Cons True by (simp add: ft_split_sep)
      with Cons True show ?thesis by (subst split_loop.simps) (simp add: ft_split_sep)
    next
      case False
      let ?w = "takeWhile ?P str0" and ?r = "dropWhile ?P str0"
      have ft: "ft_split str0 p = ?w # ft_split (tl ?r) p"
        using False ft_split_tl_dropWhile [of p xs] by (simp add: Cons ft_split_word)
      have w: "?w \<noteq> []" "length ?w < SPLITSZ" "n \<noteq> 0"
        using "1.prems" False unfolding ft by (auto simp: Cons)
      show ?thesis
      proof (cases "?r = []")
        case True
        with w Cons ft show ?thesis by (subst split_loop.simps) (simp add: Let_def)
      next
        case r: False
        have "\<forall>v \<in> set (ft_split (tl ?r) p). length v < SPLITSZ" "length (ft_split (tl ?r) p) \<le> n - 1"
          using "1.prems" unfolding ft by auto
        then have "split_loop p (tl ?r) (n - 1) = Inr (ft_split (tl ?r) p)"
          using w r Cons by (intro "1.IH"(2) [OF _ refl refl]) auto
        with w r Cons ft show ?thesis by (subst split_loop.simps) (simp add: Let_def)
      qed
    qed
  qed
qed

lemma word_count_loop: "word_count_loop p s b n =
    n + length (ft_split (if b then tl (dropWhile (\<lambda>c. c \<noteq> p) s) else s) p)"
proof (induction s arbitrary: b n)
  case (Cons c cs)
  show ?case
  proof (cases "c = p")
    case True
    with Cons [of False n] show ?thesis by (simp add: ft_split_sep)
  next
    case False
    then show ?thesis
      using Cons [of True] ft_split_tl_dropWhile [of p cs] by (simp add: ft_split_word)
  qed
qed simp

lemma word_count_ft_split: "word_count p s = length (ft_split s p)"
  by (simp add: word_count_def word_count_loop)

text \<open>
  Siege's \<open>split\<close> cuts a string into the same words as the server's \<open>ft_split\<close>, it counts
  them right, and it stays inside its array and its blocks, as long as every word fits a block.
\<close>

theorem split_is_ft_split:
  assumes "\<forall>w \<in> set (ft_split s p). length w < SPLITSZ"
  shows "split p s = Inr (if ft_split s p = [] then None else Some (ft_split s p), length (ft_split s p))"
  using split_loop_ft_split [OF assms order_refl] by (simp add: split_def word_count_ft_split Let_def)

theorem split_is_ft_split_witness:
  "split CHR ''|'' ''|a||b'' = Inr (Some [''a'', ''b''], 2)"
proof -
  have f: "ft_split ''|a||b'' CHR ''|'' = [''a'', ''b'']" by code_simp
  show ?thesis using split_is_ft_split [of "''|a||b''" "CHR ''|''"] by (simp add: f SPLITSZ_def)
qed

section \<open>util.c\<close>

text \<open>The result of \<open>parse_time\<close> is the pair of \<open>my.time\<close> and \<open>my.secs\<close>.\<close>

fun time_unit :: "string \<Rightarrow> int option" where
  "time_unit [] = None"
| "time_unit (c # cs) =
     (if to_lower c = CHR ''s'' then Some 1
      else if to_lower c = CHR ''m'' then Some 60
      else if to_lower c = CHR ''h'' then Some 3600
      else time_unit cs)"

definition parse_time :: "string \<Rightarrow> (int \<times> int) res" where
  "parse_time p =
     (let digits = takeWhile is_digit p; rest = dropWhile is_digit p in
      if digits = [] then Inr (0, 0)
      else rbind (atoi digits) (\<lambda>time.
        case time_unit rest of
          Some u \<Rightarrow> rbind (c_int (time * u)) (\<lambda>secs. Inr (1, secs))
        | None \<Rightarrow> if time > 0 then rbind (c_int (time * 60)) (\<lambda>secs. Inr (time, secs)) else Inr (time, 0)))"

definition substring :: "string \<Rightarrow> int \<Rightarrow> int \<Rightarrow> string option" where
  "substring str start len =
     (if len < 1 \<or> start < 0 \<or> start > int (length str) then None
      else (let len = (if start + len > int (length str) then int (length str) - start else len)
            in Some (take (nat len) (drop (nat start) str))))"

definition okay :: "int \<Rightarrow> bool" where
  "okay code \<longleftrightarrow> 100 \<le> code \<and> code \<le> 299"

text \<open>The comparison of \<open>strncasecmp\<close> stops behind a NUL on either side.\<close>

definition strmatch :: "string \<Rightarrow> string \<Rightarrow> bool" where
  "strmatch opt param \<longleftrightarrow> ncase_eq opt param (length param) \<and> length opt = length param"

definition startswith :: "string \<Rightarrow> string \<Rightarrow> bool" where
  "startswith pre str \<longleftrightarrow> (if length str < length pre then False else strncmp pre str (length pre) = 0)"

definition endswith :: "string option \<Rightarrow> string option \<Rightarrow> bool" where
  "endswith suf_p str_p = (case (suf_p, str_p) of
     (Some suf, Some s) \<Rightarrow>
        (if length suf > length s then False
         else strncmp (drop (length s - length suf) s) suf (length suf) = 0)
   | _ \<Rightarrow> False)"

definition uppercase :: "string \<Rightarrow> nat \<Rightarrow> string" where
  "uppercase s len = map to_upper (take len s) @ drop len s"

definition lowercase :: "string \<Rightarrow> nat \<Rightarrow> string" where
  "lowercase s len = map to_lower (take len s) @ drop len s"

text \<open>The inner loop of \<open>stristr\<close>: whether the needle runs out first.\<close>

fun stristr_at :: "string \<Rightarrow> string \<Rightarrow> bool" where
  "stristr_at h [] = True"
| "stristr_at [] (n # ns) = False"
| "stristr_at (h # hs) (n # ns) = (to_lower h = to_lower n \<and> stristr_at hs ns)"

text \<open>The position of the match.\<close>

fun stristr :: "string \<Rightarrow> string \<Rightarrow> nat option" where
  "stristr haystack needle =
     (if stristr_at haystack needle then Some 0
      else (case haystack of [] \<Rightarrow> None | _ # hs \<Rightarrow> map_option Suc (stristr hs needle)))"

declare stristr.simps [simp del]

lemma stristr_at_prefix: "stristr_at h n \<longleftrightarrow> prefix (lower n) (lower h)"
  by (induction h n rule: stristr_at.induct) (auto simp: lower_def)

lemma stristr_find: "stristr h n = str_find (lower n) (lower h)"
proof (induction h)
  case Nil
  then show ?case by (cases n) (simp_all add: stristr.simps [of "[]"] lower_def)
next
  case (Cons x h)
  then show ?case
    by (subst stristr.simps) (simp add: stristr_at_prefix, simp add: lower_def)
qed

text \<open>
  \<open>strncasestr(str1, str2, len)\<close>: the bound of its loop is a \<open>size_t\<close>; when it wraps, the loop
  runs on behind the end of the string.
\<close>

fun strncasestr_loop :: "string \<Rightarrow> string \<Rightarrow> nat \<Rightarrow> nat option res" where
  "strncasestr_loop str1 str2 0 = Inr None"
| "strncasestr_loop str1 str2 (Suc n) =
     (if length str1 \<ge> length str2 \<and> ncase_eq str1 str2 (length str2) then Inr (Some 0)
      else (case str1 of
          [] \<Rightarrow> (if n = 0 then Inr None else Inl Undefined)
        | _ # s \<Rightarrow> rbind (strncasestr_loop s str2 n) (\<lambda>r. Inr (map_option Suc r))))"

definition strncasestr :: "string \<Rightarrow> string \<Rightarrow> nat \<Rightarrow> nat option res" where
  "strncasestr str1 str2 len =
     (let l1 = min (length str1) len; l2 = length str2 in
      if l1 < 1 \<or> l2 < 1 then Inr None
      else if l1 + 1 < l2 then strncasestr_loop str1 str2 (length str1 + 2)
      else strncasestr_loop str1 str2 (l1 + 1 - l2))"

section \<open>The macros\<close>

text \<open>
  \<open>ISXDIGIT\<close> as it is written, a chain of unsigned operations; \<open>208\<close> and \<open>253\<close> are \<open>-48\<close> and
  \<open>-3\<close> modulo 256.
\<close>

unbundle bit_operations_syntax

definition isxdigit_num :: "int \<Rightarrow> bool" where
  "isxdigit_num n =
     (let x = (n + 208) mod 256;
          y = x * 18 div 17 * 52 div 51 * 58 div 114 * 13 div 11 * 14 div 13 * 35 + 35;
          z = (y div 36 * 35 div 33 * 34 div 33 * 35 div 170) XOR 4
      in ((z + 253) mod 256) XOR 1 \<le> 2)"

definition ISXDIGIT :: "char \<Rightarrow> bool" where
  "ISXDIGIT c = isxdigit_num (int (byte c))"

definition XDIGIT_TO_NUM :: "char \<Rightarrow> nat" where
  "XDIGIT_TO_NUM c = (if byte c < 65 then byte c - 48 else byte (to_upper c) - 65 + 10)"

definition XNUM_TO_DIGIT :: "nat \<Rightarrow> char" where
  "XNUM_TO_DIGIT n = ''0123456789ABCDEF'' ! n"

definition X2DIGITS_TO_NUM :: "char \<Rightarrow> char \<Rightarrow> nat" where
  "X2DIGITS_TO_NUM h1 h2 = XDIGIT_TO_NUM h1 * 16 + XDIGIT_TO_NUM h2"

lemma isxdigit_bytes: "list_all (\<lambda>n. isxdigit_num n =
    (48 \<le> n \<and> n \<le> 57 \<or> 65 \<le> n \<and> n \<le> 70 \<or> 97 \<le> n \<and> n \<le> 102)) [0..255]"
  by code_simp

text \<open>The arithmetic of \<open>ISXDIGIT\<close> decides exactly the hexadecimal digits.\<close>

lemma isxdigit_macro:
  "ISXDIGIT c \<longleftrightarrow> is_digit c \<or> 65 \<le> byte c \<and> byte c \<le> 70 \<or> 97 \<le> byte c \<and> byte c \<le> 102"
proof -
  have "int (byte c) \<in> set [0..255]" using byte_less_256 [of c] by simp
  with isxdigit_bytes show ?thesis by (auto simp: list_all_iff ISXDIGIT_def is_digit_def)
qed

section \<open>Blocks\<close>

text \<open>The string at a position of a block, writing into a block, and \<open>snprintf\<close> into a new zeroed one.\<close>

definition bstr :: "string \<Rightarrow> nat \<Rightarrow> string res" where
  "bstr buf p = (if NUL \<in> set (drop p buf) then Inr (c_str (drop p buf)) else Inl Undefined)"

definition bstore :: "string \<Rightarrow> nat \<Rightarrow> string \<Rightarrow> string res" where
  "bstore buf p xs =
     (if p + length xs \<le> length buf then Inr (take p buf @ xs @ drop (p + length xs) buf)
      else Inl Undefined)"

definition bprint :: "nat \<Rightarrow> string \<Rightarrow> string" where
  "bprint n s = (let t = take (n - 1) s in t @ replicate (n - length t) NUL)"

end
