(* ===== verification/Hash_table.thy ===== *)
theory Hash_table
  imports Siege_strings "HOL-Library.Code_Target_Nat"
begin

text \<open>
  The hash table of siege (\<open>siege-4.1.7/src/hash.c\<close>): chained buckets, doubled when a quarter
  full.  Its contract is \<open>once_table\<close>: an entry is never overwritten.  The field \<open>index\<close> is
  never read, \<open>free\<close> only chooses the function that releases a value.  The size is an \<open>int\<close>: it is
  a positive number of at most \<open>2 ^ 30\<close> (\<open>size_ok\<close>), and doubling the largest gives a negative one, for
  which a table of two buckets is made.
\<close>

unbundle bit_operations_syntax

section \<open>The hash function\<close>

definition fnv_step :: "32 word \<Rightarrow> char \<Rightarrow> 32 word" where
  "fnv_step hval c =
     (let h = hval XOR of_nat (byte c)
      in h + (push_bit 1 h + push_bit 4 h + push_bit 7 h + push_bit 8 h + push_bit 24 h))"

definition fnv_32_buf :: "string \<Rightarrow> 32 word \<Rightarrow> 32 word" where
  "fnv_32_buf buf hval = foldl fnv_step hval buf"

definition FNV1_32_INIT :: "32 word" where
  "FNV1_32_INIT = 2166136261"

definition genkey :: "nat \<Rightarrow> string \<Rightarrow> nat" where
  "genkey sz str = unat (fnv_32_buf str FNV1_32_INIT) mod sz"

lemma genkey_less: "0 < sz \<Longrightarrow> genkey sz str < sz"
  by (simp add: genkey_def)

lemma fnv_step_prime: "fnv_step hval c = (hval XOR of_nat (byte c)) * 16777619"
proof -
  have "h + (push_bit 1 h + push_bit 4 h + push_bit 7 h + push_bit 8 h + push_bit 24 h) = h * 16777619"
    for h :: "32 word"
    by (simp add: push_bit_eq_mult algebra_simps)
  then show ?thesis by (simp add: fnv_step_def Let_def)
qed

text \<open>
  The shifts and additions of \<open>fnv_32_buf\<close> are the FNV-1a hash: each byte is combined by
  exclusive or and the sum multiplied by the FNV prime, modulo \<open>2 ^ 32\<close>.
\<close>

theorem fnv_is_fnv1a:
  "fnv_32_buf buf hval = foldl (\<lambda>h c. (h XOR of_nat (byte c)) * 16777619) hval buf"
  by (simp add: fnv_32_buf_def fnv_step_prime [abs_def] cong: foldl_cong)

section \<open>The table\<close>

text \<open>A value is the block the caller hands over, a type variable here; \<open>hash_add\<close> takes strings.\<close>

type_synonym 'v node = "string \<times> 'v"

record 'v hash_t =
  hs_size :: nat
  hs_entries :: nat
  hs_table :: "'v node list list"

definition new_hash :: "'v hash_t" where
  "new_hash = \<lparr>hs_size = 10240, hs_entries = 0, hs_table = replicate 10240 []\<rparr>"

text \<open>
  \<open>while (this->size < size) this->size <<= 1\<close>, from a positive size.  Up to \<open>2 ^ 30\<close> no shift
  overflows (\<open>double_to_power\<close>); more is not asked for (\<open>resize_ok\<close>).
\<close>

function double_to :: "nat \<Rightarrow> int \<Rightarrow> nat" where
  "double_to n sz = (if 0 < n \<and> int n < sz then double_to (n * 2) sz else n)"
  by pat_completeness auto
termination
  by (relation "measure (\<lambda>(n, sz). nat (sz - int n))") auto

declare double_to.simps [simp del]

definition hash_reset :: "int \<Rightarrow> 'v hash_t" where
  "hash_reset sz = (let s = double_to 2 sz in \<lparr>hs_size = s, hs_entries = 0, hs_table = replicate s []\<rparr>)"

definition bucket :: "'v hash_t \<Rightarrow> string \<Rightarrow> 'v node list" where
  "bucket h key = hs_table h ! genkey (hs_size h) key"

definition lookup :: "'v hash_t \<Rightarrow> string option \<Rightarrow> bool" where
  "lookup h key = (case key of None \<Rightarrow> False | Some k \<Rightarrow> list_ex (\<lambda>node. fst node = k) (bucket h k))"

text \<open>Putting a node at the head of its chain.\<close>

definition place :: "'v node \<Rightarrow> 'v hash_t \<Rightarrow> 'v hash_t" where
  "place node h =
     (let x = genkey (hs_size h) (fst node)
      in h\<lparr>hs_table := (hs_table h)[x := node # hs_table h ! x], hs_entries := hs_entries h + 1\<rparr>)"

text \<open>\<open>size*2\<close> is an \<open>int\<close>.\<close>

definition doubled :: "nat \<Rightarrow> int" where
  "doubled sz = (int sz * 2 + 2 ^ 31) mod 2 ^ 32 - 2 ^ 31"

definition resize :: "'v hash_t \<Rightarrow> 'v hash_t" where
  "resize h = fold place (concat (hs_table h)) (hash_reset (doubled (hs_size h)))"

definition hash_nadd :: "string \<Rightarrow> 'v \<Rightarrow> 'v hash_t \<Rightarrow> 'v hash_t" where
  "hash_nadd key val h =
     (if lookup h (Some key) then h
      else place (key, val) (if hs_entries h \<ge> hs_size h div 4 then resize h else h))"

definition hash_add :: "string \<Rightarrow> string \<Rightarrow> string hash_t \<Rightarrow> string hash_t" where
  "hash_add key val h = (if lookup h (Some key) then h else hash_nadd key (c_str val) h)"

definition hash_get :: "'v hash_t \<Rightarrow> string \<Rightarrow> 'v option" where
  "hash_get h key = map_of (bucket h key) key"

definition hash_remove :: "string \<Rightarrow> 'v hash_t \<Rightarrow> 'v hash_t" where
  "hash_remove key h =
     (if \<not> lookup h (Some key) then h
      else h\<lparr>hs_table := (hs_table h)[genkey (hs_size h) key := []],
             hs_entries := hs_entries h - length (bucket h key)\<rparr>)"

definition hash_contains :: "'v hash_t \<Rightarrow> string option \<Rightarrow> bool" where
  "hash_contains h key = lookup h key"

definition hash_get_keys :: "'v hash_t \<Rightarrow> string list option" where
  "hash_get_keys h = (if hs_entries h = 0 then None else Some (map fst (concat (hs_table h))))"

definition hash_get_entries :: "'v hash_t \<Rightarrow> nat" where
  "hash_get_entries h = hs_entries h"

section \<open>The invariant\<close>

definition size_ok :: "nat \<Rightarrow> bool" where
  "size_ok n \<longleftrightarrow> n = 10240 \<or> (\<exists>k. 1 \<le> k \<and> k \<le> 30 \<and> n = 2 ^ k)"

lemma size_ok_bounds:
  assumes "size_ok n"
  shows "0 < n" "n \<le> 2 ^ 30"
proof -
  have "(2 :: nat) ^ k \<le> 2 ^ 30" if "k \<le> 30" for k using that by (rule power_increasing) simp
  with assms show "0 < n" "n \<le> 2 ^ 30" by (auto simp: size_ok_def)
qed

lemma double_to_power:
  assumes "sz \<le> 2 ^ 30"
  shows "1 \<le> k \<Longrightarrow> k \<le> 30 \<Longrightarrow> \<exists>j. k \<le> j \<and> j \<le> 30 \<and> double_to (2 ^ k) sz = 2 ^ j"
proof (induction "30 - k" arbitrary: k)
  case 0
  then have "k = 30" by simp
  with assms show ?case by (intro exI [of _ 30]) (simp add: double_to.simps)
next
  case (Suc m)
  show ?case
  proof (cases "2 ^ k < sz")
    case True
    have k: "m = 30 - Suc k" "1 \<le> Suc k" "Suc k \<le> 30" using Suc.hyps(2) by simp_all
    from Suc.hyps(1) [OF k] obtain j where j: "Suc k \<le> j" "j \<le> 30" "double_to (2 ^ Suc k) sz = 2 ^ j" by blast
    then have "double_to (2 ^ k) sz = 2 ^ j" using True by (simp add: double_to.simps [of "2 ^ k"] mult.commute)
    with j show ?thesis by (intro exI [of _ j]) simp
  next
    case False
    with Suc.prems show ?thesis by (intro exI [of _ k]) (simp add: double_to.simps)
  qed
qed

lemma double_to_ok: "sz \<le> 2 ^ 30 \<Longrightarrow> size_ok (double_to 2 sz)"
  using double_to_power [of sz 1] by (auto simp: size_ok_def)

lemma doubled_le: "size_ok n \<Longrightarrow> doubled n \<le> 2 ^ 30"
proof -
  assume "size_ok n"
  then consider "n = 10240" | k where "k < 30" "n = 2 ^ k" | "n = 2 ^ 30"
    unfolding size_ok_def by (metis le_neq_implies_less)
  then show ?thesis
  proof cases
    case (2 k)
    then have "(2 :: int) ^ Suc k \<le> 2 ^ 30" by (intro power_increasing) simp_all
    with 2 show ?thesis by (simp add: doubled_def)
  qed (simp_all add: doubled_def)
qed

definition hash_ok :: "'v hash_t \<Rightarrow> bool" where
  "hash_ok h \<longleftrightarrow> size_ok (hs_size h) \<and> length (hs_table h) = hs_size h \<and>
     hs_entries h = length (concat (hs_table h)) \<and>
     (\<forall>i < hs_size h. \<forall>node \<in> set (hs_table h ! i). genkey (hs_size h) (fst node) = i) \<and>
     (\<forall>i < hs_size h. distinct (map fst (hs_table h ! i)))"

lemma hash_okD:
  assumes "hash_ok h"
  shows "0 < hs_size h" "length (hs_table h) = hs_size h" "hs_entries h = length (concat (hs_table h))"
    "i < hs_size h \<Longrightarrow> node \<in> set (hs_table h ! i) \<Longrightarrow> genkey (hs_size h) (fst node) = i"
    "i < hs_size h \<Longrightarrow> distinct (map fst (hs_table h ! i))"
  using assms by (auto simp: hash_ok_def size_ok_bounds)

lemma hash_ok_size: "hash_ok h \<Longrightarrow> size_ok (hs_size h)"
  by (simp add: hash_ok_def)

lemma bucket_in: "hash_ok h \<Longrightarrow> bucket h k \<in> set (hs_table h)"
  by (simp add: bucket_def hash_okD genkey_less)

lemma node_bucket:
  assumes "hash_ok h"
  shows "node \<in> set (concat (hs_table h)) \<longleftrightarrow> node \<in> set (bucket h (fst node))"
proof
  assume "node \<in> set (concat (hs_table h))"
  then obtain i where "i < length (hs_table h)" "node \<in> set (hs_table h ! i)"
    by (metis in_set_conv_nth UN_E set_concat)
  with hash_okD(2,4) [OF assms] show "node \<in> set (bucket h (fst node))" by (metis bucket_def)
qed (use bucket_in [OF assms, of "fst node"] in auto)

lemma hash_get_iff: "hash_ok h \<Longrightarrow> hash_get h k = Some v \<longleftrightarrow> (k, v) \<in> set (concat (hs_table h))"
  by (simp only: node_bucket fst_conv)
    (simp add: hash_get_def map_of_eq_Some_iff hash_okD bucket_def genkey_less)

lemma lookup_get: "lookup h (Some k) \<longleftrightarrow> hash_get h k \<noteq> None"
  by (auto simp: lookup_def hash_get_def list_ex_iff map_of_eq_None_iff)

lemma length_concat_update:
  "i < length xss \<Longrightarrow> length (concat (xss[i := ys])) + length (xss ! i) = length (concat xss) + length ys"
proof (induction xss arbitrary: i)
  case (Cons xs xss)
  then show ?case by (cases i) auto
qed simp

lemma place_ok:
  assumes ok: "hash_ok h" and new: "hash_get h (fst node) = None"
  shows "hash_ok (place node h)"
    and "hash_get (place node h) k = (if k = fst node then Some (snd node) else hash_get h k)"
proof -
  let ?x = "genkey (hs_size h) (fst node)"
  note o = hash_okD [OF ok]
  have x: "?x < hs_size h" using o(1) by (rule genkey_less)
  have fresh: "fst node \<notin> fst ` set (hs_table h ! ?x)"
    using new by (simp add: hash_get_def bucket_def map_of_eq_None_iff)
  have len: "length (concat ((hs_table h)[?x := node # hs_table h ! ?x])) = length (concat (hs_table h)) + 1"
    using length_concat_update [of ?x "hs_table h" "node # hs_table h ! ?x"] x o(2) by simp
  have nth: "(hs_table h)[?x := node # hs_table h ! ?x] ! i =
      (if i = ?x then node # hs_table h ! ?x else hs_table h ! i)" if "i < hs_size h" for i
    using that o(2) by simp
  let ?t = "(hs_table h)[?x := node # hs_table h ! ?x]"
  have keys: "genkey (hs_size h) (fst m) = i" if "i < hs_size h" "m \<in> set (?t ! i)" for i m
    using that o(4) [of i m] by (auto simp: nth split: if_splits)
  have dist: "distinct (map fst (?t ! i))" if "i < hs_size h" for i
    using o(5) [OF that] fresh nth [OF that] by (cases "i = ?x") simp_all
  have p: "place node h = h\<lparr>hs_table := ?t, hs_entries := hs_entries h + 1\<rparr>"
    by (simp only: place_def Let_def)
  show "hash_ok (place node h)"
    by (simp add: hash_ok_def p len o(2,3) hash_ok_size [OF ok] del: length_concat) (use keys dist in blast)
  show "hash_get (place node h) k = (if k = fst node then Some (snd node) else hash_get h k)"
    unfolding p using nth [OF genkey_less [OF o(1)], of k]
    by (cases node) (auto simp: hash_get_def bucket_def)
qed

lemma concat_replicate_Nil [simp]: "concat (replicate n []) = []"
  by (induction n) auto

lemma hash_reset_ok:
  assumes "sz \<le> 2 ^ 30"
  shows "hash_ok (hash_reset sz)" "hash_get (hash_reset sz) k = None"
  using double_to_ok [OF assms] genkey_less [OF size_ok_bounds(1) [OF double_to_ok [OF assms]], of k]
  by (simp_all add: hash_reset_def hash_ok_def hash_get_def bucket_def Let_def)

lemma new_hash_ok: "hash_ok new_hash" "hash_get new_hash k = None"
  using genkey_less [of 10240 k] by (simp_all add: new_hash_def hash_ok_def size_ok_def hash_get_def bucket_def)

text \<open>Placing nodes with different keys, one by one.\<close>

lemma place_all:
  "hash_ok h \<Longrightarrow> distinct (map fst ns) \<Longrightarrow> \<forall>n \<in> set ns. hash_get h (fst n) = None \<Longrightarrow>
     hash_ok (fold place ns h) \<and>
     (\<forall>k. hash_get (fold place ns h) k = (case map_of ns k of Some v \<Rightarrow> Some v | None \<Rightarrow> hash_get h k))"
proof (induction ns arbitrary: h)
  case (Cons n ns)
  have "hash_ok (place n h)" "\<forall>m \<in> set ns. hash_get (place n h) (fst m) = None"
    using place_ok [OF Cons.prems(1), of n] Cons.prems by (auto simp: rev_image_eqI)
  moreover have "map_of ns (fst n) = None" using Cons.prems(2) by (simp add: map_of_eq_None_iff)
  ultimately show ?case
    using Cons.IH [of "place n h"] Cons.prems place_ok(2) [OF Cons.prems(1), of n]
    by (cases n) (auto split: option.split)
qed simp

lemma distinct_keys:
  assumes ok: "hash_ok h"
  shows "distinct (map fst (concat (hs_table h)))"
proof -
  note o = hash_okD [OF ok]
  have "distinct (map fst (concat (take n (hs_table h))))" if "n \<le> hs_size h" for n
    using that
  proof (induction n)
    case (Suc n)
    then have n: "n < hs_size h" by simp
    have "fst a \<noteq> fst b" if "a \<in> set (concat (take n (hs_table h)))" "b \<in> set (hs_table h ! n)" for a b
    proof -
      from that(1) obtain i where "i < n" "a \<in> set (hs_table h ! i)"
        using n o(2) by (auto simp: in_set_conv_nth [of _ "take n (hs_table h)"])
      with o(4) [of i a] o(4) [OF n that(2)] n show ?thesis by fastforce
    qed
    then have "set (map fst (concat (take n (hs_table h)))) \<inter> set (map fst (hs_table h ! n)) = {}"
      by fastforce
    with Suc n o(2) o(5) [OF n] show ?case
      by (simp add: take_Suc_conv_app_nth del: set_concat set_map)
  qed simp
  from this [of "hs_size h"] o(2) show ?thesis by simp
qed

lemma resize_ok:
  assumes "hash_ok h"
  shows "hash_ok (resize h)" and "hash_get (resize h) = hash_get h"
proof -
  note le = doubled_le [OF hash_ok_size [OF assms]]
  from place_all [OF hash_reset_ok(1) [OF le] distinct_keys [OF assms]]
  have p: "hash_ok (resize h)" "\<And>k. hash_get (resize h) k = map_of (concat (hs_table h)) k"
    by (auto simp: resize_def hash_reset_ok(2) [OF le] split: option.split)
  show "hash_ok (resize h)" by (rule p(1))
  show "hash_get (resize h) = hash_get h"
  proof
    fix k
    have "hash_get (resize h) k = Some v \<longleftrightarrow> hash_get h k = Some v" for v
      using map_of_eq_Some_iff [OF distinct_keys [OF assms], of k v]
      by (simp only: p(2) hash_get_iff [OF assms])
    then show "hash_get (resize h) k = hash_get h k" by (metis option.exhaust)
  qed
qed

lemma hash_nadd_ok:
  assumes "hash_ok h"
  shows "hash_ok (hash_nadd key val h)"
    and "hash_get (hash_nadd key val h) k =
      (case hash_get h k of Some v \<Rightarrow> Some v | None \<Rightarrow> if k = key then Some val else None)"
proof -
  let ?h = "if hs_entries h \<ge> hs_size h div 4 then resize h else h"
  have h: "hash_ok ?h" "hash_get ?h = hash_get h" using resize_ok [OF assms] assms by auto
  show "hash_ok (hash_nadd key val h)"
    using assms h place_ok(1) [OF h(1), of "(key, val)"] by (auto simp: hash_nadd_def lookup_get)
  show "hash_get (hash_nadd key val h) k =
      (case hash_get h k of Some v \<Rightarrow> Some v | None \<Rightarrow> if k = key then Some val else None)"
    using place_ok(2) [OF h(1), of "(key, val)" k] h(2)
    by (auto simp: hash_nadd_def lookup_get split: option.split)
qed

interpretation hash: once_table hash_ok "\<lambda>_. True" new_hash hash_get hash_nadd
  by unfold_locales (simp_all add: new_hash_ok hash_nadd_ok)

section \<open>Properties\<close>

lemma dom_map_of: "dom (map_of kvs) = fst ` set kvs"
  by (rule dom_map_of_conv_image_fst)

lemma keys_dom: "hash_ok h \<Longrightarrow> fst ` set (concat (hs_table h)) = dom (hash_get h)"
proof -
  assume ok: "hash_ok h"
  have "k \<in> dom (hash_get h) \<longleftrightarrow> (\<exists>v. (k, v) \<in> set (concat (hs_table h)))" for k
    using hash_get_iff [OF ok, of k] by (simp add: dom_def del: set_concat)
  then show ?thesis by (force simp del: set_concat)
qed

lemma filled:
  defines "h \<equiv> \<lambda>kvs. fold (\<lambda>(k, v). hash_nadd k v) kvs new_hash"
  shows "hash_ok (h kvs)" "hash_get (h kvs) = map_of kvs" "hash_get_entries (h kvs) = card (fst ` set kvs)"
proof -
  show ok: "hash_ok (h kvs)" using hash.ok_ins_all [OF new_hash_ok(1), of kvs] by (simp add: hash.ins_all_def h_def)
  show get: "hash_get (h kvs) = map_of kvs" using hash.lookup_ins_all_emp [of kvs] by (auto simp: hash.ins_all_def h_def)
  have "hash_get_entries (h kvs) = length (map fst (concat (hs_table (h kvs))))"
    using hash_okD(3) [OF ok] by (simp only: hash_get_entries_def length_map)
  also have "\<dots> = card (fst ` set (concat (hs_table (h kvs))))"
    using distinct_card [OF distinct_keys [OF ok]] by (simp only: set_map)
  finally show "hash_get_entries (h kvs) = card (fst ` set kvs)" using keys_dom [OF ok] by (simp only: get dom_map_of)
qed

text \<open>
  C19: a table filled by \<open>hash_nadd\<close> with fewer than \<open>2 ^ 31\<close> pairs, as often as it is resized, is the
  map that binds each key to the first value stored under it: \<open>hash_get\<close> and \<open>hash_contains\<close> find
  that, \<open>hash_get_entries\<close> is the number of keys, and neither this number nor the size leaves an \<open>int\<close>.
\<close>

theorem hash_is_map:
  assumes "length kvs < 2 ^ 31"
  shows "hash_get (fold (\<lambda>(k, v). hash_nadd k v) kvs new_hash) key = map_of kvs key \<and>
    hash_contains (fold (\<lambda>(k, v). hash_nadd k v) kvs new_hash) (Some key) = (key \<in> fst ` set kvs) \<and>
    hash_get_entries (fold (\<lambda>(k, v). hash_nadd k v) kvs new_hash) = card (fst ` set kvs) \<and>
    hash_get_entries (fold (\<lambda>(k, v). hash_nadd k v) kvs new_hash) < 2 ^ 31 \<and>
    0 < hs_size (fold (\<lambda>(k, v). hash_nadd k v) kvs new_hash) \<and> hs_size (fold (\<lambda>(k, v). hash_nadd k v) kvs new_hash) \<le> 2 ^ 30"
proof -
  have "card (fst ` set kvs) \<le> card (set kvs)" by (rule card_image_le) simp
  also have "\<dots> \<le> length kvs" by (rule card_length)
  finally have "card (fst ` set kvs) < 2 ^ 31" using assms by simp
  then show ?thesis
    using filled [of kvs] size_ok_bounds [OF hash_ok_size [OF filled(1) [of kvs]]]
    by (simp add: hash_contains_def lookup_get map_of_eq_None_iff)
qed

theorem hash_is_map_witness:
  "hash_get (fold (\<lambda>(k, v). hash_nadd k v) [(''a'', ''1''), (''b'', ''2''), (''a'', ''3'')] new_hash) ''a'' = Some ''1'' \<and>
   hash_get_entries (fold (\<lambda>(k, v). hash_nadd k v) [(''a'', ''1''), (''b'', ''2''), (''a'', ''3'')] new_hash) = 2"
  using hash_is_map [of "[(''a'', ''1''), (''b'', ''2''), (''a'', ''3'')]" "''a''"] by (simp add: card_insert_if)

text \<open>
  \<open>hash_get_keys\<close> fills its array exactly: it has one cell for each entry, the keys are
  different, and they are the keys that were added.
\<close>

theorem hash_keys_complete:
  "case hash_get_keys (fold (\<lambda>(k, v). hash_nadd k v) kvs new_hash) of
     None \<Rightarrow> kvs = []
   | Some keys \<Rightarrow> length keys = hash_get_entries (fold (\<lambda>(k, v). hash_nadd k v) kvs new_hash) \<and>
       distinct keys \<and> set keys = fst ` set kvs"
proof -
  let ?h = "fold (\<lambda>(k, v). hash_nadd k v) kvs new_hash"
  have ok: "hash_ok ?h"
    using hash.ok_ins_all [OF new_hash_ok(1), of kvs] by (simp add: hash.ins_all_def)
  have "hash_get ?h = map_of kvs"
    using hash.lookup_ins_all_emp [of kvs] by (auto simp: hash.ins_all_def)
  then have k: "fst ` set (concat (hs_table ?h)) = fst ` set kvs"
    using keys_dom [OF ok] by (simp add: dom_map_of)
  have "hash_get_keys ?h = (if concat (hs_table ?h) = [] then None else Some (map fst (concat (hs_table ?h))))"
    using hash_okD(3) [OF ok] by (simp only: hash_get_keys_def length_0_conv)
  then show ?thesis
    using k hash_okD(3) [OF ok] distinct_keys [OF ok]
    by (cases "concat (hs_table ?h) = []")
      (simp_all only: if_True if_False option.case hash_get_entries_def length_map set_map, simp)
qed

text \<open>
  \<open>hash_remove\<close> empties the whole chain of the key: every other key with the same place
  is lost too.
\<close>

theorem hash_remove_loses_chain:
  assumes "hash_ok h" and "hash_get h key \<noteq> None"
  shows "hash_get (hash_remove key h) k =
     (if genkey (hs_size h) k = genkey (hs_size h) key then None else hash_get h k)"
  using assms genkey_less [OF hash_okD(1) [OF assms(1)], of k] hash_okD(2) [OF assms(1)]
  by (simp add: hash_remove_def lookup_get hash_get_def bucket_def)

theorem hash_remove_loses_chain_witness:
  "hash_get (hash_nadd ''awd'' ''v'' (hash_nadd ''qy'' ''u'' new_hash)) ''awd'' = Some ''v'' \<and>
   hash_get (hash_remove ''qy'' (hash_nadd ''awd'' ''v'' (hash_nadd ''qy'' ''u'' new_hash))) ''awd'' = None"
proof -
  let ?h = "hash_nadd ''awd'' ''v'' (hash_nadd ''qy'' ''u'' new_hash)"
  have ok: "hash_ok ?h" by (intro hash_nadd_ok(1) new_hash_ok)
  have g: "hash_get ?h ''qy'' = Some ''u''" "hash_get ?h ''awd'' = Some ''v''"
    by (simp_all add: hash_nadd_ok new_hash_ok)
  have "hs_size ?h = 10240" by (simp add: hash_nadd_def place_def new_hash_def Let_def)
  moreover have "genkey 10240 ''awd'' = genkey 10240 ''qy''" by code_simp
  ultimately show ?thesis using hash_remove_loses_chain [OF ok, of "''qy''" "''awd''"] g by simp
qed

end
