(* ===== verification/Dyn_array.thy ===== *)
theory Dyn_array
  imports Siege_strings
begin

text \<open>
  The dynamic array of siege (\<open>siege-4.1.7/src/array.c\<close>).
  The cells of an array are the elements below \<open>length\<close>; a cell outside them is not read.
\<close>

section \<open>array.c\<close>

record 'a array_t =
  ar_index :: int
  ar_data :: "'a list"

definition new_array :: "'a array_t" where
  "new_array = \<lparr>ar_index = -1, ar_data = []\<rparr>"

text \<open>\<open>None\<close> is the null pointer, which is not stored.\<close>

definition array_npush :: "'a option \<Rightarrow> 'a array_t \<Rightarrow> 'a array_t" where
  "array_npush thing a = (case thing of None \<Rightarrow> a | Some t \<Rightarrow> a\<lparr>ar_data := ar_data a @ [t]\<rparr>)"

definition array_push :: "string option \<Rightarrow> string array_t \<Rightarrow> string array_t" where
  "array_push thing a = (case thing of None \<Rightarrow> a | Some t \<Rightarrow> array_npush (Some (c_str t)) a)"

definition cell :: "'a array_t \<Rightarrow> int \<Rightarrow> 'a res" where
  "cell a i = (if 0 \<le> i \<and> i < int (length (ar_data a)) then Inr (ar_data a ! nat i) else Inl Undefined)"

definition array_get :: "'a array_t \<Rightarrow> int \<Rightarrow> 'a option res" where
  "array_get a i =
     (if i > int (length (ar_data a)) then Inr None else rbind (cell a i) (\<lambda>x. Inr (Some x)))"

definition array_remove :: "int \<Rightarrow> 'a array_t \<Rightarrow> ('a option \<times> 'a array_t) res" where
  "array_remove i a =
     (if i > int (length (ar_data a)) then Inr (None, a)
      else rbind (cell a i) (\<lambda>x.
        Inr (Some x, a\<lparr>ar_data := take (nat i) (ar_data a) @ drop (nat i + 1) (ar_data a)\<rparr>)))"

definition array_pop :: "'a array_t \<Rightarrow> 'a option \<times> 'a array_t" where
  "array_pop a = (if ar_data a = [] then (None, a) else (Some (last (ar_data a)), a\<lparr>ar_data := butlast (ar_data a)\<rparr>))"

text \<open>The remainder of C: it has the sign of the dividend, and none by zero.\<close>

definition c_rem :: "int \<Rightarrow> int \<Rightarrow> int res" where
  "c_rem x y = (if y = 0 then Inl Undefined else Inr (sgn x * (\<bar>x\<bar> mod \<bar>y\<bar>)))"

definition array_next :: "'a array_t \<Rightarrow> ('a \<times> 'a array_t) res" where
  "array_next a =
     rbind (c_int (ar_index a + 1)) (\<lambda>i.
     rbind (c_rem i (int (length (ar_data a)))) (\<lambda>j.
     rbind (cell a j) (\<lambda>x. Inr (x, a\<lparr>ar_index := i\<rparr>))))"

definition array_prev :: "'a array_t \<Rightarrow> ('a \<times> 'a array_t) res" where
  "array_prev a =
     rbind (c_int (ar_index a - 1)) (\<lambda>i.
     rbind (c_rem (i + (int (length (ar_data a)) - 1)) (int (length (ar_data a)))) (\<lambda>j.
     rbind (cell a j) (\<lambda>x. Inr (x, a\<lparr>ar_index := i\<rparr>))))"

definition array_length :: "'a array_t \<Rightarrow> nat" where
  "array_length a = length (ar_data a)"

text \<open>The length computed for the string, and the string itself.\<close>

definition array_string_len :: "string array_t \<Rightarrow> nat" where
  "array_string_len a = sum_list (map (\<lambda>s. length s + 3) (ar_data a))"

fun array_items :: "string list \<Rightarrow> string" where
  "array_items [] = []"
| "array_items [s] = ''['' @ s @ '']''"
| "array_items (s # t # ss) = ''['' @ s @ ''],'' @ array_items (t # ss)"

definition array_to_string :: "string array_t \<Rightarrow> string" where
  "array_to_string a = (if ar_data a = [] then ''NULL'' else array_items (ar_data a))"

text \<open>Successive calls of \<open>array_next\<close>.\<close>

fun nexts :: "nat \<Rightarrow> 'a array_t \<Rightarrow> ('a list \<times> 'a array_t) res" where
  "nexts 0 a = Inr ([], a)"
| "nexts (Suc n) a = rbind (array_next a) (\<lambda>(x, a1). rbind (nexts n a1) (\<lambda>(xs, a2). Inr (x # xs, a2)))"

lemma c_rem_pos: "0 \<le> x \<Longrightarrow> 0 < y \<Longrightarrow> c_rem x y = Inr (x mod y)"
  by (cases "x = 0") (simp_all add: c_rem_def sgn_if)

lemma array_next_step:
  assumes "-1 \<le> ar_index a" and "ar_index a < 2 ^ 31 - 1" and "ar_data a \<noteq> []"
  shows "array_next a = Inr (ar_data a ! (nat (ar_index a + 1) mod length (ar_data a)), a\<lparr>ar_index := ar_index a + 1\<rparr>)"
proof -
  let ?i = "ar_index a + 1" and ?n = "length (ar_data a)"
  have n: "0 < int ?n" using assms(3) by simp
  have i: "c_int ?i = Inr ?i" using assms(1,2) by (simp add: c_int_def)
  have r: "c_rem ?i (int ?n) = Inr (?i mod int ?n)" using assms(1) n by (intro c_rem_pos) simp_all
  have "nat (?i mod int ?n) = nat ?i mod ?n" using assms(1) by (simp add: nat_mod_distrib)
  moreover have "0 \<le> ?i mod int ?n" "?i mod int ?n < int ?n" using n by simp_all
  ultimately have "cell a (?i mod int ?n) = Inr (ar_data a ! (nat ?i mod ?n))" by (simp add: cell_def)
  then show ?thesis by (simp only: array_next_def i r rbind.simps)
qed

lemma nexts_steps:
  "-1 \<le> ar_index a \<Longrightarrow> ar_index a + int n < 2 ^ 31 \<Longrightarrow> ar_data a \<noteq> [] \<Longrightarrow>
     nexts n a = Inr (map (\<lambda>k. ar_data a ! ((nat (ar_index a + 1) + k) mod length (ar_data a))) [0..<n],
       a\<lparr>ar_index := ar_index a + int n\<rparr>)"
proof (induction n arbitrary: a)
  case (Suc n)
  let ?a = "a\<lparr>ar_index := ar_index a + 1\<rparr>"
  have "nexts n ?a = Inr (map (\<lambda>k. ar_data a ! ((nat (ar_index a + 2) + k) mod length (ar_data a))) [0..<n],
      a\<lparr>ar_index := ar_index a + int (Suc n)\<rparr>)"
    using Suc.IH [of ?a] Suc.prems by (simp add: algebra_simps)
  moreover have "nat (ar_index a + 2) = Suc (nat (ar_index a + 1))" using Suc.prems(1) by simp
  ultimately show ?case
    using array_next_step [of a] Suc.prems
    by (simp add: upt_conv_Cons map_Suc_upt [symmetric] del: upt_Suc)
qed simp

text \<open>
  \<open>array_next\<close> goes round: from a new array, any number of calls yields the elements in
  order, again and again, until the index would overflow.
\<close>

theorem array_round_robin:
  assumes "ar_index a = -1" and "ar_data a \<noteq> []" and "n \<le> 2 ^ 31"
  shows "nexts n a = Inr (map (\<lambda>k. ar_data a ! (k mod length (ar_data a))) [0..<n], a\<lparr>ar_index := int n - 1\<rparr>)"
  using nexts_steps [of a n] assms by simp

theorem array_round_robin_witness:
  "nexts 3 (array_push (Some ''b'') (array_push (Some ''a'') new_array)) =
     Inr ([''a'', ''b'', ''a''], \<lparr>ar_index = 2, ar_data = [''a'', ''b'']\<rparr>)"
  using array_round_robin [of "array_push (Some ''b'') (array_push (Some ''a'') new_array)" 3]
  by (simp add: array_push_def array_npush_def new_array_def c_str_def upt_rec)

lemma length_array_items: "ss \<noteq> [] \<Longrightarrow> Suc (length (array_items ss)) = sum_list (map (\<lambda>s. length s + 3) ss)"
  by (induction ss rule: array_items.induct) auto

text \<open>
  The string of an array fits the block computed for it: the block has a byte more than
  the string with its final NUL.
\<close>

theorem array_string_fits:
  "ar_data a \<noteq> [] \<Longrightarrow> length (array_to_string a) + 1 = array_string_len a"
  by (simp add: array_to_string_def array_string_len_def length_array_items)

theorem array_string_fits_witness:
  "length (array_to_string (array_push (Some ''a'') new_array)) + 1 = array_string_len (array_push (Some ''a'') new_array)"
  by (rule array_string_fits) (simp add: array_push_def array_npush_def)

end
