(* ===== verification/Page_buffer.thy ===== *)
theory Page_buffer
  imports Siege_strings
begin

text \<open>
  The growing page buffer of siege (\<open>siege-4.1.7/src/page.c\<close>).  \<open>pg_buf\<close> is the block, so its
  length is the field \<open>size\<close>; a write outside it is undefined.
\<close>

record page =
  pg_buf :: string
  pg_len :: nat

definition pg_size :: "page \<Rightarrow> nat" where
  "pg_size p = length (pg_buf p)"

definition new_page :: "string \<Rightarrow> page" where
  "new_page str = \<lparr>pg_buf = str @ replicate 24576 NUL, pg_len = length str\<rparr>"

definition expand :: "nat \<Rightarrow> page \<Rightarrow> page" where
  "expand len p = p\<lparr>pg_buf := pg_buf p @ replicate len NUL\<rparr>"

text \<open>\<open>memcpy\<close> to a position, and the store of one byte.\<close>

definition store :: "nat \<Rightarrow> string \<Rightarrow> page \<Rightarrow> page res" where
  "store i bytes p =
     (if i + length bytes > pg_size p then Inl Undefined
      else Inr (p\<lparr>pg_buf := take i (pg_buf p) @ bytes @ drop (i + length bytes) (pg_buf p)\<rparr>))"

text \<open>The bytes \<open>str\<close> with their NUL are readable, more are not.\<close>

definition page_concat :: "string \<Rightarrow> int \<Rightarrow> page \<Rightarrow> page res" where
  "page_concat str len p =
     (if length str < 1 \<or> len < 0 then Inr p
      else if nat len > length str + 1 then Inl Undefined
      else
        (let n = nat len;
             p1 = (if pg_len p + n > pg_size p then expand (n + 1) p else p)
         in rbind (store (pg_len p1) (take n (str @ [NUL])) p1) (\<lambda>p2.
            store (pg_len p2 + n + 1) [NUL] (p2\<lparr>pg_len := pg_len p2 + n\<rparr>))))"

definition page_clear :: "page \<Rightarrow> page" where
  "page_clear p = p\<lparr>pg_len := 0, pg_buf := replicate (pg_size p) NUL\<rparr>"

definition page_value :: "page \<Rightarrow> string" where
  "page_value p = c_str (pg_buf p)"

section \<open>The invariant\<close>

text \<open>The text, and behind it NULs, of which there are at least two.\<close>

definition page_ok :: "string \<Rightarrow> page \<Rightarrow> bool" where
  "page_ok t p \<longleftrightarrow> no_nul t \<and> pg_len p = length t \<and>
     (\<exists>k \<ge> 2. pg_buf p = t @ replicate k NUL)"

lemma page_ok_size: "page_ok t p \<Longrightarrow> pg_len p + 2 \<le> pg_size p"
  by (auto simp: page_ok_def pg_size_def)

lemma new_page_ok: "no_nul str \<Longrightarrow> page_ok str (new_page str)"
  by (auto simp: page_ok_def new_page_def intro!: exI [of _ 24576])

lemma page_value_ok: "page_ok t p \<Longrightarrow> page_value p = t"
proof -
  have "c_str (replicate k NUL) = []" for k by (cases k) (simp_all add: c_str_def)
  moreover assume "page_ok t p"
  then obtain k where "no_nul t" "pg_buf p = t @ replicate k NUL" by (auto simp: page_ok_def)
  ultimately show ?thesis
    by (auto simp: page_value_def c_str_def no_nul_def takeWhile_append takeWhile_eq_all_conv)
qed

lemma page_clear_ok: "page_ok t p \<Longrightarrow> page_ok [] (page_clear p)"
  using page_ok_size [of t p] by (auto simp: page_ok_def page_clear_def no_nul_def)

lemma store_text:
  "length s \<le> k \<Longrightarrow> store (length t) s (p\<lparr>pg_buf := t @ replicate k NUL\<rparr>) =
     Inr (p\<lparr>pg_buf := (t @ s) @ replicate (k - length s) NUL\<rparr>)"
  by (simp add: store_def pg_size_def)

lemma store_nul:
  "store (length t + 1) [NUL] (p\<lparr>pg_buf := t @ replicate m NUL\<rparr>) =
     (if m < 2 then Inl Undefined else Inr (p\<lparr>pg_buf := t @ replicate m NUL\<rparr>))"
proof (cases "m < 2")
  case False
  then obtain j where "m = Suc (Suc j)" by (metis less_2_cases_iff not0_implies_Suc One_nat_def)
  then show ?thesis by (simp add: store_def pg_size_def)
qed (simp add: store_def pg_size_def)

text \<open>The block after the decision to grow.\<close>

lemma grown:
  assumes "page_ok t p"
  obtains k where "(if pg_len p + n > pg_size p then expand (n + 1) p else p) =
      p\<lparr>pg_buf := t @ replicate k NUL\<rparr>"
    "n \<le> k" "k < n + 2 \<longleftrightarrow> pg_size p = pg_len p + n \<or> pg_size p = pg_len p + n + 1"
proof -
  obtain k where k: "pg_buf p = t @ replicate k NUL" "2 \<le> k" and l: "pg_len p = length t"
    using assms by (auto simp: page_ok_def)
  show thesis
  proof (cases "pg_len p + n > pg_size p")
    case True
    have "pg_buf p @ replicate (n + 1) NUL = t @ replicate (k + (n + 1)) NUL"
      by (simp only: k(1) replicate_add append_assoc)
    then have "(if pg_len p + n > pg_size p then expand (n + 1) p else p) =
        p\<lparr>pg_buf := t @ replicate (k + (n + 1)) NUL\<rparr>"
      using True by (simp only: expand_def if_True)
    then show thesis using True k l by (intro that [of "k + (n + 1)"]) (auto simp: pg_size_def)
  next
    case False
    have "p = p\<lparr>pg_buf := t @ replicate k NUL\<rparr>" by (simp add: k(1) [symmetric])
    with False k l show thesis by (intro that [of k]) (auto simp: pg_size_def)
  qed
qed

lemma page_concat_cases:
  assumes ok: "page_ok t p" and str: "no_nul str" "str \<noteq> []"
  shows "page_concat str (int (length str)) p = Inl Undefined \<longleftrightarrow>
      pg_size p = pg_len p + length str \<or> pg_size p = pg_len p + length str + 1"
    and "page_concat str (int (length str)) p = Inr p' \<Longrightarrow> page_ok (t @ str) p'"
proof -
  let ?n = "length str"
  obtain k where g: "(if pg_len p + ?n > pg_size p then expand (?n + 1) p else p) =
      p\<lparr>pg_buf := t @ replicate k NUL\<rparr>"
    and k: "?n \<le> k" "k < ?n + 2 \<longleftrightarrow> pg_size p = pg_len p + ?n \<or> pg_size p = pg_len p + ?n + 1"
    using grown [OF ok] by metis
  have l: "pg_len p = length t" using ok by (simp add: page_ok_def)
  let ?q = "p\<lparr>pg_len := length (t @ str)\<rparr>"
  let ?p2 = "?q\<lparr>pg_buf := (t @ str) @ replicate (k - ?n) NUL\<rparr>"
  have swap: "p\<lparr>pg_buf := b, pg_len := l\<rparr> = p\<lparr>pg_len := l, pg_buf := b\<rparr>" for b l by simp
  have "page_concat str (int ?n) p =
      (let p1 = (if pg_len p + ?n > pg_size p then expand (?n + 1) p else p)
       in rbind (store (pg_len p1) str p1) (\<lambda>p2.
            store (pg_len p2 + ?n + 1) [NUL] (p2\<lparr>pg_len := pg_len p2 + ?n\<rparr>)))"
    using str(2) by (simp add: page_concat_def Let_def Suc_le_eq)
  also have "\<dots> = store (length (t @ str) + 1) [NUL] ?p2"
    unfolding g Let_def using store_text [OF k(1), of t p] l by (simp add: swap)
  also have "\<dots> = (if k - ?n < 2 then Inl Undefined else Inr ?p2)"
    by (rule store_nul)
  finally have c: "page_concat str (int ?n) p = (if k < ?n + 2 then Inl Undefined else Inr ?p2)"
    using k(1) by (simp add: less_diff_conv2)
  show "page_concat str (int ?n) p = Inl Undefined \<longleftrightarrow> pg_size p = pg_len p + ?n \<or> pg_size p = pg_len p + ?n + 1"
    by (simp add: c k(2) del: add_2_eq_Suc')
  show "page_ok (t @ str) p'" if "page_concat str (int ?n) p = Inr p'"
  proof -
    have "p' = ?p2" "2 \<le> k - ?n" using that by (auto simp: c split: if_splits)
    then show ?thesis using ok str(1) by (auto simp: page_ok_def no_nul_def)
  qed
qed

section \<open>Properties\<close>

text \<open>
  Appending a string to a page that holds a text yields the page that holds both, unless
  it writes outside the block; that happens exactly when the block would be filled to its last
  or last but one byte, which the test that grows it lets pass.
\<close>

theorem page_concat_overflow:
  assumes "page_ok t p" and "no_nul str" and "str \<noteq> []"
  shows "(page_concat str (int (length str)) p = Inl Undefined \<longleftrightarrow>
       pg_size p = pg_len p + length str \<or> pg_size p = pg_len p + length str + 1) \<and>
     (case page_concat str (int (length str)) p of
        Inr p' \<Rightarrow> page_ok (t @ str) p' \<and> page_value p' = t @ str
      | Inl e \<Rightarrow> True)"
  using page_concat_cases [OF assms] page_value_ok by (auto split: sum.split)

theorem page_concat_overflow_witness:
  "page_concat (replicate 24576 CHR ''x'') 24576 (new_page ''a'') = Inl Undefined"
proof -
  have "page_ok ''a'' (new_page ''a'')" "no_nul (replicate 24576 CHR ''x'')"
    by (rule new_page_ok) (simp_all add: no_nul_def)
  from page_concat_overflow [OF this] page_concat_cases(1) [OF this]
  show ?thesis by (simp add: pg_size_def new_page_def)
qed

end
