(* ===== verification/Base64.thy ===== *)
theory Base64
  imports Siege_strings
begin

text \<open>
  The base 64 encoding of siege (\<open>siege-4.1.7/src/base64.c\<close>).  Bytes are characters; the
  allocation is modelled by its size, which the result must fit.
\<close>

definition alphabet :: string where
  "alphabet = ''ABCDEFGHIJKLMNOPQRSTUVWXYZabcdefghijklmnopqrstuvwxyz0123456789+/''"

text \<open>\<open>pos\<close>, with \<open>None\<close> for -1.\<close>

definition pos :: "char \<Rightarrow> nat option" where
  "pos c = str_find [c] alphabet"

section \<open>Encoding\<close>

text \<open>One round of the loop: three bytes, of which the last \<open>missing\<close> are not there.\<close>

definition encode_block :: "nat \<Rightarrow> nat \<Rightarrow> string" where
  "encode_block c missing =
     [alphabet ! (c div 2 ^ 18 mod 64), alphabet ! (c div 2 ^ 12 mod 64),
      if missing > 1 then CHR ''='' else alphabet ! (c div 2 ^ 6 mod 64),
      if missing > 0 then CHR ''='' else alphabet ! (c mod 64)]"

fun base64_encode :: "string \<Rightarrow> string" where
  "base64_encode [] = []"
| "base64_encode [x] = encode_block (byte x * 2 ^ 16) 2"
| "base64_encode [x, y] = encode_block (byte x * 2 ^ 16 + byte y * 2 ^ 8) 1"
| "base64_encode (x # y # z # q) =
     encode_block (byte x * 2 ^ 16 + byte y * 2 ^ 8 + byte z) 0 @ base64_encode q"

definition encode_alloc :: "nat \<Rightarrow> nat" where
  "encode_alloc n = n * 4 div 3 + 4"

section \<open>Decoding\<close>

text \<open>The value of a later character of a block; \<open>=\<close> counts as nothing.\<close>

definition decode_char :: "char \<Rightarrow> (nat \<times> nat) option" where
  "decode_char c = (if c = CHR ''='' then Some (0, 1) else map_option (\<lambda>x. (x, 0)) (pos c))"

text \<open>\<open>None\<close> is the result -1, otherwise the bytes stored.\<close>

fun base64_decode :: "string \<Rightarrow> string option" where
  "base64_decode [] = Some []"
| "base64_decode (a # p) =
     (case pos a of
        None \<Rightarrow> Some []
      | Some x0 \<Rightarrow>
        (case pos (c_at p 0) of
           None \<Rightarrow> None
         | Some x1 \<Rightarrow>
           (case decode_char (c_at p 1) of
              None \<Rightarrow> None
            | Some (x2, d2) \<Rightarrow>
              (case decode_char (c_at p 2) of
                 None \<Rightarrow> None
               | Some (x3, d3) \<Rightarrow>
                   if d3 = 0 \<and> d2 > 0 then None
                   else
                     (let c = ((x0 * 64 + x1) * 64 + x2) * 64 + x3; fin = d2 + d3;
                          out = char_of (c div 2 ^ 16 mod 256) #
                            (if fin < 2 then [char_of (c div 2 ^ 8 mod 256)] else []) @
                            (if fin < 1 then [char_of (c mod 256)] else [])
                      in if fin > 0 then Some out
                         else map_option (\<lambda>r. out @ r) (base64_decode (drop 3 p)))))))"

declare base64_decode.simps(2) [simp del]

section \<open>Decoding undoes encoding\<close>

lemma alphabet_length: "length alphabet = 64"
  by (simp add: alphabet_def)

lemma alphabet_distinct: "distinct alphabet" "CHR ''='' \<notin> set alphabet"
  by (simp_all add: alphabet_def)

lemma pos_nth:
  assumes "i < 64"
  shows "pos (alphabet ! i) = Some i"
proof -
  have i: "i < length alphabet" using assms by (simp add: alphabet_length)
  have "alphabet ! i \<notin> set (take i alphabet)"
    using alphabet_distinct(1) i by (metis id_take_nth_drop distinct_append disjoint_iff list.set_intros(1))
  then have "str_find [alphabet ! i] (take i alphabet @ alphabet ! i # drop (Suc i) alphabet) = Some i"
    using str_find_char_append [of "alphabet ! i" "take i alphabet" "drop (Suc i) alphabet"] i by simp
  then show ?thesis using id_take_nth_drop [OF i] by (simp add: pos_def)
qed

lemma decode_nth: "i < 64 \<Longrightarrow> decode_char (alphabet ! i) = Some (i, 0)"
proof -
  assume i: "i < 64"
  then have "alphabet ! i \<in> set alphabet" by (simp add: alphabet_length)
  then have "alphabet ! i \<noteq> CHR ''=''" using alphabet_distinct(2) by auto
  with pos_nth [OF i] show ?thesis by (simp add: decode_char_def)
qed

lemma decode_pad: "decode_char CHR ''='' = Some (0, 1)"
  by (simp add: decode_char_def)

lemma sextet: "(c div (a * 64)) * 64 + c div a mod 64 = (c div a :: nat)"
  by (simp add: div_mult2_eq)

lemma sextets:
  fixes c :: nat
  assumes "c < 2 ^ 24"
  shows "(((c div 2 ^ 18 mod 64) * 64 + c div 2 ^ 12 mod 64) * 64 + c div 2 ^ 6 mod 64) * 64 + c mod 64 = c"
proof -
  have "c div 2 ^ 18 mod 64 = c div 2 ^ 18" using assms by (simp add: less_mult_imp_div_less)
  moreover have "c div 2 ^ 18 * 64 + c div 2 ^ 12 mod 64 = c div 2 ^ 12" using sextet [of c "2 ^ 12"] by simp
  moreover have "c div 2 ^ 12 * 64 + c div 2 ^ 6 mod 64 = c div 2 ^ 6" using sextet [of c "2 ^ 6"] by simp
  moreover have "c div 2 ^ 6 * 64 + c mod 64 = c" using sextet [of c 1] by simp
  ultimately show ?thesis by (simp only:)
qed

lemma decode_step:
  assumes "pos a = Some x0" and "pos b = Some x1" and "decode_char e = Some (x2, d2)"
    and "decode_char f = Some (x3, d3)" and "d3 = 0 \<longrightarrow> d2 = 0"
    and "c = ((x0 * 64 + x1) * 64 + x2) * 64 + x3"
  shows "base64_decode (a # b # e # f # r) =
     (let out = char_of (c div 2 ^ 16 mod 256) # (if d2 + d3 < 2 then [char_of (c div 2 ^ 8 mod 256)] else []) @
            (if d2 + d3 < 1 then [char_of (c mod 256)] else [])
      in if d2 + d3 > 0 then Some out else map_option (\<lambda>s. out @ s) (base64_decode r))"
  using assms by (simp add: base64_decode.simps(2) c_at_def Let_def)

lemma decode_block:
  assumes "c < 2 ^ 24"
  shows "base64_decode (encode_block c 0 @ r) =
      map_option ((@) [char_of (c div 2 ^ 16 mod 256), char_of (c div 2 ^ 8 mod 256), char_of (c mod 256)])
        (base64_decode r)"
    and "c mod 64 = 0 \<Longrightarrow> base64_decode (encode_block c 1) =
      Some [char_of (c div 2 ^ 16 mod 256), char_of (c div 2 ^ 8 mod 256)]"
    and "c mod 64 = 0 \<Longrightarrow> c div 2 ^ 6 mod 64 = 0 \<Longrightarrow>
      base64_decode (encode_block c 2) = Some [char_of (c div 2 ^ 16 mod 256)]"
proof -
  note s = sextets [OF assms]
  have i: "c div 2 ^ 18 mod 64 < 64" "c div 2 ^ 12 mod 64 < 64" "c div 2 ^ 6 mod 64 < 64" "c mod 64 < 64"
    by simp_all
  note p = pos_nth [OF i(1)] pos_nth [OF i(2)]
  show "base64_decode (encode_block c 0 @ r) =
      map_option ((@) [char_of (c div 2 ^ 16 mod 256), char_of (c div 2 ^ 8 mod 256), char_of (c mod 256)])
        (base64_decode r)"
    using decode_step [OF p decode_nth [OF i(3)] decode_nth [OF i(4)] _ s [symmetric], of r]
    by (simp add: encode_block_def Let_def)
  show "base64_decode (encode_block c 1) = Some [char_of (c div 2 ^ 16 mod 256), char_of (c div 2 ^ 8 mod 256)]"
    if "c mod 64 = 0"
    using decode_step [OF p decode_nth [OF i(3)] decode_pad _ s [unfolded that, symmetric], of "[]"]
    by (simp add: encode_block_def Let_def)
  show "base64_decode (encode_block c 2) = Some [char_of (c div 2 ^ 16 mod 256)]"
    if "c mod 64 = 0" "c div 2 ^ 6 mod 64 = 0"
    using decode_step [OF p decode_pad decode_pad _ s [unfolded that, symmetric], of "[]"]
    by (simp add: encode_block_def Let_def)
qed

lemma octets:
  fixes x y z :: nat
  assumes "x < 256" "y < 256" "z < 256"
  defines "c \<equiv> x * 2 ^ 16 + y * 2 ^ 8 + z"
  shows "c < 2 ^ 24" "c div 2 ^ 16 mod 256 = x" "c div 2 ^ 8 mod 256 = y" "c mod 256 = z"
proof -
  have c: "c = z + 256 * (y + 256 * x)" by (simp add: c_def)
  have d: "c div 2 ^ 8 = y + 256 * x" using assms(3) by (simp add: c)
  have "c div 2 ^ 16 = c div 2 ^ 8 div 256" by (simp add: div_mult2_eq [symmetric])
  then show "c div 2 ^ 16 mod 256 = x" using assms(1,2) unfolding d by simp
  show "c div 2 ^ 8 mod 256 = y" using assms(2) unfolding d by simp
  show "c mod 256 = z" using assms(3) by (simp only: c mod_mult_self2 mod_less)
  show "c < 2 ^ 24" using assms(1-3) by (simp add: c)
qed

lemma decode_encode: "base64_decode (base64_encode s) = Some s"
proof (induction s rule: base64_encode.induct)
  case (2 x)
  let ?c = "byte x * 2 ^ 16"
  have o: "?c < 2 ^ 24" "?c div 2 ^ 16 mod 256 = byte x"
    using octets [OF byte_less_256 [of x], of 0 0] by simp_all
  have "?c = 64 * (64 * (byte x * 16))" by simp
  then have m: "?c mod 64 = 0" "?c div 2 ^ 6 mod 64 = 0"
    by (simp only: mod_mult_self1_is_0, simp)
  show ?case unfolding base64_encode.simps decode_block(3) [OF o(1) m] o(2) by simp
next
  case (3 x y)
  let ?c = "byte x * 2 ^ 16 + byte y * 2 ^ 8"
  have o: "?c < 2 ^ 24" "?c div 2 ^ 16 mod 256 = byte x" "?c div 2 ^ 8 mod 256 = byte y"
    using octets [OF byte_less_256 [of x] byte_less_256 [of y], of 0] by simp_all
  have "?c = 64 * (byte x * 2 ^ 10 + byte y * 4)" by simp
  then have m: "?c mod 64 = 0" by (simp only: mod_mult_self1_is_0)
  show ?case unfolding base64_encode.simps decode_block(2) [OF o(1) m] o(2,3) by simp
next
  case (4 x y z q)
  note o = octets [OF byte_less_256 [of x] byte_less_256 [of y] byte_less_256 [of z]]
  show ?case unfolding base64_encode.simps decode_block(1) [OF o(1)] o(2-4) 4 by simp
qed simp

interpretation base64: codec base64_encode base64_decode "\<lambda>_. True"
  by unfold_locales (simp add: decode_encode)

section \<open>Properties\<close>

text \<open>C20: decoding the encoding of any bytes, zero bytes included, gives the bytes back.\<close>

theorem base64_roundtrip: "base64_decode (base64_encode s) = Some s"
  by (rule base64.decode_encode) simp

text \<open>
  The encoding and its final NUL fit the block allocated for them, and its length is four
  bytes for every three begun.
\<close>

theorem base64_fits:
  "length (base64_encode s) + 1 \<le> encode_alloc (length s) \<and>
   length (base64_encode s) = 4 * ((length s + 2) div 3)"
proof -
  have "(n + 3 + 2) div 3 = (n + 2) div 3 + 1" for n :: nat by presburger
  then have "length (base64_encode s) = 4 * ((length s + 2) div 3)"
    by (induction s rule: base64_encode.induct) (simp_all add: encode_block_def)
  moreover have "4 * ((n + 2) div 3) + 1 \<le> n * 4 div 3 + 4" for n :: nat by presburger
  ultimately show ?thesis by (simp add: encode_alloc_def)
qed

end
