(* ===== verification/Url.thy ===== *)
theory Url
  imports Siege_strings
begin

text \<open>
  URLs of siege: \<open>siege-4.1.7/src/url.c\<close> and the content types of \<open>load.c\<close>.  The block
  behind \<open>this->url\<close> is modelled with all its bytes, the zeros at its end among them, and
  the pointer \<open>__url_parse\<close> passes on is an index into it; a string that has no NUL in the
  block is undefined.  The other fields are strings of their own, \<open>None\<close> for \<open>NULL\<close>.
\<close>

section \<open>Escaping\<close>

datatype METHOD = NOMETHOD | HEAD | GET | POST | PUT | DELETE | TRACE | OPTIONS | CONNECT | PATCH

datatype SCHEME = UNSUPPORTED | HTTP | HTTPS | FTP | PROXY

text \<open>The table of character classes: the characters with the flag U, and those with R.\<close>

definition URL_UNSAFE_CHAR :: "char \<Rightarrow> bool" where
  "URL_UNSAFE_CHAR c \<longleftrightarrow> byte c \<le> 32 \<or> byte c \<ge> 123 \<or>
     c \<in> {DQ, CHR ''#'', CHR ''%'', CHR '':'', CHR ''<'', CHR ''>'', CHR ''@'', CHR ''['',
       CHR 0x5C, CHR '']'', CHR ''^'', CHR 0x60}"

definition URL_RESERVED_CHAR :: "char \<Rightarrow> bool" where
  "URL_RESERVED_CHAR c \<longleftrightarrow> c \<in> {CHR ''#'', CHR ''&'', CHR ''+'', CHR ''/'', CHR '':'', CHR '';'',
     CHR ''='', CHR ''?'', CHR ''@'', CHR ''['', CHR '']''}"

datatype copy_method = CM_DECODE | CM_ENCODE | CM_PASSTHROUGH

fun decide_copy_method :: "string \<Rightarrow> copy_method" where
  "decide_copy_method p =
     (if c_at p 0 = CHR ''%'' then
        (if ISXDIGIT (c_at p 1) \<and> ISXDIGIT (c_at p 2) then
           (let preempt = char_of (X2DIGITS_TO_NUM (c_at p 1) (c_at p 2)) in
            if URL_UNSAFE_CHAR preempt \<or> URL_RESERVED_CHAR preempt then CM_PASSTHROUGH
            else CM_DECODE)
         else CM_ENCODE)
      else if URL_UNSAFE_CHAR (c_at p 0) \<and> \<not> URL_RESERVED_CHAR (c_at p 0) then CM_ENCODE
      else CM_PASSTHROUGH)"

declare decide_copy_method.simps [simp del]

text \<open>
  \<open>__url_has_method\<close> returns the index of the first method found, which is not its number in
  the enumeration: \<open> GET\<close> gives 0.
\<close>

definition method_words :: "string list" where
  "method_words = ['' GET'', '' HEAD'', '' POST'', '' PUT'', '' TRACE'', '' DELETE'', '' OPTIONS'',
     '' CONNECT'', '' PATCH'']"

fun find_method :: "string \<Rightarrow> string list \<Rightarrow> METHOD list \<Rightarrow> METHOD" where
  "find_method url (w # ws) (m # ms) = (if str_contains w url then m else find_method url ws ms)"
| "find_method url _ _ = NOMETHOD"

definition url_has_method :: "string \<Rightarrow> METHOD" where
  "url_has_method url =
     find_method url method_words [NOMETHOD, HEAD, GET, POST, PUT, DELETE, TRACE, OPTIONS, CONNECT]"

text \<open>The first pass: the numbers of characters to encode and to decode.\<close>

fun count_pass :: "string \<Rightarrow> nat \<times> nat" where
  "count_pass [] = (0, 0)"
| "count_pass (c # p) =
     (let (enc, dec) = count_pass p in
      case decide_copy_method (c # p) of
        CM_ENCODE \<Rightarrow> (enc + 1, dec)
      | CM_DECODE \<Rightarrow> (enc, dec + 1)
      | CM_PASSTHROUGH \<Rightarrow> (enc, dec))"

text \<open>The second pass: what is written behind the host.\<close>

fun copy_pass :: "string \<Rightarrow> string" where
  "copy_pass [] = []"
| "copy_pass (c # p) =
     (case decide_copy_method (c # p) of
        CM_ENCODE \<Rightarrow> CHR ''%'' # XNUM_TO_DIGIT (byte c div 16) # XNUM_TO_DIGIT (byte c mod 16) # copy_pass p
      | CM_DECODE \<Rightarrow> char_of (X2DIGITS_TO_NUM (c_at p 0) (c_at p 1)) # copy_pass (drop 2 p)
      | CM_PASSTHROUGH \<Rightarrow> c # copy_pass p)"

text \<open>The position behind the first slash after \<open>//\<close>, or after the start.\<close>

definition path_start :: "string \<Rightarrow> nat option" where
  "path_start s =
     (let h = (case str_find ''//'' s of Some i \<Rightarrow> i + 2 | None \<Rightarrow> 0)
      in map_option (\<lambda>j. h + j + 1) (str_find ''/'' (drop h s)))"

text \<open>The size of the new string without its NUL, an \<open>int\<close>.\<close>

definition escape_newlen :: "string \<Rightarrow> nat \<Rightarrow> int" where
  "escape_newlen s n = (let (enc, dec) = count_pass (drop n s) in int (length s) + 2 * (int enc - int dec))"

definition url_escape :: "string \<Rightarrow> string" where
  "url_escape s =
     (if url_has_method s \<noteq> NOMETHOD then s
      else (case path_start s of
          None \<Rightarrow> s
        | Some n \<Rightarrow>
            (if count_pass (drop n s) = (0, 0) then s
             else take n s @ copy_pass (drop n s))))"

subsection \<open>The two passes agree\<close>

lemmas url_char_simps = URL_UNSAFE_CHAR_def URL_RESERVED_CHAR_def

lemma hex_char: "ISXDIGIT c \<Longrightarrow> \<not> URL_UNSAFE_CHAR c \<and> \<not> URL_RESERVED_CHAR c"
  by (auto simp: isxdigit_macro is_digit_def URL_UNSAFE_CHAR_def URL_RESERVED_CHAR_def byte_def)

lemma percent_unsafe: "URL_UNSAFE_CHAR CHR ''%'' \<and> \<not> URL_RESERVED_CHAR CHR ''%''"
  by (simp add: url_char_simps)

lemma hex_not_NUL [simp]: "\<not> ISXDIGIT NUL"
  by (simp add: isxdigit_macro is_digit_def byte_def)

lemma decide_hex: "ISXDIGIT c \<Longrightarrow> decide_copy_method (c # p) = CM_PASSTHROUGH"
  using hex_char [of c] percent_unsafe by (auto simp: decide_copy_method.simps c_at_def)

lemma hex_pair:
  assumes "ISXDIGIT (c_at (c # p) 1)" "ISXDIGIT (c_at (c # p) 2)"
  obtains x y q where "p = x # y # q" "ISXDIGIT x" "ISXDIGIT y"
proof (cases p)
  case Nil
  with assms show ?thesis by (simp add: c_at_def)
next
  case (Cons x p')
  with assms that show ?thesis by (cases p') (auto simp: c_at_def)
qed

lemma decide_decode:
  assumes "decide_copy_method (c # p) = CM_DECODE"
  obtains x y q where "p = x # y # q" "c = CHR ''%''" "ISXDIGIT x" "ISXDIGIT y"
    "\<not> URL_UNSAFE_CHAR (char_of (X2DIGITS_TO_NUM x y))"
    "\<not> URL_RESERVED_CHAR (char_of (X2DIGITS_TO_NUM x y))"
proof -
  from assms have h: "c = CHR ''%''" "ISXDIGIT (c_at (c # p) 1)" "ISXDIGIT (c_at (c # p) 2)"
    by (auto simp: decide_copy_method.simps c_at_def split: if_splits)
  from hex_pair [OF h(2,3)] obtain x y q where "p = x # y # q" "ISXDIGIT x" "ISXDIGIT y" .
  with assms h show ?thesis
    by (intro that [of x y q]) (auto simp: decide_copy_method.simps c_at_def Let_def split: if_splits)
qed

lemma decide_pass_percent:
  assumes "decide_copy_method (CHR ''%'' # p) = CM_PASSTHROUGH"
  obtains x y q where "p = x # y # q" "ISXDIGIT x" "ISXDIGIT y"
    "URL_UNSAFE_CHAR (char_of (X2DIGITS_TO_NUM x y)) \<or> URL_RESERVED_CHAR (char_of (X2DIGITS_TO_NUM x y))"
proof -
  from assms have h: "ISXDIGIT (c_at (CHR ''%'' # p) 1)" "ISXDIGIT (c_at (CHR ''%'' # p) 2)"
    by (auto simp: decide_copy_method.simps c_at_def split: if_splits)
  from hex_pair [OF this] obtain x y q where "p = x # y # q" "ISXDIGIT x" "ISXDIGIT y" .
  with assms show ?thesis
    by (intro that [of x y q]) (auto simp: decide_copy_method.simps c_at_def Let_def split: if_splits)
qed

lemma decide_encode:
  "decide_copy_method (c # p) = CM_ENCODE \<Longrightarrow> URL_UNSAFE_CHAR c"
  using percent_unsafe by (auto simp: decide_copy_method.simps c_at_def Let_def split: if_splits)

lemma decide_pass: "c \<noteq> CHR ''%'' \<Longrightarrow>
    decide_copy_method (c # p) = CM_PASSTHROUGH \<longleftrightarrow> \<not> URL_UNSAFE_CHAR c \<or> URL_RESERVED_CHAR c"
  by (auto simp: decide_copy_method.simps c_at_def)

lemmas decide_passI = decide_pass [THEN iffD2]

lemma copy_pass_hex: "ISXDIGIT x \<Longrightarrow> copy_pass (x # p) = x # copy_pass p"
  by (simp add: decide_hex)

lemma count_pass_hex: "ISXDIGIT x \<Longrightarrow> count_pass (x # p) = count_pass p"
  by (simp add: decide_hex split: prod.splits)

lemma length_copy_pass:
  "int (length (copy_pass p)) = int (length p) + 2 * (int (fst (count_pass p)) - int (snd (count_pass p)))"
proof (induction p rule: copy_pass.induct)
  case (2 c p)
  show ?case
  proof (cases "decide_copy_method (c # p)")
    case CM_DECODE
    then obtain x y q where q: "p = x # y # q" "ISXDIGIT x" "ISXDIGIT y" by (rule decide_decode)
    then have "count_pass p = count_pass q" by (simp only: count_pass_hex)
    with 2(1) [OF CM_DECODE] q(1) CM_DECODE show ?thesis
      by (simp del: count_pass.simps(2) add: count_pass.simps(2) [of c] split: prod.splits)
  next
    case CM_ENCODE
    with 2(2) show ?thesis by (simp split: prod.splits)
  next
    case CM_PASSTHROUGH
    with 2(3) show ?thesis by (simp split: prod.splits)
  qed
qed simp

lemma digit_table:
  "list_all (\<lambda>n. ISXDIGIT (XNUM_TO_DIGIT n) \<and> XDIGIT_TO_NUM (XNUM_TO_DIGIT n) = n) [0..<16]"
  by (simp add: isxdigit_macro upt_rec XNUM_TO_DIGIT_def XDIGIT_TO_NUM_def is_digit_def eval_simps)

lemma digit_num: "n < 16 \<Longrightarrow> ISXDIGIT (XNUM_TO_DIGIT n) \<and> XDIGIT_TO_NUM (XNUM_TO_DIGIT n) = n"
  using digit_table by (simp add: list_all_iff)

lemma encoded_digits:
  "ISXDIGIT (XNUM_TO_DIGIT (byte c div 16))" "ISXDIGIT (XNUM_TO_DIGIT (byte c mod 16))"
  "char_of (X2DIGITS_TO_NUM (XNUM_TO_DIGIT (byte c div 16)) (XNUM_TO_DIGIT (byte c mod 16))) = c"
  using byte_less_256 [of c] digit_num [of "byte c div 16"] digit_num [of "byte c mod 16"]
  by (auto simp: X2DIGITS_TO_NUM_def div_mult_mod_eq)

text \<open>Nothing is left to do in what the second pass wrote.\<close>

lemma count_pass_percent:
  "ISXDIGIT x \<Longrightarrow> ISXDIGIT y \<Longrightarrow>
     URL_UNSAFE_CHAR (char_of (X2DIGITS_TO_NUM x y)) \<or> URL_RESERVED_CHAR (char_of (X2DIGITS_TO_NUM x y)) \<Longrightarrow>
     count_pass (CHR ''%'' # x # y # q) = count_pass q"
  by (subst count_pass.simps)
    (simp add: count_pass_hex decide_copy_method.simps c_at_def Let_def del: count_pass.simps split: prod.splits)

lemma count_copy_pass: "count_pass (copy_pass p) = (0, 0)"
proof (induction p rule: copy_pass.induct)
  case (2 c p)
  show ?case
  proof (cases "decide_copy_method (c # p)")
    case CM_DECODE
    then obtain x y q where q: "p = x # y # q"
        "\<not> URL_UNSAFE_CHAR (char_of (X2DIGITS_TO_NUM x y))" by (rule decide_decode)
    with percent_unsafe have "char_of (X2DIGITS_TO_NUM x y) \<noteq> CHR ''%''" by metis
    with 2(1) [OF CM_DECODE] q CM_DECODE show ?thesis by (simp add: c_at_def decide_passI)
  next
    case CM_ENCODE
    with 2(2) [OF CM_ENCODE] decide_encode [OF CM_ENCODE] encoded_digits [of c] show ?thesis
      by (simp add: count_pass_percent del: count_pass.simps)
  next
    case CM_PASSTHROUGH
    show ?thesis
    proof (cases "c = CHR ''%''")
      case True
      with CM_PASSTHROUGH obtain x y q where q: "p = x # y # q" "ISXDIGIT x" "ISXDIGIT y"
        "URL_UNSAFE_CHAR (char_of (X2DIGITS_TO_NUM x y)) \<or> URL_RESERVED_CHAR (char_of (X2DIGITS_TO_NUM x y))"
        using decide_pass_percent by metis
      with 2(3) [OF CM_PASSTHROUGH] have "count_pass (copy_pass q) = (0, 0)"
        by (simp add: copy_pass_hex count_pass_hex del: copy_pass.simps(2) count_pass.simps(2))
      moreover have "copy_pass (c # p) = CHR ''%'' # x # y # copy_pass q"
        using CM_PASSTHROUGH True q
        by (subst copy_pass.simps) (simp add: copy_pass_hex del: copy_pass.simps)
      ultimately show ?thesis using q by (simp add: count_pass_percent del: count_pass.simps)
    next
      case False
      have "copy_pass (c # p) = c # copy_pass p" using CM_PASSTHROUGH by simp
      with False CM_PASSTHROUGH 2(3) [OF CM_PASSTHROUGH] show ?thesis
        by (simp add: decide_pass decide_passI del: copy_pass.simps)
    qed
  qed
qed simp

text \<open>No slash comes up in the path, so that the host is found again.\<close>

lemma copy_pass_hd: "copy_pass p \<noteq> [] \<Longrightarrow> hd (copy_pass p) = CHR ''/'' \<Longrightarrow> p \<noteq> [] \<and> hd p = CHR ''/''"
proof (cases p)
  case (Cons c q)
  assume a: "copy_pass p \<noteq> []" "hd (copy_pass p) = CHR ''/''"
  show ?thesis
  proof (cases "decide_copy_method (c # q)")
    case CM_DECODE
    then obtain x y r where "q = x # y # r"
        "\<not> URL_RESERVED_CHAR (char_of (X2DIGITS_TO_NUM x y))" by (rule decide_decode)
    with a Cons CM_DECODE show ?thesis by (simp add: c_at_def url_char_simps)
  qed (use a Cons in auto)
qed simp

lemma slash_classes: "URL_RESERVED_CHAR CHR ''/'' \<and> \<not> URL_UNSAFE_CHAR CHR ''/''"
  by (simp add: url_char_simps byte_def)

lemma copy_pass_slashes: "no_double_slash p \<Longrightarrow> no_double_slash (copy_pass p)"
proof (induction p rule: copy_pass.induct)
  case (2 c p)
  show ?case
  proof (cases "decide_copy_method (c # p)")
    case CM_DECODE
    then obtain x y q where q: "p = x # y # q"
        "\<not> URL_RESERVED_CHAR (char_of (X2DIGITS_TO_NUM x y))" by (rule decide_decode)
    with slash_classes have "char_of (X2DIGITS_TO_NUM x y) \<noteq> CHR ''/''" by metis
    with 2(1) [OF CM_DECODE] 2(4) q CM_DECODE show ?thesis by (simp add: c_at_def)
  next
    case CM_ENCODE
    have "XNUM_TO_DIGIT (byte c mod 16) \<noteq> CHR ''/''" "XNUM_TO_DIGIT (byte c div 16) \<noteq> CHR ''/''"
      using encoded_digits(1,2) [of c] hex_char slash_classes by metis+
    with 2(2) [OF CM_ENCODE] 2(4) CM_ENCODE show ?thesis by simp
  next
    case CM_PASSTHROUGH
    with 2(3) [OF CM_PASSTHROUGH] 2(4) copy_pass_hd [of p] show ?thesis by auto
  qed
qed simp

lemma str_find_slashes: "str_find ''//'' s = None \<longleftrightarrow> no_double_slash s"
proof (induction s)
  case (Cons x xs)
  then show ?case by (cases xs) auto
qed simp

lemma no_double_slash_append:
  "CHR ''/'' \<notin> set a \<Longrightarrow> no_double_slash (a @ s) \<longleftrightarrow> no_double_slash s"
  by (induction a) auto

lemma str_find_take: "str_find p s = Some i \<Longrightarrow> i + length p \<le> k \<Longrightarrow> str_find p (take k s) = Some i"
proof (induction s arbitrary: i k)
  case (Cons x s)
  show ?case
  proof (cases "prefix p (x # s)")
    case True
    with Cons.prems have "prefix p (take k (x # s))"
      by (auto simp: prefix_def)
    with True Cons.prems show ?thesis by (cases "take k (x # s)") auto
  next
    case False
    with Cons.prems obtain j where j: "str_find p s = Some j" "i = Suc j" by auto
    with Cons.prems obtain k' where k: "k = Suc k'" by (cases k) auto
    have "\<not> prefix p (take k (x # s))" using False by (metis append_take_drop_id prefix_prefix)
    with Cons.IH [OF j(1), of k'] j k Cons.prems show ?thesis by simp
  qed
qed (auto split: if_splits)

lemma str_find_cut: "str_find p s = Some i \<Longrightarrow> i + length p \<le> k \<Longrightarrow> str_find p (take k s @ t) = Some i"
  by (rule str_find_append) (rule str_find_take)

lemma path_start_copy:
  assumes "path_start s = Some n"
  shows "path_start (take n s @ copy_pass (drop n s)) = Some n"
proof (cases "str_find ''//'' s")
  case (Some i)
  with assms obtain j where j: "str_find ''/'' (drop (i + 2) s) = Some j" "n = i + 2 + j + 1"
    by (auto simp: path_start_def Let_def)
  let ?s = "take n s @ copy_pass (drop n s)"
  have n: "n \<le> length s" "i + 2 \<le> n" using str_find_bound [OF j(1)] j(2) by auto
  have "str_find ''//'' ?s = Some i" using str_find_cut [OF Some, of n] j(2) by simp
  moreover have "drop (i + 2) ?s = take (j + 1) (drop (i + 2) s) @ copy_pass (drop n s)"
    using n j(2) by (simp add: drop_take)
  then have "str_find ''/'' (drop (i + 2) ?s) = Some j" using str_find_cut [OF j(1), of "j + 1"] by simp
  ultimately show ?thesis using j(2) by (simp add: path_start_def)
next
  case None
  with assms obtain j where j: "str_find ''/'' s = Some j" "n = j + 1"
    by (auto simp: path_start_def)
  let ?s = "take n s @ copy_pass (drop n s)"
  have a: "CHR ''/'' \<notin> set (take j s)" "take n s = take j s @ ''/''" "s = take j s @ CHR ''/'' # drop n s"
    using str_find_char_Some [OF j(1)] j(2)
      id_take_nth_drop [of j s]
    by (auto simp: take_Suc_conv_app_nth)
  have "no_double_slash (CHR ''/'' # drop n s)"
    using None a(3) no_double_slash_append [OF a(1)] by (metis str_find_slashes)
  then have "no_double_slash (copy_pass (CHR ''/'' # drop n s))" by (rule copy_pass_slashes)
  moreover have "decide_copy_method (CHR ''/'' # drop n s) = CM_PASSTHROUGH"
    using slash_classes by (simp add: decide_passI)
  ultimately have "str_find ''//'' ?s = None"
    using no_double_slash_append [OF a(1)] by (simp add: a(2) str_find_slashes del: no_double_slash.simps)
  moreover have "str_find ''/'' ?s = Some j" using str_find_cut [OF j(1), of n] j(2) by simp
  ultimately show ?thesis using j(2) by (simp add: path_start_def)
qed

text \<open>Escaping a URL twice is escaping it once.\<close>

theorem url_escape_idempotent: "url_escape (url_escape s) = url_escape s"
proof (cases "url_has_method s = NOMETHOD \<and> path_start s \<noteq> None")
  case True
  then obtain n where n: "path_start s = Some n" by auto
  have "n \<le> length s" using n str_find_bound [of "''/''"]
    by (force simp: path_start_def Let_def split: option.splits)
  then show ?thesis
    using True n path_start_copy [OF n] count_copy_pass [of "drop n s"] by (simp add: url_escape_def)
qed (auto simp: url_escape_def)

text \<open>The escaped URL and its NUL fill the new block exactly, for which the passes over the path agree on it.\<close>

theorem url_escape_fits:
  assumes "path_start s = Some n"
  shows "int (length (take n s @ copy_pass (drop n s))) = escape_newlen s n"
proof -
  have "n \<le> length s" using assms str_find_bound [of "''/''"]
    by (force simp: path_start_def Let_def split: option.splits)
  then show ?thesis by (simp add: escape_newlen_def length_copy_pass split: prod.splits)
qed

theorem url_escape_fits_witness:
  "path_start ''http://h/a b'' = Some 9 \<and>
   int (length (take 9 ''http://h/a b'' @ copy_pass (drop 9 ''http://h/a b''))) = escape_newlen ''http://h/a b'' 9"
proof -
  have p: "path_start ''http://h/a b'' = Some 9" by (simp add: path_start_def)
  then show ?thesis using url_escape_fits [OF p] by blast
qed

section \<open>Content types\<close>

text \<open>The rows of \<open>tmap\<close> (\<open>load.c\<close>): extension, whether text, type.\<close>

definition tmap :: "(string \<times> bool \<times> string) list" where
  "tmap = [(''default'', True, ''application/x-www-form-urlencoded''),
     (''ai'', False, ''application/postscript''),
     (''aif'', False, ''audio/x-aiff''),
     (''aifc'', False, ''audio/x-aiff''),
     (''aiff'', False, ''audio/x-aiff''),
     (''asc'', True, ''text/plain''),
     (''au'', False, ''audio/basic''),
     (''avi'', False, ''video/x-msvideo''),
     (''bcpio'', False, ''application/x-bcpio''),
     (''bin'', False, ''application/octet-stream''),
     (''c'', True, ''text/plain''),
     (''cc'', True, ''text/plain''),
     (''ccad'', False, ''application/clariscad''),
     (''cdf'', False, ''application/x-netcdf''),
     (''class'', False, ''application/octet-stream''),
     (''cpio'', False, ''application/x-cpio''),
     (''cpt'', False, ''application/mac-compactpro''),
     (''csh'', False, ''application/x-csh''),
     (''css'', True, ''text/css''),
     (''csv'', True, ''text/csv''),
     (''dcr'', False, ''application/x-director''),
     (''dir'', False, ''application/x-director''),
     (''dms'', False, ''application/octet-stream''),
     (''doc'', False, ''application/msword''),
     (''drw'', False, ''application/drafting''),
     (''dvi'', False, ''application/x-dvi''),
     (''dwg'', False, ''application/acad''),
     (''dxf'', False, ''application/dxf''),
     (''dxr'', False, ''application/x-director''),
     (''eps'', False, ''application/postscript''),
     (''etx'', True, ''text/x-setext''),
     (''exe'', False, ''application/octet-stream''),
     (''ez'', False, ''application/andrew-inset''),
     (''f'', True, ''text/plain''),
     (''f90'', True, ''text/plain''),
     (''fli'', False, ''video/x-fli''),
     (''gif'', False, ''image/gif''),
     (''gtar'', False, ''application/x-gtar''),
     (''gz'', False, ''application/x-gzip''),
     (''h'', True, ''text/plain''),
     (''hdf'', False, ''application/x-hdf''),
     (''hh'', True, ''text/plain''),
     (''hqx'', False, ''application/mac-binhex40''),
     (''htm'', True, ''text/html''),
     (''html'', True, ''text/html''),
     (''ice'', False, ''x-conference/x-cooltalk''),
     (''ico'', False, ''image/x-icon''),
     (''ief'', False, ''image/ief''),
     (''iges'', False, ''model/iges''),
     (''igs'', False, ''model/iges''),
     (''ips'', False, ''application/x-ipscript''),
     (''ipx'', False, ''application/x-ipix''),
     (''jpe'', False, ''image/jpeg''),
     (''jpeg'', False, ''image/jpeg''),
     (''jpg'', False, ''image/jpeg''),
     (''js'', False, ''application/x-javascript''),
     (''json'', False, ''application/json''),
     (''kar'', False, ''audio/midi''),
     (''latex'', False, ''application/x-latex''),
     (''lha'', False, ''application/octet-stream''),
     (''lsp'', False, ''application/x-lisp''),
     (''lzh'', False, ''application/octet-stream''),
     (''m'', True, ''text/plain''),
     (''man'', False, ''application/x-troff-man''),
     (''md'', True, ''text/x-markdown''),
     (''me'', False, ''application/x-troff-me''),
     (''mesh'', False, ''model/mesh''),
     (''mid'', False, ''audio/midi''),
     (''midi'', False, ''audio/midi''),
     (''mif'', False, ''application/vnd.mif''),
     (''mime'', False, ''www/mime''),
     (''mov'', False, ''video/quicktime''),
     (''movie'', False, ''video/x-sgi-movie''),
     (''mp2'', False, ''audio/mpeg''),
     (''mp3'', False, ''audio/mpeg''),
     (''mpe'', False, ''video/mpeg''),
     (''mpeg'', False, ''video/mpeg''),
     (''mpg'', False, ''video/mpeg''),
     (''mpga'', False, ''audio/mpeg''),
     (''ms'', False, ''application/x-troff-ms''),
     (''msh'', False, ''model/mesh''),
     (''nc'', False, ''application/x-netcdf''),
     (''oda'', False, ''application/oda''),
     (''pbm'', False, ''image/x-portable-bitmap''),
     (''pdb'', False, ''chemical/x-pdb''),
     (''pdf'', False, ''application/pdf''),
     (''pgm'', False, ''image/x-portable-graymap''),
     (''pgn'', False, ''application/x-chess-pgn''),
     (''png'', False, ''image/png''),
     (''pnm'', False, ''image/x-portable-anymap''),
     (''pot'', False, ''application/mspowerpoint''),
     (''ppm'', False, ''image/x-portable-pixmap''),
     (''pps'', False, ''application/mspowerpoint''),
     (''ppt'', False, ''application/mspowerpoint''),
     (''ppz'', False, ''application/mspowerpoint''),
     (''pre'', False, ''application/x-freelance''),
     (''proto'', False, ''application/x-protobuf''),
     (''prt'', False, ''application/pro_eng''),
     (''ps'', False, ''application/postscript''),
     (''qt'', False, ''video/quicktime''),
     (''ra'', False, ''audio/x-realaudio''),
     (''ram'', False, ''audio/x-pn-realaudio''),
     (''ras'', False, ''image/cmu-raster''),
     (''rgb'', False, ''image/x-rgb''),
     (''rm'', False, ''audio/x-pn-realaudio''),
     (''roff'', False, ''application/x-troff''),
     (''rpm'', False, ''audio/x-pn-realaudio-plugin''),
     (''rtf'', False, ''text/rtf''),
     (''rtx'', False, ''text/richtext''),
     (''scm'', False, ''application/x-lotusscreencam''),
     (''set'', False, ''application/set''),
     (''sgm'', True, ''text/sgml''),
     (''sgml'', True, ''text/sgml''),
     (''sh'', False, ''application/x-sh''),
     (''shar'', False, ''application/x-shar''),
     (''silo'', False, ''model/mesh''),
     (''sit'', False, ''application/x-stuffit''),
     (''skd'', False, ''application/x-koan''),
     (''skm'', False, ''application/x-koan''),
     (''skp'', False, ''application/x-koan''),
     (''skt'', False, ''application/x-koan''),
     (''smi'', False, ''application/smil''),
     (''smil'', False, ''application/smil''),
     (''snd'', False, ''audio/basic''),
     (''sol'', False, ''application/solids''),
     (''spl'', False, ''application/x-futuresplash''),
     (''src'', False, ''application/x-wais-source''),
     (''step'', False, ''application/STEP''),
     (''stl'', False, ''application/SLA''),
     (''stp'', False, ''application/STEP''),
     (''sv4cpio'', False, ''application/x-sv4cpio''),
     (''sv4crc'', False, ''application/x-sv4crc''),
     (''svg'', True, ''image/svg+xml''),
     (''swf'', False, ''application/x-shockwave-flash''),
     (''t'', False, ''application/x-troff''),
     (''tar'', False, ''application/x-tar''),
     (''tcl'', False, ''application/x-tcl''),
     (''tex'', False, ''application/x-tex''),
     (''texi'', False, ''application/x-texinfo''),
     (''texinfo'', False, ''application/x-texinfo''),
     (''tif'', False, ''image/tiff''),
     (''tiff'', False, ''image/tiff''),
     (''tr'', False, ''application/x-troff''),
     (''tsi'', False, ''audio/TSP-audio''),
     (''tsp'', False, ''application/dsptype''),
     (''tsv'', True, ''text/tab-separated-values''),
     (''txt'', True, ''text/plain''),
     (''unv'', False, ''application/i-deas''),
     (''ustar'', False, ''application/x-ustar''),
     (''vcd'', False, ''application/x-cdlink''),
     (''vda'', False, ''application/vda''),
     (''viv'', False, ''video/vnd.vivo''),
     (''vivo'', False, ''video/vnd.vivo''),
     (''vrml'', False, ''model/vrml''),
     (''wav'', False, ''audio/x-wav''),
     (''wrl'', False, ''model/vrml''),
     (''xbm'', False, ''image/x-xbitmap''),
     (''xlc'', False, ''application/vnd.ms-excel''),
     (''xll'', False, ''application/vnd.ms-excel''),
     (''xlm'', False, ''application/vnd.ms-excel''),
     (''xls'', False, ''application/vnd.ms-excel''),
     (''xlw'', False, ''application/vnd.ms-excel''),
     (''xml'', True, ''text/xml''),
     (''xpm'', False, ''image/x-xpixmap''),
     (''xwd'', False, ''image/x-xwindowdump''),
     (''xyz'', False, ''chemical/x-pdb''),
     (''yml'', True, ''application/x-yaml''),
     (''zip'', False, ''application/zip'')]"

definition get_file_extension :: "string \<Rightarrow> string" where
  "get_file_extension file =
     (case find_last CHR ''.'' file of
        None \<Rightarrow> []
      | Some i \<Rightarrow> if i = 0 then [] else drop (i + 1) file)"

definition type_row :: "string \<Rightarrow> string \<times> bool \<times> string" where
  "type_row file =
     (let ext = get_file_extension file in
      case find (\<lambda>(e, _). strmatch ext e) tmap of Some r \<Rightarrow> r | None \<Rightarrow> hd tmap)"

definition get_content_type :: "string \<Rightarrow> string" where
  "get_content_type file = snd (snd (type_row file))"

definition is_ascii :: "string \<Rightarrow> bool" where
  "is_ascii file = fst (snd (type_row file))"

section \<open>The URL and its block\<close>

record URL =
  u_ID :: int
  u_url :: "string option"
  u_scheme :: SCHEME
  u_method :: METHOD
  u_username :: "string option"
  u_password :: "string option"
  u_hostname :: "string option"
  u_port :: int
  u_path :: "string option"
  u_file :: "string option"
  u_params :: "string option"
  u_hasparams :: bool
  u_query :: "string option"
  u_frag :: "string option"
  u_request :: "string option"
  u_postlen :: nat
  u_postdata :: "string option"
  u_posttemp :: "string option"
  u_conttype :: "string option"
  u_cached :: bool
  u_redir :: bool

text \<open>The part of the configuration \<open>my\<close> that is read here.\<close>

record url_conf =
  my_escape :: bool
  my_conttype :: "string option"
  my_fullurl :: bool

text \<open>What opening and reading a file gives; a short read leaves the buffer unset.\<close>

datatype file_read = Cannot_open | Read_short | Read_all string

definition url_str :: "URL \<Rightarrow> nat \<Rightarrow> string res" where
  "url_str this p = (case u_url this of None \<Rightarrow> Inl Undefined | Some buf \<Rightarrow> bstr buf p)"

definition url_write :: "URL \<Rightarrow> nat \<Rightarrow> string \<Rightarrow> URL res" where
  "url_write this p xs =
     (case u_url this of
        None \<Rightarrow> Inl Undefined
      | Some buf \<Rightarrow> rbind (bstore buf p xs) (\<lambda>b. Inr (this\<lparr>u_url := Some b\<rparr>)))"

subsection \<open>Setters and getters\<close>

definition url_get_absolute :: "URL \<Rightarrow> string res" where
  "url_get_absolute this = url_str this 0"

definition url_get_scheme_name :: "URL \<Rightarrow> string" where
  "url_get_scheme_name this =
     (case u_scheme this of
        HTTP \<Rightarrow> ''http'' | HTTPS \<Rightarrow> ''https'' | FTP \<Rightarrow> ''ftp'' | PROXY \<Rightarrow> ''proxy''
      | UNSUPPORTED \<Rightarrow> ''unsupported'')"

definition url_get_method_name :: "URL \<Rightarrow> string" where
  "url_get_method_name this =
     (case u_method this of
        POST \<Rightarrow> ''POST'' | PATCH \<Rightarrow> ''PATCH'' | PUT \<Rightarrow> ''PUT'' | DELETE \<Rightarrow> ''DELETE''
      | OPTIONS \<Rightarrow> ''OPTIONS'' | HEAD \<Rightarrow> ''HEAD'' | _ \<Rightarrow> ''GET'')"

definition url_get_display :: "url_conf \<Rightarrow> URL \<Rightarrow> string option res" where
  "url_get_display my this =
     (if my_fullurl my then rbind (url_get_absolute this) (\<lambda>s. Inr (Some s))
      else if u_method this = GET then Inr (u_request this)
      else rbind (url_get_absolute this) (\<lambda>s. Inr (Some s)))"

definition url_get_conttype :: "url_conf \<Rightarrow> URL \<Rightarrow> string \<times> URL" where
  "url_get_conttype my this =
     (case u_conttype this of
        Some t \<Rightarrow> (t, this)
      | None \<Rightarrow>
          (let t = (if \<not> empty (my_conttype my) then the (my_conttype my)
                    else ''application/x-www-form-urlencoded'')
           in (t, this\<lparr>u_conttype := Some t\<rparr>)))"

definition url_set_hostname :: "string option \<Rightarrow> URL \<Rightarrow> URL" where
  "url_set_hostname hostname this =
     (if empty hostname then this else this\<lparr>u_hostname := hostname\<rparr>)"

definition url_set_postdata :: "string \<Rightarrow> nat \<Rightarrow> URL \<Rightarrow> URL" where
  "url_set_postdata postdata postlen this =
     this\<lparr>u_postlen := postlen, u_postdata := Some (take postlen postdata)\<rparr>"

text \<open>
  \<open>url_set_scheme\<close> with a URL whose own scheme it does not know moves by an unset number; a
  URL that ends within the \<open>//\<close> makes the length of the move wrap.
\<close>

definition scheme_prefix :: "string \<Rightarrow> (SCHEME \<times> nat) option" where
  "scheme_prefix url =
     (if ncase_eq url ''http:'' 5 then Some (HTTP, 7)
      else if ncase_eq url ''https:'' 6 then Some (HTTPS, 8)
      else if ncase_eq url ''ftp:'' 4 then Some (FTP, 6)
      else None)"

definition url_set_scheme :: "SCHEME \<Rightarrow> URL \<Rightarrow> URL res" where
  "url_set_scheme scheme this0 =
     (let this = this0\<lparr>u_scheme := scheme\<rparr>; str = url_get_scheme_name this in
      if u_url this = None then Inr this
      else rbind (url_get_absolute this) (\<lambda>tmp.
        case scheme_prefix tmp of
          None \<Rightarrow> Inl Undefined
        | Some (_, n) \<Rightarrow>
            (if n > length tmp + 1 then Inl Undefined
             else
               (let tmp' = (if n > length tmp then tmp else drop n tmp) in
                Inr (this\<lparr>u_url := Some (bprint (length tmp' + length str + 4) (str @ ''://'' @ tmp'))\<rparr>)))))"

section \<open>Parsing\<close>

definition SCHEME_CHAR :: "char \<Rightarrow> bool" where
  "SCHEME_CHAR ch \<longleftrightarrow> is_alnum ch \<or> ch = CHR ''-'' \<or> ch = CHR ''+''"

definition url_has_scheme :: "string \<Rightarrow> bool" where
  "url_has_scheme url \<longleftrightarrow>
     (if url = [] \<or> \<not> SCHEME_CHAR (hd url) then False
      else c_at (dropWhile SCHEME_CHAR url) 0 = CHR '':'')"

definition url_has_credentials :: "string \<Rightarrow> bool" where
  "url_has_credentials url \<longleftrightarrow>
     (case dropWhile (\<lambda>c. c \<notin> set ''@/?#;'') url of [] \<Rightarrow> False | c # _ \<Rightarrow> c = CHR ''@'')"

definition url_default_port :: "URL \<Rightarrow> int" where
  "url_default_port this = (case u_scheme this of FTP \<Rightarrow> 21 | HTTP \<Rightarrow> 80 | HTTPS \<Rightarrow> 443 | _ \<Rightarrow> 80)"

text \<open>\<open>None\<close> is the early return for an empty URL, which leaves \<open>this->url\<close> unset.\<close>

definition url_set_absolute :: "string \<Rightarrow> URL \<Rightarrow> URL option" where
  "url_set_absolute url this =
     (if empty (Some url) then None
      else
        (let (scheme, n) = (if ncase_eq url ''http:'' 5 then (''http'', 7)
             else if ncase_eq url ''https:'' 6 then (''https'', 8)
             else if ncase_eq url ''ftp:'' 4 then (''ftp'', 6) else (''http'', 7));
             len = length url + 5
         in Some (this\<lparr>u_url := Some
              (if \<not> url_has_scheme url then
                 bprint (len + n) (scheme @ ''://'' @ url @ (if CHR ''/'' \<in> set url then [] else ''/''))
               else bprint len url)\<rparr>)))"

text \<open>The setters below get the string at the pointer and return by how much it moves.\<close>

definition url_set_scheme_p :: "string \<Rightarrow> URL \<Rightarrow> URL \<times> nat" where
  "url_set_scheme_p url this =
     (case scheme_prefix url of
        Some (s, n) \<Rightarrow> (this\<lparr>u_scheme := s\<rparr>, n)
      | None \<Rightarrow> (this\<lparr>u_scheme := UNSUPPORTED\<rparr>, 0))"

definition cred_guard :: "string \<Rightarrow> bool" where
  "cred_guard str \<longleftrightarrow>
     (case str_find ''@'' str of
        None \<Rightarrow> False
      | Some a \<Rightarrow> (case str_find ''/'' str of None \<Rightarrow> True | Some s \<Rightarrow> a < s))"

definition url_set_username_p :: "string \<Rightarrow> URL \<Rightarrow> URL \<times> nat" where
  "url_set_username_p str this =
     (if \<not> cred_guard str then (this, 0)
      else
        (let i = length (takeWhile (\<lambda>c. c \<noteq> CHR '':'' \<and> c \<noteq> CHR ''@'' \<and> c \<noteq> CHR ''/'') str) in
         if c_at str i \<noteq> CHR ''@'' \<and> c_at str i \<noteq> CHR '':'' then (this, 0)
         else (this\<lparr>u_username := Some (take i str)\<rparr>, i + 1)))"

definition url_set_password_p :: "string \<Rightarrow> URL \<Rightarrow> URL \<times> nat" where
  "url_set_password_p str this =
     (if \<not> cred_guard str then (this, 0)
      else
        (let i = length (takeWhile (\<lambda>c. c \<noteq> CHR ''@'') str)
         in (this\<lparr>u_password := Some (take i str)\<rparr>, i + 1)))"

definition url_set_hostname_p :: "string \<Rightarrow> URL \<Rightarrow> URL \<times> nat" where
  "url_set_hostname_p str this =
     (let i = (if startswith ''['' str then
                 (let k = length (takeWhile (\<lambda>c. c \<noteq> CHR '']'') str)
                  in if c_at str k = CHR '']'' then k + 1 else k)
               else length (takeWhile (\<lambda>c. c \<noteq> CHR ''/'' \<and> c \<noteq> CHR ''#'' \<and> c \<noteq> CHR '':'') str))
      in (this\<lparr>u_hostname := Some (take i str)\<rparr>, if c_at str i = CHR '':'' then i + 1 else i))"

definition url_set_port :: "string \<Rightarrow> URL \<Rightarrow> (URL \<times> nat) res" where
  "url_set_port str this0 =
     (let this = this0\<lparr>u_port := url_default_port this0\<rparr>;
          portstr = takeWhile is_digit str
      in if portstr = [] then Inr (this, 0)
         else rbind (atoi portstr) (\<lambda>port. Inr (this\<lparr>u_port := port\<rparr>, length portstr)))"

definition url_set_path :: "string \<Rightarrow> URL \<Rightarrow> URL \<times> nat" where
  "url_set_path str this =
     (if c_at str 0 = CHR ''#'' then (this\<lparr>u_request := Some ''/''\<rparr>, 0)
      else
        (let request = takeWhile (\<lambda>c. c \<noteq> CHR ''#'') str in
         case find_last CHR ''/'' str of
           None \<Rightarrow>
             (if u_scheme this = FTP then
                (this\<lparr>u_path := Some [], u_request := Some (trim_c request)\<rparr>, 1)
              else (this\<lparr>u_path := Some ''/'', u_request := Some ''/''\<rparr>, 1))
         | Some i \<Rightarrow>
             (let path = take (i + 1) str in
              (this\<lparr>u_path := Some (if u_scheme this = FTP \<and> c_at path 0 = CHR ''/'' then tl path else path),
                 u_request := Some (trim_c request)\<rparr>, i + 1))))"

text \<open>The test of the setters below for a value that is already there.\<close>

definition is_set :: "string option \<Rightarrow> bool" where
  "is_set f \<longleftrightarrow> (case f of None \<Rightarrow> False | Some s \<Rightarrow> length s > 1)"

definition url_set_file :: "string \<Rightarrow> URL \<Rightarrow> URL \<times> nat" where
  "url_set_file str this =
     (if is_set (u_file this) then (this, 0)
      else
        (let i = length (takeWhile (\<lambda>c. c \<noteq> CHR '';'' \<and> c \<noteq> CHR ''?'' \<and> \<not> is_space c) str);
             this' = this\<lparr>u_file := Some (trim_c (take i str))\<rparr>
         in if c_at str i = CHR '';'' then (this'\<lparr>u_hasparams := True\<rparr>, i + 1)
            else if c_at str i = CHR ''?'' then (this', i + 1)
            else (this', i)))"

definition url_set_parameters :: "string \<Rightarrow> URL \<Rightarrow> URL \<times> nat" where
  "url_set_parameters str this =
     (if is_set (u_params this) then (this, 0)
      else if \<not> u_hasparams this then (this\<lparr>u_params := Some []\<rparr>, 0)
      else
        (let i = length (takeWhile (\<lambda>c. c \<noteq> CHR ''?'' \<and> \<not> is_space c) str)
         in (this\<lparr>u_params := Some (take i str)\<rparr>, if c_at str i = CHR ''?'' then i + 1 else i)))"

definition url_set_query :: "string \<Rightarrow> URL \<Rightarrow> URL \<times> nat" where
  "url_set_query str this =
     (if is_set (u_query this) then (this, 0)
      else
        (let i = length (takeWhile (\<lambda>c. c \<noteq> CHR ''#'' \<and> \<not> is_space c) str)
         in (this\<lparr>u_query := Some (take i str)\<rparr>, if c_at str i = CHR ''#'' then i + 1 else i)))"

text \<open>The copy of the fragment gets no NUL; nothing but the debugging output reads it.\<close>

definition url_set_fragment :: "string \<Rightarrow> URL \<Rightarrow> URL \<times> nat" where
  "url_set_fragment str this =
     (if is_set (u_frag this) then (this, 0)
      else
        (let i = length (takeWhile (\<lambda>c. \<not> is_space c) str)
         in (this\<lparr>u_frag := Some (take i str)\<rparr>, i + 1)))"

text \<open>A setter applied at the pointer.\<close>

definition advance_res :: "(string \<Rightarrow> URL \<Rightarrow> (URL \<times> nat) res) \<Rightarrow> URL \<times> nat \<Rightarrow> (URL \<times> nat) res" where
  "advance_res f st =
     (case st of (this, p) \<Rightarrow>
        rbind (url_str this p) (\<lambda>str. rbind (f str this) (\<lambda>(this', n). Inr (this', p + n))))"

definition advance :: "(string \<Rightarrow> URL \<Rightarrow> URL \<times> nat) \<Rightarrow> URL \<times> nat \<Rightarrow> (URL \<times> nat) res" where
  "advance f = advance_res (\<lambda>str this. Inr (f str this))"

text \<open>\<open>__url_set_hostname\<close> first moves the rest of the block over a leading \<open>//\<close>.\<close>

definition drop_slashes :: "URL \<times> nat \<Rightarrow> (URL \<times> nat) res" where
  "drop_slashes st =
     (case st of (this, p) \<Rightarrow>
        rbind (url_str this p) (\<lambda>str.
          if startswith ''//'' str then
            rbind (url_write this p (drop 2 str @ [NUL])) (\<lambda>this'. Inr (this', p))
          else Inr (this, p)))"

definition load_file :: "(string \<Rightarrow> file_read) \<Rightarrow> url_conf \<Rightarrow> URL \<Rightarrow> nat \<Rightarrow> URL res" where
  "load_file fs my U p =
     rbind (url_str U p) (\<lambda>file.
     let filename = trim_c file in
     rbind (url_write U (p + length (rtrim file)) [NUL]) (\<lambda>U1.
     rbind (url_write U1 p (filename @ [NUL])) (\<lambda>U2.
     case fs filename of
       Cannot_open \<Rightarrow> Inr U2
     | Read_short \<Rightarrow> Inl Undefined
     | Read_all content \<Rightarrow>
         (let buf = (if is_ascii filename then trim_c (c_str content) else content);
              len = length buf
          in if len > 0 then
               Inr (url_set_postdata buf len (U2\<lparr>u_conttype :=
                 Some (if \<not> empty (my_conttype my) then the (my_conttype my)
                       else get_content_type filename)\<rparr>))
             else Inr U2))))"

definition parse_post_data :: "(string \<Rightarrow> file_read) \<Rightarrow> url_conf \<Rightarrow> URL \<Rightarrow> nat \<Rightarrow> URL res" where
  "parse_post_data fs my this0 datap0 =
     rbind (url_str this0 datap0) (\<lambda>s.
     let this = this0\<lparr>u_conttype := Some (if \<not> empty (my_conttype my) then the (my_conttype my)
           else ''application/x-www-form-urlencoded'')\<rparr> in
     rbind (case str_find ''-T'' s of
         None \<Rightarrow> Inr (this, datap0)
       | Some ctype \<Rightarrow>
           (case str_find '';'' s of
              None \<Rightarrow> Inl Undefined
            | Some end_ctype \<Rightarrow>
                rbind (url_write this (datap0 + end_ctype) [NUL]) (\<lambda>this1.
                rbind (url_str this1 (datap0 + ctype + 3)) (\<lambda>ct.
                Inr (this1\<lparr>u_conttype := Some ct\<rparr>, datap0 + end_ctype + 1)))))
     (\<lambda>(this, datap1).
     rbind (url_str this datap1) (\<lambda>s1.
     let datap = datap1 + length (takeWhile is_space s1); s2 = dropWhile is_space s1 in
     if c_at s2 0 = CHR ''<'' then
       rbind (load_file fs my this (datap + 1)) (\<lambda>this2.
       rbind (advance url_set_path (this2, datap + 1)) (\<lambda>st.
       rbind (advance url_set_file st) (\<lambda>(this3, _). Inr this3)))
     else Inr (this\<lparr>u_postdata := Some s2, u_postlen := length s2\<rparr>))))"

text \<open>The first of the words that occurs, and what the URL is cut to there.\<close>

fun find_post :: "string list \<Rightarrow> string \<Rightarrow> nat option" where
  "find_post [] url = None"
| "find_post (w # ws) url = (case str_find w url of Some i \<Rightarrow> Some i | None \<Rightarrow> find_post ws url)"

definition post_method :: "string \<Rightarrow> METHOD \<times> nat" where
  "post_method post =
     (if ncase_eq post '' PUT'' 4 then (PUT, 4)
      else if ncase_eq post '' POST'' 5 then (POST, 5)
      else if ncase_eq post '' DELETE'' 7 then (DELETE, 7)
      else if ncase_eq post '' OPTIONS'' 8 then (OPTIONS, 8)
      else (PATCH, 6))"

definition parse_method :: "(string \<Rightarrow> file_read) \<Rightarrow> url_conf \<Rightarrow> URL \<Rightarrow> URL res" where
  "parse_method fs my this =
     rbind (url_get_absolute this) (\<lambda>url.
     case find_post ['' POST'', '' PUT'', '' PATCH'', '' OPTIONS'', '' DELETE''] url of
       None \<Rightarrow> Inr (this\<lparr>u_method := GET, u_postdata := None, u_posttemp := None, u_postlen := 0\<rparr>)
     | Some post \<Rightarrow>
         (let (m, k) = post_method (drop post url) in
          rbind (url_write (this\<lparr>u_method := m\<rparr>) post [NUL]) (\<lambda>this1.
          parse_post_data fs my this1 (post + k))))"

definition parse_credentials :: "URL \<times> nat \<Rightarrow> (URL \<times> nat) res" where
  "parse_credentials st =
     rbind (url_str (fst st) (snd st)) (\<lambda>str.
     if url_has_credentials str then
       rbind (advance url_set_username_p st) (advance url_set_password_p)
     else Inr st)"

definition parse_parts :: "URL \<times> nat \<Rightarrow> (URL \<times> nat) res" where
  "parse_parts st =
     rbind (parse_credentials st) (\<lambda>st.
     rbind (drop_slashes st) (\<lambda>st.
     rbind (advance url_set_hostname_p st) (\<lambda>st.
     rbind (advance_res url_set_port st) (\<lambda>st.
     rbind (advance url_set_path st) (\<lambda>st.
     rbind (advance url_set_file st) (\<lambda>st.
     rbind (advance url_set_parameters st) (\<lambda>st.
     rbind (advance url_set_query st) (\<lambda>st.
     advance url_set_fragment st))))))))"

definition url_parse :: "(string \<Rightarrow> file_read) \<Rightarrow> url_conf \<Rightarrow> URL \<Rightarrow> string \<Rightarrow> URL res" where
  "url_parse fs my this url =
     (let esc = url_escape url in
      case url_set_absolute (if my_escape my then esc else url) this of
        None \<Rightarrow> Inl Undefined
      | Some this1 \<Rightarrow>
          rbind (url_get_absolute this1) (\<lambda>abs.
          let (this2, ptr) = url_set_scheme_p abs this1 in
          rbind (parse_method fs my this2) (\<lambda>this3.
          rbind (parse_parts (this3, ptr)) (\<lambda>(this4, _). Inr this4))))"

definition fresh_url :: URL where
  "fresh_url = \<lparr>u_ID = 0, u_url = None, u_scheme = HTTP, u_method = GET, u_username = None,
     u_password = None, u_hostname = None, u_port = 80, u_path = None, u_file = None,
     u_params = None, u_hasparams = False, u_query = None, u_frag = None, u_request = None,
     u_postlen = 0, u_postdata = None, u_posttemp = None, u_conttype = None, u_cached = False,
     u_redir = False\<rparr>"

definition new_url :: "(string \<Rightarrow> file_read) \<Rightarrow> url_conf \<Rightarrow> string \<Rightarrow> URL res" where
  "new_url fs my str = url_parse fs my fresh_url str"

section \<open>Links found in a page\<close>

text \<open>
  \<open>__url_replace\<close> builds the new string in 4096 bytes on the stack.  A longer result would be
  moved to a block the caller does not learn of; an empty needle never ends.
\<close>

function replace_loop :: "string \<Rightarrow> string \<Rightarrow> string \<Rightarrow> string" where
  "replace_loop needle replacement tmp =
     (if needle = [] then tmp
      else (case str_find needle tmp of
          None \<Rightarrow> tmp
        | Some p \<Rightarrow> take p tmp @ replacement @ replace_loop needle replacement (drop (p + length needle) tmp)))"
  by pat_completeness auto
termination
  by (relation "measure (\<lambda>(n, r, t). length t)") (auto dest: str_find_bound simp: length_greater_0_conv [symmetric]
    simp del: length_greater_0_conv)

declare replace_loop.simps [simp del]

definition url_replace :: "string \<Rightarrow> string \<Rightarrow> string \<Rightarrow> string res" where
  "url_replace url needle replacement =
     (let buf = replace_loop needle replacement url in
      if needle = [] \<or> length buf \<ge> 4096 \<or> length buf > length url then Inl Undefined else Inr buf)"

text \<open>A URL is taken over if \<open>P\<close> finds it good; \<open>None\<close> goes on with the next attempt.\<close>

definition try_url :: "bool \<Rightarrow> (URL \<Rightarrow> bool) \<Rightarrow> URL res \<Rightarrow> URL option res" where
  "try_url c P attempt =
     (if \<not> c then Inr None else rbind attempt (\<lambda>u. Inr (if P u then Some u else None)))"

definition with_scheme :: "SCHEME \<Rightarrow> URL res \<Rightarrow> URL res" where
  "with_scheme s attempt = rbind attempt (url_set_scheme s)"

text \<open>The URL built from the one of the page; \<open>len\<close> bounds the block.\<close>

definition url_compose :: "URL \<Rightarrow> string \<Rightarrow> nat \<Rightarrow> string res" where
  "url_compose req location len =
     (if c_at location 0 = CHR ''/'' \<and> length location > 1 \<and> c_at location 1 = CHR ''/'' then
        Inr (take (len - 1) (url_get_scheme_name req @ '':'' @ location))
      else (case u_hostname req of
          None \<Rightarrow> Inl Undefined
        | Some host \<Rightarrow>
          (let base = url_get_scheme_name req @ ''://'' @ host @ '':'' @ show_int (u_port req) in
           if c_at location 0 = CHR ''/'' then Inr (take (len - 1) (base @ location))
           else (case u_path req of
               None \<Rightarrow> Inl Undefined
             | Some path \<Rightarrow>
                 Inr (take (len - 1)
                   (if endswith (Some ''/'') (u_path req) then
                      base @ path @ (if c_at location 0 = CHR ''.'' \<and> length location > 1 then drop 2 location else location)
                    else base @ path @ ''/'' @ location))))))"

text \<open>The host of a URL \<open>new_url\<close> made, which is always set.\<close>

definition hostname_len :: "URL \<Rightarrow> nat" where
  "hostname_len u = length (the (u_hostname u))"

text \<open>The result is the URL, \<open>None\<close> for \<open>NULL\<close>, with the location as the calls of \<open>__url_replace\<close> leave it.\<close>

definition url_normalize :: "(string \<Rightarrow> file_read) \<Rightarrow> url_conf \<Rightarrow> URL \<Rightarrow> string \<Rightarrow> (URL option \<times> string) res" where
  "url_normalize fs my req location0 =
     rbind (url_replace location0 ''&amp;'' ''&'') (\<lambda>location1.
     rbind (url_replace location1 ''&#038;'' ''&'') (\<lambda>location.
     rbind (url_get_absolute req) (\<lambda>abs.
     let len = length abs + length location + 32 in
     if stristr location ''data:image/gif'' \<noteq> None then Inr (None, location)
     else
       rbind (try_url (stristr location ''://'' \<noteq> None) (\<lambda>u. hostname_len u > 1) (new_url fs my location)) (\<lambda>r1.
       case r1 of Some u \<Rightarrow> Inr (Some u, location) | None \<Rightarrow>
       rbind (try_url (c_at location 0 \<noteq> CHR ''/'' \<and> c_at location 0 \<noteq> CHR ''.'' \<and>
                CHR ''.'' \<in> set location \<and> CHR ''/'' \<in> set location)
              (\<lambda>u. CHR ''.'' \<in> set (the (u_hostname u)))
              (with_scheme (u_scheme req) (new_url fs my location))) (\<lambda>r2.
       case r2 of Some u \<Rightarrow> Inr (Some u, location) | None \<Rightarrow>
       rbind (try_url (str_contains ''localhost'' location) (\<lambda>u. hostname_len u = 9)
              (with_scheme (u_scheme req) (new_url fs my location))) (\<lambda>r3.
       case r3 of Some u \<Rightarrow> Inr (Some u, location) | None \<Rightarrow>
       rbind (url_compose req location len) (\<lambda>url.
       rbind (with_scheme (u_scheme req) (new_url fs my url)) (\<lambda>ret.
       Inr (Some ret, location)))))))))"

definition url_normalize_string :: "(string \<Rightarrow> file_read) \<Rightarrow> url_conf \<Rightarrow> URL \<Rightarrow> string \<Rightarrow> string res" where
  "url_normalize_string fs my req location =
     rbind (url_normalize fs my req location) (\<lambda>(u, _).
     case u of None \<Rightarrow> Inr ''NULL'' | Some u \<Rightarrow> url_get_absolute u)"

end
