(* ===== verification/Url_properties.thy ===== *)
theory Url_properties
  imports Url
begin

text \<open>
  What \<open>new_url\<close> (\<open>siege-4.1.7/src/url.c\<close>) makes of a URL: the parts it is built from come out
  again, and the ways in which the data of a POST line goes wrong.
\<close>

section \<open>What parsing finds\<close>

text \<open>A text of printable characters with none of some delimiters.\<close>

definition url_text :: "string \<Rightarrow> string \<Rightarrow> bool" where
  "url_text bad s \<longleftrightarrow> list_all (\<lambda>c. c \<noteq> NUL \<and> \<not> is_space c \<and> c \<notin> set bad) s"

lemma url_text_append [simp]: "url_text bad (a @ b) \<longleftrightarrow> url_text bad a \<and> url_text bad b"
  and url_text_Nil [simp]: "url_text bad []"
  and url_text_Cons: "url_text bad (c # a) \<longleftrightarrow> c \<noteq> NUL \<and> \<not> is_space c \<and> c \<notin> set bad \<and> url_text bad a"
  by (simp_all add: url_text_def)

lemma url_text_mono: "url_text bad s \<Longrightarrow> set bad' \<subseteq> set bad \<Longrightarrow> url_text bad' s"
  by (auto simp: url_text_def list_all_iff)

lemma url_text_notin: "url_text bad s \<Longrightarrow> c \<in> set bad \<Longrightarrow> c \<notin> set s"
  by (auto simp: url_text_def list_all_iff)

lemma url_text_show [simp]: "url_text [] (show_nat n)"
  using show_nat_digits [of n] digit_not_space
  by (auto simp: url_text_def list_all_iff is_digit_def byte_def)

lemma trim_c_text: "url_text [] s \<Longrightarrow> trim_c s = s"
proof -
  assume "url_text [] s"
  then have s: "\<forall>c \<in> set s. \<not> is_space c" by (auto simp: url_text_def list_all_iff)
  have "dropWhile is_space t = t" if "\<forall>c \<in> set t. \<not> is_space c" for t using that by (cases t) auto
  from this [of s] this [of "rev s"] s show ?thesis by (simp add: trim_c_def rtrim_def ltrim_def)
qed

lemma find_post_text: "url_text [] s \<Longrightarrow> \<forall>w \<in> set ws. w \<noteq> [] \<and> hd w = SP \<Longrightarrow> find_post ws s = None"
proof (induction ws)
  case (Cons w ws)
  then obtain v where w: "w = SP # v" by (cases w) auto
  have "is_space SP" by (simp add: is_space_def byte_def)
  then have sp: "SP \<notin> set s" using Cons.prems(1) by (auto simp: url_text_def list_all_iff)
  have "\<not> prefix w (drop i s)" for i
  proof
    assume "prefix w (drop i s)"
    then have "SP \<in> set (drop i s)" by (auto simp: w prefix_def)
    then show False using sp in_set_dropD by metis
  qed
  then have "str_find w s = None" by (simp add: str_find_None_iff)
  with Cons show ?case by simp
qed simp

lemma find_last_append: "c \<notin> set b \<Longrightarrow> find_last c (a @ c # b) = Some (length a)"
  by (simp add: find_last_def str_find_char_append)

text \<open>Reading at a position of a block that holds a string and zeros.\<close>

lemma bstr_block: "no_nul (a @ b) \<Longrightarrow> 0 < k \<Longrightarrow> bstr (a @ b @ replicate k NUL) (length a) = Inr b"
  by (auto simp: bstr_def c_str_def no_nul_def takeWhile_append)

lemma advance_block:
  assumes "u_url this = Some (s @ replicate k NUL)" "no_nul s" "0 < k" "s = a @ b"
  shows "advance f (this, length a) = Inr (fst (f b this), length a + snd (f b this))"
    and "advance_res g (this, length a) = rbind (g b this) (\<lambda>(this', n). Inr (this', length a + n))"
    and "url_str this (length a) = Inr b"
  using assms bstr_block [of a b k]
  by (auto simp: advance_def advance_res_def url_str_def split: prod.splits)


lemma proto_prefix:
  "scheme_prefix (''http://'' @ r) = Some (HTTP, 7)" "scheme_prefix (''https://'' @ r) = Some (HTTPS, 8)"
  by (simp_all add: scheme_prefix_def ncase_eq_def lower_def eval_simps)

lemma proto_has_scheme: "url_has_scheme (''http://'' @ r)" "url_has_scheme (''https://'' @ r)"
  by (simp_all add: url_has_scheme_def SCHEME_CHAR_def c_at_def eval_simps)

lemma url_set_absolute_proto:
  assumes "url = ''http://'' @ r \<or> url = ''https://'' @ r"
  shows "url_set_absolute url this = Some (this\<lparr>u_url := Some (url @ replicate 5 NUL)\<rparr>)"
  using assms proto_has_scheme [of r]
  by (auto simp: url_set_absolute_def empty_def bprint_def Let_def eval_simps split: prod.splits)

lemma url_text_all: "url_text bad s \<Longrightarrow> (\<And>c. c \<noteq> NUL \<Longrightarrow> \<not> is_space c \<Longrightarrow> c \<notin> set bad \<Longrightarrow> P c) \<Longrightarrow>
    list_all P s"
  by (auto simp: url_text_def list_all_iff)

lemma takeWhile_stop: "list_all P s \<Longrightarrow> \<not> P c \<Longrightarrow> takeWhile P (s @ c # r) = s"
  by (auto simp: list_all_iff takeWhile_append)

lemma takeWhile_all: "list_all P s \<Longrightarrow> takeWhile P s = s"
  by (simp add: list_all_iff takeWhile_eq_all_conv)

lemma c_at_length [simp]: "c_at (a @ c # r) (length a) = c" "c_at a (length a) = NUL" "c_at (c # r) 0 = c"
  by (simp_all add: c_at_def)

lemma set_hostname_text:
  assumes "url_text ''/#:@;?['' host" "host \<noteq> []" "c = CHR ''/'' \<or> c = CHR '':''"
  shows "url_set_hostname_p (host @ c # r) this =
      (this\<lparr>u_hostname := Some host\<rparr>, length host + (if c = CHR '':'' then 1 else 0))"
proof -
  have "takeWhile (\<lambda>c. c \<noteq> CHR ''/'' \<and> c \<noteq> CHR ''#'' \<and> c \<noteq> CHR '':'') (host @ c # r) = host"
    using assms(3) by (intro takeWhile_stop url_text_all [OF assms(1)]) auto
  moreover obtain h t where h: "host = h # t" using assms(2) by (cases host) auto
  then have "h \<noteq> CHR ''[''" using assms(1) by (simp add: url_text_Cons)
  then have "strncmp ''['' (host @ c # r) (length ''['') \<noteq> 0"
    using byte_inj [of h "CHR ''[''"] by (simp add: h)
  then have "\<not> startswith ''['' (host @ c # r)" by (simp add: startswith_def)
  ultimately show ?thesis using assms(3) by (simp add: url_set_hostname_p_def Let_def)
qed

lemma set_port_text:
  assumes n: "n < 2 ^ 31" and r: "\<not> is_digit c"
  shows "url_set_port (show_nat n @ c # r) this = Inr (this\<lparr>u_port := int n\<rparr>, length (show_nat n))"
proof -
  have t: "takeWhile is_digit (show_nat n @ c # r) = show_nat n"
    using show_nat_digits [of n] r by (intro takeWhile_stop) (auto simp: list_all_iff)
  obtain c cs where c: "show_nat n = c # cs" "is_digit c" using show_nat_hd by blast
  have "read_sign (dropWhile is_space (show_nat n)) = (False, show_nat n)"
    using c(2) by (simp only: c(1) dropWhile_space_digit read_sign_digit)
  then have "atoi_val (show_nat n) = int n" by (simp add: atoi_val_def)
  with n have "atoi (show_nat n) = Inr (int n)" by (simp add: atoi_def c_int_def)
  with t show ?thesis by (simp add: url_set_port_def Let_def)
qed

lemma url_text_slash [simp]: "url_text bad (CHR ''/'' # s) \<longleftrightarrow> CHR ''/'' \<notin> set bad \<and> url_text bad s"
  by (auto simp: url_text_Cons is_space_def byte_def)

lemma set_path_text:
  assumes d: "url_text ''#'' d" and f: "url_text ''#/'' f" and ftp: "u_scheme this \<noteq> FTP"
  shows "url_set_path (d @ CHR ''/'' # f) this =
      (this\<lparr>u_path := Some (d @ ''/''), u_request := Some (d @ CHR ''/'' # f)\<rparr>, length d + 1)"
proof -
  have t: "url_text ''#'' (d @ CHR ''/'' # f)" using d url_text_mono [OF f, of "''#''"] by simp
  have "trim_c (d @ CHR ''/'' # f) = d @ CHR ''/'' # f" by (rule trim_c_text) (rule url_text_mono [OF t], simp)
  moreover have "list_all (\<lambda>c. c \<noteq> CHR ''#'') (d @ CHR ''/'' # f)" by (rule url_text_all [OF t]) auto
  moreover have "c_at (d @ CHR ''/'' # f) 0 \<noteq> CHR ''#''"
    using d by (cases d) (auto simp: url_text_Cons)
  moreover have "CHR ''/'' \<notin> set f" using url_text_notin [OF f] by simp
  ultimately show ?thesis using ftp
    by (simp add: url_set_path_def find_last_append Let_def takeWhile_all list_all_iff)
qed

lemma set_file_text:
  assumes f: "url_text ''#/;?'' file" and n: "u_file this = None"
  shows "url_set_file (file @ CHR ''?'' # r) this = (this\<lparr>u_file := Some file\<rparr>, length file + 1)"
proof -
  have "trim_c file = file" by (rule trim_c_text) (rule url_text_mono [OF f], simp)
  moreover have "takeWhile (\<lambda>c. c \<noteq> CHR '';'' \<and> c \<noteq> CHR ''?'' \<and> \<not> is_space c) (file @ CHR ''?'' # r) = file"
    by (intro takeWhile_stop url_text_all [OF f]) auto
  ultimately show ?thesis using n by (simp add: url_set_file_def is_set_def Let_def)
qed

lemma set_query_text:
  assumes q: "url_text ''#/'' q" and n: "u_query this = None"
  shows "url_set_query q this = (this\<lparr>u_query := Some q\<rparr>, length q)"
proof -
  have "list_all (\<lambda>c. c \<noteq> CHR ''#'' \<and> \<not> is_space c) q" by (rule url_text_all [OF q]) auto
  then show ?thesis using n by (simp add: url_set_query_def is_set_def Let_def takeWhile_all)
qed

lemma no_credentials_text:
  assumes "url_text ''/#:@;?['' host"
  shows "\<not> url_has_credentials (host @ CHR '':'' # show_nat n @ CHR ''/'' # r)"
proof -
  have "list_all (\<lambda>c. c \<notin> set ''@/?#;'') host" by (rule url_text_all [OF assms]) auto
  moreover have "list_all (\<lambda>c. c \<notin> set ''@/?#;'') (show_nat n)"
    using show_nat_digits [of n] by (force simp: list_all_iff is_digit_def byte_def)
  ultimately have "list_all (\<lambda>c. c \<notin> set ''@/?#;'') (host @ CHR '':'' # show_nat n)" by simp
  then have "dropWhile (\<lambda>c. c \<notin> set ''@/?#;'') ((host @ CHR '':'' # show_nat n) @ CHR ''/'' # r) = CHR ''/'' # r"
    by (subst dropWhile_append2) (auto simp: list_all_iff)
  then show ?thesis by (simp add: url_has_credentials_def)
qed

lemma no_nul_text: "url_text bad s \<Longrightarrow> no_nul s"
  by (auto simp: url_text_def list_all_iff no_nul_def)

lemma drop_slashes_block:
  assumes "u_url this = Some (s @ replicate k NUL)" "no_nul s" "0 < k" "s = a @ b" "c_at b 0 \<noteq> CHR ''/''"
  shows "drop_slashes (this, length a) = Inr (this, length a)"
proof -
  have "\<not> startswith ''//'' b"
    using assms(5) byte_inj [of "CHR ''/''" "hd b"] by (cases b) (auto simp: startswith_def)
  then show ?thesis using advance_block(3) [OF assms(1-4)] by (simp add: drop_slashes_def)
qed

lemma parse_parts_text:
  assumes s: "s = pre @ host @ CHR '':'' # show_nat n @ d @ CHR ''/'' # file @ CHR ''?'' # q"
    and U: "U = fresh_url\<lparr>u_url := Some (s @ replicate k NUL), u_scheme := sch\<rparr>"
    and pre: "no_nul pre" and k: "0 < k" and sch: "sch \<noteq> FTP"
    and host: "url_text ''/#:@;?['' host" "host \<noteq> []" and n: "n < 2 ^ 31"
    and d: "url_text ''#'' d" "d = [] \<or> hd d = CHR ''/''" and fl: "url_text ''#/;?'' file" and q: "url_text ''#/'' q"
  shows "\<exists>p. parse_parts (U, length pre) = Inr (U\<lparr>u_hostname := Some host, u_port := int n,
      u_path := Some (d @ ''/''), u_request := Some (d @ CHR ''/'' # file @ CHR ''?'' # q),
      u_file := Some file, u_params := Some [], u_query := Some q, u_frag := Some []\<rparr>, p)"
proof -
  have nn: "no_nul s"
    using pre no_nul_text [OF host(1)] no_nul_text [OF d(1)] no_nul_text [OF fl] no_nul_text [OF q]
      no_nul_text [OF url_text_show [of n]] by (auto simp: s no_nul_def)
  obtain c r where c: "d @ CHR ''/'' # file @ CHR ''?'' # q = c # r" "\<not> is_digit c"
    using d(2) by (cases d) (auto simp: is_digit_def byte_def)
  obtain r' where r': "c # r = CHR ''/'' # r'" using c(1) d(2) by (cases d) auto
  have fq: "url_text ''#/'' (file @ CHR ''?'' # q)"
    using url_text_mono [OF fl, of "''#/''"] q by (simp add: url_text_Cons is_space_def byte_def)
  have host1: "c_at (host @ x) 0 \<noteq> CHR ''/''" for x
    using host by (cases host) (auto simp: url_text_Cons)
  let ?U1 = "U\<lparr>u_hostname := Some host\<rparr>"
  let ?U2 = "?U1\<lparr>u_port := int n\<rparr>"
  let ?U3 = "?U2\<lparr>u_path := Some (d @ ''/''), u_request := Some (d @ CHR ''/'' # file @ CHR ''?'' # q)\<rparr>"
  let ?U4 = "?U3\<lparr>u_file := Some file\<rparr>" let ?U5 = "?U4\<lparr>u_params := Some []\<rparr>"
  let ?U6 = "?U5\<lparr>u_query := Some q\<rparr>"
  let ?a1 = "pre @ host @ '':''" let ?a2 = "?a1 @ show_nat n" let ?a3 = "?a2 @ d @ ''/''"
  let ?a4 = "?a3 @ file @ ''?''"
  note block = advance_block [OF _ nn k]
  have cred: "parse_credentials (U, length pre) = Inr (U, length pre)"
    using block(3) [of U pre "host @ CHR '':'' # show_nat n @ c # r"] no_credentials_text [OF host(1), of n r'] c(1) r'
    by (simp add: parse_credentials_def U s)
  have slashes: "drop_slashes (U, length pre) = Inr (U, length pre)"
    using drop_slashes_block [of U s k pre "host @ CHR '':'' # show_nat n @ d @ CHR ''/'' # file @ CHR ''?'' # q"]
      nn k host1 by (simp add: U s)
  have "url_set_hostname_p (host @ CHR '':'' # show_nat n @ c # r) U = (?U1, length host + 1)"
    using set_hostname_text [OF host, of "CHR '':''"] by simp
  then have 1: "advance url_set_hostname_p (U, length pre) = Inr (?U1, length ?a1)"
    using block(1) [of U pre "host @ CHR '':'' # show_nat n @ c # r"] c(1) by (simp add: U s)
  have 2: "advance_res url_set_port (?U1, length ?a1) = Inr (?U2, length ?a2)"
    using block(2) [of ?U1 ?a1 "show_nat n @ c # r"] set_port_text [OF n c(2), of r ?U1] c(1) by (simp add: U s)
  have 3: "advance url_set_path (?U2, length ?a2) = Inr (?U3, length ?a3)"
    using block(1) [of ?U2 ?a2 "d @ CHR ''/'' # file @ CHR ''?'' # q"] set_path_text [OF d(1) fq, of ?U2] sch
    by (simp add: U s)
  have 4: "advance url_set_file (?U3, length ?a3) = Inr (?U4, length ?a4)"
    using block(1) [of ?U3 ?a3 "file @ CHR ''?'' # q"] set_file_text [OF fl, of ?U3 q]
    by (simp add: U s fresh_url_def)
  have 5: "advance url_set_parameters (?U4, length ?a4) = Inr (?U5, length ?a4)"
    using block(1) [of ?U4 ?a4 q]
    by (simp add: U s fresh_url_def url_set_parameters_def is_set_def)
  have 6: "advance url_set_query (?U5, length ?a4) = Inr (?U6, length s)"
    using block(1) [of ?U5 ?a4 q] set_query_text [OF q, of ?U5]
    by (simp add: U s fresh_url_def)
  have 7: "advance url_set_fragment (?U6, length s) = Inr (?U6\<lparr>u_frag := Some []\<rparr>, length s + 1)"
    using block(1) [of ?U6 s "[]"] by (simp add: U fresh_url_def url_set_fragment_def is_set_def)
  show ?thesis
    unfolding parse_parts_def cred slashes 1 2 3 4 5 6 7 rbind.simps by blast
qed

lemma url_str_start:
  "u_url this = Some (s @ replicate 5 NUL) \<Longrightarrow> no_nul s \<Longrightarrow> url_get_absolute this = Inr s"
  using advance_block(3) [of this s 5 "[]" s] by (simp add: url_get_absolute_def)

lemma parse_method_get:
  assumes "u_url U = Some (s @ replicate 5 NUL)" "url_text [] s"
    "u_method U = GET" "u_postdata U = None" "u_posttemp U = None" "u_postlen U = 0"
  shows "parse_method fs my U = Inr U"
proof -
  have "find_post ['' POST'', '' PUT'', '' PATCH'', '' OPTIONS'', '' DELETE''] s = None"
    by (rule find_post_text [OF assms(2)]) auto
  moreover have "U\<lparr>u_method := GET, u_postdata := None, u_posttemp := None, u_postlen := 0\<rparr> = U"
    using assms(3-) by (cases U) simp
  ultimately show ?thesis
    using url_str_start [OF assms(1) no_nul_text [OF assms(2)]] by (simp add: parse_method_def)
qed

text \<open>The string of a URL made of these parts.\<close>

definition url_string :: "bool \<Rightarrow> string \<Rightarrow> nat \<Rightarrow> string \<Rightarrow> string \<Rightarrow> string \<Rightarrow> string" where
  "url_string ssl host n d f q =
     (if ssl then ''https://'' else ''http://'') @ host @ CHR '':'' # show_nat n @ d @ CHR ''/'' # f @ CHR ''?'' # q"

lemma new_url_string:
  assumes host: "url_text ''/#:@;?['' host" "host \<noteq> []" and n: "n < 2 ^ 31"
    and d: "url_text ''#'' d" "d = [] \<or> hd d = CHR ''/''"
    and f: "url_text ''#/;?'' f" and q: "url_text ''#/'' q"
    and esc: "\<not> my_escape my \<or> url_escape (url_string ssl host n d f q) = url_string ssl host n d f q"
  shows "new_url fs my (url_string ssl host n d f q) =
    Inr (fresh_url\<lparr>u_url := Some (url_string ssl host n d f q @ replicate 5 NUL),
      u_scheme := (if ssl then HTTPS else HTTP), u_hostname := Some host, u_port := int n,
      u_path := Some (d @ ''/''), u_request := Some (d @ CHR ''/'' # f @ CHR ''?'' # q),
      u_file := Some f, u_params := Some [], u_query := Some q, u_frag := Some []\<rparr>)"
proof -
  let ?s = "url_string ssl host n d f q" and ?pre = "if ssl then ''https://'' else ''http://''"
  let ?U = "fresh_url\<lparr>u_url := Some (?s @ replicate 5 NUL)\<rparr>"
  let ?V = "?U\<lparr>u_scheme := (if ssl then HTTPS else HTTP)\<rparr>"
  have pre: "url_text [] ?pre" by (simp add: url_text_Cons eval_simps)
  have col: "url_text [] (CHR '':'' # x) = url_text [] x" "url_text [] (CHR ''?'' # x) = url_text [] x" for x
    by (simp_all add: url_text_Cons eval_simps)
  have all: "url_text [] ?s"
    unfolding url_string_def using pre url_text_mono [OF host(1), of "[]"] url_text_mono [OF d(1), of "[]"]
      url_text_mono [OF f, of "[]"] url_text_mono [OF q, of "[]"] by (simp only: url_text_append col url_text_slash) auto
  have "url_set_absolute ?s fresh_url = Some ?U"
    by (rule url_set_absolute_proto) (auto simp: url_string_def)
  moreover have "url_get_absolute ?U = Inr ?s" by (rule url_str_start) (simp_all add: no_nul_text [OF all])
  moreover have "url_set_scheme_p ?s ?U = (?V, length ?pre)"
    using proto_prefix by (auto simp: url_set_scheme_p_def url_string_def)
  moreover have "parse_method fs my ?V = Inr ?V" using all by (rule parse_method_get [rotated]) (simp_all add: fresh_url_def)
  moreover note parse_parts_text [OF _ refl no_nul_text [OF pre] _ _ host n d f q, of ?s 5 "if ssl then HTTPS else HTTP"]
  ultimately show ?thesis using esc
    by (auto simp: new_url_def url_parse_def Let_def url_string_def)
qed

text \<open>
  C21: a URL put together from a scheme, a host, a port, a directory, a file and a query (none
  of which holds a delimiter of a later part) is parsed into these parts, and the request is
  everything behind the port.
\<close>

theorem new_url_parts:
  assumes host: "url_text ''/#:@;?['' host" "host \<noteq> []" and n: "n < 2 ^ 31"
    and d: "url_text ''#'' d" "d = [] \<or> hd d = CHR ''/''"
    and f: "url_text ''#/;?'' f" and q: "url_text ''#/'' q"
    and esc: "\<not> my_escape my \<or> url_escape (url_string ssl host n d f q) = url_string ssl host n d f q"
  shows "new_url fs my (url_string ssl host n d f q) =
    Inr (fresh_url\<lparr>u_url := Some (url_string ssl host n d f q @ replicate 5 NUL),
      u_scheme := (if ssl then HTTPS else HTTP), u_hostname := Some host, u_port := int n,
      u_path := Some (d @ ''/''), u_request := Some (d @ CHR ''/'' # f @ CHR ''?'' # q),
      u_file := Some f, u_params := Some [], u_query := Some q, u_frag := Some []\<rparr>)"
  by (rule new_url_string [OF host n d f q esc])

theorem new_url_parts_witness:
  "new_url (\<lambda>_. Cannot_open) \<lparr>my_escape = False, my_conttype = None, my_fullurl = True\<rparr>
     (url_string False ''a.org'' 80 ''/x'' ''y'' ''b=1'') =
   Inr (fresh_url\<lparr>u_url := Some (url_string False ''a.org'' 80 ''/x'' ''y'' ''b=1'' @ replicate 5 NUL),
      u_scheme := HTTP, u_hostname := Some ''a.org'', u_port := 80,
      u_path := Some ''/x/'', u_request := Some ''/x/y?b=1'',
      u_file := Some ''y'', u_params := Some [], u_query := Some ''b=1'', u_frag := Some []\<rparr>)"
proof -
  let ?my = "\<lparr>my_escape = False, my_conttype = None, my_fullurl = True\<rparr>"
  have "url_text ''/#:@;?['' ''a.org''" "url_text ''#'' ''/x''" "url_text ''#/;?'' ''y''" "url_text ''#/'' ''b=1''"
    by (simp_all add: url_text_def eval_simps)
  then show ?thesis
    using new_url_parts [of "''a.org''" 80 "''/x''" "''y''" "''b=1''" ?my False "\<lambda>_. Cannot_open"] by simp
qed

section \<open>Links\<close>

lemma replace_loop_id: "str_find needle t = None \<Longrightarrow> replace_loop needle r t = t"
  by (subst replace_loop.simps) simp

lemma url_set_scheme_same:
  assumes "u_url U = Some (url_string ssl host n d f q @ replicate 5 NUL)" "no_nul (url_string ssl host n d f q)"
  shows "url_set_scheme (if ssl then HTTPS else HTTP) U =
    Inr (U\<lparr>u_scheme := (if ssl then HTTPS else HTTP), u_url := Some (url_string ssl host n d f q @ [NUL])\<rparr>)"
  using url_str_start [of "U\<lparr>u_scheme := (if ssl then HTTPS else HTTP)\<rparr>" "url_string ssl host n d f q"] assms proto_prefix
  by (cases ssl) (auto simp: url_set_scheme_def url_get_scheme_name_def Let_def bprint_def url_string_def)

text \<open>
  A link that starts with a slash is followed on the host, the port and the scheme of the
  page it was found on, whatever path the page has, and is requested as it stands.
\<close>

theorem url_normalize_stays:
  assumes req: "new_url fs my (url_string ssl host n d0 f0 q0) = Inr req"
    and host: "url_text ''/#:@;?['' host" "host \<noteq> []" and n: "n < 2 ^ 31"
    and parts0: "url_text ''#'' d0" "d0 = [] \<or> hd d0 = CHR ''/''" "url_text ''#/;?'' f0" "url_text ''#/'' q0"
    and parts: "url_text ''#'' d" "d = [] \<or> hd d = CHR ''/''" "url_text ''#/;?'' f" "url_text ''#/'' q"
    and my: "\<not> my_escape my"
    and loc: "location = d @ CHR ''/'' # f @ CHR ''?'' # q" "c_at location 1 \<noteq> CHR ''/''"
      "length location < 4096"
      "str_find ''&amp;'' location = None" "str_find ''&#038;'' location = None"
      "stristr location ''data:image/gif'' = None" "stristr location ''://'' = None"
      "str_find ''localhost'' location = None"
  shows "\<exists>u. url_normalize fs my req location = Inr (Some u, location) \<and>
    u_scheme u = (if ssl then HTTPS else HTTP) \<and> u_hostname u = Some host \<and> u_port u = int n \<and>
    u_request u = Some location \<and> url_get_absolute u = Inr (url_string ssl host n d f q)"
proof -
  let ?t = "url_string ssl host n d f q"
  have r: "u_scheme req = (if ssl then HTTPS else HTTP)" "u_hostname req = Some host" "u_port req = int n"
    "u_url req = Some (url_string ssl host n d0 f0 q0 @ replicate 5 NUL)"
    using new_url_string [OF host n parts0] req my by auto
  have nn: "no_nul (url_string ssl host n d' f' q')" if "url_text ''#'' d'" "url_text ''#/;?'' f'" "url_text ''#/'' q'" for d' f' q'
    using no_nul_text [OF host(1)] no_nul_text [OF that(1)] no_nul_text [OF that(2)] no_nul_text [OF that(3)]
      no_nul_text [OF url_text_show [of n]] by (auto simp: url_string_def no_nul_def)
  have abs_req: "url_get_absolute req = Inr (url_string ssl host n d0 f0 q0)"
    by (rule url_str_start [OF r(4)]) (rule nn [OF parts0(1,3,4)])
  have start: "c_at location 0 = CHR ''/''" using loc(1) parts(2) by (cases d) auto
  have comp: "url_compose req location (length (url_string ssl host n d0 f0 q0) + length location + 32) = Inr ?t"
    using start loc(2) r by (auto simp: url_compose_def url_get_scheme_name_def url_string_def loc(1) show_int_def Let_def)
  obtain u where u: "new_url fs my ?t = Inr u" "u_hostname u = Some host" "u_port u = int n"
      "u_request u = Some location" "u_url u = Some (?t @ replicate 5 NUL)"
    using new_url_string [OF host n parts, of my ssl fs] my loc(1) by auto
  let ?u = "u\<lparr>u_scheme := (if ssl then HTTPS else HTTP), u_url := Some (?t @ [NUL])\<rparr>"
  have set: "url_set_scheme (if ssl then HTTPS else HTTP) u = Inr ?u"
    using url_set_scheme_same [OF u(5) nn [OF parts(1,3,4)]] .
  have "url_get_absolute ?u = Inr ?t"
    using advance_block(3) [of ?u ?t 1 "[]" ?t] nn [OF parts(1,3,4)] by (simp add: url_get_absolute_def)
  moreover have "url_normalize fs my req location = Inr (Some ?u, location)"
    using loc(3-) start r(1) set u(1)
    by (simp add: url_normalize_def url_replace_def replace_loop_id abs_req try_url_def with_scheme_def comp
        str_contains_def Let_def)
  ultimately show ?thesis using u by auto
qed

lemma url_normalize_example:
  "\<exists>req u. new_url (\<lambda>_. Cannot_open) \<lparr>my_escape = False, my_conttype = None, my_fullurl = True\<rparr>
       (url_string True ''a.org'' 80 [] ''p'' []) = Inr req \<and>
     url_normalize (\<lambda>_. Cannot_open) \<lparr>my_escape = False, my_conttype = None, my_fullurl = True\<rparr> req ''/x/y?b'' =
       Inr (Some u, ''/x/y?b'') \<and> u_hostname u = Some ''a.org'' \<and>
     url_get_absolute u = Inr (url_string True ''a.org'' 80 ''/x'' ''y'' ''b'')"
proof -
  let ?my = "\<lparr>my_escape = False, my_conttype = None, my_fullurl = True\<rparr>"
  have h: "url_text ''/#:@;?['' ''a.org''" "''a.org'' \<noteq> []" by (simp_all add: url_text_def eval_simps)
  have p: "url_text ''#'' []" "url_text ''#/;?'' ''p''" "url_text ''#/'' []"
      "url_text ''#'' ''/x''" "url_text ''#/;?'' ''y''" "url_text ''#/'' ''b''"
    by (simp_all add: url_text_def eval_simps)
  obtain req where r: "new_url (\<lambda>_. Cannot_open) ?my (url_string True ''a.org'' 80 [] ''p'' []) = Inr req"
    using new_url_string [OF h _ p(1) _ p(2,3), of 80 ?my True "\<lambda>_. Cannot_open"] by auto
  have "stristr ''/x/y?b'' ''data:image/gif'' = None" "stristr ''/x/y?b'' ''://'' = None"
    by (simp_all add: stristr_find lower_def eval_simps)
  then show ?thesis
    using url_normalize_stays [OF r h _ p(1) _ p(2,3,4) _ p(5,6), of "''/x/y?b''"] r by (auto simp: c_at_def)
qed

section \<open>The data of a POST line\<close>

text \<open>A content type without the semicolon that ends it makes siege write through a null pointer.\<close>

theorem post_type_unclosed:
  assumes "url_str this datap = Inr s" "str_contains ''-T'' s" "CHR '';'' \<notin> set s"
  shows "parse_post_data fs my this datap = Inl Undefined"
proof -
  have "str_find '';'' s = None" using assms(3) by (simp add: str_find_char_None)
  then show ?thesis using assms(1,2) by (auto simp: parse_post_data_def str_contains_def Let_def)
qed

theorem post_type_unclosed_witness:
  "parse_post_data (\<lambda>_. Cannot_open) \<lparr>my_escape = False, my_conttype = None, my_fullurl = True\<rparr>
     (fresh_url\<lparr>u_url := Some (''http://h/f POST -T text/plain a=b'' @ [NUL])\<rparr>) 15 = Inl Undefined"
  by (rule post_type_unclosed [of _ _ "'' -T text/plain a=b''"])
    (simp_all add: url_str_def bstr_def c_str_def str_contains_def)

lemma write_same:
  assumes "u_url U = Some (a @ x # b)"
  shows "url_write U (length a) [x] = Inr U"
  using assms by (cases U) (simp add: url_write_def bstore_def)

lemma write_string:
  assumes "u_url U = Some (a @ x @ b)"
  shows "url_write U (length a) x = Inr U"
  using assms by (cases U) (simp add: url_write_def bstore_def)

lemma url_str_split:
  assumes "url_str U p = Inr s"
  obtains a b where "u_url U = Some (a @ s @ NUL # b)" "length a = p" "NUL \<notin> set s"
proof -
  from assms obtain buf where buf: "u_url U = Some buf" "NUL \<in> set (drop p buf)" "s = c_str (drop p buf)"
    by (auto simp: url_str_def bstr_def split: option.splits if_splits)
  let ?t = "drop p buf"
  have p: "p \<le> length buf" using buf(2) by (cases "p \<le> length buf") auto
  obtain y b where y: "dropWhile (\<lambda>c. c \<noteq> NUL) ?t = y # b"
    using buf(2) by (cases "dropWhile (\<lambda>c. c \<noteq> NUL) ?t") auto
  then have "y = NUL" using hd_dropWhile [of "\<lambda>c. c \<noteq> NUL" ?t] by simp
  with y have t: "?t = s @ NUL # b"
    using takeWhile_dropWhile_id [of "\<lambda>c. c \<noteq> NUL" ?t] buf(3) by (simp add: c_str_def)
  have "buf = take p buf @ ?t" by simp
  then have "buf = take p buf @ s @ NUL # b" by (simp only: t)
  moreover have "NUL \<notin> set s" using buf(3) by (auto simp: c_str_def dest: set_takeWhileD)
  ultimately show ?thesis using that [of "take p buf" b] buf(1) p by simp
qed

lemma url_str_at: "u_url U = Some (a @ s @ NUL # b) \<Longrightarrow> NUL \<notin> set s \<Longrightarrow> url_str U (length a) = Inr s"
  by (auto simp: url_str_def bstr_def c_str_def takeWhile_append)

lemma rtrim_text: "url_text [] s \<Longrightarrow> rtrim s = s"
proof -
  assume "url_text [] s"
  then have "\<forall>c \<in> set (rev s). \<not> is_space c" by (auto simp: url_text_def list_all_iff)
  then have "dropWhile is_space (rev s) = rev s" by (cases "rev s") (auto simp del: set_rev)
  then show ?thesis by (simp add: rtrim_def)
qed

lemma load_file_quiet:
  assumes "u_url U = Some (a @ f @ NUL # b)" "NUL \<notin> set f" "url_text [] f" "fs f \<noteq> Read_short"
  shows "\<exists>V. load_file fs my U (length a) = Inr V \<and> u_url V = u_url U \<and> u_file V = u_file U"
proof -
  have "url_write U (length a + length f) [NUL] = Inr U" "url_write U (length a) (f @ [NUL]) = Inr U"
    using write_same [of U "a @ f" NUL b] write_string [of U a "f @ [NUL]" b] assms(1) by simp_all
  then show ?thesis
    using url_str_at [OF assms(1,2)] trim_c_text [OF assms(3)] rtrim_text [OF assms(3)] assms(4)
    by (auto simp: load_file_def Let_def url_set_postdata_def split: file_read.splits)
qed

text \<open>
  When the data of a POST is read from a file (\<open><name\<close>), the name of that file, less its
  first letter, becomes the file of the URL, and the URL's own file is not parsed any more.
\<close>

theorem post_file_taken_for_url:
  assumes "url_str this datap = Inr (CHR ''<'' # c # name)" "url_text ''#/;?'' (c # name)" "length name > 1"
    and "u_file this = None" "str_find ''-T'' (CHR ''<'' # c # name) = None" "fs (c # name) \<noteq> Read_short"
  shows "\<exists>u. parse_post_data fs my this datap = Inr u \<and> u_file u = Some name \<and> url_set_file str u = (u, 0)"
proof -
  let ?f = "c # name"
  from assms(1) obtain a b where ab: "u_url this = Some (a @ (CHR ''<'' # ?f) @ NUL # b)" "length a = datap"
      "NUL \<notin> set (CHR ''<'' # ?f)" by (rule url_str_split)
  have tx: "url_text [] ?f" by (rule url_text_mono [OF assms(2)]) simp
  have tn: "url_text [] name" "url_text ''#/;?'' name" using tx assms(2) by (simp_all add: url_text_Cons)
  have d: "find_last CHR ''/'' ?f = None" "c \<noteq> CHR ''#''"
    using assms(2) url_text_notin [OF assms(2), of "CHR ''/''"] by (auto simp: find_last_def str_find_char_None url_text_Cons)
  obtain ct where ct: "parse_post_data fs my this datap =
      rbind (load_file fs my (this\<lparr>u_conttype := ct\<rparr>) (datap + 1)) (\<lambda>this2.
       rbind (advance url_set_path (this2, datap + 1)) (\<lambda>st.
       rbind (advance url_set_file st) (\<lambda>(this3, _). Inr this3)))"
    using assms(1,5) by (fastforce simp: parse_post_data_def Let_def url_str_def is_space_def byte_def)
  let ?U = "this\<lparr>u_conttype := ct\<rparr>"
  have url: "u_url ?U = Some ((a @ ''<'') @ ?f @ NUL # b)" "length (a @ ''<'') = datap + 1"
    using ab by simp_all
  obtain U where U: "load_file fs my ?U (datap + 1) = Inr U" "u_url U = u_url ?U" "u_file U = None"
    using load_file_quiet [of ?U "a @ ''<''" ?f b fs my] url ab(3) tx assms(4,6) by auto
  obtain V where V: "url_set_path ?f U = (V, 1)" "u_url V = u_url U" "u_file V = u_file U"
    using d by (intro that [of "fst (url_set_path ?f U)"]) (auto simp: url_set_path_def Let_def)
  have f: "url_set_file name V = (V\<lparr>u_file := Some name\<rparr>, length name)"
  proof -
    have "list_all (\<lambda>c. c \<noteq> CHR '';'' \<and> c \<noteq> CHR ''?'' \<and> \<not> is_space c) name" by (rule url_text_all [OF tn(2)]) auto
    then show ?thesis using V(3) U(3) trim_c_text [OF tn(1)]
      by (simp add: url_set_file_def is_set_def Let_def takeWhile_all)
  qed
  have "advance url_set_path (U, datap + 1) = Inr (V, datap + 2)"
    using url_str_at [of U "a @ ''<''" ?f b] url U(2) ab(3) V by (simp add: advance_def advance_res_def)
  moreover have "advance url_set_file (V, datap + 2) = Inr (V\<lparr>u_file := Some name\<rparr>, datap + 2 + length name)"
    using url_str_at [of V "a @ [CHR ''<'', c]" name b] url U(2) V(2) ab(2,3) f by (simp add: advance_def advance_res_def)
  ultimately have "parse_post_data fs my this datap = Inr (V\<lparr>u_file := Some name\<rparr>)" using ct U(1) by simp
  then show ?thesis using assms(3) by (simp add: url_set_file_def is_set_def)
qed

theorem post_file_taken_for_url_witness:
  "\<exists>u. parse_post_data (\<lambda>_. Cannot_open) \<lparr>my_escape = False, my_conttype = None, my_fullurl = True\<rparr>
       (fresh_url\<lparr>u_url := Some (''http://h/f POST<data'' @ [NUL])\<rparr>) 15 = Inr u \<and>
     u_file u = Some ''ata'' \<and> url_set_file ''f'' u = (u, 0)"
proof -
  let ?my = "\<lparr>my_escape = False, my_conttype = None, my_fullurl = True\<rparr>"
  let ?U = "fresh_url\<lparr>u_url := Some (''http://h/f POST<data'' @ [NUL])\<rparr>"
  have "url_str ?U 15 = Inr ''<data''" by (simp add: url_str_def bstr_def c_str_def)
  moreover have "url_text ''#/;?'' ''data''" by (simp add: url_text_def eval_simps)
  ultimately show ?thesis
    using post_file_taken_for_url [of ?U 15 "CHR ''d''" "''ata''" "\<lambda>_. Cannot_open" ?my "''f''"]
    by (simp add: fresh_url_def)
qed

end
