(* ===== verification/Cookie.thy ===== *)
theory Cookie
  imports Siege_strings
begin

text \<open>
  A cookie of siege (\<open>siege-4.1.7/src/cookie.c\<close>), made from the value of a \<open>Set-Cookie\<close>
  header.  The header is a block of bytes of which the parser sees what is behind its pointer;
  it overwrites parts it has passed and does not look at again, which is not modelled.  The
  clock and the time zone are a parameter.
\<close>

section \<open>The cookie\<close>

record COOKIE =
  c_name :: "string option"
  c_value :: "string option"
  c_domain :: "string option"
  c_path :: "string option"
  c_expires :: int
  c_session :: bool
  c_secure :: bool
  c_persistent :: bool

definition cookie_none :: string where
  "cookie_none = ''none''"

text \<open>The getters take \<open>None\<close> for a null cookie.\<close>

definition field_or_none :: "(COOKIE \<Rightarrow> string option) \<Rightarrow> COOKIE option \<Rightarrow> string" where
  "field_or_none f this =
     (case this of None \<Rightarrow> cookie_none | Some c \<Rightarrow> (case f c of None \<Rightarrow> cookie_none | Some s \<Rightarrow> s))"

definition cookie_get_name :: "COOKIE option \<Rightarrow> string" where
  "cookie_get_name = field_or_none c_name"

definition cookie_get_value :: "COOKIE option \<Rightarrow> string" where
  "cookie_get_value = field_or_none c_value"

definition cookie_get_domain :: "COOKIE option \<Rightarrow> string" where
  "cookie_get_domain = field_or_none c_domain"

definition cookie_get_path :: "COOKIE option \<Rightarrow> string" where
  "cookie_get_path = field_or_none c_path"

definition cookie_get_expires :: "COOKIE option \<Rightarrow> int" where
  "cookie_get_expires this = (case this of None \<Rightarrow> -1 | Some c \<Rightarrow> c_expires c)"

definition cookie_get_session :: "COOKIE option \<Rightarrow> bool" where
  "cookie_get_session this = (case this of None \<Rightarrow> True | Some c \<Rightarrow> c_session c)"

definition cookie_get_persistent :: "COOKIE option \<Rightarrow> bool" where
  "cookie_get_persistent this = (case this of None \<Rightarrow> True | Some c \<Rightarrow> c_persistent c)"

text \<open>\<open>cookie_reset_value\<close> stores through the pointer.\<close>

definition cookie_reset_value :: "string \<Rightarrow> COOKIE option \<Rightarrow> COOKIE option res" where
  "cookie_reset_value v this =
     (case this of None \<Rightarrow> Inl Undefined | Some c \<Rightarrow> Inr (Some (c\<lparr>c_value := Some v\<rparr>)))"

definition cookie_to_string :: "COOKIE \<Rightarrow> string option" where
  "cookie_to_string this =
     (case (c_name this, c_value this, c_domain this) of
        (Some n, Some v, Some d) \<Rightarrow>
          Some (take 4095 (n @ ''='' @ v @ ''; domain='' @ d @ ''; path='' @
            (case c_path this of Some p \<Rightarrow> p | None \<Rightarrow> ''/'') @ ''; expires='' @ show_int (c_expires this) @
            (if c_persistent this then ''; persistent=true'' else [])))
      | _ \<Rightarrow> None)"

section \<open>Dates\<close>

record tm =
  tm_year :: int
  tm_mon :: int
  tm_mday :: int
  tm_hour :: int
  tm_min :: int
  tm_sec :: int

text \<open>
  What the C library gives: the time, \<open>mktime\<close>, day and hour of \<open>localtime(86400)\<close>, and
  \<open>(long) atof(s)\<close>.
\<close>

record clock =
  clk_now :: int
  clk_mktime :: "tm \<Rightarrow> int"
  clk_day2 :: "int \<times> int"
  clk_atof :: "string \<Rightarrow> int"

definition utc_offset :: "clock \<Rightarrow> int" where
  "utc_offset clk = (let (mday, hour) = clk_day2 clk in if mday < 2 then hour - 24 else hour)"

text \<open>
  A pointer into a date is what is left of the string, its NUL included; behind the NUL
  nothing is defined.  A \<open>long\<close> that goes into an \<open>int\<close> is cut to 32 bits.
\<close>

definition bump :: "string \<Rightarrow> string res" where
  "bump s = (case s of [] \<Rightarrow> Inl Undefined | _ # r \<Rightarrow> Inr r)"

definition int32 :: "int \<Rightarrow> int" where
  "int32 n = (n + 2 ^ 31) mod 2 ^ 32 - 2 ^ 31"

definition long_sat :: "int \<Rightarrow> int" where
  "long_sat n = max (- (2 ^ 63)) (min n (2 ^ 63 - 1))"

definition strtol :: "string \<Rightarrow> (int \<times> string) res" where
  "strtol s =
     (let (neg, d) = read_sign (dropWhile is_space s); ds = takeWhile is_digit d; r = dropWhile is_digit d in
      if r = [] then Inl Undefined
      else if ds = [] then Inr (0, s)
      else Inr (long_sat (if neg then - int (dec_val ds) else int (dec_val ds)), r))"

definition months :: "string list" where
  "months = [''Jan'', ''Feb'', ''Mar'', ''Apr'', ''May'', ''Jun'', ''Jul'', ''Aug'', ''Sep'', ''Oct'', ''Nov'', ''Dec'']"

fun month_index :: "string list \<Rightarrow> string \<Rightarrow> int \<Rightarrow> int" where
  "month_index [] ptr i = 0"
| "month_index (m # ms) ptr i = (if ncase_eq m ptr 3 then i else month_index ms ptr (i + 1))"

definition mkmonth :: "string \<Rightarrow> (int \<times> string) res" where
  "mkmonth s =
     (let ptr = dropWhile (\<lambda>c. \<not> is_alpha c) s in
      if length ptr < 3 then Inl Undefined else Inr (month_index months ptr 0, drop 3 ptr))"

text \<open>\<open>strtol(++s, &s, 10)\<close> and \<open>strtol(s, &s, 10)\<close>, the latter for a year too.\<close>

definition num :: "string \<Rightarrow> (int \<times> string) res" where
  "num s = rbind (strtol s) (\<lambda>(n, r). Inr (int32 n, r))"

definition num_next :: "string \<Rightarrow> (int \<times> string) res" where
  "num_next s = rbind (bump s) num"

definition year_num :: "string \<Rightarrow> (int \<times> string) res" where
  "year_num s =
     rbind (strtol s) (\<lambda>(n, r).
     if n - 1900 < - (2 ^ 63) then Inl Undefined else Inr (int32 (n - 1900), r))"

definition skip_blanks :: "string \<Rightarrow> string" where
  "skip_blanks s = dropWhile (\<lambda>c. c = SP) s"

text \<open>Hours, minutes and seconds, the hours read at \<open>s\<close> or behind it.\<close>

definition hms :: "(string \<Rightarrow> (int \<times> string) res) \<Rightarrow> string \<Rightarrow> (int \<times> int \<times> int \<times> string) res" where
  "hms hour s =
     rbind (hour s) (\<lambda>(h, s).
     rbind (num_next s) (\<lambda>(m, s).
     rbind (num_next s) (\<lambda>(sec, s). Inr (h, m, sec, s))))"

definition mk_tm :: "int \<Rightarrow> int \<Rightarrow> int \<Rightarrow> int \<times> int \<times> int \<times> string \<Rightarrow> tm option res" where
  "mk_tm y mo d t =
     (case t of (h, m, s, _) \<Rightarrow>
        Inr (Some \<lparr>tm_year = y, tm_mon = mo, tm_mday = d, tm_hour = h, tm_min = m, tm_sec = s\<rparr>))"

text \<open>The four formats; \<open>None\<close> is the early return 0.  The length does not count the NUL.\<close>

definition rfc850 :: "string \<Rightarrow> tm option res" where
  "rfc850 s =
     (if length s - 1 < 18 then Inr None
      else rbind (num s) (\<lambda>(d, s). rbind (bump s) (\<lambda>s. rbind (mkmonth s) (\<lambda>(mo, s).
        rbind (bump s) (\<lambda>s. rbind (year_num s) (\<lambda>(y, s). rbind (hms num_next s) (mk_tm y mo d)))))))"

definition rfc1123 :: "string \<Rightarrow> tm option res" where
  "rfc1123 s =
     (if length s - 1 < 20 then Inr None
      else rbind (num s) (\<lambda>(d, s). rbind (mkmonth s) (\<lambda>(mo, s).
        rbind (year_num s) (\<lambda>(y, s). rbind (hms num s) (mk_tm y mo d)))))"

definition iso_date :: "string \<Rightarrow> tm option res" where
  "iso_date s =
     (if length s - 1 < 21 then Inr None
      else rbind (year_num s) (\<lambda>(y, s). rbind (num_next s) (\<lambda>(mo, s). rbind (num_next s) (\<lambda>(d, s).
        rbind (hms num_next s) (mk_tm y mo d)))))"

definition ctime_date :: "string \<Rightarrow> tm option res" where
  "ctime_date s =
     (if length s - 1 < 20 then Inr None
      else rbind (mkmonth s) (\<lambda>(mo, s). rbind (num s) (\<lambda>(d, s).
        rbind (hms num s) (\<lambda>(h, m, sec, s). rbind (year_num s) (\<lambda>(y, s). mk_tm y mo d (h, m, sec, s))))))"

definition tm_ok :: "tm \<Rightarrow> bool" where
  "tm_ok t \<longleftrightarrow> 0 \<le> tm_sec t \<and> tm_sec t \<le> 59 \<and> 0 \<le> tm_min t \<and> tm_min t \<le> 59 \<and> 0 \<le> tm_hour t \<and>
     tm_hour t \<le> 23 \<and> 1 \<le> tm_mday t \<and> tm_mday t \<le> 31 \<and> 0 \<le> tm_mon t \<and> tm_mon t \<le> 11"

definition finish_time :: "clock \<Rightarrow> string \<Rightarrow> tm option \<Rightarrow> int" where
  "finish_time clk str t =
     (case t of
        None \<Rightarrow> 0
      | Some t \<Rightarrow>
          (if \<not> tm_ok t then 0
           else
             (let rv = clk_mktime clk t +
                (if \<not> str_contains '' GMT'' str \<and> \<not> str_contains '' UTC'' str then utc_offset clk * 3600 else 0)
              in if rv = -1 then -1
                 else if rv - clk_now clk < 0 then 0
                 else int32 rv)))"

definition cookie_parse_time :: "clock \<Rightarrow> string \<Rightarrow> int res" where
  "cookie_parse_time clk str =
     (let time = (\<lambda>r. rbind r (\<lambda>t. Inr (finish_time clk str t))) in
      case str_find '','' str of
        Some i \<Rightarrow>
          (let s = skip_blanks (drop (i + 1) str) @ [NUL] in
           time (if CHR ''-'' \<in> set s then rfc850 s else rfc1123 s))
      | None \<Rightarrow>
          if is_digit (c_at str 0) then
            (if CHR ''T'' \<in> set str then time (iso_date (str @ [NUL]))
             else rbind (strtol (str @ [NUL])) (\<lambda>(n, _). Inr (int32 n)))
          else time (ctime_date (dropWhile (\<lambda>c. c \<noteq> SP) str @ [NUL])))"

section \<open>Parsing the header\<close>

definition ISSEPARATOR :: "char \<Rightarrow> bool" where
  "ISSEPARATOR c \<longleftrightarrow> c = CHR ''='' \<or> c = CHR '':''"

text \<open>
  One attribute: the pair, whether it has an equals sign (else the result is \<open>NULL\<close>), and the
  rest of the block behind the byte that ended it.
\<close>

definition parse_pair :: "string \<Rightarrow> (string \<times> bool \<times> string) res" where
  "parse_pair s =
     (let pair = takeWhile (\<lambda>c. c \<noteq> NUL \<and> c \<noteq> CHR '';'') s; r = dropWhile (\<lambda>c. c \<noteq> NUL \<and> c \<noteq> CHR '';'') s in
      if r = [] then Inl Undefined
      else Inr (trim_c pair, CHR ''='' \<in> set pair, tl r))"

definition key_value :: "string \<Rightarrow> string \<times> string" where
  "key_value pair =
     (let key = takeWhile (\<lambda>c. \<not> is_space c \<and> \<not> ISSEPARATOR c) pair
      in (key, dropWhile (\<lambda>c. is_space c \<or> ISSEPARATOR c) (drop (length key + 1) pair)))"

definition set_attribute :: "clock \<Rightarrow> string \<times> string \<Rightarrow> COOKIE \<Rightarrow> COOKIE res" where
  "set_attribute clk kv this =
     (case kv of (key, val) \<Rightarrow>
        if ncase_eq key ''expires'' 7 then
          rbind (cookie_parse_time clk val) (\<lambda>expires.
          Inr (if expires \<noteq> -1 then this\<lparr>c_session := False, c_expires := expires\<rparr> else this))
        else if ncase_eq key ''max-age'' 7 then
          Inr (if clk_atof clk val \<noteq> -1 then this\<lparr>c_session := False\<rparr> else this)
        else if ncase_eq key ''path'' 4 then Inr (this\<lparr>c_path := Some val\<rparr>)
        else if ncase_eq key ''domain'' 6 then Inr (this\<lparr>c_domain := Some val\<rparr>)
        else if ncase_eq key ''secure'' 6 then Inr (this\<lparr>c_secure := True\<rparr>)
        else if ncase_eq key ''persistent'' 10 then
          Inr (if ncase_eq val ''true'' 4 then this\<lparr>c_persistent := True\<rparr> else this)
        else Inr (this\<lparr>c_name := Some key, c_value := Some val\<rparr>))"

function pair_loop :: "clock \<Rightarrow> string \<Rightarrow> COOKIE \<Rightarrow> COOKIE res" where
  "pair_loop clk s this =
     (case parse_pair s of
        Inl e \<Rightarrow> Inl e
      | Inr (pair, eq, r) \<Rightarrow>
          (if \<not> eq then Inr this
           else (case set_attribute clk (key_value pair) this of
               Inl e \<Rightarrow> Inl e
             | Inr this' \<Rightarrow> pair_loop clk r this')))"
  by pat_completeness auto
termination
proof (relation "measure (\<lambda>(clk, s, this). length s)")
  fix clk s this p pair y eq r this'
  assume "parse_pair s = Inr p" "(pair, y) = p" "(eq, r) = y"
  then have "parse_pair s = Inr (pair, eq, r)" by simp
  then have "r = tl (dropWhile (\<lambda>c. c \<noteq> NUL \<and> c \<noteq> CHR '';'') s)" "dropWhile (\<lambda>c. c \<noteq> NUL \<and> c \<noteq> CHR '';'') s \<noteq> []"
    by (auto simp: parse_pair_def Let_def split: if_splits)
  then show "((clk, r, this'), clk, s, this) \<in> measure (\<lambda>(clk, s, this). length s)"
    using length_dropWhile_le [of "\<lambda>c. c \<noteq> NUL \<and> c \<noteq> CHR '';''" s]
    by (cases "dropWhile (\<lambda>c. c \<noteq> NUL \<and> c \<noteq> CHR '';'') s") auto
qed simp

declare pair_loop.simps [simp del]

definition blank_cookie :: COOKIE where
  "blank_cookie = \<lparr>c_name = None, c_value = None, c_domain = None, c_path = None, c_expires = 0,
     c_session = True, c_secure = False, c_persistent = False\<rparr>"

definition cookie_parse_input :: "clock \<Rightarrow> string \<Rightarrow> string \<Rightarrow> COOKIE \<Rightarrow> COOKIE res" where
  "cookie_parse_input clk str host this =
     rbind (pair_loop clk (skip_blanks str) this) (\<lambda>this.
     let this1 = (if c_expires this < 1000 then this\<lparr>c_session := True\<rparr> else this) in
     Inr (if c_domain this1 = None then
            this1\<lparr>c_domain := Some (case str_find ''.'' host of None \<Rightarrow> ''.'' | Some pos \<Rightarrow> drop pos host)\<rparr>
          else this1))"

text \<open>\<open>str\<close> is the block behind the pointer, \<open>None\<close> for \<open>NULL\<close>, with which no cookie is made.\<close>

definition new_cookie :: "clock \<Rightarrow> string option \<Rightarrow> string \<Rightarrow> COOKIE option res" where
  "new_cookie clk str host =
     (case str of
        None \<Rightarrow> Inr None
      | Some s \<Rightarrow> rbind (cookie_parse_input clk s host blank_cookie) (\<lambda>c. Inr (Some c)))"

section \<open>Words of a header\<close>

definition cookie_word :: "string \<Rightarrow> bool" where
  "cookie_word s \<longleftrightarrow> list_all (\<lambda>c. c \<noteq> NUL \<and> c \<noteq> CHR '';'' \<and> \<not> is_space c \<and> \<not> ISSEPARATOR c) s"

text \<open>The keys \<open>__parse_input\<close> takes for attributes, by their first letters.\<close>

definition is_attribute :: "string \<Rightarrow> bool" where
  "is_attribute key \<longleftrightarrow> ncase_eq key ''expires'' 7 \<or> ncase_eq key ''max-age'' 7 \<or> ncase_eq key ''path'' 4 \<or>
     ncase_eq key ''domain'' 6 \<or> ncase_eq key ''secure'' 6 \<or> ncase_eq key ''persistent'' 10"

lemma cookie_wordD:
  "cookie_word s \<Longrightarrow> c \<in> set s \<Longrightarrow> c \<noteq> NUL \<and> c \<noteq> CHR '';'' \<and> \<not> is_space c \<and> \<not> ISSEPARATOR c"
  by (auto simp: cookie_word_def list_all_iff)

lemma dropWhile_none: "\<forall>c \<in> set s. \<not> P c \<Longrightarrow> dropWhile P s = s"
  by (cases s) auto

lemma trim_c_none:
  assumes "\<forall>c \<in> set s. \<not> is_space c"
  shows "trim_c s = s"
  using dropWhile_none [of s is_space] dropWhile_none [of "rev s" is_space] assms
  by (simp add: trim_c_def rtrim_def ltrim_def)

lemma blank_is_space [simp]: "is_space SP" by (simp add: is_space_def byte_def)

lemma trim_c_blank:
  assumes "\<forall>c \<in> set s. \<not> is_space c" "s \<noteq> []"
  shows "trim_c (SP # s) = s"
proof -
  have r: "dropWhile is_space (rev s) = rev s"
    by (rule dropWhile_none) (use assms(1) in \<open>simp only: set_rev\<close>)
  have l: "last s \<in> set (rev s)" "\<not> is_space (last s)" using assms by simp_all
  have "rtrim (SP # s) = SP # s"
    unfolding rtrim_def rev.simps dropWhile_append1 [of "last s" "rev s" is_space, OF l] r by simp
  moreover have "ltrim (SP # s) = s"
    unfolding ltrim_def using dropWhile_none [OF assms(1)] by (simp only: dropWhile.simps blank_is_space if_True)
  ultimately show ?thesis by (simp only: trim_c_def)
qed

lemma parse_pair_seg:
  assumes "\<forall>c \<in> set seg. c \<noteq> NUL \<and> c \<noteq> CHR '';''" "e = NUL \<or> e = CHR '';''"
  shows "parse_pair (seg @ e # r) = Inr (trim_c seg, CHR ''='' \<in> set seg, r)"
  using assms by (auto simp: parse_pair_def takeWhile_append dropWhile_append)

lemma key_value_words:
  assumes "cookie_word k" "cookie_word v"
  shows "key_value (k @ CHR ''='' # v) = (k, v)"
proof -
  have "takeWhile (\<lambda>c. \<not> is_space c \<and> \<not> ISSEPARATOR c) (k @ CHR ''='' # v) = k"
    using cookie_wordD [OF assms(1)] by (auto simp: takeWhile_append ISSEPARATOR_def)
  moreover have "dropWhile (\<lambda>c. is_space c \<or> ISSEPARATOR c) v = v"
    using cookie_wordD [OF assms(2)] by (intro dropWhile_none) auto
  ultimately show ?thesis by (simp add: key_value_def Let_def)
qed

lemma eq_not_space: "\<not> is_space CHR ''=''" by (simp add: is_space_def byte_def)

lemma pair_loop_step:
  assumes "cookie_word k" "cookie_word v" "sp = [] \<or> sp = [SP]" "e = NUL \<or> e = CHR '';''"
    and "set_attribute clk (k, v) this = Inr this'"
  shows "pair_loop clk (sp @ k @ CHR ''='' # v @ e # r) this = pair_loop clk r this'"
proof -
  let ?w = "k @ CHR ''='' # v"
  have w: "\<forall>c \<in> set ?w. c \<noteq> NUL \<and> c \<noteq> CHR '';'' \<and> \<not> is_space c"
  proof
    fix c assume "c \<in> set ?w"
    then consider "c \<in> set k" | "c = CHR ''=''" | "c \<in> set v" by auto
    then show "c \<noteq> NUL \<and> c \<noteq> CHR '';'' \<and> \<not> is_space c"
      by cases (use cookie_wordD [OF assms(1), of c] cookie_wordD [OF assms(2), of c] eq_not_space in simp_all)
  qed
  have nsp: "\<forall>c \<in> set ?w. \<not> is_space c" using w by blast
  have ne: "?w \<noteq> []" by simp
  from assms(3) have "trim_c (sp @ ?w) = ?w"
    using trim_c_none [OF nsp] trim_c_blank [OF nsp ne] by (elim disjE) (simp_all only: append.simps)
  moreover have "\<forall>c \<in> set (sp @ ?w). c \<noteq> NUL \<and> c \<noteq> CHR '';''"
    using assms(3) w by (elim disjE) (simp_all only: append.simps list.set ball_simps, simp_all)
  ultimately have "parse_pair ((sp @ ?w) @ e # r) = Inr (?w, True, r)"
    using parse_pair_seg [OF _ assms(4), of "sp @ ?w" r] by simp
  then show ?thesis using assms(5) key_value_words [OF assms(1,2)]
    by (subst pair_loop.simps) simp
qed

lemma pair_loop_flag:
  assumes "\<forall>c \<in> set f. c \<noteq> NUL \<and> c \<noteq> CHR '';'' \<and> c \<noteq> CHR ''=''" "e = NUL \<or> e = CHR '';''"
  shows "pair_loop clk (f @ e # r) this = Inr this"
  using parse_pair_seg [of f e r] assms by (subst pair_loop.simps) auto

lemma set_attribute_name:
  "\<not> is_attribute k \<Longrightarrow> set_attribute clk (k, v) this = Inr (this\<lparr>c_name := Some k, c_value := Some v\<rparr>)"
  by (simp add: set_attribute_def is_attribute_def)

lemma skip_blanks_word: "cookie_word k \<Longrightarrow> skip_blanks (k @ CHR ''='' # r) = k @ CHR ''='' # r"
  by (cases k) (auto simp: skip_blanks_def cookie_word_def)

lemmas word_eval = cookie_word_def ISSEPARATOR_def is_attribute_def ncase_eq_def lower_def eval_simps

text \<open>A clock for examples.\<close>

definition clock0 :: clock where
  "clock0 = \<lparr>clk_now = 0, clk_mktime = (\<lambda>_. 0), clk_day2 = (2, 0), clk_atof = (\<lambda>_. 0)\<rparr>"

text \<open>
  An attribute without an equals sign (such as \<open>HttpOnly\<close> or \<open>Secure\<close>) ends the header:
  the attributes behind it are lost.
\<close>

theorem cookie_flag_ends_header:
  assumes "cookie_word k" "cookie_word v" "\<not> is_attribute k"
    and "list_all (\<lambda>c. c \<noteq> NUL \<and> c \<noteq> CHR '';'' \<and> c \<noteq> CHR ''='') flag"
  shows "new_cookie clk (Some (k @ CHR ''='' # v @ CHR '';'' # flag @ CHR '';'' # others)) host =
    new_cookie clk (Some (k @ CHR ''='' # v @ [NUL, NUL])) host"
proof -
  let ?c = "blank_cookie\<lparr>c_name := Some k, c_value := Some v\<rparr>"
  have f: "\<forall>c \<in> set flag. c \<noteq> NUL \<and> c \<noteq> CHR '';'' \<and> c \<noteq> CHR ''=''" using assms(4) by (simp add: list_all_iff)
  note step = pair_loop_step [OF assms(1,2), of "[]", OF _ _ set_attribute_name [OF assms(3)]]
  have "pair_loop clk (k @ CHR ''='' # v @ CHR '';'' # flag @ CHR '';'' # others) blank_cookie = Inr ?c"
    using step [of "CHR '';''"] pair_loop_flag [OF f, of "CHR '';''"] by simp
  moreover have "pair_loop clk (k @ CHR ''='' # v @ [NUL, NUL]) blank_cookie = Inr ?c"
    using step [of NUL] pair_loop_flag [of "[]" NUL] by simp
  ultimately show ?thesis
    using skip_blanks_word [OF assms(1)] by (simp add: new_cookie_def cookie_parse_input_def)
qed

theorem cookie_flag_ends_header_witness:
  "new_cookie clock0 (Some (''a=b; HttpOnly; Domain=x'' @ [NUL, NUL])) ''h'' =
   new_cookie clock0 (Some (''a=b'' @ [NUL, NUL])) ''h''"
  using cookie_flag_ends_header [of "''a''" "''b''" "'' HttpOnly''" clock0 "'' Domain=x'' @ [NUL, NUL]" "''h''"]
  by (simp add: word_eval)

text \<open>An attribute siege does not know replaces the name and the value of the cookie.\<close>

theorem cookie_attribute_taken_for_name:
  assumes "cookie_word k" "cookie_word v" "\<not> is_attribute k" "cookie_word k'" "cookie_word v'" "\<not> is_attribute k'"
  shows "\<exists>c. new_cookie clk (Some (k @ CHR ''='' # v @ CHR '';'' # SP # k' @ CHR ''='' # v' @ [NUL, NUL])) host = Inr (Some c) \<and>
    c_name c = Some k' \<and> c_value c = Some v'"
proof -
  have "pair_loop clk (k @ CHR ''='' # v @ CHR '';'' # SP # k' @ CHR ''='' # v' @ [NUL, NUL]) blank_cookie =
      Inr (blank_cookie\<lparr>c_name := Some k', c_value := Some v'\<rparr>)"
    using pair_loop_step [OF assms(1,2), of "[]", OF _ _ set_attribute_name [OF assms(3)]]
      pair_loop_step [OF assms(4,5), of "[SP]", OF _ _ set_attribute_name [OF assms(6)]]
      pair_loop_flag [of "[]" NUL] by simp
  then show ?thesis
    using skip_blanks_word [OF assms(1)] by (simp add: new_cookie_def cookie_parse_input_def Let_def)
qed

theorem cookie_attribute_taken_for_name_witness:
  "\<exists>c. new_cookie clock0 (Some (''id=7; SameSite=Lax'' @ [NUL, NUL])) ''h'' = Inr (Some c) \<and>
     c_name c = Some ''SameSite'' \<and> c_value c = Some ''Lax''"
  using cookie_attribute_taken_for_name [of "''id''" "''7''" "''SameSite''" "''Lax''" clock0 "''h''"]
  by (simp add: word_eval)

section \<open>Saved cookies\<close>

lemma digits_word: "cookie_word (show_nat n)"
  using show_nat_digits [of n] digit_not_space
  by (auto simp: cookie_word_def list_all_iff ISSEPARATOR_def is_digit_def byte_def)

lemma strtol_digits: "n < 2 ^ 31 \<Longrightarrow> strtol (show_nat n @ [NUL]) = Inr (int n, [NUL])"
proof -
  assume n: "n < 2 ^ 31"
  obtain c cs where c: "show_nat n = c # cs" "is_digit c" using show_nat_hd by blast
  have d: "\<forall>x \<in> set (show_nat n). is_digit x" by (rule show_nat_digits)
  have nn: "\<not> is_digit NUL" by (simp add: is_digit_def byte_def)
  have "read_sign (dropWhile is_space (show_nat n @ [NUL])) = (False, show_nat n @ [NUL])"
    using c(2) by (simp only: c(1) append_Cons dropWhile_space_digit read_sign_digit)
  moreover have "takeWhile is_digit (show_nat n @ [NUL]) = show_nat n" "dropWhile is_digit (show_nat n @ [NUL]) = [NUL]"
    using d nn by (auto simp: takeWhile_append dropWhile_append)
  ultimately show ?thesis using n nn by (simp add: strtol_def long_sat_def Let_def)
qed

lemma parse_time_digits: "n < 2 ^ 31 \<Longrightarrow> cookie_parse_time clk (show_nat n) = Inr (int n)"
proof -
  assume n: "n < 2 ^ 31"
  obtain c cs where c: "show_nat n = c # cs" "is_digit c" using show_nat_hd by blast
  have "CHR '','' \<notin> set (show_nat n)" "CHR ''T'' \<notin> set (show_nat n)"
    using show_nat_digits [of n] by (auto simp: is_digit_def byte_def)
  moreover have "is_digit (c_at (show_nat n) 0)" using c by (simp add: c_at_def)
  moreover have "int32 (int n) = int n" using n by (simp add: int32_def)
  ultimately show ?thesis using strtol_digits [OF n]
    by (simp add: cookie_parse_time_def Let_def str_find_char_None [THEN iffD2])
qed

lemma set_attribute_known:
  "set_attribute clk (''domain'', v) this = Inr (this\<lparr>c_domain := Some v\<rparr>)"
  "set_attribute clk (''path'', v) this = Inr (this\<lparr>c_path := Some v\<rparr>)"
  "set_attribute clk (''persistent'', ''true'') this = Inr (this\<lparr>c_persistent := True\<rparr>)"
  "n < 2 ^ 31 \<Longrightarrow>
     set_attribute clk (''expires'', show_nat n) this = Inr (this\<lparr>c_session := False, c_expires := int n\<rparr>)"
  using parse_time_digits [of n clk]
  by (simp_all add: set_attribute_def ncase_eq_def lower_def eval_simps)

lemma known_words: "cookie_word ''domain''" "cookie_word ''path''" "cookie_word ''persistent''" "cookie_word ''true''"
  "cookie_word ''expires''"
  by (simp_all add: cookie_word_def ISSEPARATOR_def eval_simps)

lemma length_show_nat: "n < 10 ^ Suc k \<Longrightarrow> length (show_nat n) \<le> Suc k"
proof (induction k arbitrary: n)
  case (Suc k)
  then have "n div 10 < 10 ^ Suc k" by (simp add: less_mult_imp_div_less mult.commute)
  from Suc.IH [OF this] show ?case by (subst show_nat.simps) simp
qed (simp add: show_nat.simps)



end
