(* ===== verification/Cookies.thy ===== *)
theory Cookies
  imports Cookie
begin

text \<open>
  The cookie jar of siege (\<open>siege-4.1.7/src/cookies.c\<close>): the linked list of nodes in its order.
  A node whose cookie was destroyed but which is still linked has the cookie \<open>None\<close>.  The
  thread, the time and the two options read are arguments.
\<close>

record NODE =
  n_thread :: nat
  n_cookie :: "COOKIE option"

record jar_env =
  je_thread :: nat
  je_now :: int
  je_get :: bool
  je_print :: bool

definition PERSISTENT_ID :: nat where
  "PERSISTENT_ID = 999999999999999"

section \<open>Adding\<close>

definition strcasecmp_eq :: "string \<Rightarrow> string \<Rightarrow> bool" where
  "strcasecmp_eq a b \<longleftrightarrow> lower a = lower b"

definition cookies_endswith :: "string \<Rightarrow> string \<Rightarrow> bool" where
  "cookies_endswith str suf \<longleftrightarrow>
     (if length suf > length str then False
      else strncmp (drop (length str - length suf) str) suf (length suf) = 0)"

definition domainptr :: "COOKIE option \<Rightarrow> string" where
  "domainptr c = (let d = cookie_get_domain c in if c_at d 0 = CHR ''.'' then tl d else d)"

text \<open>The loop of \<open>cookies_add\<close>; \<open>None\<close> if no cookie was found.  Once set, \<open>valid\<close> stays.\<close>

fun add_loop :: "jar_env \<Rightarrow> string \<Rightarrow> COOKIE \<Rightarrow> bool \<Rightarrow> NODE list \<Rightarrow> NODE list option res" where
  "add_loop e host oreo valid [] = Inr None"
| "add_loop e host oreo valid0 (cur # rest) =
     (let valid = (valid0 \<or> cookies_endswith host (domainptr (n_cookie cur)));
          same = strcasecmp_eq (cookie_get_name (n_cookie cur)) (cookie_get_name (Some oreo))
      in if (valid \<and> n_thread cur = je_thread e \<and> same) \<or> (je_get e \<and> valid \<and> same) then
           rbind (cookie_reset_value (cookie_get_value (Some oreo)) (n_cookie cur)) (\<lambda>c.
           Inr (Some (cur\<lparr>n_cookie := c\<rparr> # rest)))
         else
           rbind (add_loop e host oreo valid rest) (\<lambda>r. Inr (map_option (\<lambda>rest'. cur # rest') r)))"

definition cookies_add :: "jar_env \<Rightarrow> clock \<Rightarrow> string option \<Rightarrow> string \<Rightarrow> NODE list \<Rightarrow> (bool \<times> NODE list) res" where
  "cookies_add e clk str host this =
     rbind (new_cookie clk str host) (\<lambda>oreo.
     case oreo of
       None \<Rightarrow> Inr (False, this)
     | Some oreo \<Rightarrow>
         rbind (add_loop e host oreo False this) (\<lambda>r.
         case r of
           Some this' \<Rightarrow> Inr (True, this')
         | None \<Rightarrow>
             (let oreo' = (if je_get e \<and> length host > 1 then oreo\<lparr>c_persistent := True\<rparr> else oreo)
              in Inr (True, this @ [\<lparr>n_thread = (if c_persistent oreo' then PERSISTENT_ID else je_thread e),
                   n_cookie = Some oreo'\<rparr>]))))"

section \<open>Deleting\<close>

definition delete_match :: "jar_env \<Rightarrow> string \<Rightarrow> NODE \<Rightarrow> bool" where
  "delete_match e str n \<longleftrightarrow> n_thread n = je_thread e \<and> strcasecmp_eq (cookie_get_name (n_cookie n)) str"

text \<open>The first node that matches is unlinked.\<close>

fun unlink_first :: "(NODE \<Rightarrow> bool) \<Rightarrow> NODE list \<Rightarrow> NODE list" where
  "unlink_first P [] = []"
| "unlink_first P (n # ns) = (if P n then ns else n # unlink_first P ns)"

definition cookies_delete :: "jar_env \<Rightarrow> string \<Rightarrow> NODE list \<Rightarrow> bool \<times> NODE list" where
  "cookies_delete e str this = (list_ex (delete_match e str) this, unlink_first (delete_match e str) this)"

text \<open>
  \<open>cookies_delete_all\<close>: \<open>at_head\<close> says that the current node is the head of the list, \<open>gone\<close>
  that \<open>pre\<close> points to a node that has just been unlinked; then the current node is not.
\<close>

fun delete_all_loop :: "jar_env \<Rightarrow> bool \<Rightarrow> bool \<Rightarrow> NODE list \<Rightarrow> NODE list" where
  "delete_all_loop e at_head gone [] = []"
| "delete_all_loop e at_head gone (cur # rest) =
     (if n_thread cur = je_thread e then
        (if at_head then delete_all_loop e True False rest
         else if gone then cur\<lparr>n_cookie := None\<rparr> # delete_all_loop e False False rest
         else delete_all_loop e False True rest)
      else cur # delete_all_loop e False False rest)"

definition cookies_delete_all :: "jar_env \<Rightarrow> NODE list \<Rightarrow> bool \<times> NODE list" where
  "cookies_delete_all e this = (True, delete_all_loop e True False this)"

section \<open>The header\<close>

definition xcat :: "nat \<Rightarrow> string \<Rightarrow> string \<Rightarrow> string" where
  "xcat cap dest src = dest @ take (cap - length dest) src"

definition MAX_COOKIES_SIZE :: nat where
  "MAX_COOKIES_SIZE = 81920"

definition MAX_COOKIE_SIZE :: nat where
  "MAX_COOKIE_SIZE = 4096"

definition oreo_add :: "COOKIE option \<Rightarrow> string \<Rightarrow> string" where
  "oreo_add c oreo =
     (let cap = MAX_COOKIES_SIZE - 10;
          o1 = (if length oreo > 0 then xcat cap oreo '';'' else oreo)
      in xcat cap (xcat cap (xcat cap o1 (cookie_get_name c)) ''='') (cookie_get_value c))"

definition cookie_sent_to :: "jar_env \<Rightarrow> string \<Rightarrow> NODE \<Rightarrow> bool" where
  "cookie_sent_to e host n \<longleftrightarrow>
     (je_get e \<or> je_print e \<or> n_thread n = je_thread e) \<and> cookies_endswith host (domainptr (n_cookie n))"

definition expired :: "jar_env \<Rightarrow> NODE \<Rightarrow> bool" where
  "expired e n \<longleftrightarrow> cookie_get_expires (n_cookie n) \<le> je_now e \<and> \<not> cookie_get_session (n_cookie n)"

lemma length_unlink_first: "length (unlink_first P ns) \<le> length ns"
  by (induction ns) auto

text \<open>
  The walk over the list, \<open>pre\<close> what is linked before the current node.  \<open>cookies_delete\<close>
  unlinks the first node of that name, which may be another one.
\<close>

function header_loop :: "jar_env \<Rightarrow> string \<Rightarrow> NODE list \<Rightarrow> NODE list \<Rightarrow> string \<Rightarrow> NODE list \<times> string" where
  "header_loop e host pre [] oreo = (pre, oreo)"
| "header_loop e host pre (cur # rest) oreo =
     (if cookie_sent_to e host cur then
        (if expired e cur then
           (let P = delete_match e (cookie_get_name (n_cookie cur)) in
            if list_ex P pre then header_loop e host (unlink_first P pre @ [cur]) rest oreo
            else if P cur then header_loop e host pre rest oreo
            else header_loop e host (pre @ [cur]) (unlink_first P rest) oreo)
         else header_loop e host (pre @ [cur]) rest (oreo_add (n_cookie cur) oreo))
      else header_loop e host (pre @ [cur]) rest oreo)"
  by pat_completeness auto

termination
  by (relation "measure (\<lambda>(e, h, pre, l, or). length l)") (auto simp: less_Suc_eq_le length_unlink_first)

text \<open>\<open>None\<close>: the buffer of the caller is left as it is.\<close>

definition cookies_header :: "jar_env \<Rightarrow> string \<Rightarrow> NODE list \<Rightarrow> string option \<times> NODE list" where
  "cookies_header e host this =
     (let (this', oreo) = header_loop e host [] this [] in
      (if length oreo > 0 then Some (''Cookie: '' @ take MAX_COOKIE_SIZE oreo @ crlf) else None, this'))"

section \<open>Saving\<close>

definition save_line :: "jar_env \<Rightarrow> NODE \<Rightarrow> string" where
  "save_line e n =
     (case n_cookie n of
        None \<Rightarrow> []
      | Some c \<Rightarrow>
          (if \<not> c_session c \<and> c_expires c \<ge> je_now e then
             (case cookie_to_string c of
                None \<Rightarrow> []
              | Some s \<Rightarrow> take (4096 + 23)
                  (show_nat (if je_get e \<or> c_persistent c then PERSISTENT_ID else n_thread n) @ '' | '' @ s @ [LF]))
           else []))"

definition save_cookies :: "jar_env \<Rightarrow> NODE list \<Rightarrow> string" where
  "save_cookies e this =
     ''#'' @ [LF] @
     ''# Siege cookies file. You may edit this file to add cookies'' @ [LF] @
     ''# manually but comments and formatting will be removed.    '' @ [LF] @
     ''# All cookies that expire in the future will be preserved. '' @ [LF] @
     ''# ---------------------------------------------------------'' @ [LF] @
     concat (map (save_line e) this)"

section \<open>What is sent\<close>

definition cookie_pair :: "NODE \<Rightarrow> string" where
  "cookie_pair n = cookie_get_name (n_cookie n) @ ''='' @ cookie_get_value (n_cookie n)"

fun joined_pairs :: "string list \<Rightarrow> string" where
  "joined_pairs [] = []"
| "joined_pairs [x] = x"
| "joined_pairs (x # y # ys) = x @ '';'' @ joined_pairs (y # ys)"

lemma joined_snoc: "joined_pairs (xs @ [x]) = (if xs = [] then x else joined_pairs xs @ '';'' @ x)"
proof (induction xs rule: joined_pairs.induct)
  case (3 x y ys)
  then show ?case by simp
qed simp_all

lemma joined_nonempty: "[] \<notin> set xs \<Longrightarrow> joined_pairs xs = [] \<longleftrightarrow> xs = []"
  by (induction xs rule: joined_pairs.induct) auto

lemma cookie_pair_nonempty [simp]: "cookie_pair n \<noteq> []"
  by (simp add: cookie_pair_def)

lemma no_empty_pair [simp]: "[] \<noteq> cookie_pair n" "[] \<notin> set (map cookie_pair l)"
  by (auto simp: cookie_pair_def)

lemma xcat_fits: "length dest + length src \<le> cap \<Longrightarrow> xcat cap dest src = dest @ src"
  by (simp add: xcat_def)

lemma oreo_add_joined:
  assumes "length (joined_pairs (xs @ [cookie_pair n])) \<le> MAX_COOKIES_SIZE - 10" "[] \<notin> set xs"
  shows "oreo_add (n_cookie n) (joined_pairs xs) = joined_pairs (xs @ [cookie_pair n])"
proof (cases "xs = []")
  case True
  with assms(1) show ?thesis
    by (simp add: oreo_add_def Let_def xcat_fits cookie_pair_def)
next
  case False
  then have "joined_pairs xs \<noteq> []" using joined_nonempty [OF assms(2)] by simp
  with False assms(1) show ?thesis
    by (simp add: oreo_add_def Let_def xcat_fits cookie_pair_def joined_snoc)
qed

lemma joined_prefix_length: "length (joined_pairs xs) \<le> length (joined_pairs (xs @ ys))"
proof (induction ys rule: rev_induct)
  case (snoc y ys)
  have "length (joined_pairs (xs @ ys)) \<le> length (joined_pairs ((xs @ ys) @ [y]))"
    by (cases "xs @ ys = []") (auto simp: joined_snoc simp del: append_assoc append_is_Nil_conv)
  with snoc show ?case by simp
qed simp

lemma header_loop_live:
  assumes "\<forall>n \<in> set l. \<not> (cookie_sent_to e host n \<and> expired e n)" "[] \<notin> set xs"
    and "length (joined_pairs (xs @ map cookie_pair (filter (cookie_sent_to e host) l))) \<le> MAX_COOKIES_SIZE - 10"
  shows "header_loop e host pre l (joined_pairs xs) = (pre @ l, joined_pairs (xs @ map cookie_pair (filter (cookie_sent_to e host) l)))"
  using assms
proof (induction l arbitrary: pre xs)
  case (Cons n l)
  show ?case
  proof (cases "cookie_sent_to e host n")
    case True
    let ?r = "map cookie_pair (filter (cookie_sent_to e host) l)"
    have "length (joined_pairs (xs @ [cookie_pair n])) \<le> length (joined_pairs ((xs @ [cookie_pair n]) @ ?r))"
      by (rule joined_prefix_length)
    then have "oreo_add (n_cookie n) (joined_pairs xs) = joined_pairs (xs @ [cookie_pair n])"
      using Cons.prems True by (intro oreo_add_joined) auto
    moreover have "header_loop e host (pre @ [n]) l (joined_pairs (xs @ [cookie_pair n])) =
        ((pre @ [n]) @ l, joined_pairs ((xs @ [cookie_pair n]) @ ?r))"
      using Cons.prems True cookie_pair_nonempty [of n] by (intro Cons.IH) auto
    moreover have "\<not> expired e n" using Cons.prems(1) True by simp
    ultimately show ?thesis using True by simp
  next
    case False
    with Cons.prems Cons.IH [of xs "pre @ [n]"] show ?thesis by simp
  qed
qed simp

lemma cookies_header_live:
  assumes "\<forall>n \<in> set this. \<not> (cookie_sent_to e host n \<and> expired e n)"
    and "length (joined_pairs (map cookie_pair (filter (cookie_sent_to e host) this))) \<le> MAX_COOKIES_SIZE - 10"
  shows "cookies_header e host this =
    (if filter (cookie_sent_to e host) this = [] then None
     else Some (''Cookie: '' @ take MAX_COOKIE_SIZE (joined_pairs (map cookie_pair (filter (cookie_sent_to e host) this))) @ crlf), this)"
proof -
  let ?j = "joined_pairs (map cookie_pair (filter (cookie_sent_to e host) this))"
  have "?j = [] \<longleftrightarrow> filter (cookie_sent_to e host) this = []"
    using joined_nonempty [OF no_empty_pair(2) [of "filter (cookie_sent_to e host) this"]] by simp
  then show ?thesis
    using header_loop_live [of this e host "[]" "[]"] assms by (simp add: cookies_header_def)
qed

text \<open>A thread, and its cookie of a host, for the examples.\<close>

definition env0 :: jar_env where
  "env0 = \<lparr>je_thread = 1, je_now = 100, je_get = False, je_print = False\<rparr>"

definition node0 :: "nat \<Rightarrow> string \<Rightarrow> string \<Rightarrow> string \<Rightarrow> NODE" where
  "node0 t k v d = \<lparr>n_thread = t,
     n_cookie = Some (blank_cookie\<lparr>c_name := Some k, c_value := Some v, c_domain := Some d\<rparr>)\<rparr>"

lemmas jar_eval = env0_def node0_def blank_cookie_def cookie_sent_to_def expired_def domainptr_def cookie_get_domain_def
  cookie_get_name_def cookie_get_value_def cookie_get_session_def cookie_get_expires_def field_or_none_def
  cookies_endswith_def c_at_def cookie_pair_def strcasecmp_eq_def lower_def

text \<open>
  Whether a cookie belongs in the header for a host, said of its fields: it is the thread's, or the
  options make all threads share their cookies, and the host ends with its domain, whose first point
  does not count.
\<close>

definition due :: "jar_env \<Rightarrow> string \<Rightarrow> NODE \<Rightarrow> bool" where
  "due e host n \<longleftrightarrow>
     (case n_cookie n of
        Some c \<Rightarrow> (je_get e \<or> je_print e \<or> n_thread n = je_thread e) \<and>
          (case c_domain c of
             Some (x # d) \<Rightarrow> suffix (if x = CHR ''.'' then d else x # d) host
           | Some [] \<Rightarrow> True
           | None \<Rightarrow> False)
      | None \<Rightarrow> False)"

definition due_pair :: "NODE \<Rightarrow> string" where
  "due_pair n = (case n_cookie n of None \<Rightarrow> [] | Some c \<Rightarrow> the (c_name c) @ ''='' @ the (c_value c))"

text \<open>A cookie with its three fields, no byte of the domain zero, that lasts.\<close>

definition lasting :: "jar_env \<Rightarrow> NODE \<Rightarrow> bool" where
  "lasting e n \<longleftrightarrow>
     (case n_cookie n of
        Some c \<Rightarrow> c_name c \<noteq> None \<and> c_value c \<noteq> None \<and> c_domain c \<noteq> None \<and> (c_session c \<or> je_now e < c_expires c)
      | None \<Rightarrow> False)"

lemma strncmp_eq: "length a = length b \<Longrightarrow> strncmp a b (length b) = 0 \<longleftrightarrow> a = b"
proof (induction a arbitrary: b)
  case (Cons x a)
  then show ?case by (cases b) (auto simp: byte_inj)
qed simp

lemma endswith_suffix: "cookies_endswith host d \<longleftrightarrow> suffix d host"
proof
  assume "cookies_endswith host d"
  then have le: "length d \<le> length host" and "strncmp (drop (length host - length d) host) d (length d) = 0"
    by (auto simp: cookies_endswith_def split: if_splits)
  then have "drop (length host - length d) host = d" by (subst (asm) strncmp_eq) simp_all
  then show "suffix d host" by (metis suffix_drop)
next
  assume "suffix d host"
  then obtain a where "host = a @ d" by (auto simp: suffix_def)
  then show "cookies_endswith host d" using strncmp_eq [of d d] by (simp add: cookies_endswith_def)
qed

lemma due_sent: "lasting e n \<Longrightarrow> cookie_sent_to e host n = due e host n"
  by (auto simp: lasting_def due_def cookie_sent_to_def domainptr_def cookie_get_domain_def field_or_none_def endswith_suffix
    c_at_def Let_def split: option.splits list.splits)

lemma lasting_live: "lasting e n \<Longrightarrow> \<not> expired e n" "lasting e n \<Longrightarrow> cookie_pair n = due_pair n"
  by (auto simp: lasting_def expired_def cookie_get_expires_def cookie_get_session_def cookie_pair_def due_pair_def
    cookie_get_name_def cookie_get_value_def field_or_none_def split: option.splits)

text \<open>
  C23: in a jar whose cookies have a name, a value and a domain and are not expired, the header for a
  host names the cookies of the thread - with \<open>--get\<close> or \<open>--print\<close> those of all threads - whose
  domain, without its first point, the host ends with, in their order, and nothing else, as long as
  the pairs have 4096 bytes at most; without such a cookie there is none.  The jar stays as it is.
\<close>

theorem cookies_header_sent:
  assumes "list_all (lasting e) this" "length (joined_pairs (map due_pair (filter (due e host) this))) \<le> MAX_COOKIE_SIZE"
  shows "cookies_header e host this =
    (if filter (due e host) this = [] then None
     else Some (''Cookie: '' @ joined_pairs (map due_pair (filter (due e host) this)) @ crlf), this)"
proof -
  have last: "lasting e n" if "n \<in> set this" for n using assms(1) that by (simp add: list_all_iff)
  then have sent: "filter (cookie_sent_to e host) this = filter (due e host) this" by (simp add: due_sent cong: filter_cong)
  have pairs: "map cookie_pair (filter (due e host) this) = map due_pair (filter (due e host) this)"
    using last lasting_live(2) by fastforce
  have "\<forall>n \<in> set this. \<not> (cookie_sent_to e host n \<and> expired e n)" using last by (simp add: lasting_live(1))
  moreover have "length (joined_pairs (map cookie_pair (filter (cookie_sent_to e host) this))) \<le> MAX_COOKIES_SIZE - 10"
    unfolding sent pairs using assms(2) by (simp add: MAX_COOKIE_SIZE_def MAX_COOKIES_SIZE_def)
  ultimately have "cookies_header e host this =
    (if filter (due e host) this = [] then None
     else Some (''Cookie: '' @ take MAX_COOKIE_SIZE (joined_pairs (map due_pair (filter (due e host) this))) @ crlf), this)"
    using cookies_header_live [of this e host] unfolding sent pairs by blast
  then show ?thesis by (simp only: take_all [OF assms(2)])
qed

theorem cookies_header_sent_witness:
  "cookies_header env0 ''www.a.org'' [node0 1 ''x'' ''1'' ''.a.org'', node0 2 ''y'' ''2'' ''.a.org'', node0 1 ''z'' ''3'' ''.b.org''] =
   (Some (''Cookie: x=1'' @ crlf), [node0 1 ''x'' ''1'' ''.a.org'', node0 2 ''y'' ''2'' ''.a.org'', node0 1 ''z'' ''3'' ''.b.org''])"
proof -
  let ?jar = "[node0 1 ''x'' ''1'' ''.a.org'', node0 2 ''y'' ''2'' ''.a.org'', node0 1 ''z'' ''3'' ''.b.org'']"
  have "list_all (lasting env0) ?jar" by code_simp
  moreover have "due env0 ''www.a.org'' (node0 1 ''x'' ''1'' ''.a.org'')" "\<not> due env0 ''www.a.org'' (node0 2 ''y'' ''2'' ''.a.org'')"
    "\<not> due env0 ''www.a.org'' (node0 1 ''z'' ''3'' ''.b.org'')" by code_simp+
  then have sent: "filter (due env0 ''www.a.org'') ?jar = [node0 1 ''x'' ''1'' ''.a.org'']" by simp
  moreover have "due_pair (node0 1 ''x'' ''1'' ''.a.org'') = ''x=1''" by (simp add: due_pair_def node0_def)
  ultimately show ?thesis
    using cookies_header_sent [of env0 ?jar "''www.a.org''"] by (simp add: MAX_COOKIE_SIZE_def)
qed

text \<open>
  A cookie of more than 4096 bytes makes a header of 4106 bytes, and its NUL; the buffers of
  the two callers have 4104 and 4096 bytes.
\<close>

theorem cookies_header_overflows:
  assumes "cookie_sent_to e host n" "\<not> expired e n"
    and "MAX_COOKIE_SIZE \<le> length (cookie_pair n)" "length (cookie_pair n) \<le> MAX_COOKIES_SIZE - 10"
  shows "\<exists>h. cookies_header e host [n] = (Some h, [n]) \<and> length h + 1 > MAX_COOKIE_SIZE + 8"
  using cookies_header_live [of "[n]" e host] assms by (auto simp: crlf_def)

theorem cookies_header_overflows_witness:
  "\<exists>h. cookies_header env0 ''a'' [node0 1 ''k'' (replicate 4096 CHR ''v'') ''a''] =
       (Some h, [node0 1 ''k'' (replicate 4096 CHR ''v'') ''a'']) \<and> length h + 1 > MAX_COOKIE_SIZE + 8"
  by (rule cookies_header_overflows) (simp_all add: jar_eval MAX_COOKIE_SIZE_def MAX_COOKIES_SIZE_def strncmp_code [of _ _ "Suc 0"])

section \<open>Whose cookie it is\<close>

lemma strncmp_refl: "strncmp a a n = 0"
proof (induction a arbitrary: n)
  case Nil
  then show ?case by (cases n) simp_all
next
  case (Cons x a)
  then show ?case by (cases n) simp_all
qed

lemma endswith_append: "cookies_endswith (a @ b) b"
  by (simp add: cookies_endswith_def strncmp_refl)

text \<open>
  A cookie that names no domain is sent to every host under the domain above its host: one
  of \<open>a.org\<close> goes to every host in \<open>org\<close>.
\<close>

theorem cookie_sent_to_siblings:
  assumes "cookie_word k" "cookie_word v" "\<not> is_attribute k" "CHR ''.'' \<notin> set a"
    and "length k + length v < MAX_COOKIE_SIZE" "\<not> je_get e"
  shows "\<exists>jar. cookies_add e clk (Some (k @ CHR ''='' # v @ [NUL, NUL])) (a @ CHR ''.'' # tld) [] = Inr (True, jar) \<and>
    cookies_header e (b @ tld) jar = (Some (''Cookie: '' @ k @ ''='' @ v @ crlf), jar)"
proof -
  let ?c = "blank_cookie\<lparr>c_name := Some k, c_value := Some v, c_domain := Some (CHR ''.'' # tld)\<rparr>"
  have "pair_loop clk (k @ CHR ''='' # v @ [NUL, NUL]) blank_cookie = Inr (blank_cookie\<lparr>c_name := Some k, c_value := Some v\<rparr>)"
    using pair_loop_step [OF assms(1,2), of "[]" NUL, OF _ _ set_attribute_name [OF assms(3)]]
      pair_loop_flag [of "[]" NUL] by simp
  then have "new_cookie clk (Some (k @ CHR ''='' # v @ [NUL, NUL])) (a @ CHR ''.'' # tld) = Inr (Some ?c)"
    using skip_blanks_word [OF assms(1)] str_find_char_append [OF assms(4), of tld]
    by (simp add: new_cookie_def cookie_parse_input_def Let_def blank_cookie_def)
  then have "cookies_add e clk (Some (k @ CHR ''='' # v @ [NUL, NUL])) (a @ CHR ''.'' # tld) [] =
      Inr (True, [\<lparr>n_thread = je_thread e, n_cookie = Some ?c\<rparr>])"
    using assms(6) by (simp add: cookies_add_def blank_cookie_def)
  moreover have "cookie_sent_to e (b @ tld) \<lparr>n_thread = je_thread e, n_cookie = Some ?c\<rparr>"
    using endswith_append [of b tld]
    by (simp add: cookie_sent_to_def domainptr_def cookie_get_domain_def field_or_none_def c_at_def)
  moreover have "\<not> expired e \<lparr>n_thread = je_thread e, n_cookie = Some ?c\<rparr>"
    by (simp add: expired_def cookie_get_session_def blank_cookie_def)
  ultimately show ?thesis
    using cookies_header_live [of "[\<lparr>n_thread = je_thread e, n_cookie = Some ?c\<rparr>]" e "b @ tld"] assms(5)
    by (simp add: cookie_pair_def cookie_get_name_def cookie_get_value_def field_or_none_def MAX_COOKIES_SIZE_def MAX_COOKIE_SIZE_def)
qed

theorem cookie_sent_to_siblings_witness:
  "\<exists>jar. cookies_add env0 clock0 (Some (''id=7'' @ [NUL, NUL])) ''a.org'' [] = Inr (True, jar) \<and>
     cookies_header env0 ''b.org'' jar = (Some (''Cookie: id=7'' @ crlf), jar)"
  using cookie_sent_to_siblings [of "''id''" "''7''" "''a''" env0 clock0 "''org''" "''b.''"]
  by (simp add: word_eval MAX_COOKIE_SIZE_def env0_def)

text \<open>
  Behind a node whose domain the host ends with, a cookie of the same name is overwritten
  whatever its own domain is.
\<close>

theorem cookies_add_crosses_domains:
  assumes "new_cookie clk (Some str) host = Inr (Some c)"
    and "cookies_endswith host (domainptr (n_cookie n1))"
    and "\<not> strcasecmp_eq (cookie_get_name (n_cookie n1)) (cookie_get_name (Some c))"
    and "n_thread n2 = je_thread e" "n_cookie n2 = Some c2" "strcasecmp_eq (cookie_get_name (Some c2)) (cookie_get_name (Some c))"
  shows "cookies_add e clk (Some str) host [n1, n2] =
    Inr (True, [n1, n2\<lparr>n_cookie := Some (c2\<lparr>c_value := Some (cookie_get_value (Some c))\<rparr>)\<rparr>])"
  using assms by (simp add: cookies_add_def cookie_reset_value_def)

theorem cookies_add_crosses_domains_witness:
  "\<exists>c. new_cookie clock0 (Some (''id=9'' @ [NUL, NUL])) ''www.a.org'' = Inr (Some c) \<and>
     cookies_add env0 clock0 (Some (''id=9'' @ [NUL, NUL])) ''www.a.org'' [node0 1 ''x'' ''1'' ''.a.org'', node0 1 ''id'' ''7'' ''.b.org''] =
       Inr (True, [node0 1 ''x'' ''1'' ''.a.org'', node0 1 ''id'' ''9'' ''.b.org''])"
proof -
  have c: "new_cookie clock0 (Some (''id=9'' @ [NUL, NUL])) ''www.a.org'' =
      Inr (Some (blank_cookie\<lparr>c_name := Some ''id'', c_value := Some ''9'', c_domain := Some ''.a.org''\<rparr>))"
    by code_simp
  have "cookies_add env0 clock0 (Some (''id=9'' @ [NUL, NUL])) ''www.a.org'' [node0 1 ''x'' ''1'' ''.a.org'', node0 1 ''id'' ''7'' ''.b.org''] =
       Inr (True, [node0 1 ''x'' ''1'' ''.a.org'', node0 1 ''id'' ''9'' ''.b.org''])"
    using cookies_add_crosses_domains [OF c, of "node0 1 ''x'' ''1'' ''.a.org''" "node0 1 ''id'' ''7'' ''.b.org''" env0]
    by (simp add: jar_eval eval_nat_numeral eval_simps)
  with c show ?thesis by blast
qed

section \<open>Forgetting\<close>

lemma delete_all_loop_forgets:
  "\<forall>n \<in> set (delete_all_loop e h g l). n_thread n = je_thread e \<longrightarrow> n_cookie n = None"
  by (induction e h g l rule: delete_all_loop.induct) auto

lemma delete_all_loop_others:
  "filter (\<lambda>n. n_thread n \<noteq> je_thread e) (delete_all_loop e h g l) = filter (\<lambda>n. n_thread n \<noteq> je_thread e) l"
  by (induction e h g l rule: delete_all_loop.induct) auto

text \<open>
  \<open>cookies_delete_all\<close> destroys every cookie of the thread and leaves those of the other
  threads as they are.
\<close>

theorem cookies_delete_all_forgets:
  "filter (\<lambda>n. n_thread n = je_thread e \<and> n_cookie n \<noteq> None) (snd (cookies_delete_all e this)) = [] \<and>
   filter (\<lambda>n. n_thread n \<noteq> je_thread e) (snd (cookies_delete_all e this)) =
     filter (\<lambda>n. n_thread n \<noteq> je_thread e) this"
  using delete_all_loop_forgets [of e True False this] delete_all_loop_others [of e True False this]
  by (auto simp: cookies_delete_all_def filter_empty_conv)

text \<open>
  Behind a node of another thread, the second of two cookies of the thread stays linked
  without a cookie, and the thread then sends it as \<open>none=none\<close>.
\<close>

theorem cookies_delete_all_leaves_none:
  assumes "n_thread n0 \<noteq> je_thread e" "n_thread n1 = je_thread e" "n_thread n2 = je_thread e"
    and "\<not> je_get e" "\<not> je_print e"
  shows "cookies_header e ''none'' (snd (cookies_delete_all e [n0, n1, n2])) =
    (Some (''Cookie: none=none'' @ crlf), [n0, n2\<lparr>n_cookie := None\<rparr>])"
proof -
  let ?l = "[n0, n2\<lparr>n_cookie := None\<rparr>]"
  have l: "snd (cookies_delete_all e [n0, n1, n2]) = ?l" using assms by (simp add: cookies_delete_all_def)
  have s: "\<not> cookie_sent_to e ''none'' n0" "cookie_sent_to e ''none'' (n2\<lparr>n_cookie := None\<rparr>)"
    using assms by (simp_all add: cookie_sent_to_def domainptr_def cookie_get_domain_def field_or_none_def cookie_none_def
      c_at_def cookies_endswith_def strncmp_refl)
  moreover have "\<not> expired e (n2\<lparr>n_cookie := None\<rparr>)" by (simp add: expired_def cookie_get_session_def)
  ultimately show ?thesis
    using cookies_header_live [of ?l e "''none''"] unfolding l
    by (simp add: cookie_pair_def cookie_get_name_def cookie_get_value_def field_or_none_def cookie_none_def
      MAX_COOKIE_SIZE_def MAX_COOKIES_SIZE_def)
qed

theorem cookies_delete_all_leaves_none_witness:
  "cookies_header env0 ''none'' (snd (cookies_delete_all env0 [node0 2 ''a'' ''1'' ''x'', node0 1 ''b'' ''2'' ''x'', node0 1 ''c'' ''3'' ''x''])) =
    (Some (''Cookie: none=none'' @ crlf), [node0 2 ''a'' ''1'' ''x'', (node0 1 ''c'' ''3'' ''x'')\<lparr>n_cookie := None\<rparr>])"
  by (rule cookies_delete_all_leaves_none) (simp_all add: env0_def node0_def)

end
