(* ===== verification/Creds.thy ===== *)
theory Creds
  imports Url
begin

text \<open>
  Login credentials of siege (\<open>siege-4.1.7/src/creds.c\<close>), written \<open>user:password\<close> or
  \<open>user:password:realm\<close>.  The argument is the block of bytes from the pointer on.
\<close>

record CREDS =
  cr_scheme :: SCHEME
  cr_username :: string
  cr_password :: string
  cr_realm :: string

text \<open>
  A part ends at a colon or a NUL.  Without a colon behind the user the pointer steps over the
  NUL of the string, and the password is whatever lies behind.
\<close>

definition creds_part :: "string \<Rightarrow> (string \<times> string) res" where
  "creds_part s =
     (let r = dropWhile (\<lambda>c. c \<noteq> NUL \<and> c \<noteq> CHR '':'') s in
      if r = [] then Inl Undefined else Inr (takeWhile (\<lambda>c. c \<noteq> NUL \<and> c \<noteq> CHR '':'') s, r))"

definition new_creds :: "SCHEME \<Rightarrow> string \<Rightarrow> CREDS res" where
  "new_creds scheme str =
     rbind (creds_part str) (\<lambda>(usr, r).
     rbind (creds_part (tl r)) (\<lambda>(pwd, r').
     rbind (if hd r' \<noteq> NUL then bstr (tl r') 0 else Inr ''any'') (\<lambda>rlm.
     Inr \<lparr>cr_scheme = scheme, cr_username = usr, cr_password = pwd, cr_realm = rlm\<rparr>)))"

definition creds_word :: "string \<Rightarrow> bool" where
  "creds_word s \<longleftrightarrow> list_all (\<lambda>c. c \<noteq> NUL \<and> c \<noteq> CHR '':'') s"

lemma creds_part_word:
  "creds_word w \<Longrightarrow> e = NUL \<or> e = CHR '':'' \<Longrightarrow> creds_part (w @ e # r) = Inr (w, e # r)"
  by (auto simp: creds_part_def creds_word_def list_all_iff takeWhile_append dropWhile_append)

text \<open>
  Credentials are parsed into the user, the password and the realm they were written from;
  without a realm they hold for any.
\<close>

theorem creds_roundtrip:
  assumes "creds_word u" "creds_word p" "NUL \<notin> set r"
  shows "new_creds s (u @ '':'' @ p @ '':'' @ r @ [NUL]) =
      Inr \<lparr>cr_scheme = s, cr_username = u, cr_password = p, cr_realm = r\<rparr> \<and>
    new_creds s (u @ '':'' @ p @ [NUL]) =
      Inr \<lparr>cr_scheme = s, cr_username = u, cr_password = p, cr_realm = ''any''\<rparr>"
proof -
  have "bstr (r @ [NUL]) 0 = Inr r"
    using assms(3) by (auto simp: bstr_def c_str_def takeWhile_append)
  then show ?thesis
    using creds_part_word [OF assms(1), of "CHR '':''"] creds_part_word [OF assms(2), of "CHR '':''"]
      creds_part_word [OF assms(2), of NUL] by (simp add: new_creds_def)
qed

theorem creds_roundtrip_witness:
  "new_creds HTTP (''joe:secret:home'' @ [NUL]) =
     Inr \<lparr>cr_scheme = HTTP, cr_username = ''joe'', cr_password = ''secret'', cr_realm = ''home''\<rparr>"
  using creds_roundtrip [of "''joe''" "''secret''" "''home''" HTTP] by (simp add: creds_word_def)

text \<open>The user alone makes siege read behind the string.\<close>

lemma creds_without_colon: "creds_word u \<Longrightarrow> new_creds s (u @ [NUL]) = Inl Undefined"
  using creds_part_word [of u NUL "[]"] by (simp add: new_creds_def creds_part_def)

end
