(* ===== verification/Md5.thy ===== *)
theory Md5
  imports Prelude "HOL-Library.Word"
begin

text \<open>
  The MD5 code of siege (\<open>siege-4.1.7/src/md5.c\<close>) on a little-endian machine: words of 32 bits,
  the context with its buffer as \<open>md5_process_bytes\<close> fills it.  Only the first \<open>buflen\<close> bytes
  of the buffer are kept.  Whether a pointer is aligned is an argument.
\<close>

unbundle bit_operations_syntax

type_synonym md5_uint32 = "32 word"

record md5_ctx =
  ctx_A :: md5_uint32
  ctx_B :: md5_uint32
  ctx_C :: md5_uint32
  ctx_D :: md5_uint32
  ctx_total0 :: md5_uint32
  ctx_total1 :: md5_uint32
  ctx_buffer :: string

definition md5_init_ctx :: md5_ctx where
  "md5_init_ctx = \<lparr>ctx_A = 0x67452301, ctx_B = 0xefcdab89, ctx_C = 0x98badcfe, ctx_D = 0x10325476,
     ctx_total0 = 0, ctx_total1 = 0, ctx_buffer = []\<rparr>"

section \<open>One block\<close>

definition FF :: "md5_uint32 \<Rightarrow> md5_uint32 \<Rightarrow> md5_uint32 \<Rightarrow> md5_uint32" where
  "FF b c d = d XOR (b AND (c XOR d))"

definition FG :: "md5_uint32 \<Rightarrow> md5_uint32 \<Rightarrow> md5_uint32 \<Rightarrow> md5_uint32" where
  "FG b c d = FF d b c"

definition FH :: "md5_uint32 \<Rightarrow> md5_uint32 \<Rightarrow> md5_uint32 \<Rightarrow> md5_uint32" where
  "FH b c d = b XOR c XOR d"

definition FI :: "md5_uint32 \<Rightarrow> md5_uint32 \<Rightarrow> md5_uint32 \<Rightarrow> md5_uint32" where
  "FI b c d = c XOR (b OR NOT d)"

definition CYCLIC :: "md5_uint32 \<Rightarrow> nat \<Rightarrow> md5_uint32" where
  "CYCLIC w s = push_bit s w OR drop_bit (32 - s) w"

text \<open>The word at four bytes of the block, and the bytes of a word.\<close>

fun words_of_bytes :: "string \<Rightarrow> md5_uint32 list" where
  "words_of_bytes (a # b # c # d # r) =
     of_nat (byte a + 2 ^ 8 * byte b + 2 ^ 16 * byte c + 2 ^ 24 * byte d) # words_of_bytes r"
| "words_of_bytes _ = []"

definition bytes_of_word :: "md5_uint32 \<Rightarrow> string" where
  "bytes_of_word w = map (\<lambda>i. char_of (unat w div 2 ^ (8 * i) mod 256)) [0, 1, 2, 3]"

text \<open>
  The macro \<open>OP\<close> changes one register; the four of them then change roles, so that the calls
  \<open>OP (A, B, C, D, ...)\<close>, \<open>OP (D, A, B, C, ...)\<close> and so on are one step each.
\<close>

definition op_step :: "(md5_uint32 \<Rightarrow> md5_uint32 \<Rightarrow> md5_uint32 \<Rightarrow> md5_uint32) \<Rightarrow> md5_uint32 list \<Rightarrow>
    nat \<times> nat \<times> md5_uint32 \<Rightarrow> md5_uint32 \<times> md5_uint32 \<times> md5_uint32 \<times> md5_uint32 \<Rightarrow>
    md5_uint32 \<times> md5_uint32 \<times> md5_uint32 \<times> md5_uint32" where
  "op_step F X op st =
     (case (op, st) of ((k, s, T), (a, b, c, d)) \<Rightarrow> (d, CYCLIC (a + (F b c d + X ! k + T)) s + b, b, c))"

definition round1 :: "(nat \<times> nat \<times> md5_uint32) list" where
  "round1 =
     [(0, 7, 0xd76aa478), (1, 12, 0xe8c7b756), (2, 17, 0x242070db), (3, 22, 0xc1bdceee),
      (4, 7, 0xf57c0faf), (5, 12, 0x4787c62a), (6, 17, 0xa8304613), (7, 22, 0xfd469501),
      (8, 7, 0x698098d8), (9, 12, 0x8b44f7af), (10, 17, 0xffff5bb1), (11, 22, 0x895cd7be),
      (12, 7, 0x6b901122), (13, 12, 0xfd987193), (14, 17, 0xa679438e), (15, 22, 0x49b40821)]"

definition round2 :: "(nat \<times> nat \<times> md5_uint32) list" where
  "round2 =
     [(1, 5, 0xf61e2562), (6, 9, 0xc040b340), (11, 14, 0x265e5a51), (0, 20, 0xe9b6c7aa),
      (5, 5, 0xd62f105d), (10, 9, 0x02441453), (15, 14, 0xd8a1e681), (4, 20, 0xe7d3fbc8),
      (9, 5, 0x21e1cde6), (14, 9, 0xc33707d6), (3, 14, 0xf4d50d87), (8, 20, 0x455a14ed),
      (13, 5, 0xa9e3e905), (2, 9, 0xfcefa3f8), (7, 14, 0x676f02d9), (12, 20, 0x8d2a4c8a)]"

definition round3 :: "(nat \<times> nat \<times> md5_uint32) list" where
  "round3 =
     [(5, 4, 0xfffa3942), (8, 11, 0x8771f681), (11, 16, 0x6d9d6122), (14, 23, 0xfde5380c),
      (1, 4, 0xa4beea44), (4, 11, 0x4bdecfa9), (7, 16, 0xf6bb4b60), (10, 23, 0xbebfbc70),
      (13, 4, 0x289b7ec6), (0, 11, 0xeaa127fa), (3, 16, 0xd4ef3085), (6, 23, 0x04881d05),
      (9, 4, 0xd9d4d039), (12, 11, 0xe6db99e5), (15, 16, 0x1fa27cf8), (2, 23, 0xc4ac5665)]"

definition round4 :: "(nat \<times> nat \<times> md5_uint32) list" where
  "round4 =
     [(0, 6, 0xf4292244), (7, 10, 0x432aff97), (14, 15, 0xab9423a7), (5, 21, 0xfc93a039),
      (12, 6, 0x655b59c3), (3, 10, 0x8f0ccc92), (10, 15, 0xffeff47d), (1, 21, 0x85845dd1),
      (8, 6, 0x6fa87e4f), (15, 10, 0xfe2ce6e0), (6, 15, 0xa3014314), (13, 21, 0x4e0811a1),
      (4, 6, 0xf7537e82), (11, 10, 0xbd3af235), (2, 15, 0x2ad7d2bb), (9, 21, 0xeb86d391)]"

definition md5_rounds :: "md5_uint32 list \<Rightarrow> md5_uint32 \<times> md5_uint32 \<times> md5_uint32 \<times> md5_uint32 \<Rightarrow>
    md5_uint32 \<times> md5_uint32 \<times> md5_uint32 \<times> md5_uint32" where
  "md5_rounds X st =
     fold (op_step FI X) round4 (fold (op_step FH X) round3 (fold (op_step FG X) round2 (fold (op_step FF X) round1 st)))"

definition md5_compress :: "string \<Rightarrow> md5_uint32 \<times> md5_uint32 \<times> md5_uint32 \<times> md5_uint32 \<Rightarrow>
    md5_uint32 \<times> md5_uint32 \<times> md5_uint32 \<times> md5_uint32" where
  "md5_compress blk st =
     (case (st, md5_rounds (words_of_bytes blk) st) of
        ((a0, b0, c0, d0), (a, b, c, d)) \<Rightarrow> (a + a0, b + b0, c + c0, d + d0))"

text \<open>The loop over the blocks of 64 bytes.\<close>

fun compress_blocks :: "nat \<Rightarrow> string \<Rightarrow> md5_uint32 \<times> md5_uint32 \<times> md5_uint32 \<times> md5_uint32 \<Rightarrow>
    md5_uint32 \<times> md5_uint32 \<times> md5_uint32 \<times> md5_uint32" where
  "compress_blocks 0 buffer st = st"
| "compress_blocks (Suc n) buffer st = compress_blocks n (drop 64 buffer) (md5_compress (take 64 buffer) st)"

definition md5_process_block :: "string \<Rightarrow> nat \<Rightarrow> md5_ctx \<Rightarrow> md5_ctx" where
  "md5_process_block buffer len ctx =
     (let total0 = ctx_total0 ctx + of_nat len;
          total1 = ctx_total1 ctx + of_nat (len div 2 ^ 32 + (if unat total0 < len then 1 else 0));
          (a, b, c, d) = compress_blocks (len div 64) buffer (ctx_A ctx, ctx_B ctx, ctx_C ctx, ctx_D ctx)
      in ctx\<lparr>ctx_A := a, ctx_B := b, ctx_C := c, ctx_D := d, ctx_total0 := total0, ctx_total1 := total1\<rparr>)"

section \<open>Bytes\<close>

text \<open>The loop for a pointer that is not aligned: a block at a time while more than 64 bytes are left.\<close>

function unaligned_loop :: "string \<Rightarrow> md5_ctx \<Rightarrow> string \<times> md5_ctx" where
  "unaligned_loop buffer ctx =
     (if length buffer > 64
      then unaligned_loop (drop 64 buffer) (md5_process_block (take 64 buffer) 64 ctx)
      else (buffer, ctx))"
  by pat_completeness auto
termination
  by (relation "measure (\<lambda>(b, c). length b)") auto

declare unaligned_loop.simps [simp del]

definition fill_buffer :: "string \<Rightarrow> md5_ctx \<Rightarrow> string \<times> md5_ctx" where
  "fill_buffer buffer ctx =
     (if ctx_buffer ctx = [] then (buffer, ctx)
      else
        (let left_over = length (ctx_buffer ctx);
             add = (if 128 - left_over > length buffer then length buffer else 128 - left_over);
             buf = ctx_buffer ctx @ take add buffer; n = left_over + add;
             ctx1 = (if n > 64
               then (md5_process_block buf (n div 64 * 64) ctx)\<lparr>ctx_buffer := drop (n div 64 * 64) buf\<rparr>
               else ctx\<lparr>ctx_buffer := buf\<rparr>)
         in (drop add buffer, ctx1)))"

definition whole_blocks :: "bool \<Rightarrow> string \<times> md5_ctx \<Rightarrow> string \<times> md5_ctx" where
  "whole_blocks aligned st =
     (case st of (buffer, ctx) \<Rightarrow>
        if length buffer > 64 then
          (if \<not> aligned then unaligned_loop buffer ctx
           else (let n = length buffer div 64 * 64 in (drop n buffer, md5_process_block buffer n ctx)))
        else (buffer, ctx))"

definition keep_rest :: "string \<times> md5_ctx \<Rightarrow> md5_ctx" where
  "keep_rest st = (case st of (buffer, ctx) \<Rightarrow> if buffer \<noteq> [] then ctx\<lparr>ctx_buffer := buffer\<rparr> else ctx)"

definition md5_process_bytes :: "bool \<Rightarrow> string \<Rightarrow> md5_ctx \<Rightarrow> md5_ctx" where
  "md5_process_bytes aligned buffer ctx = keep_rest (whole_blocks aligned (fill_buffer buffer ctx))"

section \<open>The digest\<close>

definition fillbuf :: string where
  "fillbuf = char_of (128::nat) # replicate 63 NUL"

definition md5_read_ctx :: "md5_ctx \<Rightarrow> string" where
  "md5_read_ctx ctx =
     bytes_of_word (ctx_A ctx) @ bytes_of_word (ctx_B ctx) @ bytes_of_word (ctx_C ctx) @ bytes_of_word (ctx_D ctx)"

definition md5_finish_ctx :: "md5_ctx \<Rightarrow> string" where
  "md5_finish_ctx ctx =
     (let bytes = length (ctx_buffer ctx);
          total0 = ctx_total0 ctx + of_nat bytes;
          total1 = (if total0 < of_nat bytes then ctx_total1 ctx + 1 else ctx_total1 ctx);
          pad = (if bytes \<ge> 56 then 64 + 56 - bytes else 56 - bytes);
          buf = ctx_buffer ctx @ take pad fillbuf @ bytes_of_word (push_bit 3 total0) @
            bytes_of_word (push_bit 3 total1 OR drop_bit 29 total0)
      in md5_read_ctx (md5_process_block buf (bytes + pad + 8) (ctx\<lparr>ctx_total0 := total0, ctx_total1 := total1\<rparr>)))"

definition md5_buffer :: "bool \<Rightarrow> string \<Rightarrow> string" where
  "md5_buffer aligned buffer = md5_finish_ctx (md5_process_bytes aligned buffer md5_init_ctx)"

text \<open>
  \<open>md5_stream\<close> on what the stream gives until its end, or until an error (the result \<open>None\<close>).
\<close>

function stream_loop :: "string \<Rightarrow> md5_ctx \<Rightarrow> string \<times> md5_ctx" where
  "stream_loop content ctx =
     (if length content \<ge> 4096
      then stream_loop (drop 4096 content) (md5_process_block (take 4096 content) 4096 ctx)
      else (content, ctx))"
  by pat_completeness auto
termination
  by (relation "measure (\<lambda>(b, c). length b)") auto

declare stream_loop.simps [simp del]

definition md5_stream :: "bool \<Rightarrow> string \<Rightarrow> string option" where
  "md5_stream failed content =
     (if failed then None
      else
        (let (r, ctx) = stream_loop content md5_init_ctx;
             ctx1 = (if r \<noteq> [] then md5_process_bytes True r ctx else ctx)
         in Some (md5_finish_ctx ctx1)))"

section \<open>The algorithm as RFC 1321 states it\<close>

definition md5_init :: "md5_uint32 \<times> md5_uint32 \<times> md5_uint32 \<times> md5_uint32" where
  "md5_init = (0x67452301, 0xefcdab89, 0x98badcfe, 0x10325476)"

definition md5_padding :: "nat \<Rightarrow> string" where
  "md5_padding n =
     char_of (128::nat) # replicate ((119 - n mod 64) mod 64) NUL @
     bytes_of_word (of_nat (8 * n)) @ bytes_of_word (of_nat (8 * n div 2 ^ 32))"

definition md5_spec :: "string \<Rightarrow> string" where
  "md5_spec m =
     (let p = m @ md5_padding (length m);
          (a, b, c, d) = compress_blocks (length p div 64) p md5_init
      in bytes_of_word a @ bytes_of_word b @ bytes_of_word c @ bytes_of_word d)"

subsection \<open>Blocks\<close>

lemma compress_blocks_add:
  "compress_blocks (i + j) m st = compress_blocks j (drop (64 * i) m) (compress_blocks i m st)"
  by (induction i arbitrary: m st) (simp_all add: algebra_simps)

lemma compress_blocks_append: "64 * i \<le> length m \<Longrightarrow> compress_blocks i (m @ x) st = compress_blocks i m st"
  by (induction i arbitrary: m st) simp_all

lemma compress_blocks_take: "64 * i \<le> n \<Longrightarrow> compress_blocks i (take n m) st = compress_blocks i m st"
proof (induction i arbitrary: m n st)
  case (Suc i)
  then show ?case by (simp add: drop_take min_def)
qed simp

text \<open>The counter of bytes, as two words.\<close>

definition counts :: "nat \<Rightarrow> md5_ctx \<Rightarrow> bool" where
  "counts n ctx \<longleftrightarrow> ctx_total0 ctx = of_nat n \<and> ctx_total1 ctx = of_nat (n div 2 ^ 32)"

lemma count_carry:
  fixes n len k :: nat
  assumes "len < k"
  shows "(n + len) div k = n div k + (if (n + len) mod k < len then 1 else 0)"
proof -
  let ?x = "n mod k + len"
  have "n + len = ?x + n div k * k" using div_mult_mod_eq [of n k] by linarith
  then have d: "(n + len) div k = n div k + ?x div k" and m: "(n + len) mod k = ?x mod k"
    using assms by (metis add.commute div_mult_self1 gr_implies_not0, metis mod_mult_self1)
  have x: "n mod k < k" using assms by (intro mod_less_divisor) simp
  show ?thesis
  proof (cases "?x < k")
    case True
    then show ?thesis using d m by simp
  next
    case False
    then have "?x div k = Suc ((?x - k) div k)" "?x mod k = (?x - k) mod k"
      using assms by (simp_all add: le_div_geq le_mod_geq)
    moreover have "?x - k < k" "?x - k < len" using x assms False by linarith+
    ultimately show ?thesis using d m by simp
  qed
qed

text \<open>The first \<open>n\<close> bytes of \<open>m\<close> are in the context.\<close>

definition absorbed :: "nat \<Rightarrow> string \<Rightarrow> md5_ctx \<Rightarrow> bool" where
  "absorbed n m ctx \<longleftrightarrow> n \<le> length m \<and> 64 dvd n \<and> counts n ctx \<and>
     (ctx_A ctx, ctx_B ctx, ctx_C ctx, ctx_D ctx) = compress_blocks (n div 64) m md5_init"

lemma absorbed_append: "absorbed n m ctx \<Longrightarrow> absorbed n (m @ x) ctx"
  by (auto simp: absorbed_def compress_blocks_append)

lemma absorbed_buffer [simp]: "absorbed n m (ctx\<lparr>ctx_buffer := b\<rparr>) = absorbed n m ctx"
  by (simp add: absorbed_def counts_def)

lemma process_block_buffer [simp]: "ctx_buffer (md5_process_block buf len ctx) = ctx_buffer ctx"
  by (simp add: md5_process_block_def Let_def split: prod.splits)

lemma process_block_absorbed:
  assumes "absorbed n m ctx" "64 dvd len" "len < 2 ^ 32" "n + len \<le> length m" "take len buf = take len (drop n m)"
  shows "absorbed (n + len) m (md5_process_block buf len ctx)"
proof -
  have t0: "ctx_total0 ctx + of_nat len = of_nat (n + len)" and t1: "ctx_total1 ctx = of_nat (n div 2 ^ 32)"
    using assms(1) by (simp_all add: absorbed_def counts_def)
  have "unat (of_nat (n + len) :: md5_uint32) = (n + len) mod 2 ^ 32" by (subst unat_of_nat) simp
  then have t1': "of_nat (n div 2 ^ 32) + of_nat (len div 2 ^ 32 + (if unat (of_nat (n + len) :: md5_uint32) < len then 1 else 0)) =
      (of_nat ((n + len) div 2 ^ 32) :: md5_uint32)"
    unfolding count_carry [OF assms(3)] using assms(3) by simp
  have "compress_blocks (len div 64) buf st = compress_blocks (len div 64) (drop n m) st" for st
    using compress_blocks_take [of "len div 64" len] assms(2,5) by (metis dvd_mult_div_cancel order_refl)
  moreover have "64 * (n div 64) = n" "(n + len) div 64 = n div 64 + len div 64"
    using assms(1,2) by (auto simp: absorbed_def)
  ultimately have "compress_blocks (len div 64) buf (ctx_A ctx, ctx_B ctx, ctx_C ctx, ctx_D ctx) =
      compress_blocks ((n + len) div 64) m md5_init"
    using assms(1) compress_blocks_add [of "n div 64" "len div 64" m md5_init] by (simp add: absorbed_def)
  then show ?thesis
    using assms(1,2,4) t0 t1 t1'
    by (auto simp: absorbed_def counts_def md5_process_block_def Let_def split: prod.splits)
qed

text \<open>
  Between the phases of \<open>md5_process_bytes\<close> a rest of the new bytes is pending behind the
  buffer, which is empty unless nothing is pending.
\<close>

definition pending :: "string \<Rightarrow> string \<times> md5_ctx \<Rightarrow> bool" where
  "pending m st \<longleftrightarrow>
     (case st of (rest, ctx) \<Rightarrow> length (ctx_buffer ctx) \<le> 64 \<and> (rest = [] \<or> ctx_buffer ctx = []) \<and>
        (\<exists>n. absorbed n m ctx \<and> drop n m = ctx_buffer ctx @ rest))"

definition represents :: "string \<Rightarrow> md5_ctx \<Rightarrow> bool" where
  "represents m ctx \<longleftrightarrow> length (ctx_buffer ctx) \<le> 64 \<and> (\<exists>n. absorbed n m ctx \<and> drop n m = ctx_buffer ctx)"

lemma represents_init: "represents [] md5_init_ctx"
  by (auto simp: represents_def absorbed_def counts_def md5_init_ctx_def md5_init_def)

lemma fill_buffer_pending:
  assumes "represents m ctx"
  shows "pending (m @ x) (fill_buffer x ctx)"
proof -
  obtain n where n: "absorbed n m ctx" "drop n m = ctx_buffer ctx" and b: "length (ctx_buffer ctx) \<le> 64"
    using assms by (auto simp: represents_def)
  have d: "drop n (m @ x) = ctx_buffer ctx @ x" using n by (simp add: absorbed_def)
  have a: "absorbed n (m @ x) ctx" using n(1) by (rule absorbed_append)
  show ?thesis
  proof (cases "ctx_buffer ctx = []")
    case True
    with a d show ?thesis by (auto simp: pending_def fill_buffer_def)
  next
    case False
    let ?l = "length (ctx_buffer ctx)"
    define add where "add = (if 128 - ?l > length x then length x else 128 - ?l)"
    let ?buf = "ctx_buffer ctx @ take add x" and ?t = "?l + add"
    have lx: "add \<le> length x" and l128: "?t \<le> 128" using b by (auto simp: add_def)
    have full: "drop add x = [] \<or> ?t = 128" using b by (auto simp: add_def)
    have lbuf: "length ?buf = ?t" using lx by simp
    show ?thesis
    proof (cases "?t > 64")
      case True
      let ?k = "?t div 64 * 64"
      have k: "?k \<le> ?t" "64 dvd ?k" by simp_all
      have lm: "n + ?t \<le> length (m @ x)" using lx n by (auto simp: absorbed_def dest: arg_cong [of _ _ length])
      have "take ?k ?buf = take ?k (drop n (m @ x))"
        using d k lbuf by (simp add: take_append min_def)
      then have ab: "absorbed (n + ?k) (m @ x) (md5_process_block ?buf ?k ctx)"
        using process_block_absorbed [OF a k(2)] k(1) l128 lm by simp
      have dr: "drop (n + ?k) (m @ x) = drop ?k ?buf @ drop add x"
      proof -
        have "ctx_buffer ctx @ x = ?buf @ drop add x" by simp
        then have "drop ?k (drop n (m @ x)) = drop ?k ?buf @ drop add x"
          using d lbuf k(1) by (simp only: drop_append) simp
        then show ?thesis by (simp only: drop_drop add.commute)
      qed
      have sm: "length (drop ?k ?buf) \<le> 64" "?t = 128 \<Longrightarrow> drop ?k ?buf = []"
        using lbuf l128 True by auto
      show ?thesis
        using True False ab dr sm full
        by (auto simp: pending_def fill_buffer_def Let_def add_def [symmetric])
    next
      case False': False
      then have "drop add x = []" using full by auto
      then show ?thesis
        using False False' a d lbuf by (auto simp: pending_def fill_buffer_def Let_def add_def [symmetric])
    qed
  qed
qed

lemma blocks_pending:
  assumes "pending m (rest, ctx)" "64 dvd len" "len \<le> length rest" "len < 2 ^ 32" "rest \<noteq> []" "take len buf = take len rest"
  shows "pending m (drop len rest, md5_process_block buf len ctx)"
proof -
  from assms(1,5) obtain n where n: "absorbed n m ctx" "drop n m = rest" "ctx_buffer ctx = []"
    by (auto simp: pending_def)
  have "n + len \<le> length m" using n(2) assms(3,5) by (auto dest: arg_cong [of _ _ length])
  then have "absorbed (n + len) m (md5_process_block buf len ctx)"
    using process_block_absorbed [OF n(1) assms(2,4)] assms(6) n(2) by simp
  moreover have "drop (n + len) m = drop len rest" using n(2) by (metis drop_drop add.commute)
  ultimately show ?thesis using n(3) by (auto simp: pending_def)
qed

lemma unaligned_pending:
  "pending m (rest, ctx) \<Longrightarrow> pending m (unaligned_loop rest ctx) \<and> length (fst (unaligned_loop rest ctx)) \<le> 64"
proof (induction rest ctx rule: unaligned_loop.induct)
  case (1 rest ctx)
  show ?case
  proof (cases "length rest > 64")
    case True
    then have "pending m (drop 64 rest, md5_process_block (take 64 rest) 64 ctx)"
      using "1.prems" by (intro blocks_pending) auto
    with 1 True show ?thesis by (simp add: unaligned_loop.simps [of rest])
  next
    case False
    with "1.prems" show ?thesis by (simp add: unaligned_loop.simps [of rest])
  qed
qed

lemma whole_pending:
  assumes "pending m (rest, ctx)" "length rest < 2 ^ 32"
  shows "pending m (whole_blocks al (rest, ctx)) \<and> length (fst (whole_blocks al (rest, ctx))) \<le> 64"
proof (cases "length rest > 64 \<and> al")
  case True
  let ?n = "length rest div 64 * 64"
  have "?n \<le> length rest" by simp
  moreover from this have "?n < 2 ^ 32" using assms(2) by linarith
  ultimately have "pending m (drop ?n rest, md5_process_block rest ?n ctx)"
    using True by (intro blocks_pending [OF assms(1)]) auto
  moreover have "length (drop ?n rest) \<le> 64" by simp
  ultimately show ?thesis using True by (simp add: whole_blocks_def Let_def)
next
  case False
  then show ?thesis
    using assms(1) unaligned_pending [OF assms(1)] by (auto simp: whole_blocks_def)
qed

lemma keep_represents: "pending m st \<Longrightarrow> length (fst st) \<le> 64 \<Longrightarrow> represents m (keep_rest st)"
  by (cases st) (auto simp: pending_def represents_def keep_rest_def)

lemma process_bytes_represents:
  assumes "represents m ctx" "length x < 2 ^ 32"
  shows "represents (m @ x) (md5_process_bytes al x ctx)"
proof -
  obtain r c where f: "fill_buffer x ctx = (r, c)" by (cases "fill_buffer x ctx")
  have "pending (m @ x) (r, c)" using fill_buffer_pending [OF assms(1), of x] f by simp
  moreover have "length r \<le> length x" using f by (auto simp: fill_buffer_def Let_def split: if_splits)
  ultimately show ?thesis
    using whole_pending [of "m @ x" r c al] assms(2) keep_represents f by (simp add: md5_process_bytes_def)
qed

subsection \<open>The last block\<close>

lemma high_bits:
  "push_bit 3 (of_nat (n div 2 ^ 32)) OR drop_bit 29 (of_nat n) = (of_nat (8 * n div 2 ^ 32) :: md5_uint32)"
proof -
  let ?q = "of_nat (n div 2 ^ 32) :: md5_uint32" and ?w = "of_nat n :: md5_uint32"
  have d: "push_bit 3 ?q AND drop_bit 29 ?w = 0"
    by (rule bit_word_eqI) (auto simp: bit_simps dest: bit_imp_possible_bit)
  have u: "unat (drop_bit 29 ?w) = n mod 2 ^ 32 div 2 ^ 29"
    by (subst unsigned_drop_bit_eq) (simp add: drop_bit_eq_div unat_of_nat take_bit_eq_mod)
  have "drop_bit 29 ?w = of_nat (unat (drop_bit 29 ?w))" by (simp del: drop_bit_of_nat)
  then have w: "drop_bit 29 ?w = of_nat (n mod 2 ^ 32 div 2 ^ 29)" unfolding u .
  have "8 * n div 2 ^ 32 = 8 * (n div 2 ^ 32) + n mod 2 ^ 32 div 2 ^ 29"
  proof -
    have "8 * n div 2 ^ 32 = n div 2 ^ 29" using div_mult_mult1 [of 8 n "2 ^ 29"] by simp
    moreover have "n = n mod 2 ^ 32 + 8 * (n div 2 ^ 32) * 2 ^ 29" using mod_div_mult_eq [of n "2 ^ 32"] by simp
    then have "n div 2 ^ 29 = 8 * (n div 2 ^ 32) + n mod 2 ^ 32 div 2 ^ 29"
      using div_mult_self1 [of "2 ^ 29" "n mod 2 ^ 32" "8 * (n div 2 ^ 32)"] by simp
    ultimately show ?thesis by simp
  qed
  then have "of_nat (8 * n div 2 ^ 32) = push_bit 3 ?q + drop_bit 29 ?w"
    unfolding w by (simp add: push_bit_eq_mult)
  with disjunctive_add_eq_or [OF d] show ?thesis by simp
qed

lemma low_bits: "push_bit 3 (of_nat n) = (of_nat (8 * n) :: md5_uint32)"
  by (simp add: push_bit_eq_mult)

lemma read_ctx_chain:
  "md5_read_ctx (md5_process_block buf len (ctx\<lparr>ctx_total0 := t0, ctx_total1 := t1\<rparr>)) = md5_read_ctx (md5_process_block buf len ctx)"
  by (simp add: md5_read_ctx_def md5_process_block_def Let_def split: prod.splits)

lemma padding_split:
  assumes "64 dvd n" "b \<le> 64" "pad = (if b \<ge> 56 then 64 + 56 - b else 56 - b)"
  shows "md5_padding (n + b) = take pad fillbuf @ bytes_of_word (of_nat (8 * (n + b))) @
    bytes_of_word (of_nat (8 * (n + b) div 2 ^ 32))"
    and "64 dvd b + pad + 8" "pad \<le> 64"
proof -
  have "(n + b) mod 64 = b mod 64" using assms(1) by (metis dvd_def mod_mult_self3 mult.commute add.commute mod_mult_self1)
  moreover have "pad = Suc ((119 - b mod 64) mod 64)"
    using assms(2,3) by (cases "b = 64"; cases "b \<ge> 56") (auto simp: mod_if)
  moreover have "take (Suc k) fillbuf = char_of (128::nat) # replicate k NUL" if "k < 64" for k
    using that by (simp add: fillbuf_def)
  ultimately show "md5_padding (n + b) = take pad fillbuf @ bytes_of_word (of_nat (8 * (n + b))) @
    bytes_of_word (of_nat (8 * (n + b) div 2 ^ 32))" by (simp add: md5_padding_def)
qed (use assms(2,3) in auto)

lemma length_bytes_of_word [simp]: "length (bytes_of_word w) = 4"
  by (simp add: bytes_of_word_def)

lemma finish_represents:
  assumes "represents m ctx"
  shows "md5_finish_ctx ctx = md5_spec m"
proof -
  obtain n where n: "absorbed n m ctx" "drop n m = ctx_buffer ctx" and b: "length (ctx_buffer ctx) \<le> 64"
    using assms by (auto simp: represents_def)
  let ?b = "length (ctx_buffer ctx)"
  define pad where "pad = (if ?b \<ge> 56 then 64 + 56 - ?b else 56 - ?b)"
  have L: "length m = n + ?b" using n by (metis absorbed_def length_drop le_add_diff_inverse)
  have n64: "64 dvd n" using n(1) by (simp add: absorbed_def)
  note pd = padding_split [OF n64 b pad_def]
  let ?p = "m @ md5_padding (length m)" and ?len = "?b + pad + 8"
  let ?buf = "ctx_buffer ctx @ md5_padding (length m)"
  have lp: "length (md5_padding (length m)) = pad + 8" unfolding L pd(1) using pd(3) by (simp add: fillbuf_def)
  have "drop n ?p = ?buf" using n by (simp add: absorbed_def)
  then have "absorbed (n + ?len) ?p (md5_process_block ?buf ?len ctx)"
    using process_block_absorbed [OF absorbed_append [OF n(1)] pd(2), of "md5_padding (length m)" ?buf] b pd(3) L lp
    by simp
  moreover have "length ?p = n + ?len" using L lp by simp
  ultimately have spec: "md5_read_ctx (md5_process_block ?buf ?len ctx) = md5_spec m"
    by (auto simp: md5_spec_def md5_read_ctx_def absorbed_def Let_def split: prod.splits)
  have t0: "ctx_total0 ctx + of_nat ?b = of_nat (length m)" and t1: "ctx_total1 ctx = of_nat (n div 2 ^ 32)"
    using n(1) L by (simp_all add: absorbed_def counts_def)
  have "(of_nat (length m) :: md5_uint32) < of_nat ?b \<longleftrightarrow> length m mod 2 ^ 32 < ?b"
    unfolding word_less_nat_alt unat_of_nat using b by simp
  then have t1': "(if (of_nat (length m) :: md5_uint32) < of_nat ?b then ctx_total1 ctx + 1 else ctx_total1 ctx) =
      of_nat (length m div 2 ^ 32)"
    using count_carry [of ?b "2 ^ 32" n] b L t1 by simp
  have "md5_finish_ctx ctx = md5_read_ctx (md5_process_block ?buf ?len ctx)"
    unfolding md5_finish_ctx_def Let_def t0 t1' pad_def [symmetric] high_bits
    unfolding low_bits read_ctx_chain pd(1) [folded L] by (simp only: append_assoc)
  with spec show ?thesis by simp
qed

text \<open>
  C22: however the message is cut into pieces, and wherever they lie in memory, \<open>md5_finish_ctx\<close>
  gives the digest of the padded message as a whole.
\<close>

theorem md5_any_segmentation:
  assumes "list_all (\<lambda>(aligned, x). length x < 2 ^ 32) pieces"
  shows "md5_finish_ctx (fold (\<lambda>(aligned, x). md5_process_bytes aligned x) pieces md5_init_ctx) =
    md5_spec (concat (map snd pieces))"
proof -
  have "represents (m @ concat (map snd pieces)) (fold (\<lambda>(aligned, x). md5_process_bytes aligned x) pieces ctx)"
    if "represents m ctx" for m ctx
    using that assms
  proof (induction pieces arbitrary: m ctx)
    case (Cons p ps)
    obtain al x where p: "p = (al, x)" by (cases p)
    with Cons.prems have "represents (m @ x) (md5_process_bytes al x ctx)"
      by (intro process_bytes_represents) auto
    from Cons.IH [OF this] Cons.prems(2) p show ?case by simp
  qed simp
  from finish_represents [OF this [OF represents_init]] show ?thesis by simp
qed

theorem md5_any_segmentation_witness:
  "md5_finish_ctx (fold (\<lambda>(aligned, x). md5_process_bytes aligned x) [(True, ''a''), (False, ''bc'')] md5_init_ctx) =
   md5_spec ''abc''"
  using md5_any_segmentation [of "[(True, ''a''), (False, ''bc'')]"] by simp

lemma md5_buffer_spec: "length m < 2 ^ 32 \<Longrightarrow> md5_buffer al m = md5_spec m"
  using finish_represents [OF process_bytes_represents [OF represents_init]] by (simp add: md5_buffer_def)

lemma stream_loop_represents:
  "represents m ctx \<Longrightarrow> ctx_buffer ctx = [] \<Longrightarrow>
   (case stream_loop r ctx of (r', ctx') \<Rightarrow> length r' < 4096 \<and>
     (\<exists>m'. m' @ r' = m @ r \<and> represents m' ctx'))"
proof (induction r ctx arbitrary: m rule: stream_loop.induct)
  case (1 r ctx)
  show ?case
  proof (cases "length r \<ge> 4096")
    case True
    let ?x = "take 4096 r" and ?c = "md5_process_block (take 4096 r) 4096 ctx"
    obtain n where n: "absorbed n m ctx" "drop n m = []" using "1.prems" by (auto simp: represents_def)
    have "absorbed (n + 4096) (m @ ?x) ?c"
      using n True by (intro process_block_absorbed [OF absorbed_append [OF n(1)]]) (auto simp: absorbed_def)
    moreover have "drop (n + 4096) (m @ ?x) = []" using n True by (simp add: absorbed_def)
    ultimately have "represents (m @ ?x) ?c" using "1.prems"(2) by (auto simp: represents_def)
    from "1.IH" [OF True this] "1.prems"(2) show ?thesis
      using True by (simp add: stream_loop.simps [of r])
  next
    case False
    with "1.prems"(1) show ?thesis by (auto simp: stream_loop.simps [of r])
  qed
qed

lemma md5_stream_spec: "md5_stream False content = Some (md5_spec content)"
proof -
  have init: "ctx_buffer md5_init_ctx = []" by (simp add: md5_init_ctx_def)
  obtain r ctx m where l: "stream_loop content md5_init_ctx = (r, ctx)" "length r < 4096" "m @ r = content" "represents m ctx"
    using stream_loop_represents [OF represents_init init, of content] by (auto split: prod.splits)
  then have "represents (m @ r) (md5_process_bytes True r ctx)" by (intro process_bytes_represents) auto
  then show ?thesis using l finish_represents by (auto simp: md5_stream_def Let_def)
qed

text \<open>
  The functions of the rounds are those of RFC 1321, and the words and rotations follow its
  schedule.
\<close>

lemma md5_functions:
  "FF x y z = (x AND y) OR (NOT x AND z)" "FG x y z = (x AND z) OR (y AND NOT z)"
  "FH x y z = x XOR y XOR z" "FI x y z = y XOR (x OR NOT z)"
  by (rule bit_word_eqI; auto simp: FF_def FG_def FH_def FI_def bit_simps)+

lemma replicate_four: "replicate 4 x = [x, x, x, x]"
  by (simp add: eval_nat_numeral)

lemma md5_schedule:
  "map fst round1 = [0..<16]" "map fst round2 = map (\<lambda>i. (5 * i + 1) mod 16) [0..<16]"
  "map fst round3 = map (\<lambda>i. (3 * i + 5) mod 16) [0..<16]" "map fst round4 = map (\<lambda>i. 7 * i mod 16) [0..<16]"
  "map (fst \<circ> snd) round1 = concat (replicate 4 [7, 12, 17, 22])" "map (fst \<circ> snd) round2 = concat (replicate 4 [5, 9, 14, 20])"
  "map (fst \<circ> snd) round3 = concat (replicate 4 [4, 11, 16, 23])" "map (fst \<circ> snd) round4 = concat (replicate 4 [6, 10, 15, 21])"
  by (simp_all add: round1_def round2_def round3_def round4_def upt_conv_Cons replicate_four)

end
