(* ===== verification/Crew.thy ===== *)
theory Crew
  imports Interfaces
begin

text \<open>
  The thread pool of siege (\<open>siege-4.1.7/src/crew.c\<close>) as a transition system.  \<open>crew_set_shutdown\<close> and
  \<open>crew_cancel\<close> write \<open>shutdown\<close> without the lock, so a critical section is one step for each time it
  reads or writes that flag: the test of the loop, the test behind it, the step of
  \<open>pthread_cond_wait\<close>.  A waiting thread may wake up at any time, as the C library allows.  A failing
  call of the thread library ends the program and is left out.
\<close>

section \<open>State\<close>

text \<open>
  A job is the pair of routine and argument, a type variable here.  \<open>W_checked\<close>, \<open>A_checked\<close> and
  \<open>J_checked\<close> hold the lock and are about to wait; \<open>W_tested\<close>, \<open>A_tested\<close> and \<open>J_leaving\<close> hold it behind
  the loop, \<open>J_entered\<close> in front of it; \<open>A_loop\<close> and \<open>J_loop\<close> were woken.  \<open>W_fault\<close> has taken the
  null pointer out of an empty queue.
\<close>

datatype 'j worker = W_ready | W_checked | W_waiting | W_tested | W_running 'j | W_fault | W_exit

datatype 'j caller =
    A_start 'j | A_loop 'j | A_checked 'j | A_waiting 'j | A_tested 'j | A_done 'j bool
  | J_start bool | J_entered bool | J_loop | J_checked | J_waiting | J_leaving | J_unlocked | J_woken | J_joining | J_done bool | J_fatal
  | S_set bool | S_broadcast | S_full | S_empty | S_done
  | X_set | X_broadcast | X_full | X_empty | X_cancel

datatype holder = By_worker nat | By_caller nat | Dead

text \<open>
  The queue is the list from \<open>head\<close>.  \<open>cr_accepted\<close>, \<open>cr_started\<close> and \<open>cr_forced\<close> record what
  happened: the jobs \<open>crew_add\<close> took, those a worker took out, and whether anything but
  \<open>crew_join\<close> set \<open>shutdown\<close>.
\<close>

record 'j crew =
  cr_maxsize :: nat
  cr_cursize :: nat
  cr_total :: nat
  cr_queue :: "'j list"
  cr_block :: bool
  cr_closed :: bool
  cr_shutdown :: bool
  cr_lock :: "holder option"
  cr_workers :: "'j worker list"
  cr_callers :: "'j caller list"
  cr_accepted :: "'j list"
  cr_started :: "'j list"
  cr_forced :: bool

definition new_crew :: "nat \<Rightarrow> nat \<Rightarrow> bool \<Rightarrow> 'j caller list \<Rightarrow> 'j crew" where
  "new_crew n maxsize block callers =
     \<lparr>cr_maxsize = maxsize, cr_cursize = 0, cr_total = 0, cr_queue = [], cr_block = block,
      cr_closed = False, cr_shutdown = False, cr_lock = None, cr_workers = replicate n W_ready,
      cr_callers = callers, cr_accepted = [], cr_started = [], cr_forced = False\<rparr>"

section \<open>Condition variables\<close>

fun wake_worker :: "'j worker \<Rightarrow> 'j worker" where
  "wake_worker W_waiting = W_ready"
| "wake_worker w = w"

fun wake_adder :: "'j caller \<Rightarrow> 'j caller" where
  "wake_adder (A_waiting j) = A_loop j"
| "wake_adder c = c"

fun wake_joiner :: "'j caller \<Rightarrow> 'j caller" where
  "wake_joiner J_waiting = J_loop"
| "wake_joiner c = c"

definition broadcast_not_empty :: "'j crew \<Rightarrow> 'j crew" where
  "broadcast_not_empty s = s\<lparr>cr_workers := map wake_worker (cr_workers s)\<rparr>"

definition broadcast_not_full :: "'j crew \<Rightarrow> 'j crew" where
  "broadcast_not_full s = s\<lparr>cr_callers := map wake_adder (cr_callers s)\<rparr>"

text \<open>\<open>pthread_cond_signal\<close> wakes one thread at least; only one waits for \<open>empty\<close>.\<close>

definition signal_empty :: "'j crew \<Rightarrow> 'j crew" where
  "signal_empty s = s\<lparr>cr_callers := map wake_joiner (cr_callers s)\<rparr>"

section \<open>A worker\<close>

text \<open>What \<open>crew_thread\<close> does with the lock when there is work.\<close>

definition take_work :: "'j crew \<Rightarrow> 'j worker \<times> 'j crew" where
  "take_work s =
     (let j = hd (cr_queue s);
          s1 = s\<lparr>cr_cursize := cr_cursize s - 1, cr_queue := tl (cr_queue s), cr_started := cr_started s @ [j]\<rparr>;
          s2 = (if cr_block s1 \<and> cr_cursize s1 + 1 = cr_maxsize s1 then broadcast_not_full s1 else s1);
          s3 = (if cr_cursize s2 = 0 then signal_empty s2 else s2)
      in (W_running j, s3))"

text \<open>The next step of the worker \<open>i\<close>; \<open>None\<close> while it cannot go on.\<close>

definition unlock :: "'t \<times> 'j crew \<Rightarrow> 't \<times> 'j crew" where
  "unlock r = (fst r, (snd r)\<lparr>cr_lock := None\<rparr>)"

fun worker_next :: "nat \<Rightarrow> 'j worker \<Rightarrow> 'j crew \<Rightarrow> ('j worker \<times> 'j crew) option" where
  "worker_next i W_ready s =
     (if cr_lock s \<noteq> None then None
      else Some (if cr_cursize s = 0 \<and> \<not> cr_shutdown s then W_checked else W_tested, s\<lparr>cr_lock := Some (By_worker i)\<rparr>))"
| "worker_next i W_checked s = Some (W_waiting, s\<lparr>cr_lock := None\<rparr>)"
| "worker_next i W_waiting s = Some (W_ready, s)"
| "worker_next i W_tested s =
     (if cr_shutdown s then Some (W_exit, s\<lparr>cr_lock := None\<rparr>)
      else if cr_cursize s = 0 then Some (W_fault, s)
      else Some (unlock (take_work s)))"
| "worker_next i (W_running j) s = Some (W_ready, s)"
| "worker_next i W_fault s = None"
| "worker_next i W_exit s = None"

section \<open>The callers\<close>

definition put_work :: "'j \<Rightarrow> 'j crew \<Rightarrow> 'j caller \<times> 'j crew" where
  "put_work j s =
     (if cr_shutdown s \<or> cr_closed s then (A_done j False, s)
      else
        (let s1 = (if cr_cursize s = 0 then broadcast_not_empty s else s)
         in (A_done j True, s1\<lparr>cr_queue := cr_queue s1 @ [j], cr_cursize := cr_cursize s1 + 1,
               cr_total := cr_total s1 + 1, cr_accepted := cr_accepted s1 @ [j]\<rparr>)))"

definition add_loop_step :: "nat \<Rightarrow> 'j \<Rightarrow> 'j crew \<Rightarrow> 'j caller \<times> 'j crew" where
  "add_loop_step i j s =
     (if cr_cursize s = cr_maxsize s \<and> \<not> (cr_shutdown s \<or> cr_closed s) then A_checked j else A_tested j,
      s\<lparr>cr_lock := Some (By_caller i)\<rparr>)"

definition join_loop_step :: "bool \<Rightarrow> 'j crew \<Rightarrow> 'j caller" where
  "join_loop_step finish s = (if finish \<and> cr_cursize s \<noteq> 0 \<and> \<not> cr_shutdown s then J_checked else J_leaving)"

text \<open>
  \<open>crew_join\<close> ends when every worker has; a wait of 60 seconds may also run out, which ends the
  program.  \<open>S_set\<close> is \<open>crew_set_shutdown\<close>, \<open>X_set\<close> is \<open>crew_cancel\<close>.
\<close>

fun caller_next :: "nat \<Rightarrow> 'j caller \<Rightarrow> 'j crew \<Rightarrow> ('j caller \<times> 'j crew) option" where
  "caller_next i (A_start j) s =
     (if cr_lock s \<noteq> None then None
      else if cr_cursize s = cr_maxsize s \<and> \<not> cr_block s then Some (A_done j False, s)
      else Some (add_loop_step i j s))"
| "caller_next i (A_loop j) s = (if cr_lock s \<noteq> None then None else Some (add_loop_step i j s))"
| "caller_next i (A_checked j) s = Some (A_waiting j, s\<lparr>cr_lock := None\<rparr>)"
| "caller_next i (A_waiting j) s = Some (A_loop j, s)"
| "caller_next i (A_tested j) s = Some (unlock (put_work j s))"
| "caller_next i (A_done j r) s = None"
| "caller_next i (J_start finish) s =
     (if cr_lock s \<noteq> None then None
      else if cr_closed s \<or> cr_shutdown s then Some (J_done False, s)
      else Some (J_entered finish, s\<lparr>cr_closed := True, cr_lock := Some (By_caller i)\<rparr>))"
| "caller_next i (J_entered finish) s = Some (join_loop_step finish s, s)"
| "caller_next i J_loop s =
     (if cr_lock s \<noteq> None then None else Some (join_loop_step True s, s\<lparr>cr_lock := Some (By_caller i)\<rparr>))"
| "caller_next i J_checked s = Some (J_waiting, s\<lparr>cr_lock := None\<rparr>)"
| "caller_next i J_waiting s = Some (J_loop, s)"
| "caller_next i J_leaving s = Some (J_unlocked, s\<lparr>cr_shutdown := True, cr_lock := None\<rparr>)"
| "caller_next i J_unlocked s = Some (J_woken, broadcast_not_empty s)"
| "caller_next i J_woken s = Some (J_joining, broadcast_not_full s)"
| "caller_next i J_joining s = (if list_all (\<lambda>w. w = W_exit) (cr_workers s) then Some (J_done True, s) else None)"
| "caller_next i (J_done r) s = None"
| "caller_next i J_fatal s = None"
| "caller_next i (S_set b) s = Some (S_broadcast, s\<lparr>cr_shutdown := b, cr_forced := True\<rparr>)"
| "caller_next i S_broadcast s = Some (S_full, broadcast_not_empty s)"
| "caller_next i S_full s = Some (S_empty, broadcast_not_full s)"
| "caller_next i S_empty s = Some (S_done, signal_empty s)"
| "caller_next i S_done s = None"
| "caller_next i X_set s = Some (X_broadcast, s\<lparr>cr_shutdown := True, cr_forced := True\<rparr>)"
| "caller_next i X_broadcast s = Some (X_full, broadcast_not_empty s)"
| "caller_next i X_full s = Some (X_empty, broadcast_not_full s)"
| "caller_next i X_empty s = Some (X_cancel, signal_empty s)"
| "caller_next i X_cancel s = None"

text \<open>
  \<open>pthread_cancel\<close> ends a worker at a cancellation point: inside its job, or inside
  \<open>pthread_cond_wait\<close>, which takes the lock before the thread ends; no cleanup handler gives it
  back.
\<close>

inductive crew_step :: "'j crew \<Rightarrow> 'j crew \<Rightarrow> bool" where
  Worker: "i < length (cr_workers s) \<Longrightarrow> worker_next i (cr_workers s ! i) s = Some (w, s') \<Longrightarrow>
    crew_step s (s'\<lparr>cr_workers := (cr_workers s')[i := w]\<rparr>)"
| Caller: "i < length (cr_callers s) \<Longrightarrow> caller_next i (cr_callers s ! i) s = Some (c, s') \<Longrightarrow>
    crew_step s (s'\<lparr>cr_callers := (cr_callers s')[i := c]\<rparr>)"
| Timeout: "i < length (cr_callers s) \<Longrightarrow> cr_callers s ! i = J_waiting \<Longrightarrow> cr_lock s = None \<Longrightarrow>
    crew_step s (s\<lparr>cr_callers := (cr_callers s)[i := J_fatal]\<rparr>)"
| Cancel_running: "X_cancel \<in> set (cr_callers s) \<Longrightarrow> i < length (cr_workers s) \<Longrightarrow> cr_workers s ! i = W_running j \<Longrightarrow>
    crew_step s (s\<lparr>cr_workers := (cr_workers s)[i := W_exit]\<rparr>)"
| Cancel_waiting: "X_cancel \<in> set (cr_callers s) \<Longrightarrow> i < length (cr_workers s) \<Longrightarrow> cr_workers s ! i = W_waiting \<Longrightarrow>
    cr_lock s = None \<Longrightarrow>
    crew_step s (s\<lparr>cr_workers := (cr_workers s)[i := W_exit], cr_lock := Some Dead\<rparr>)"

inductive_cases crew_stepE: "crew_step s s'"

section \<open>Invariants\<close>

text \<open>The callers of a fresh pool are at the start of one of the functions.\<close>

fun starting :: "'j caller \<Rightarrow> bool" where
  "starting (A_start j) = True"
| "starting (J_start f) = True"
| "starting (S_set b) = True"
| "starting X_set = True"
| "starting _ = False"

definition crew_init :: "'j crew \<Rightarrow> bool" where
  "crew_init s = (\<exists>n maxsize block callers. list_all starting callers \<and> s = new_crew n maxsize block callers)"

fun adding :: "'j caller \<Rightarrow> bool" where
  "adding (A_checked j) = True"
| "adding (A_waiting j) = True"
| "adding _ = False"

fun joining :: "'j caller \<Rightarrow> bool" where
  "joining J_checked = True"
| "joining J_waiting = True"
| "joining _ = False"

fun looping :: "'j caller \<Rightarrow> bool" where
  "looping (A_loop j) = True"
| "looping c = adding c"

fun checked :: "'j caller \<Rightarrow> bool" where
  "checked (A_checked j) = True"
| "checked J_checked = True"
| "checked _ = False"

text \<open>The threads inside a critical section.\<close>

fun w_holds :: "'j worker \<Rightarrow> bool" where
  "w_holds W_checked = True"
| "w_holds W_tested = True"
| "w_holds W_fault = True"
| "w_holds _ = False"

fun holds :: "'j caller \<Rightarrow> bool" where
  "holds (A_checked j) = True"
| "holds (A_tested j) = True"
| "holds (J_entered f) = True"
| "holds J_checked = True"
| "holds J_leaving = True"
| "holds _ = False"

definition queue_inv :: "'j crew \<Rightarrow> bool" where
  "queue_inv s =
     (cr_accepted s = cr_started s @ cr_queue s \<and> cr_cursize s = length (cr_queue s) \<and>
      cr_total s = length (cr_accepted s))"

definition lock_inv :: "'j crew \<Rightarrow> bool" where
  "lock_inv s =
     ((\<forall>i < length (cr_workers s). w_holds (cr_workers s ! i) \<longrightarrow> cr_lock s = Some (By_worker i)) \<and>
      (\<forall>i < length (cr_callers s). holds (cr_callers s ! i) \<longrightarrow> cr_lock s = Some (By_caller i)))"

lemmas crew_ops = take_work_def put_work_def broadcast_not_empty_def broadcast_not_full_def signal_empty_def Let_def

lemmas broadcasts = broadcast_not_empty_def broadcast_not_full_def signal_empty_def

lemma unlock_eq [simp]: "unlock r = (w, t) \<longleftrightarrow> (\<exists>s'. r = (w, s') \<and> t = s'\<lparr>cr_lock := None\<rparr>)"
  by (cases r) (auto simp: unlock_def)

subsection \<open>The queue\<close>

lemma queue_inv_simps [simp]:
  "queue_inv (s\<lparr>cr_workers := ws\<rparr>) = queue_inv s" "queue_inv (s\<lparr>cr_callers := cs\<rparr>) = queue_inv s"
  "queue_inv (s\<lparr>cr_lock := l\<rparr>) = queue_inv s" "queue_inv (s\<lparr>cr_shutdown := b\<rparr>) = queue_inv s"
  "queue_inv (s\<lparr>cr_closed := b\<rparr>) = queue_inv s" "queue_inv (s\<lparr>cr_forced := b\<rparr>) = queue_inv s"
  by (simp_all add: queue_inv_def)

lemma take_work_queue: "queue_inv s \<Longrightarrow> cr_cursize s \<noteq> 0 \<Longrightarrow> take_work s = (w, s') \<Longrightarrow> queue_inv s'"
  by (cases "cr_queue s") (auto simp: crew_ops queue_inv_def split: if_splits)

lemma put_work_queue: "queue_inv s \<Longrightarrow> put_work j s = (c, s') \<Longrightarrow> queue_inv s'"
  by (auto simp: crew_ops queue_inv_def split: if_splits)

lemma worker_next_queue: "queue_inv s \<Longrightarrow> worker_next i w s = Some (w', s') \<Longrightarrow> queue_inv s'"
  by (cases w) (auto split: if_splits dest: take_work_queue)

lemma caller_next_queue: "queue_inv s \<Longrightarrow> caller_next i c s = Some (c', s') \<Longrightarrow> queue_inv s'"
  by (cases c) (auto split: if_splits dest: put_work_queue simp: broadcasts add_loop_step_def)

lemma crew_step_queue: "queue_inv s \<Longrightarrow> crew_step s s' \<Longrightarrow> queue_inv s'"
  by (erule crew_stepE) (auto dest: worker_next_queue caller_next_queue)

subsection \<open>The lock\<close>

lemma wake_simps [simp]:
  "checked (wake_adder c) = checked c" "checked (wake_joiner c) = checked c"
  "holds (wake_adder c) = holds c" "holds (wake_joiner c) = holds c"
  "adding (wake_joiner c) = adding c" "joining (wake_adder c) = joining c"
  "looping (wake_adder c) = looping c" "looping (wake_joiner c) = looping c"
  by (cases c; simp)+

lemma checked_holds: "checked c \<Longrightarrow> holds c"
  by (cases c) simp_all

lemma wake_worker_eq [simp]:
  "w_holds (wake_worker w) = w_holds w" "wake_worker w = W_exit \<longleftrightarrow> w = W_exit" "wake_worker w = W_checked \<longleftrightarrow> w = W_checked"
  "wake_worker w = W_tested \<longleftrightarrow> w = W_tested" "wake_worker w = W_fault \<longleftrightarrow> w = W_fault" "wake_worker w \<noteq> W_waiting"
  "W_checked = wake_worker w \<longleftrightarrow> w = W_checked" "W_waiting \<noteq> wake_worker w" "W_fault = wake_worker w \<longleftrightarrow> w = W_fault"
  by (cases w; simp)+

text \<open>What leaves the threads in their critical sections, or out of them.\<close>

definition same_holders :: "'j crew \<Rightarrow> 'j crew \<Rightarrow> bool" where
  "same_holders s t \<longleftrightarrow>
     list_all2 (\<lambda>w w'. w_holds w' = w_holds w) (cr_workers s) (cr_workers t) \<and>
     list_all2 (\<lambda>c c'. holds c' = holds c) (cr_callers s) (cr_callers t)"

lemma same_holders_frame [simp]:
  "same_holders s (t\<lparr>cr_lock := l\<rparr>) = same_holders s t" "same_holders s (t\<lparr>cr_shutdown := b\<rparr>) = same_holders s t"
  "same_holders s (t\<lparr>cr_closed := b\<rparr>) = same_holders s t" "same_holders s (t\<lparr>cr_forced := b\<rparr>) = same_holders s t"
  "same_holders s s"
  by (simp_all add: same_holders_def list_all2_refl)

lemma same_holders_ops:
  "take_work s = (w, t) \<Longrightarrow> same_holders s t" "put_work j s = (c, t) \<Longrightarrow> same_holders s t"
  by (auto simp: same_holders_def crew_ops list_all2_conv_all_nth split: if_splits)

lemma same_holders_wake [simp]:
  "same_holders s (broadcast_not_empty s)" "same_holders s (broadcast_not_full s)" "same_holders s (signal_empty s)"
  by (auto simp: same_holders_def crew_ops list_all2_conv_all_nth split: if_splits)

lemma nth_update: "k < length xs \<Longrightarrow> xs[i := x] ! k = (if k = i then x else xs ! k)"
  by simp

lemma lock_move_worker:
  assumes "lock_inv s" "same_holders s t"
    and "cr_lock s = None \<and> cr_lock t = Some (By_worker i) \<or> cr_lock s = Some (By_worker i) \<and> cr_lock t = None \<and> \<not> w_holds w \<or>
      cr_lock t = cr_lock s \<and> (w_holds w \<longrightarrow> cr_lock s = Some (By_worker i))"
  shows "lock_inv (t\<lparr>cr_workers := (cr_workers t)[i := w]\<rparr>)"
  using assms by (auto simp: lock_inv_def same_holders_def list_all2_conv_all_nth nth_update split: if_splits)

lemma lock_move_caller:
  assumes "lock_inv s" "same_holders s t"
    and "cr_lock s = None \<and> cr_lock t = Some (By_caller i) \<or> cr_lock s = Some (By_caller i) \<and> cr_lock t = None \<and> \<not> holds c \<or>
      cr_lock t = cr_lock s \<and> (holds c \<longrightarrow> cr_lock s = Some (By_caller i))"
  shows "lock_inv (t\<lparr>cr_callers := (cr_callers t)[i := c]\<rparr>)"
  using assms by (auto simp: lock_inv_def same_holders_def list_all2_conv_all_nth nth_update split: if_splits)

lemma lock_invD:
  "lock_inv s \<Longrightarrow> i < length (cr_workers s) \<Longrightarrow> w_holds (cr_workers s ! i) \<Longrightarrow> cr_lock s = Some (By_worker i)"
  "lock_inv s \<Longrightarrow> i < length (cr_callers s) \<Longrightarrow> holds (cr_callers s ! i) \<Longrightarrow> cr_lock s = Some (By_caller i)"
  by (simp_all add: lock_inv_def)

text \<open>Who else is in a critical section when the lock is free, dead, or another's.\<close>

lemma no_worker_holds: "lock_inv s \<Longrightarrow> \<nexists>i. cr_lock s = Some (By_worker i) \<Longrightarrow> w \<in> set (cr_workers s) \<Longrightarrow> \<not> w_holds w"
  and no_caller_holds: "lock_inv s \<Longrightarrow> \<nexists>i. cr_lock s = Some (By_caller i) \<Longrightarrow> c \<in> set (cr_callers s) \<Longrightarrow> \<not> holds c"
  by (auto simp: lock_inv_def in_set_conv_nth)

lemma take_work_lock: "take_work s = (w, t) \<Longrightarrow> cr_lock t = cr_lock s \<and> (\<exists>j. w = W_running j)"
  and put_work_lock: "put_work j s = (c, t) \<Longrightarrow> cr_lock t = cr_lock s \<and> (\<exists>r. c = A_done j r)"
  by (auto simp: crew_ops split: if_splits)

lemma worker_next_lock:
  assumes inv: "lock_inv s" and i: "i < length (cr_workers s)"
    and step: "worker_next i (cr_workers s ! i) s = Some (w, t)"
  shows "lock_inv (t\<lparr>cr_workers := (cr_workers t)[i := w]\<rparr>)"
proof (rule lock_move_worker [OF inv])
  note held = lock_invD(1) [OF inv i]
  show "same_holders s t"
    using step by (cases "cr_workers s ! i") (auto split: if_splits dest: same_holders_ops)
  show "cr_lock s = None \<and> cr_lock t = Some (By_worker i) \<or> cr_lock s = Some (By_worker i) \<and> cr_lock t = None \<and> \<not> w_holds w \<or>
      cr_lock t = cr_lock s \<and> (w_holds w \<longrightarrow> cr_lock s = Some (By_worker i))"
    using step held by (cases "cr_workers s ! i") (auto split: if_splits dest: take_work_lock)
qed

lemma caller_next_lock:
  assumes inv: "lock_inv s" and i: "i < length (cr_callers s)"
    and step: "caller_next i (cr_callers s ! i) s = Some (c, t)"
  shows "lock_inv (t\<lparr>cr_callers := (cr_callers t)[i := c]\<rparr>)"
proof (rule lock_move_caller [OF inv])
  note held = lock_invD(2) [OF inv i]
  show "same_holders s t"
    using step by (cases "cr_callers s ! i") (auto simp: add_loop_step_def split: if_splits dest: same_holders_ops)
  show "cr_lock s = None \<and> cr_lock t = Some (By_caller i) \<or> cr_lock s = Some (By_caller i) \<and> cr_lock t = None \<and> \<not> holds c \<or>
      cr_lock t = cr_lock s \<and> (holds c \<longrightarrow> cr_lock s = Some (By_caller i))"
    using step held
    by (cases "cr_callers s ! i") (auto simp: add_loop_step_def broadcasts split: if_splits dest: put_work_lock)
qed

lemma crew_step_lock:
  assumes "lock_inv s" "crew_step s s'"
  shows "lock_inv s'"
  using assms(2)
proof cases
  case (Timeout i)
  then show ?thesis using lock_move_caller [OF assms(1), of s i J_fatal] by simp
next
  case (Cancel_running i j)
  then show ?thesis using lock_move_worker [OF assms(1), of s i W_exit] by simp
next
  case (Cancel_waiting i)
  with assms(1) show ?thesis by (auto simp: lock_inv_def nth_list_update)
qed (use assms(1) in \<open>auto dest: worker_next_lock caller_next_lock\<close>)

subsection \<open>What wakes threads\<close>

definition woken :: "'j crew \<Rightarrow> 'j crew \<Rightarrow> bool" where
  "woken s t \<longleftrightarrow>
     (\<exists>f \<in> {id, wake_worker}. cr_workers t = map f (cr_workers s)) \<and>
     (\<exists>g \<in> {id, wake_adder, wake_joiner, wake_joiner \<circ> wake_adder}. cr_callers t = map g (cr_callers s)) \<and>
     cr_forced t = cr_forced s \<and> cr_shutdown t = cr_shutdown s"

lemma woken_ops:
  "take_work s = (w, t) \<Longrightarrow> woken s t" "put_work j s = (c, t) \<Longrightarrow> woken s t"
  by (auto simp: woken_def crew_ops split: if_splits)

lemma woken_wake [simp]:
  "woken s (broadcast_not_empty s)" "woken s (broadcast_not_full s)" "woken s (signal_empty s)" "woken s s"
  by (auto simp: woken_def broadcasts)

section \<open>Nobody waits for what is there\<close>

text \<open>
  While there is work no worker waits for it, while there is room no caller of \<open>crew_add\<close> waits for
  it, and while the queue is empty no \<open>crew_join\<close> waits for that; who is behind its loop finds what
  it waited for.  That is so as long as nobody takes back a shutdown.
\<close>

fun tested :: "'j caller \<Rightarrow> bool" where
  "tested (A_tested j) = True"
| "tested _ = False"

definition caller_ok :: "'j crew \<Rightarrow> 'j caller \<Rightarrow> bool" where
  "caller_ok s c =
     ((looping c \<longrightarrow> cr_block s) \<and> (adding c \<longrightarrow> cr_cursize s = cr_maxsize s) \<and> (joining c \<longrightarrow> cr_cursize s \<noteq> 0) \<and>
      (tested c \<longrightarrow> cr_shutdown s \<or> cr_closed s \<or> cr_cursize s \<noteq> cr_maxsize s) \<and> c \<noteq> S_set False)"

definition worker_ok :: "'j crew \<Rightarrow> 'j worker \<Rightarrow> bool" where
  "worker_ok s w =
     ((w \<in> {W_checked, W_waiting} \<longrightarrow> cr_cursize s = 0) \<and> (w = W_tested \<longrightarrow> cr_shutdown s \<or> cr_cursize s \<noteq> 0) \<and> w \<noteq> W_fault)"

definition wait_inv :: "'j crew \<Rightarrow> bool" where
  "wait_inv s \<longleftrightarrow> cr_cursize s \<le> cr_maxsize s \<and> (\<forall>w \<in> set (cr_workers s). worker_ok s w) \<and> (\<forall>c \<in> set (cr_callers s). caller_ok s c)"

lemma in_update: "x \<in> set (xs[i := y]) \<Longrightarrow> x = y \<or> x \<in> set xs"
  using set_update_subset_insert by fastforce

lemma tested_holds: "tested c \<Longrightarrow> holds c"
  by (cases c) simp_all

lemma wake_tested [simp]: "tested (wake_adder c) = tested c" "tested (wake_joiner c) = tested c"
  "wake_adder c = S_set b \<longleftrightarrow> c = S_set b" "wake_joiner c = S_set b \<longleftrightarrow> c = S_set b"
  by (cases c; simp)+

lemma wake_ok [simp]:
  "caller_ok s c \<Longrightarrow> caller_ok s (wake_adder c)" "caller_ok s c \<Longrightarrow> caller_ok s (wake_joiner c)"
  "worker_ok s w \<Longrightarrow> worker_ok s (wake_worker w)"
  by (cases c; simp add: caller_ok_def)+ (cases w; simp add: worker_ok_def)

text \<open>Only the flags of the pool go up.\<close>

definition grows :: "'j crew \<Rightarrow> 'j crew \<Rightarrow> bool" where
  "grows s t \<longleftrightarrow> cr_cursize t = cr_cursize s \<and> cr_maxsize t = cr_maxsize s \<and> cr_block t = cr_block s \<and>
     (cr_shutdown s \<longrightarrow> cr_shutdown t) \<and> (cr_closed s \<longrightarrow> cr_closed t)"

lemma grows_ok: "grows s t \<Longrightarrow> caller_ok s c \<Longrightarrow> caller_ok t c" "grows s t \<Longrightarrow> worker_ok s w \<Longrightarrow> worker_ok t w"
  by (auto simp: grows_def caller_ok_def worker_ok_def)

lemma ok_frame [simp]:
  "caller_ok (s\<lparr>cr_workers := ws\<rparr>) = caller_ok s" "caller_ok (s\<lparr>cr_callers := cs\<rparr>) = caller_ok s"
  "caller_ok (s\<lparr>cr_lock := l\<rparr>) = caller_ok s"
  "worker_ok (s\<lparr>cr_workers := ws\<rparr>) = worker_ok s" "worker_ok (s\<lparr>cr_callers := cs\<rparr>) = worker_ok s"
  "worker_ok (s\<lparr>cr_lock := l\<rparr>) = worker_ok s"
  by (simp_all add: caller_ok_def worker_ok_def fun_eq_iff)

lemma wait_grows:
  assumes inv: "wait_inv s" and grows: "grows s t"
    and ws: "cr_workers t = cr_workers s \<or> cr_workers t = map wake_worker (cr_workers s)"
    and cs: "\<exists>g \<in> {id, wake_adder, wake_joiner, wake_joiner \<circ> wake_adder}. cr_callers t = map g (cr_callers s)"
  shows "wait_inv t"
proof -
  have "worker_ok t w" if "w \<in> set (cr_workers t)" for w
    using that ws inv grows_ok(2) [OF grows] by (auto simp: wait_inv_def)
  moreover have "caller_ok t c" if "c \<in> set (cr_callers t)" for c
    using that cs inv grows_ok(1) [OF grows] by (auto simp: wait_inv_def)
  ultimately show ?thesis using inv grows by (simp add: wait_inv_def grows_def)
qed

lemma wait_update:
  "wait_inv t \<Longrightarrow> worker_ok t w \<Longrightarrow> wait_inv (t\<lparr>cr_workers := (cr_workers t)[i := w]\<rparr>)"
  "wait_inv t \<Longrightarrow> caller_ok t c \<Longrightarrow> wait_inv (t\<lparr>cr_callers := (cr_callers t)[i := c]\<rparr>)"
  by (auto simp: wait_inv_def dest!: in_update)

lemma wake_adder_not_adding: "\<not> checked c \<Longrightarrow> \<not> adding (wake_adder c)"
  and wake_joiner_not_joining: "\<not> checked c \<Longrightarrow> \<not> joining (wake_joiner c)"
  by (cases c; simp)+

lemma take_work_wait:
  assumes inv: "wait_inv s" "lock_inv s" and held: "cr_lock s = Some (By_worker i)" and work: "cr_cursize s \<noteq> 0"
    and take: "take_work s = (w, t)"
  shows "wait_inv (t\<lparr>cr_workers := (cr_workers t)[i := w]\<rparr>)"
proof -
  let ?full = "cr_block s \<and> cr_cursize s = cr_maxsize s" and ?last = "cr_cursize s = 1"
  have ws: "cr_workers t = cr_workers s" and run: "\<exists>j. w = W_running j"
    and cs: "cr_callers t = map ((if ?last then wake_joiner else id) \<circ> (if ?full then wake_adder else id)) (cr_callers s)"
    and n: "cr_cursize t = cr_cursize s - 1" "cr_maxsize t = cr_maxsize s" "cr_block t = cr_block s"
    using take work by (auto simp: crew_ops Suc_diff_1 split: if_splits)
  have "worker_ok t w'" if "w' \<in> set ((cr_workers t)[i := w])" for w'
  proof -
    from that obtain k where k: "k < length (cr_workers s)" "w' = (if k = i then w else cr_workers s ! k)"
      by (auto simp: ws in_set_conv_nth nth_update)
    show ?thesis
    proof (cases "k = i")
      case True
      with k run show ?thesis by (auto simp: worker_ok_def)
    next
      case False
      have "\<not> w_holds (cr_workers s ! k)" using lock_invD(1) [OF inv(2) k(1)] held False by auto
      moreover have "worker_ok s (cr_workers s ! k)" using inv(1) k(1) by (simp add: wait_inv_def)
      ultimately show ?thesis using k(2) False work by (auto simp: worker_ok_def)
    qed
  qed
  moreover have "caller_ok t c" if "c \<in> set (cr_callers t)" for c
  proof -
    from that obtain c0 where c0: "c0 \<in> set (cr_callers s)"
      and c: "c = (if ?last then wake_joiner else id) ((if ?full then wake_adder else id) c0)" by (auto simp: cs)
    have ok: "caller_ok s c0" using inv(1) c0 by (simp add: wait_inv_def)
    have "\<not> holds c0" using no_caller_holds [OF inv(2) _ c0] held by simp
    then have "\<not> checked c0" "\<not> tested c0" using checked_holds tested_holds by blast+
    with ok show ?thesis
      unfolding c using work n wake_adder_not_adding [of c0] wake_joiner_not_joining [of c0] wake_joiner_not_joining [of "wake_adder c0"]
      by (cases "looping c0") (auto simp: caller_ok_def elim: looping.elims)
  qed
  moreover have "cr_cursize t \<le> cr_maxsize t" using inv(1) n by (auto simp: wait_inv_def)
  ultimately show ?thesis by (simp add: wait_inv_def)
qed

lemma put_work_wait:
  assumes inv: "wait_inv s" "lock_inv s" and held: "cr_lock s = Some (By_caller i)"
    and room: "cr_shutdown s \<or> cr_closed s \<or> cr_cursize s \<noteq> cr_maxsize s" and put: "put_work j s = (c, t)"
  shows "wait_inv (t\<lparr>cr_callers := (cr_callers t)[i := c]\<rparr>)"
proof (cases "cr_shutdown s \<or> cr_closed s")
  case True
  with put have "t = s" "c = A_done j False" by (auto simp: put_work_def)
  with inv(1) show ?thesis by (auto intro: wait_update(2) simp: caller_ok_def)
next
  case False
  with room inv(1) have less: "cr_cursize s < cr_maxsize s" by (auto simp: wait_inv_def)
  have c: "c = A_done j True" using put False by (auto simp: put_work_def Let_def)
  have ws: "cr_workers t = (if cr_cursize s = 0 then map wake_worker (cr_workers s) else cr_workers s)"
    and cs: "cr_callers t = cr_callers s" and n: "cr_cursize t = cr_cursize s + 1"
    "cr_maxsize t = cr_maxsize s" "cr_block t = cr_block s"
    using put False by (auto simp: put_work_def broadcast_not_empty_def Let_def split: if_splits)
  have idle: "\<not> w_holds w" if "w \<in> set (cr_workers s)" for w using no_worker_holds [OF inv(2) _ that] held by simp
  have "W_checked \<notin> set (cr_workers s)" "W_tested \<notin> set (cr_workers s)" using idle [of W_checked] idle [of W_tested] by auto
  then have "worker_ok t w" if "w \<in> set (cr_workers t)" for w
    using that inv(1) by (cases "cr_cursize s = 0"; cases w) (auto simp: ws worker_ok_def wait_inv_def n)
  moreover have "caller_ok t c'" if "c' \<in> set ((cr_callers t)[i := c])" for c'
  proof -
    from that obtain k where k: "k < length (cr_callers s)" "c' = (if k = i then c else cr_callers s ! k)"
      by (auto simp: cs in_set_conv_nth nth_update)
    show ?thesis
    proof (cases "k = i")
      case True
      with k c show ?thesis by (simp add: caller_ok_def)
    next
      case False
      have "\<not> holds (cr_callers s ! k)" using lock_invD(2) [OF inv(2) k(1)] held False by auto
      then have "\<not> tested (cr_callers s ! k)" using tested_holds by blast
      moreover have "caller_ok s (cr_callers s ! k)" using inv(1) k(1) by (simp add: wait_inv_def)
      ultimately show ?thesis using k(2) False less n by (auto simp: caller_ok_def)
    qed
  qed
  ultimately show ?thesis using less n by (simp add: wait_inv_def)
qed

lemma worker_next_wait:
  assumes inv: "wait_inv s" "lock_inv s" and i: "i < length (cr_workers s)"
    and step: "worker_next i (cr_workers s ! i) s = Some (w, t)"
  shows "wait_inv (t\<lparr>cr_workers := (cr_workers t)[i := w]\<rparr>)"
proof -
  have ok: "worker_ok s (cr_workers s ! i)" using inv(1) i by (simp add: wait_inv_def)
  show ?thesis
  proof (cases "cr_workers s ! i = W_tested \<and> \<not> cr_shutdown s")
    case True
    with ok have work: "cr_cursize s \<noteq> 0" by (simp add: worker_ok_def)
    with True step obtain t' where t: "take_work s = (w, t')" "t = t'\<lparr>cr_lock := None\<rparr>" by auto
    have "cr_lock s = Some (By_worker i)" using lock_invD(1) [OF inv(2) i] True by simp
    from take_work_wait [OF inv this work t(1)] show ?thesis by (simp add: t(2) wait_inv_def)
  next
    case False
    then have t: "grows s t" "cr_workers t = cr_workers s" "cr_callers t = cr_callers s" "worker_ok t w"
      using step ok by (cases "cr_workers s ! i"; auto simp: grows_def worker_ok_def split: if_splits)+
    have "wait_inv t" by (rule wait_grows [OF inv(1) t(1)]) (simp_all add: t(2,3))
    with t(4) show ?thesis by (intro wait_update)
  qed
qed

lemma caller_next_wait:
  assumes inv: "wait_inv s" "lock_inv s" and i: "i < length (cr_callers s)"
    and step: "caller_next i (cr_callers s ! i) s = Some (c, t)"
  shows "wait_inv (t\<lparr>cr_callers := (cr_callers t)[i := c]\<rparr>)"
proof -
  have ok: "caller_ok s (cr_callers s ! i)" using inv(1) i by (simp add: wait_inv_def)
  show ?thesis
  proof (cases "tested (cr_callers s ! i)")
    case True
    then obtain j where j: "cr_callers s ! i = A_tested j" by (auto elim: tested.elims)
    with step obtain t' where t: "put_work j s = (c, t')" "t = t'\<lparr>cr_lock := None\<rparr>" by auto
    have "cr_lock s = Some (By_caller i)" using lock_invD(2) [OF inv(2) i] j by simp
    moreover have "cr_shutdown s \<or> cr_closed s \<or> cr_cursize s \<noteq> cr_maxsize s" using ok j by (simp add: caller_ok_def)
    ultimately show ?thesis using put_work_wait [OF inv _ _ t(1)] by (simp add: t(2) wait_inv_def)
  next
    case False
    have "grows s t" and "caller_ok t c"
      and "cr_workers t = cr_workers s \<or> cr_workers t = map wake_worker (cr_workers s)"
      and "\<exists>g \<in> {id, wake_adder, wake_joiner, wake_joiner \<circ> wake_adder}. cr_callers t = map g (cr_callers s)"
      using step ok False
      by (cases "cr_callers s ! i"; auto simp: grows_def caller_ok_def add_loop_step_def join_loop_step_def broadcasts
        split: if_splits)+
    with wait_grows [OF inv(1)] show ?thesis by (intro wait_update) blast+
  qed
qed

lemma crew_step_wait:
  assumes "wait_inv s" "lock_inv s" "crew_step s s'"
  shows "wait_inv s'"
  using assms(3)
proof cases
  case (Timeout i)
  then show ?thesis using wait_update(2) [OF assms(1), of J_fatal i] by (simp add: caller_ok_def)
next
  case (Cancel_running i j)
  then show ?thesis using wait_update(1) [OF assms(1), of W_exit i] by (simp add: worker_ok_def)
next
  case (Cancel_waiting i)
  then show ?thesis using wait_update(1) [OF assms(1), of W_exit i] by (simp add: worker_ok_def wait_inv_def)
qed (use assms in \<open>auto intro: worker_next_wait caller_next_wait\<close>)

section \<open>The end of the pool\<close>

text \<open>
  As long as nothing but \<open>crew_join\<close> has set \<open>shutdown\<close>, a pool that is shut down has no thread
  between its test and its wait, and no thread sleeps once \<open>crew_join\<close> has sent its broadcasts.
\<close>

definition joined :: "'j caller \<Rightarrow> bool" where
  "joined c = (c \<in> {J_joining, J_done True})"

definition woke :: "'j caller \<Rightarrow> bool" where
  "woke c = (c = J_woken \<or> joined c)"

definition adder_waits :: "'j caller \<Rightarrow> bool" where
  "adder_waits c = (adding c \<and> \<not> checked c)"

definition down_inv :: "'j crew \<Rightarrow> bool" where
  "down_inv s =
     (\<not> cr_forced s \<longrightarrow>
        (\<forall>c \<in> set (cr_callers s). c = J_unlocked \<or> woke c \<longrightarrow> cr_shutdown s) \<and>
        (cr_shutdown s \<longrightarrow> W_checked \<notin> set (cr_workers s) \<and> (\<forall>c \<in> set (cr_callers s). \<not> checked c)) \<and>
        ((\<exists>c \<in> set (cr_callers s). woke c) \<longrightarrow> W_waiting \<notin> set (cr_workers s)) \<and>
        ((\<exists>c \<in> set (cr_callers s). joined c) \<longrightarrow> (\<forall>c \<in> set (cr_callers s). \<not> adder_waits c)))"

definition exit_inv :: "'j crew \<Rightarrow> bool" where
  "exit_inv s = (J_done True \<in> set (cr_callers s) \<longrightarrow> set (cr_workers s) \<subseteq> {W_exit})"

definition drained :: "'j crew \<Rightarrow> bool" where
  "drained s =
     (J_start False \<notin> set (cr_callers s) \<and> J_entered False \<notin> set (cr_callers s) \<and>
      (\<not> cr_forced s \<and> (cr_shutdown s \<or> J_leaving \<in> set (cr_callers s)) \<longrightarrow> cr_queue s = []))"

fun plain :: "'j caller \<Rightarrow> bool" where
  "plain (A_waiting j) = False"
| "plain J_waiting = False"
| "plain _ = True"

lemma wake_plain: "wake_adder c = d \<Longrightarrow> plain d \<Longrightarrow> (\<forall>j. d \<noteq> A_loop j) \<Longrightarrow> c = d"
  "wake_joiner c = d \<Longrightarrow> plain d \<Longrightarrow> d \<noteq> J_loop \<Longrightarrow> c = d"
  by (cases c; auto)+

lemma wake_joined [simp]:
  "joined (wake_adder c) = joined c" "joined (wake_joiner c) = joined c"
  "woke (wake_adder c) = woke c" "woke (wake_joiner c) = woke c" "adder_waits (wake_joiner c) = adder_waits c"
  "\<not> adder_waits (wake_adder c)"
  by (cases c; auto simp: joined_def woke_def adder_waits_def; fail)+

text \<open>The states of a caller that waking makes nothing of.\<close>

lemma woken_mem:
  assumes "woken s t" "d \<in> {J_done b, J_start b, J_entered b, J_unlocked, J_woken, J_leaving, J_joining}"
  shows "d \<in> set (cr_callers t) \<longleftrightarrow> d \<in> set (cr_callers s)"
proof -
  have d: "plain d" "\<forall>j. d \<noteq> A_loop j" "d \<noteq> J_loop" "wake_adder d = d" "wake_joiner d = d" using assms(2) by auto
  then have "wake_adder c = d \<longleftrightarrow> c = d" "wake_joiner c = d \<longleftrightarrow> c = d" for c using wake_plain [of c d] by blast+
  then show ?thesis using assms(1) unfolding woken_def by (auto simp: image_iff) metis+
qed

lemma down_woken:
  assumes "down_inv s" "woken s t"
  shows "down_inv t"
proof (cases "cr_forced s")
  case False
  obtain f where ws: "cr_workers t = map f (cr_workers s)" "f = id \<or> f = wake_worker"
    using assms(2) unfolding woken_def by blast
  obtain g where cs: "cr_callers t = map g (cr_callers s)" and g: "\<And>c. joined (g c) = joined c" "\<And>c. woke (g c) = woke c"
    "\<And>c. checked (g c) = checked c" "\<And>c. g c = J_unlocked \<longleftrightarrow> c = J_unlocked" "\<And>c. adder_waits (g c) \<Longrightarrow> adder_waits c"
  proof -
    from assms(2) obtain g where g: "g \<in> {id, wake_adder, wake_joiner, wake_joiner \<circ> wake_adder}" and cs: "cr_callers t = map g (cr_callers s)"
      unfolding woken_def by blast
    from g have "joined (g c) = joined c" "woke (g c) = woke c" "checked (g c) = checked c"
      "adder_waits (g c) \<Longrightarrow> adder_waits c" for c by auto
    moreover from g have "g c = J_unlocked \<longleftrightarrow> c = J_unlocked" for c by (cases c) auto
    ultimately show thesis using that [OF cs] by blast
  qed
  have flags: "cr_forced t = cr_forced s" "cr_shutdown t = cr_shutdown s" using assms(2) by (simp_all add: woken_def)
  have "W_checked \<in> set (cr_workers t) \<longleftrightarrow> W_checked \<in> set (cr_workers s)"
    "W_waiting \<in> set (cr_workers t) \<Longrightarrow> W_waiting \<in> set (cr_workers s)"
    using ws by auto
  with False assms(1) show ?thesis unfolding down_inv_def flags cs set_map ball_simps bex_simps g by (blast dest: g(5))
qed (use assms(2) in \<open>simp add: down_inv_def woken_def\<close>)

lemma down_broadcast:
  assumes "down_inv s"
  shows "down_inv (broadcast_not_empty s)" "down_inv (broadcast_not_full s)" "down_inv (signal_empty s)"
  by (rule down_woken [OF assms], simp)+

lemma broadcast_frame [simp]:
  "cr_forced (broadcast_not_empty s) = cr_forced s" "cr_forced (broadcast_not_full s) = cr_forced s"
  "cr_forced (signal_empty s) = cr_forced s" "cr_shutdown (broadcast_not_empty s) = cr_shutdown s"
  "cr_shutdown (broadcast_not_full s) = cr_shutdown s" "cr_shutdown (signal_empty s) = cr_shutdown s"
  "cr_queue (broadcast_not_empty s) = cr_queue s" "cr_queue (broadcast_not_full s) = cr_queue s"
  "cr_queue (signal_empty s) = cr_queue s"
  by (simp_all add: broadcasts)

lemma exit_woken:
  assumes "exit_inv s" "woken s t"
  shows "exit_inv t"
proof -
  have "J_done True \<in> set (cr_callers t) \<longleftrightarrow> J_done True \<in> set (cr_callers s)" using woken_mem [OF assms(2)] by simp
  moreover have "set (cr_workers t) \<subseteq> {W_exit}" if "set (cr_workers s) \<subseteq> {W_exit}"
    using assms(2) that unfolding woken_def by fastforce
  ultimately show ?thesis using assms(1) unfolding exit_inv_def by blast
qed

lemma worker_next_woken: "worker_next i w s = Some (w', t) \<Longrightarrow> woken s t"
  by (cases w) (auto simp: woken_def split: if_splits dest: woken_ops)

lemma worker_next_exit:
  assumes inv: "exit_inv s" and i: "i < length (cr_workers s)" and step: "worker_next i (cr_workers s ! i) s = Some (w, t)"
  shows "exit_inv (t\<lparr>cr_workers := (cr_workers t)[i := w]\<rparr>)"
proof (cases "J_done True \<in> set (cr_callers s)")
  case True
  with inv have "set (cr_workers s) \<subseteq> {W_exit}" by (simp add: exit_inv_def)
  moreover have "cr_workers s ! i \<in> set (cr_workers s)" using i by simp
  ultimately have "cr_workers s ! i = W_exit" by blast
  with step show ?thesis by simp
next
  case False
  then have "J_done True \<notin> set (cr_callers t)" using woken_mem [OF worker_next_woken [OF step]] by simp
  then show ?thesis by (simp add: exit_inv_def)
qed

lemma exit_update:
  "exit_inv t \<Longrightarrow> c \<noteq> J_done True \<Longrightarrow> exit_inv (t\<lparr>cr_callers := (cr_callers t)[i := c]\<rparr>)"
  "set (cr_workers t) \<subseteq> {W_exit} \<Longrightarrow> exit_inv (t\<lparr>cr_callers := (cr_callers t)[i := c]\<rparr>)"
  by (auto simp: exit_inv_def dest!: in_update)

lemma exit_frame [simp]:
  "exit_inv (s\<lparr>cr_lock := l\<rparr>) = exit_inv s" "exit_inv (s\<lparr>cr_shutdown := b\<rparr>) = exit_inv s"
  "exit_inv (s\<lparr>cr_closed := b\<rparr>) = exit_inv s" "exit_inv (s\<lparr>cr_forced := b\<rparr>) = exit_inv s"
  by (simp_all add: exit_inv_def)

lemma caller_next_exit:
  assumes inv: "exit_inv s" and step: "caller_next i c s = Some (c', t)"
  shows "exit_inv (t\<lparr>cr_callers := (cr_callers t)[i := c']\<rparr>)"
proof (cases "c = J_joining")
  case True
  with step show ?thesis by (auto simp: list_all_iff intro!: exit_update(2) split: if_splits)
next
  case False
  have "exit_inv t \<and> c' \<noteq> J_done True"
  proof (cases c)
    case (A_tested j)
    with step obtain t' where t: "put_work j s = (c', t')" "t = t'\<lparr>cr_lock := None\<rparr>" by auto
    from exit_woken [OF inv woken_ops(2) [OF t(1)]] put_work_lock [OF t(1)] show ?thesis by (auto simp: t(2))
  qed (use step inv False in \<open>auto simp: add_loop_step_def join_loop_step_def intro: exit_woken split: if_splits\<close>)
  then show ?thesis by (blast intro: exit_update(1))
qed

lemma exit_inv_step:
  assumes "exit_inv s" "crew_step s s'"
  shows "exit_inv s'"
  using assms(2)
proof cases
  case (Cancel_running i j)
  with assms(1) show ?thesis by (auto simp: exit_inv_def dest!: in_update)
next
  case (Cancel_waiting i)
  with assms(1) show ?thesis by (auto simp: exit_inv_def dest!: in_update)
qed (use assms(1) in \<open>auto intro: worker_next_exit caller_next_exit exit_update(1)\<close>)

lemma down_frame [simp]: "down_inv (s\<lparr>cr_lock := l\<rparr>) = down_inv s" "down_inv (s\<lparr>cr_closed := b\<rparr>) = down_inv s"
  by (simp_all add: down_inv_def)

lemma down_forced: "cr_forced s \<Longrightarrow> down_inv s"
  by (simp add: down_inv_def)

lemma down_caller:
  assumes "down_inv s" "cr_forced s \<or> cr_shutdown s \<or> c \<noteq> J_unlocked \<and> \<not> woke c"
    "cr_forced s \<or> \<not> cr_shutdown s \<or> \<not> checked c \<and> \<not> adding c \<and> (joined c \<longrightarrow> (\<exists>c \<in> set (cr_callers s). joined c)) \<and>
       (woke c \<longrightarrow> W_waiting \<notin> set (cr_workers s))"
  shows "down_inv (s\<lparr>cr_callers := (cr_callers s)[i := c]\<rparr>)"
proof (cases "cr_forced s")
  case False
  have old: "d \<in> set (cr_callers s) \<or> d = c" if "d \<in> set ((cr_callers s)[i := c])" for d using in_update [OF that] by blast
  have "\<forall>d \<in> set ((cr_callers s)[i := c]). d = J_unlocked \<or> woke d \<longrightarrow> cr_shutdown s"
    using old assms False unfolding down_inv_def by blast
  moreover have "cr_shutdown s \<longrightarrow> W_checked \<notin> set (cr_workers s) \<and> (\<forall>d \<in> set ((cr_callers s)[i := c]). \<not> checked d)"
    using old assms False unfolding down_inv_def by blast
  moreover have "(\<exists>d \<in> set ((cr_callers s)[i := c]). woke d) \<longrightarrow> W_waiting \<notin> set (cr_workers s)"
    using old assms False unfolding down_inv_def by blast
  moreover have "(\<exists>d \<in> set ((cr_callers s)[i := c]). joined d) \<longrightarrow> (\<forall>d \<in> set ((cr_callers s)[i := c]). \<not> adder_waits d)"
  proof (intro impI ballI)
    fix d assume "\<exists>d \<in> set ((cr_callers s)[i := c]). joined d" and d: "d \<in> set ((cr_callers s)[i := c])"
    then have j: "(\<exists>d \<in> set (cr_callers s). joined d) \<or> joined c" using old by blast
    then have "cr_shutdown s" using assms False unfolding down_inv_def woke_def by blast
    with j assms(3) False have "\<exists>d \<in> set (cr_callers s). joined d" "\<not> adder_waits c" by (auto simp: adder_waits_def)
    with old [OF d] assms(1) False show "\<not> adder_waits d" unfolding down_inv_def by blast
  qed
  ultimately show ?thesis unfolding down_inv_def by simp
qed (simp add: down_inv_def)

lemma down_worker:
  assumes "down_inv s" "cr_forced s \<or> \<not> cr_shutdown s \<or> w \<noteq> W_checked \<and> w \<noteq> W_waiting"
  shows "down_inv (s\<lparr>cr_workers := (cr_workers s)[i := w]\<rparr>)"
  using assms unfolding down_inv_def by (auto dest!: in_update)

lemma worker_next_down:
  assumes inv: "down_inv s" and w: "w \<in> set (cr_workers s)" and step: "worker_next i w s = Some (w', t)"
  shows "down_inv (t\<lparr>cr_workers := (cr_workers t)[i := w']\<rparr>)"
proof (rule down_worker)
  have same: "cr_forced t = cr_forced s" "cr_shutdown t = cr_shutdown s" using worker_next_woken [OF step] by (simp_all add: woken_def)
  show "down_inv t" by (rule down_woken [OF inv worker_next_woken [OF step]])
  have "cr_forced s \<or> \<not> cr_shutdown s \<or> w \<noteq> W_checked" using inv w by (auto simp: down_inv_def)
  then show "cr_forced t \<or> \<not> cr_shutdown t \<or> w' \<noteq> W_checked \<and> w' \<noteq> W_waiting"
    using step unfolding same by (cases w) (auto split: if_splits dest: take_work_lock)
qed

text \<open>The two broadcasts behind the loop of \<open>crew_join\<close>.\<close>

lemma down_broadcasts:
  assumes inv: "down_inv s"
  shows "J_unlocked \<in> set (cr_callers s) \<Longrightarrow>
      down_inv (broadcast_not_empty s\<lparr>cr_callers := (cr_callers (broadcast_not_empty s))[i := J_woken]\<rparr>)"
    and "J_woken \<in> set (cr_callers s) \<Longrightarrow>
      down_inv (broadcast_not_full s\<lparr>cr_callers := (cr_callers (broadcast_not_full s))[i := J_joining]\<rparr>)"
proof -
  assume "J_unlocked \<in> set (cr_callers s)"
  then have "cr_forced s \<or> cr_shutdown s" using inv by (auto simp: down_inv_def)
  moreover have "down_inv (broadcast_not_empty s)" by (rule down_woken [OF inv]) simp
  moreover have "W_waiting \<notin> set (cr_workers (broadcast_not_empty s))" by (auto simp: broadcasts)
  ultimately show "down_inv (broadcast_not_empty s\<lparr>cr_callers := (cr_callers (broadcast_not_empty s))[i := J_woken]\<rparr>)"
    by (intro down_caller) (auto simp: joined_def)
next
  assume c: "J_woken \<in> set (cr_callers s)"
  have down: "cr_forced s \<or> cr_shutdown s \<and> W_waiting \<notin> set (cr_workers s) \<and> (\<forall>c \<in> set (cr_callers s). \<not> checked c) \<and>
      W_checked \<notin> set (cr_workers s)"
    using inv c by (auto simp: down_inv_def woke_def)
  moreover have "\<not> checked J_joining" "\<not> adder_waits J_joining" "joined J_joining" "woke J_joining"
    by (simp_all add: joined_def adder_waits_def woke_def)
  ultimately show "down_inv (broadcast_not_full s\<lparr>cr_callers := (cr_callers (broadcast_not_full s))[i := J_joining]\<rparr>)"
    unfolding down_inv_def broadcast_not_full_def by (auto dest!: in_update)
qed

lemma leaving_down:
  assumes inv: "down_inv s" "lock_inv s" and held: "cr_lock s = Some (By_caller i)"
  shows "down_inv (s\<lparr>cr_shutdown := True, cr_lock := None, cr_callers := (cr_callers s)[i := J_unlocked]\<rparr>)"
proof -
  have "W_checked \<notin> set (cr_workers s)" using no_worker_holds [OF inv(2), of W_checked] held by auto
  moreover have "\<not> checked c" if "c \<in> set ((cr_callers s)[i := J_unlocked])" for c
  proof -
    from that obtain k where k: "k < length (cr_callers s)" "c = (if k = i then J_unlocked else cr_callers s ! k)"
      by (auto simp: in_set_conv_nth nth_update)
    show ?thesis using k lock_invD(2) [OF inv(2) k(1)] held checked_holds [of c] by (cases "k = i") auto
  qed
  moreover have "\<not> joined J_unlocked" "\<not> woke J_unlocked" "\<not> adder_waits J_unlocked" by (simp_all add: joined_def woke_def adder_waits_def)
  ultimately show ?thesis using inv(1) unfolding down_inv_def by (auto dest!: in_update)
qed

lemma caller_next_down:
  assumes inv: "down_inv s" "lock_inv s" and i: "i < length (cr_callers s)"
    and step: "caller_next i (cr_callers s ! i) s = Some (c, t)"
  shows "down_inv (t\<lparr>cr_callers := (cr_callers t)[i := c]\<rparr>)"
proof -
  let ?c = "cr_callers s ! i"
  have mem: "?c \<in> set (cr_callers s)" using i by simp
  consider "?c = J_leaving" | "?c = J_unlocked \<or> ?c = J_woken" | "?c = J_joining" | b where "?c = S_set b" | "?c = X_set"
    | "?c \<notin> {J_leaving, J_unlocked, J_woken, J_joining, X_set}" "\<forall>b. ?c \<noteq> S_set b" by blast
  then show ?thesis
  proof cases
    case 1
    with step lock_invD(2) [OF inv(2) i] leaving_down [OF inv] show ?thesis by auto
  next
    case 2
    with step mem down_broadcasts [OF inv(1)] show ?thesis by auto
  next
    case 3
    with mem have ex: "\<exists>c \<in> set (cr_callers s). joined c" "\<exists>c \<in> set (cr_callers s). woke c"
      by (auto simp: joined_def woke_def)
    with inv(1) have "cr_forced s \<or> cr_shutdown s \<and> W_waiting \<notin> set (cr_workers s)" by (auto simp: down_inv_def)
    with 3 step inv(1) ex show ?thesis by (auto intro!: down_caller split: if_splits)
  next
    case 6
    have checked: "cr_forced s \<or> \<not> cr_shutdown s \<or> \<not> checked ?c" using inv(1) mem by (auto simp: down_inv_def)
    have "down_inv t \<and> cr_forced t = cr_forced s \<and> cr_shutdown t = cr_shutdown s \<and> c \<noteq> J_unlocked \<and> \<not> joined c \<and> \<not> woke c \<and>
        (cr_forced s \<or> \<not> cr_shutdown s \<or> \<not> checked c \<and> \<not> adding c)"
    proof (cases ?c)
      case (A_tested j)
      with step obtain t' where t: "put_work j s = (c, t')" "t = t'\<lparr>cr_lock := None\<rparr>" by auto
      have "down_inv t'" "cr_forced t' = cr_forced s" "cr_shutdown t' = cr_shutdown s"
        using down_woken [OF inv(1)] woken_ops(2) [OF t(1)] by (auto simp: woken_def)
      with put_work_lock [OF t(1)] show ?thesis by (auto simp: t(2) joined_def woke_def)
    qed (use step inv(1) checked 6 in \<open>auto simp: joined_def woke_def add_loop_step_def join_loop_step_def down_broadcast [OF inv(1)]
      split: if_splits\<close>)
    then show ?thesis by (intro down_caller) auto
  qed (use step in \<open>auto intro!: down_forced\<close>)
qed

lemma crew_step_down:
  assumes "down_inv s" "lock_inv s" "crew_step s s'"
  shows "down_inv s'"
  using assms(3)
proof cases
  case (Worker i w t)
  then show ?thesis using assms(1) by (auto intro: worker_next_down nth_mem)
next
  case (Caller i c t)
  then show ?thesis using assms(1,2) by (auto intro: caller_next_down)
next
  case (Timeout i)
  then show ?thesis using assms(1) by (auto intro!: down_caller simp: joined_def woke_def)
next
  case (Cancel_running i j)
  then show ?thesis using assms(1) by (auto intro!: down_worker)
next
  case (Cancel_waiting i)
  then show ?thesis using down_worker [OF assms(1), of W_exit i] by (simp add: down_inv_def)
qed

lemma drained_update:
  "drained s \<Longrightarrow> c \<noteq> J_start False \<Longrightarrow> c \<noteq> J_entered False \<Longrightarrow> c \<noteq> J_leaving \<or> cr_queue s = [] \<Longrightarrow>
     drained (s\<lparr>cr_callers := (cr_callers s)[i := c]\<rparr>)"
  by (auto simp: drained_def dest!: in_update)

lemma drained_frame [simp]:
  "drained (s\<lparr>cr_workers := ws\<rparr>) = drained s" "drained (s\<lparr>cr_lock := l\<rparr>) = drained s" "drained (s\<lparr>cr_closed := b\<rparr>) = drained s"
  by (simp_all add: drained_def)

lemma drained_woken:
  assumes "drained s" "woken s t" "cr_queue s = [] \<Longrightarrow> cr_queue t = []"
  shows "drained t"
proof -
  have "J_start False \<notin> set (cr_callers t)" "J_entered False \<notin> set (cr_callers t)"
    "J_leaving \<in> set (cr_callers t) \<longleftrightarrow> J_leaving \<in> set (cr_callers s)"
    using assms(1) woken_mem [OF assms(2)] by (auto simp: drained_def)
  with assms show ?thesis by (auto simp: drained_def woken_def)
qed

lemma drained_broadcasts:
  assumes "drained s"
  shows "drained (broadcast_not_empty s)" "drained (broadcast_not_full s)" "drained (signal_empty s)"
  by (rule drained_woken [OF assms]; simp)+

lemma worker_next_drained:
  assumes "drained s" "worker_next i w s = Some (w', t)"
  shows "drained t"
proof (rule drained_woken [OF assms(1) worker_next_woken [OF assms(2)]])
  show "cr_queue s = [] \<Longrightarrow> cr_queue t = []"
    using assms(2) by (cases w) (auto simp: crew_ops split: if_splits)
qed

lemma caller_next_drained:
  assumes inv: "drained s" "queue_inv s" "lock_inv s" and i: "i < length (cr_callers s)"
    and step: "caller_next i (cr_callers s ! i) s = Some (c, t)"
  shows "drained (t\<lparr>cr_callers := (cr_callers t)[i := c]\<rparr>)"
proof -
  let ?c = "cr_callers s ! i"
  have mem: "?c \<in> set (cr_callers s)" using i by simp
  have no: "?c \<noteq> J_start False" "?c \<noteq> J_entered False" using inv(1) mem by (auto simp: drained_def)
  have empty: "cr_cursize s = 0 \<longleftrightarrow> cr_queue s = []" using inv(2) by (simp add: queue_inv_def)
  have down: "cr_forced s \<or> \<not> cr_shutdown s \<or> cr_queue s = []" using inv(1) by (auto simp: drained_def)
  show ?thesis
  proof (cases ?c)
    case (A_tested j)
    with step obtain t' where t: "put_work j s = (c, t')" "t = t'\<lparr>cr_lock := None\<rparr>" by auto
    have "J_leaving \<notin> set (cr_callers s)"
    proof
      assume "J_leaving \<in> set (cr_callers s)"
      then obtain k where k: "k < length (cr_callers s)" "cr_callers s ! k = J_leaving" by (auto simp: in_set_conv_nth)
      with lock_invD(2) [OF inv(3) k(1)] lock_invD(2) [OF inv(3) i] A_tested show False by simp
    qed
    moreover have "cr_callers t' = cr_callers s" "cr_forced t' = cr_forced s" "cr_shutdown t' = cr_shutdown s"
      "cr_shutdown s \<Longrightarrow> cr_queue t' = cr_queue s"
      using t(1) by (auto simp: put_work_def broadcast_not_empty_def Let_def split: if_splits)
    ultimately have "drained t'" using inv(1) by (auto simp: drained_def)
    moreover obtain r where "c = A_done j r" using put_work_lock [OF t(1)] by blast
    ultimately show ?thesis by (auto simp: t(2) drained_def dest!: in_update)
  next
    case J_leaving
    with mem inv(1) have "cr_forced s \<or> cr_queue s = []" by (auto simp: drained_def)
    with J_leaving step inv(1) show ?thesis by (auto simp: drained_def dest!: in_update)
  next
    case (S_set b)
    with step inv(1) show ?thesis by (auto simp: drained_def dest!: in_update)
  next
    case X_set
    with step inv(1) show ?thesis by (auto simp: drained_def dest!: in_update)
  next
    case (J_entered f)
    with no have "f" by simp
    with J_entered step inv(1) empty down show ?thesis
      by (auto simp: join_loop_step_def drained_def dest!: in_update split: if_splits)
  next
    case J_loop
    with step inv(1) empty down show ?thesis
      by (auto simp: join_loop_step_def drained_def dest!: in_update split: if_splits)
  qed (use step inv(1) no in \<open>auto simp: add_loop_step_def intro!: drained_update drained_broadcasts split: if_splits\<close>)
qed

lemma crew_step_drained:
  assumes "drained s" "queue_inv s" "lock_inv s" "crew_step s s'"
  shows "drained s'"
  using assms(4)
proof cases
  case (Worker i w t)
  then show ?thesis using assms(1) by (auto dest: worker_next_drained)
next
  case (Caller i c t)
  then show ?thesis using assms(1-3) by (auto intro: caller_next_drained)
qed (use assms(1) in \<open>auto intro: drained_update\<close>)

section \<open>The pool as a system\<close>

definition crew_inv :: "'j crew \<Rightarrow> bool" where
  "crew_inv s = (queue_inv s \<and> lock_inv s \<and> down_inv s \<and> exit_inv s)"

lemmas crew_steps = crew_step_queue crew_step_lock crew_step_down exit_inv_step

lemma starting_ok:
  assumes "starting c"
  shows "\<not> holds c" "\<not> checked c" "\<not> looping c" "\<not> adding c" "\<not> joining c" "\<not> tested c" "\<not> joined c" "\<not> woke c"
    "c \<noteq> J_unlocked" "c \<noteq> J_done b" "c \<noteq> J_entered b" "c \<noteq> J_leaving" "\<not> adder_waits c"
  using assms by (cases c; simp add: joined_def woke_def adder_waits_def)+

lemma crew_initE:
  assumes "crew_init s"
  obtains n maxsize block callers where "s = new_crew n maxsize block callers" "\<forall>c \<in> set callers. starting c"
proof -
  from assms obtain n maxsize block callers where "list_all starting callers" "s = new_crew n maxsize block callers"
    unfolding crew_init_def by blast
  then show thesis by (intro that) (auto simp: list_all_iff)
qed

lemma crew_init_inv:
  assumes "crew_init s"
  shows "crew_inv s"
proof -
  obtain n maxsize block callers where s: "s = new_crew n maxsize block callers"
    and starts: "\<forall>c \<in> set callers. starting c" by (rule crew_initE [OF assms])
  note start = bspec [OF starts]
  have "queue_inv s" by (simp add: s new_crew_def queue_inv_def)
  moreover have "lock_inv s" using start starting_ok(1) nth_mem by (fastforce simp: s new_crew_def lock_inv_def)
  moreover have "down_inv s" using starting_ok(2,8-10,13) [OF start] by (auto simp: s new_crew_def down_inv_def)
  moreover have "exit_inv s" using starting_ok(10) [OF start] by (auto simp: s new_crew_def exit_inv_def)
  ultimately show ?thesis by (simp add: crew_inv_def)
qed

interpretation crew: invariant_system crew_init crew_step crew_inv
  by unfold_locales (auto simp: crew_init_inv, auto simp: crew_inv_def intro: crew_steps)

text \<open>The runs in which nobody takes back a shutdown.\<close>

definition steady_init :: "'j crew \<Rightarrow> bool" where
  "steady_init s = (crew_init s \<and> S_set False \<notin> set (cr_callers s))"

lemma steady_init_wait:
  assumes "steady_init s"
  shows "wait_inv s"
proof -
  have "crew_init s" using assms by (simp add: steady_init_def)
  then obtain n maxsize block callers where s: "s = new_crew n maxsize block callers"
    and starts: "\<forall>c \<in> set callers. starting c" by (rule crew_initE)
  note start = bspec [OF starts]
  have "caller_ok s c" if "c \<in> set callers" for c
    using assms starting_ok [OF start [OF that]] that by (auto simp: s steady_init_def new_crew_def caller_ok_def)
  then show ?thesis by (auto simp: s new_crew_def wait_inv_def worker_ok_def)
qed

interpretation steady: invariant_system steady_init crew_step "\<lambda>s. crew_inv s \<and> wait_inv s"
proof (unfold_locales, goal_cases)
  case (1 s)
  then show ?case using steady_init_wait [of s] by (auto simp: steady_init_def crew_init_inv)
next
  case (2 s s')
  then show ?case using crew.inv_step crew_step_wait [of s s'] by (auto simp: crew_inv_def)
qed

text \<open>The runs in which every \<open>crew_join\<close> is told to let the workers finish.\<close>

definition finishing_init :: "'j crew \<Rightarrow> bool" where
  "finishing_init s = (crew_init s \<and> J_start False \<notin> set (cr_callers s))"

interpretation finishing: invariant_system finishing_init crew_step "\<lambda>s. crew_inv s \<and> drained s"
proof (unfold_locales, goal_cases)
  case (1 s)
  then have init: "crew_init s" and no: "J_start False \<notin> set (cr_callers s)" by (simp_all add: finishing_init_def)
  obtain n maxsize block callers where s: "s = new_crew n maxsize block callers"
    and starts: "\<forall>c \<in> set callers. starting c" by (rule crew_initE [OF init])
  note start = bspec [OF starts]
  have "J_entered False \<notin> set callers" "J_leaving \<notin> set callers" using starting_ok(11,12) [OF start] by blast+
  with no crew_init_inv [OF init] show ?case by (simp add: s drained_def new_crew_def)
next
  case (2 s s')
  then show ?case using crew.inv_step crew_step_drained [of s s'] by (auto simp: crew_inv_def)
qed

section \<open>Runs\<close>

text \<open>A schedule names the thread that goes on; \<open>run\<close> follows it as far as the threads can go.\<close>

datatype crew_turn = Turn_worker nat | Turn_caller nat | Turn_cancel nat

fun take_turn :: "crew_turn \<Rightarrow> 'j crew \<Rightarrow> 'j crew option" where
  "take_turn (Turn_worker i) s =
     (if i < length (cr_workers s) then
        map_option (\<lambda>(w, s'). s'\<lparr>cr_workers := (cr_workers s')[i := w]\<rparr>) (worker_next i (cr_workers s ! i) s)
      else None)"
| "take_turn (Turn_caller i) s =
     (if i < length (cr_callers s) then
        map_option (\<lambda>(c, s'). s'\<lparr>cr_callers := (cr_callers s')[i := c]\<rparr>) (caller_next i (cr_callers s ! i) s)
      else None)"
| "take_turn (Turn_cancel i) s =
     (if X_cancel \<in> set (cr_callers s) \<and> i < length (cr_workers s)
      then (case cr_workers s ! i of
              W_running j \<Rightarrow> Some (s\<lparr>cr_workers := (cr_workers s)[i := W_exit]\<rparr>)
            | W_waiting \<Rightarrow> if cr_lock s = None
                then Some (s\<lparr>cr_workers := (cr_workers s)[i := W_exit], cr_lock := Some Dead\<rparr>) else None
            | _ \<Rightarrow> None)
      else None)"

fun run :: "crew_turn list \<Rightarrow> 'j crew \<Rightarrow> 'j crew option" where
  "run [] s = Some s"
| "run (t # ts) s = (case take_turn t s of None \<Rightarrow> None | Some s' \<Rightarrow> run ts s')"

lemma take_turn_step: "take_turn t s = Some s' \<Longrightarrow> crew_step s s'"
  by (cases t) (auto intro: crew_step.intros split: if_splits worker.splits)

lemma run_steps: "run ts s = Some s' \<Longrightarrow> crew_step\<^sup>*\<^sup>* s s'"
  by (induction ts arbitrary: s) (auto intro: take_turn_step converse_rtranclp_into_rtranclp split: option.splits)

lemma new_crew_init [simp]: "list_all starting cs \<Longrightarrow> crew_init (new_crew n m b cs)"
  by (auto simp: crew_init_def)

section \<open>Properties\<close>

text \<open>C25: In every run of the pool the accepted jobs are those a worker took, in the order of
  \<open>crew_add\<close>, followed by the queue, \<open>cursize\<close> is the length of the queue and \<open>total\<close> counts the
  accepted jobs.  Unless a caller takes back a shutdown with \<open>crew_set_shutdown(FALSE)\<close>, the queue
  never exceeds \<open>maxsize\<close> and no worker reads a job from an empty queue.\<close>

theorem crew_fifo:
  assumes "crew_init s0" "crew_step\<^sup>*\<^sup>* s0 s"
  shows "cr_accepted s = cr_started s @ cr_queue s \<and> cr_cursize s = length (cr_queue s) \<and>
    cr_total s = length (cr_accepted s) \<and>
    (S_set False \<notin> set (cr_callers s0) \<longrightarrow> cr_cursize s \<le> cr_maxsize s \<and> W_fault \<notin> set (cr_workers s))"
  using crew.inv_reachable [OF assms] steady.inv_reachable [OF _ assms(2)] assms(1)
  by (auto simp: crew_inv_def queue_inv_def steady_init_def wait_inv_def worker_ok_def)

definition two_adds :: "nat crew" where
  "two_adds = new_crew 1 2 True [A_start 7, A_start 8]"

definition two_adds_turns :: "crew_turn list" where
  "two_adds_turns = [Turn_caller 1, Turn_caller 1, Turn_caller 0, Turn_caller 0, Turn_worker 0, Turn_worker 0]"

definition after_two_adds :: "nat crew" where
  "after_two_adds = the (run two_adds_turns two_adds)"

lemma two_adds_run: "run two_adds_turns two_adds = Some after_two_adds"
  by code_simp

lemma two_adds_init: "crew_init two_adds" "S_set False \<notin> set (cr_callers two_adds)"
  by (simp add: two_adds_def, simp add: two_adds_def new_crew_def)

lemma crew_fifo_witness:
  "cr_accepted after_two_adds = [8, 7] \<and> [8, 7] = cr_started after_two_adds @ cr_queue after_two_adds \<and>
   cr_total after_two_adds = 2 \<and> cr_queue after_two_adds = [7] \<and> W_fault \<notin> set (cr_workers after_two_adds)"
proof -
  have "cr_accepted after_two_adds = [8, 7]" "cr_queue after_two_adds = [7]" by code_simp+
  with crew_fifo [OF two_adds_init(1) run_steps [OF two_adds_run]] two_adds_init(2) show ?thesis by simp
qed

text \<open>C26: As long as no caller takes back a shutdown with \<open>crew_set_shutdown(FALSE)\<close>, no wake-up for
  a job, for room or for the empty queue is lost: while the queue holds a job no worker waits for one
  or is about to; while there is room no caller of \<open>crew_add\<close> waits for it; and once the queue is
  empty no \<open>crew_join\<close> waits for that.  (The wake-up for a shutdown can be lost, as
  \<open>crew_set_shutdown_misses_worker\<close> shows.)\<close>

theorem crew_no_lost_wakeup:
  assumes "crew_init s0" "S_set False \<notin> set (cr_callers s0)" "crew_step\<^sup>*\<^sup>* s0 s"
  shows "(cr_queue s = [] \<or> W_waiting \<notin> set (cr_workers s) \<and> W_checked \<notin> set (cr_workers s)) \<and>
    (length (cr_queue s) = cr_maxsize s \<or> filter adding (cr_callers s) = []) \<and>
    (cr_queue s \<noteq> [] \<or> filter joining (cr_callers s) = [])"
proof -
  have "queue_inv s" "wait_inv s"
    using steady.inv_reachable [OF _ assms(3)] assms(1,2) by (simp_all add: steady_init_def crew_inv_def)
  then show ?thesis by (auto simp: queue_inv_def wait_inv_def worker_ok_def caller_ok_def filter_empty_conv)
qed

lemma crew_no_lost_wakeup_witness: "W_waiting \<notin> set (cr_workers after_two_adds)"
proof -
  have "cr_queue after_two_adds \<noteq> []" by code_simp
  with crew_no_lost_wakeup [OF two_adds_init run_steps [OF two_adds_run]] show ?thesis by simp
qed

text \<open>C27: When every \<open>crew_join\<close> is called with \<open>finish\<close> set, one of them returns true, and nothing
  but \<open>crew_join\<close> has written \<open>shutdown\<close> (neither \<open>crew_set_shutdown\<close> nor \<open>crew_cancel\<close>), every
  accepted job was started and every worker has ended.\<close>

theorem crew_join_drains:
  assumes "crew_init s0" "J_start False \<notin> set (cr_callers s0)" "crew_step\<^sup>*\<^sup>* s0 s"
    and "\<not> cr_forced s" "J_done True \<in> set (cr_callers s)"
  shows "cr_started s = cr_accepted s \<and> cr_queue s = [] \<and> set (cr_workers s) \<subseteq> {W_exit}"
proof -
  have inv: "crew_inv s" "drained s"
    using finishing.inv_reachable [of s0 s] assms by (simp_all add: finishing_init_def)
  moreover have "woke (J_done True)" by (simp add: woke_def joined_def)
  ultimately have "cr_shutdown s" using assms(4,5) by (auto simp: crew_inv_def down_inv_def)
  with inv assms(4,5) show ?thesis by (auto simp: crew_inv_def drained_def queue_inv_def exit_inv_def)
qed

definition add_and_join :: "nat crew" where
  "add_and_join = new_crew 1 2 True [A_start 7, J_start True]"

definition add_and_join_turns :: "crew_turn list" where
  "add_and_join_turns =
     replicate 2 (Turn_worker 0) @ replicate 2 (Turn_caller 0) @ replicate 3 (Turn_caller 1) @ replicate 2 (Turn_worker 0) @
     replicate 4 (Turn_caller 1) @ replicate 3 (Turn_worker 0) @ [Turn_caller 1]"

definition joined_crew :: "nat crew" where
  "joined_crew = the (run add_and_join_turns add_and_join)"

lemma add_and_join_run: "run add_and_join_turns add_and_join = Some joined_crew"
  by code_simp

lemma crew_join_drains_witness: "cr_started joined_crew = [7] \<and> set (cr_workers joined_crew) \<subseteq> {W_exit}"
proof -
  have "J_done True \<in> set (cr_callers joined_crew)" "\<not> cr_forced joined_crew" "cr_accepted joined_crew = [7]"
    by code_simp+
  moreover have "crew_init add_and_join" "J_start False \<notin> set (cr_callers add_and_join)"
    by (simp add: add_and_join_def, simp add: add_and_join_def new_crew_def)
  ultimately show ?thesis
    using crew_join_drains [OF _ _ run_steps [OF add_and_join_run]] by simp
qed

subsection \<open>Cancelling\<close>

text \<open>A thread that dies with the lock leaves no critical section to the others.\<close>

lemma dead_worker_next:
  "cr_lock s = Some Dead \<Longrightarrow> \<not> w_holds w \<Longrightarrow> worker_next i w s = Some (w', s') \<Longrightarrow> s' = s"
  by (cases w) auto

lemma dead_caller_next:
  assumes "cr_lock s = Some Dead" "\<not> holds c" "caller_next i c s = Some (c', s')"
  shows "cr_lock s' = Some Dead" "cr_accepted s' = cr_accepted s" "cr_started s' = cr_started s" "cr_queue s' = cr_queue s"
  using assms by (cases c; auto simp: broadcasts split: if_splits)+

lemma dead_step:
  assumes "crew_step s s'" "lock_inv s" "cr_lock s = Some Dead"
  shows "cr_lock s' = Some Dead \<and> cr_accepted s' = cr_accepted s \<and> cr_started s' = cr_started s \<and> cr_queue s' = cr_queue s"
  using assms(1)
proof cases
  case (Worker i w t)
  moreover have "\<not> w_holds (cr_workers s ! i)" using lock_invD(1) [OF assms(2), of i] assms(3) Worker by auto
  ultimately show ?thesis using dead_worker_next [OF assms(3)] assms(3) by auto
next
  case (Caller i c t)
  moreover have "\<not> holds (cr_callers s ! i)" using lock_invD(2) [OF assms(2), of i] assms(3) Caller by auto
  ultimately show ?thesis using dead_caller_next [OF assms(3)] by auto
qed (use assms(3) in auto)

lemma dead_steps:
  assumes "crew_step\<^sup>*\<^sup>* s s'" "crew_inv s" "cr_lock s = Some Dead"
  shows "cr_lock s' = Some Dead \<and> cr_accepted s' = cr_accepted s \<and> cr_started s' = cr_started s \<and> cr_queue s' = cr_queue s"
  using assms
proof (induction rule: rtranclp_induct)
  case (step t u)
  then have "crew_inv t" using crew.inv_steps by blast
  with step show ?case using dead_step [of t u] by (auto simp: crew_inv_def)
qed simp

text \<open>Once \<open>crew_cancel\<close> has ended a worker inside its wait the lock is never free again: from
  then on no job is accepted and none is started.\<close>

theorem crew_cancel_locks_up:
  assumes "crew_init s0" "crew_step\<^sup>*\<^sup>* s0 s" "cr_lock s = Some Dead" "crew_step\<^sup>*\<^sup>* s s'"
  shows "cr_lock s' = Some Dead \<and> cr_accepted s' = cr_accepted s \<and> cr_started s' = cr_started s \<and>
    cr_queue s' = cr_queue s"
  using dead_steps [OF assms(4) crew.inv_reachable [OF assms(1,2)] assms(3)] .

text \<open>
  The worker is between its test and its wait when \<open>shutdown\<close> is set and the broadcast comes, so that
  it sleeps although the pool is shut down: \<open>crew_set_shutdown\<close> does not take the lock.
\<close>

definition missed_turns :: "crew_turn list" where
  "missed_turns = [Turn_worker 0] @ replicate 4 (Turn_caller 0) @ [Turn_worker 0]"

definition idle_pool :: "nat caller \<Rightarrow> nat crew" where
  "idle_pool c = new_crew 1 1 True [c, A_start 7]"

definition cancelled_pool :: "nat crew" where
  "cancelled_pool = the (run (missed_turns @ [Turn_cancel 0]) (idle_pool X_set))"

lemma cancelled_run: "run (missed_turns @ [Turn_cancel 0]) (idle_pool X_set) = Some cancelled_pool"
  by code_simp

lemma crew_cancel_locks_up_witness:
  "\<exists>s0. crew_init s0 \<and> crew_step\<^sup>*\<^sup>* s0 cancelled_pool \<and> cr_started cancelled_pool = [] \<and>
     cr_lock cancelled_pool = Some Dead"
proof -
  have init: "crew_init (idle_pool X_set)" by (simp add: idle_pool_def)
  note steps = run_steps [OF cancelled_run]
  have dead: "cr_lock cancelled_pool = Some Dead" and start: "cr_started cancelled_pool = []" by code_simp+
  from crew_cancel_locks_up [OF init steps dead rtranclp.rtrancl_refl] init steps start show ?thesis by auto
qed

subsection \<open>What the missing lock of \<open>crew_set_shutdown\<close> lets happen\<close>

text \<open>\<open>crew_set_shutdown\<close> can miss a worker: the pool is shut down, the call is over, and the
  worker still waits.\<close>

theorem crew_set_shutdown_misses_worker:
  "\<exists>s. crew_step\<^sup>*\<^sup>* (idle_pool (S_set True)) s \<and> cr_shutdown s \<and> cr_workers s = [W_waiting] \<and> hd (cr_callers s) = S_done"
proof -
  have "run missed_turns (idle_pool (S_set True)) = Some (the (run missed_turns (idle_pool (S_set True))))"
    by code_simp
  note steps = run_steps [OF this]
  have "(case the (run missed_turns (idle_pool (S_set True))) of s \<Rightarrow>
      cr_shutdown s \<and> cr_workers s = [W_waiting] \<and> hd (cr_callers s) = S_done)" by code_simp
  with steps show ?thesis by auto
qed

text \<open>
  A shutdown that is set and taken back between the two reads of a critical section sends a worker to
  an empty queue, and \<open>crew_add\<close> past a full one.
\<close>

definition reset_pool :: "nat crew" where
  "reset_pool = new_crew 1 1 True [S_set True, S_set False, A_start 7, A_start 8]"

definition reset_turns :: "crew_turn \<Rightarrow> crew_turn list" where
  "reset_turns t = [Turn_caller 0, t, Turn_caller 1, t]"

theorem crew_reset_shutdown_breaks:
  "(\<exists>s. crew_step\<^sup>*\<^sup>* reset_pool s \<and> cr_workers s = [W_fault] \<and> cr_queue s = []) \<and>
   (\<exists>s. crew_step\<^sup>*\<^sup>* reset_pool s \<and> cr_queue s = [7, 8] \<and> cr_maxsize s = 1)"
proof
  let ?ts = "reset_turns (Turn_worker 0)"
  have "run ?ts reset_pool = Some (the (run ?ts reset_pool))" by code_simp
  note steps = run_steps [OF this]
  have "(case the (run ?ts reset_pool) of s \<Rightarrow> cr_workers s = [W_fault] \<and> cr_queue s = [])" by code_simp
  with steps show "\<exists>s. crew_step\<^sup>*\<^sup>* reset_pool s \<and> cr_workers s = [W_fault] \<and> cr_queue s = []" by auto
next
  let ?ts = "replicate 2 (Turn_caller 2) @ reset_turns (Turn_caller 3)"
  have "run ?ts reset_pool = Some (the (run ?ts reset_pool))" by code_simp
  note steps = run_steps [OF this]
  have "(case the (run ?ts reset_pool) of s \<Rightarrow> cr_queue s = [7, 8] \<and> cr_maxsize s = 1)" by code_simp
  with steps show "\<exists>s. crew_step\<^sup>*\<^sup>* reset_pool s \<and> cr_queue s = [7, 8] \<and> cr_maxsize s = 1" by auto
qed

end
