(* ===== verification/Response.thy ===== *)
theory Response
  imports Cookie Hash_table
begin

text \<open>
  The response headers of siege (\<open>siege-4.1.7/src/response.c\<close>).  A header line is handed over in
  the block it was read into: the functions look behind the end of a short line, and what they
  write there is seen by the lines read later.  So a line is a block, positions are numbers, and
  the functions that write return the block.
\<close>

section \<open>State\<close>

text \<open>The enumeration \<open>TYPE\<close> of \<open>auth.h\<close>.\<close>

datatype auth_type = BASIC | DIGEST | NTLM

text \<open>A number per constant, as the header file gives them: \<open>HTTP_CONN\<close>, \<open>HTTP_TE\<close>, \<open>HTTP_CE\<close>.\<close>

datatype HTTP_CONN = CLOSE | KEEPALIVE | METER
datatype HTTP_TE = NONE | CHUNKED | TRAILER
datatype HTTP_CE = COMPRESS | DEFLATE | GZIP | BZIP2

primrec conn_num :: "HTTP_CONN \<Rightarrow> int" where
  "conn_num CLOSE = 1"
| "conn_num KEEPALIVE = 2"
| "conn_num METER = 4"

primrec te_num :: "HTTP_TE \<Rightarrow> int" where
  "te_num NONE = 1"
| "te_num CHUNKED = 2"
| "te_num TRAILER = 4"

primrec ce_num :: "HTTP_CE \<Rightarrow> int" where
  "ce_num COMPRESS = 1"
| "ce_num DEFLATE = 2"
| "ce_num GZIP = 4"
| "ce_num BZIP2 = 8"

record RESPONSE =
  rs_headers :: "string hash_t"
  rs_www_type :: auth_type
  rs_proxy_type :: auth_type
  rs_www_realm :: "string option"
  rs_proxy_realm :: "string option"
  rs_www_challenge :: "string option"
  rs_proxy_challenge :: "string option"
  rs_cached :: bool

definition new_response :: RESPONSE where
  "new_response =
     \<lparr>rs_headers = new_hash, rs_www_type = BASIC, rs_proxy_type = BASIC, rs_www_realm = None, rs_proxy_realm = None,
      rs_www_challenge = None, rs_proxy_challenge = None, rs_cached = False\<rparr>"

definition add_header_field :: "string \<Rightarrow> string \<Rightarrow> RESPONSE \<Rightarrow> RESPONSE" where
  "add_header_field key val this = this\<lparr>rs_headers := hash_add key val (rs_headers this)\<rparr>"

definition field :: "RESPONSE \<Rightarrow> string \<Rightarrow> string option" where
  "field this key = hash_get (rs_headers this) key"

section \<open>Pairs\<close>

text \<open>The first place from \<open>p\<close> on where a scan stops; running out of the block is undefined.\<close>

definition scan :: "(char \<Rightarrow> bool) \<Rightarrow> string \<Rightarrow> nat \<Rightarrow> nat res" where
  "scan stop b p =
     (let q = p + length (takeWhile (\<lambda>c. \<not> stop c) (drop p b)) in if q < length b then Inr q else Inl Undefined)"

text \<open>\<open>__parse_pair\<close>: the block, where \<open>*str\<close> points afterwards, and the place of the pair.\<close>

definition parse_pair :: "string \<Rightarrow> nat \<Rightarrow> (string \<times> nat \<times> nat option) res" where
  "parse_pair b str =
     rbind (scan (\<lambda>c. c = NUL \<or> c = SP) b str) (\<lambda>p.
     rbind (bstore b p [NUL]) (\<lambda>b.
     let pair = p + 1 in
     if length b \<le> pair then Inl Undefined
     else if b ! pair = NUL then Inr (b, pair, None)
     else
       rbind (scan (\<lambda>c. c = NUL \<or> c = CHR '';'' \<or> c = CHR '','') b pair) (\<lambda>q.
       rbind (bstore b q [NUL]) (\<lambda>b'.
       Inr (b', q + 1, if CHR ''='' \<in> set (take (q - pair) (drop pair b)) then Some pair else None)))))"

text \<open>
  Splitting a pair into option and value: the byte behind the option is overwritten.  A pair has an
  equals sign, so the option ends before the pair does.
\<close>

definition option_value :: "string \<Rightarrow> nat \<Rightarrow> (string \<times> string \<times> string) res" where
  "option_value b pair =
     rbind (bstr b pair) (\<lambda>s.
     case Cookie.key_value s of (option, value) \<Rightarrow>
       rbind (bstore b (pair + length option) [NUL]) (\<lambda>b. Inr (b, option, value)))"

definition ISQUOTE :: "char \<Rightarrow> bool" where
  "ISQUOTE c \<longleftrightarrow> c = CHR 0x22 \<or> c = CHR 0x27"

definition rquote :: "string \<Rightarrow> string" where
  "rquote str = rev (dropWhile ISQUOTE (rev str))"

definition lquote :: "string \<Rightarrow> string" where
  "lquote str = dropWhile ISQUOTE str"

definition dequote :: "string \<Rightarrow> string" where
  "dequote str = lquote (rquote str)"

section \<open>The values of a response\<close>

definition int_value :: "RESPONSE \<Rightarrow> string \<Rightarrow> int \<Rightarrow> int res" where
  "int_value this key def =
     rbind (case field this key of None \<Rightarrow> Inr (-1) | Some s \<Rightarrow> atoi s) (\<lambda>num. Inr (if num > 0 then num else def))"

definition boolean_value :: "RESPONSE \<Rightarrow> string \<Rightarrow> bool \<Rightarrow> bool" where
  "boolean_value this key def =
     (case field this key of
        None \<Rightarrow> def
      | Some b \<Rightarrow> if strmatch b ''true'' then True else if strmatch b ''false'' then False else def)"

definition response_get_code :: "RESPONSE option \<Rightarrow> int res" where
  "response_get_code this =
     (case this of
        None \<Rightarrow> Inr 418
      | Some r \<Rightarrow> (case field r ''response-code'' of None \<Rightarrow> Inr 418 | Some s \<Rightarrow> atoi s))"

definition response_get_protocol :: "RESPONSE \<Rightarrow> string" where
  "response_get_protocol this = (case field this ''protocol'' of None \<Rightarrow> ''HTTP/1.1'' | Some s \<Rightarrow> s)"

definition response_success :: "RESPONSE \<Rightarrow> int res" where
  "response_success this =
     (case field this ''response-code'' of
        None \<Rightarrow> Inr 0
      | Some s \<Rightarrow> rbind (atoi s) (\<lambda>code. Inr (if code < 400 \<or> code = 401 \<or> code = 407 then 1 else 0)))"

definition response_failure :: "RESPONSE \<Rightarrow> int res" where
  "response_failure this =
     (case field this ''response-code'' of
        None \<Rightarrow> Inr 1
      | Some s \<Rightarrow> rbind (atoi s) (\<lambda>code. Inr (if code \<ge> 400 \<and> code \<noteq> 401 \<and> code \<noteq> 407 then 1 else 0)))"

definition response_set_from_cache :: "RESPONSE \<Rightarrow> bool \<Rightarrow> RESPONSE" where
  "response_set_from_cache this cached = this\<lparr>rs_cached := cached\<rparr>"

definition response_get_content_type :: "RESPONSE \<Rightarrow> string" where
  "response_get_content_type this = (case field this ''content-type'' of None \<Rightarrow> ''unknown'' | Some s \<Rightarrow> s)"

definition response_get_charset :: "RESPONSE \<Rightarrow> RESPONSE \<times> string option" where
  "response_get_charset this =
     (let this = (if field this ''charset'' = None then add_header_field ''charset'' ''iso-8859-1'' this else this)
      in (this, field this ''charset''))"

definition response_get_content_length :: "RESPONSE \<Rightarrow> int res" where
  "response_get_content_length this = int_value this ''content-length'' 0"

definition response_get_content_encoding :: "RESPONSE \<Rightarrow> int res" where
  "response_get_content_encoding this = int_value this ''content-encoding'' 0"

definition response_get_transfer_encoding :: "RESPONSE \<Rightarrow> int res" where
  "response_get_transfer_encoding this = int_value this ''transfer-encoding'' (te_num NONE)"

definition response_get_location :: "RESPONSE \<Rightarrow> string option" where
  "response_get_location this = field this ''location''"

definition response_get_redirect :: "RESPONSE \<Rightarrow> bool" where
  "response_get_redirect this = boolean_value this ''redirect'' False"

definition response_get_connection :: "RESPONSE \<Rightarrow> int res" where
  "response_get_connection this = int_value this ''connection'' (conn_num CLOSE)"

definition response_get_keepalive_timeout :: "RESPONSE \<Rightarrow> int res" where
  "response_get_keepalive_timeout this = int_value this ''keepalive-timeout'' 15"

definition response_get_keepalive_max :: "RESPONSE \<Rightarrow> int res" where
  "response_get_keepalive_max this = int_value this ''keepalive-max'' 5"

definition response_get_last_modified :: "RESPONSE \<Rightarrow> string option" where
  "response_get_last_modified this = field this ''last-modified''"

definition response_get_etag :: "RESPONSE \<Rightarrow> string option" where
  "response_get_etag this = field this ''etag''"

section \<open>Reading a line\<close>

text \<open>\<open>strncasecmp (line, KEY, strlen (KEY)) == 0\<close>.\<close>

definition has_label :: "string \<Rightarrow> string \<Rightarrow> bool" where
  "has_label line key = ncase_eq line key (length key)"

definition response_set_code :: "string \<Rightarrow> RESPONSE \<Rightarrow> (RESPONSE \<times> bool) res" where
  "response_set_code b this =
     rbind (bstr b 0) (\<lambda>line.
     if \<not> has_label line ''http'' then Inr (this, False)
     else
       rbind (bstr b 9) (\<lambda>rest.
       rbind (atoi rest) (\<lambda>num.
       Inr (if num > 1
            then (add_header_field ''response-code'' rest (add_header_field ''protocol'' (take 8 line) this), True)
            else (this, False)))))"

text \<open>\<open>strtok_r\<close> with the semicolon: the token and where the next search begins.\<close>

definition strtok_semi :: "string \<Rightarrow> nat \<Rightarrow> (string \<times> nat option \<times> nat) res" where
  "strtok_semi b p =
     rbind (scan (\<lambda>c. c \<noteq> CHR '';'') b p) (\<lambda>s.
     if b ! s = NUL then Inr (b, None, s)
     else
       rbind (scan (\<lambda>c. c = NUL \<or> c = CHR '';'') b s) (\<lambda>e.
       if b ! e = NUL then Inr (b, Some s, e)
       else rbind (bstore b e [NUL]) (\<lambda>b. Inr (b, Some s, e + 1))))"

definition response_set_content_type :: "string \<Rightarrow> RESPONSE \<Rightarrow> (string \<times> RESPONSE \<times> bool) res" where
  "response_set_content_type b this =
     rbind (bstr b 0) (\<lambda>line.
     if CHR '';'' \<in> set line then
       rbind (strtok_semi b 14) (\<lambda>(b, tok, aid).
       rbind (case tok of
                None \<Rightarrow> Inr (this, False)
              | Some s \<Rightarrow> rbind (bstr b s) (\<lambda>t. Inr (add_header_field ''content-type'' t this, True)))
         (\<lambda>(this, r).
       rbind (bstr b aid) (\<lambda>rest.
       Inr (b, case stristr rest ''charset='' of
                 None \<Rightarrow> (this, r)
               | Some i \<Rightarrow>
                   if length (drop i rest) > 8 then (add_header_field ''charset'' (drop (i + 8) rest) this, r) else (this, r)))))
     else rbind (bstr b 14) (\<lambda>t. Inr (b, add_header_field ''content-type'' t this, True)))"

definition response_set_content_length :: "string \<Rightarrow> RESPONSE \<Rightarrow> (RESPONSE \<times> bool) res" where
  "response_set_content_length b this =
     rbind (bstr b 0) (\<lambda>line.
     if \<not> has_label line ''content-length'' then Inr (this, False)
     else
       rbind (bstr b 16) (\<lambda>t.
       rbind (atoi t) (\<lambda>num.
       Inr (if num > 1 then (add_header_field ''content-length'' t this, True) else (this, False)))))"

definition response_set_content_encoding :: "string \<Rightarrow> RESPONSE \<Rightarrow> (RESPONSE \<times> bool) res" where
  "response_set_content_encoding b this =
     rbind (bstr b 0) (\<lambda>line.
     if \<not> has_label line ''content-encoding'' then Inr (this, False)
     else
       rbind (bstr b 18) (\<lambda>ptr.
       Inr (if strmatch ptr ''gzip'' then (add_header_field ''content-encoding'' (show_int (ce_num GZIP)) this, True)
            else if strmatch ptr ''deflate''
            then (add_header_field ''content-encoding'' (show_int (ce_num DEFLATE)) this, True)
            else (this, False))))"

text \<open>\<open>trim\<close> in place: \<open>rtrim\<close> writes a NUL, \<open>ltrim\<close> moves the rest to the front.\<close>

definition trim_at :: "string \<Rightarrow> nat \<Rightarrow> (string \<times> string) res" where
  "trim_at b p =
     rbind (bstr b p) (\<lambda>s.
     rbind (bstore b (p + length (rtrim s)) [NUL]) (\<lambda>b.
     rbind (bstore b p (trim_c s @ [NUL])) (\<lambda>b. Inr (b, trim_c s))))"

definition te_of :: "string \<Rightarrow> HTTP_TE" where
  "te_of ptr = (if strmatch ptr ''chunked'' then CHUNKED else if strmatch ptr ''trailer'' then TRAILER else NONE)"

definition response_set_transfer_encoding :: "string \<Rightarrow> RESPONSE \<Rightarrow> (string \<times> RESPONSE \<times> bool) res" where
  "response_set_transfer_encoding b this =
     rbind (bstr b 0) (\<lambda>line.
     if \<not> has_label line ''transfer-encoding'' then Inr (b, this, False)
     else
       rbind (trim_at b 19) (\<lambda>(b, ptr).
       Inr (b, add_header_field ''transfer-encoding'' (show_int (te_num (te_of ptr))) this, True)))"

text \<open>
  \<open>tmp = xmalloc (len)\<close>, \<open>memmove (tmp, line + off, len - off + 1)\<close>, \<open>tmp[len - off] = 0\<close>: with a line
  shorter than the offset the count wraps or the byte before the block is written.
\<close>

definition tail_copy :: "string \<Rightarrow> nat \<Rightarrow> string res" where
  "tail_copy line off = (if off \<le> length line then Inr (drop off line) else Inl Undefined)"

definition response_set_location :: "string \<Rightarrow> RESPONSE \<Rightarrow> (RESPONSE \<times> bool) res" where
  "response_set_location b this =
     rbind (bstr b 0) (\<lambda>line.
     rbind (if has_label line ''location'' then
              rbind (tail_copy line 10) (\<lambda>t.
              Inr (add_header_field ''redirect'' ''true'' (add_header_field ''location'' t this)))
            else Inr this) (\<lambda>this.
     rbind (if has_label line ''content-location'' then
              rbind (tail_copy line 18) (\<lambda>t.
              Inr (add_header_field ''redirect'' ''true'' (add_header_field ''location'' t this)))
            else Inr this) (\<lambda>this.
     Inr (this, boolean_value this ''redirect'' False))))"

definition response_set_connection :: "string \<Rightarrow> RESPONSE \<Rightarrow> (RESPONSE \<times> bool) res" where
  "response_set_connection b this =
     rbind (bstr b 0) (\<lambda>line.
     if \<not> has_label line ''connection'' then Inr (this, False)
     else
       rbind (bstr b 12) (\<lambda>t.
       Inr (add_header_field ''connection''
              (show_int (conn_num (if ncase_eq t ''keep-alive'' 10 then KEEPALIVE else CLOSE))) this, True)))"

definition response_set_last_modified :: "string \<Rightarrow> RESPONSE \<Rightarrow> (RESPONSE \<times> bool) res" where
  "response_set_last_modified b this =
     rbind (bstr b 0) (\<lambda>line.
     if \<not> has_label line ''last-modified'' then Inr (this, False)
     else rbind (tail_copy line 15) (\<lambda>t. Inr (add_header_field ''last-modified'' t this, True)))"

definition response_set_etag :: "string \<Rightarrow> RESPONSE \<Rightarrow> (RESPONSE \<times> bool) res" where
  "response_set_etag b this =
     rbind (bstr b 0) (\<lambda>line.
     if \<not> has_label line ''etag'' then Inr (this, False)
     else rbind (tail_copy line 6) (\<lambda>t. Inr (add_header_field ''etag'' (dequote t) this, True)))"

section \<open>Lines of pairs\<close>

lemma scan_bounds: "scan stop b p = Inr q \<Longrightarrow> p \<le> q \<and> q < length b"
  by (auto simp: scan_def Let_def split: if_splits)

lemma bstore_length: "bstore b p xs = Inr b' \<Longrightarrow> length b' = length b"
  by (auto simp: bstore_def split: if_splits)

lemma parse_pair_advances:
  assumes "parse_pair b str = Inr (b', str', r)"
  shows "length b' = length b \<and> str < str' \<and> str' \<le> length b"
  using assms
  by (auto simp: parse_pair_def Let_def rbind_Inr dest!: scan_bounds bstore_length split: if_splits)

lemma option_value_length: "option_value b p = Inr (b', kv) \<Longrightarrow> length b' = length b"
  by (auto simp: option_value_def rbind_Inr case_prod_beta dest!: bstore_length)

text \<open>
  The loop over the pairs from \<open>str\<close> on, with what is done with an option and its value: it ends at
  the first piece that is no pair.
\<close>

function pairs_loop :: "(string \<Rightarrow> string \<Rightarrow> 'a \<Rightarrow> 'a res) \<Rightarrow> string \<Rightarrow> nat \<Rightarrow> 'a \<Rightarrow> (string \<times> 'a) res" where
  "pairs_loop f b str a =
     (case parse_pair b str of
        Inl e \<Rightarrow> Inl e
      | Inr (b1, str1, None) \<Rightarrow> Inr (b1, a)
      | Inr (b1, str1, Some pair) \<Rightarrow>
          (case option_value b1 pair of
             Inl e \<Rightarrow> Inl e
           | Inr (b2, option, value) \<Rightarrow>
               (case f option value a of Inl e \<Rightarrow> Inl e | Inr a' \<Rightarrow> pairs_loop f b2 str1 a')))"
  by pat_completeness auto
termination
  by (relation "measure (\<lambda>(f, b, str, a). length b - str)")
    (auto dest!: parse_pair_advances option_value_length)

declare pairs_loop.simps [simp del]

definition keepalive_field :: "string \<Rightarrow> string \<Rightarrow> RESPONSE \<Rightarrow> RESPONSE res" where
  "keepalive_field key value this =
     rbind (atoi value) (\<lambda>num. Inr (if num > 0 then add_header_field key value this else this))"

definition keepalive_pair :: "string \<Rightarrow> string \<Rightarrow> RESPONSE \<times> bool \<Rightarrow> (RESPONSE \<times> bool) res" where
  "keepalive_pair option value a =
     rbind (if ncase_eq option ''timeout'' 7
            then rbind (keepalive_field ''keepalive-timeout'' value (fst a)) (\<lambda>r. Inr (r, True)) else Inr a) (\<lambda>a.
     if ncase_eq option ''max'' 3
     then rbind (keepalive_field ''keepalive-max'' value (fst a)) (\<lambda>r. Inr (r, True)) else Inr a)"

definition response_set_keepalive :: "string \<Rightarrow> RESPONSE \<Rightarrow> (string \<times> RESPONSE \<times> bool) res" where
  "response_set_keepalive b this = pairs_loop keepalive_pair b 0 (this, False)"

text \<open>A challenge that is no digest and no NTLM is taken for basic, unless one of those came before.\<close>

definition www_scheme :: "string \<Rightarrow> RESPONSE \<Rightarrow> nat \<times> RESPONSE" where
  "www_scheme t this =
     (if ncase_eq t ''digest'' 6 then (24, this\<lparr>rs_www_type := DIGEST, rs_www_challenge := Some t\<rparr>)
      else if ncase_eq t ''ntlm'' 4 then (22, this\<lparr>rs_www_type := NTLM, rs_www_challenge := Some t\<rparr>)
      else if rs_www_type this \<noteq> DIGEST \<and> rs_www_type this \<noteq> NTLM then (23, this\<lparr>rs_www_type := BASIC\<rparr>)
      else (0, this))"

definition www_pair :: "string \<Rightarrow> string \<Rightarrow> RESPONSE \<Rightarrow> RESPONSE res" where
  "www_pair option value this =
     Inr (if ncase_eq option ''realm'' 5 then this\<lparr>rs_www_realm := Some (dequote value)\<rparr> else this)"

definition response_set_www_authenticate :: "string \<Rightarrow> RESPONSE \<Rightarrow> (string \<times> RESPONSE \<times> bool) res" where
  "response_set_www_authenticate b this =
     rbind (bstr b 0) (\<lambda>line.
     if \<not> has_label line ''www-authenticate'' then Inr (b, this, True)
     else
       rbind (bstr b 18) (\<lambda>t.
       case www_scheme t this of (newline, this) \<Rightarrow>
         rbind (pairs_loop www_pair b newline this) (\<lambda>(b, this). Inr (b, this, True))))"

definition proxy_scheme :: "string \<Rightarrow> RESPONSE \<Rightarrow> nat \<times> RESPONSE" where
  "proxy_scheme t this =
     (if ncase_eq t ''digest'' 6 then (26, this\<lparr>rs_proxy_type := DIGEST, rs_proxy_challenge := Some t\<rparr>)
      else (25, this\<lparr>rs_proxy_type := BASIC\<rparr>))"

definition proxy_pair :: "string \<Rightarrow> string \<Rightarrow> RESPONSE \<Rightarrow> RESPONSE res" where
  "proxy_pair option value this =
     Inr (if ncase_eq option ''realm'' 5 then this\<lparr>rs_proxy_realm := Some (dequote value)\<rparr> else this)"

definition response_set_proxy_authenticate :: "string \<Rightarrow> RESPONSE \<Rightarrow> (string \<times> RESPONSE \<times> bool) res" where
  "response_set_proxy_authenticate b this =
     rbind (bstr b 0) (\<lambda>line.
     if \<not> has_label line ''proxy-authenticate'' then Inr (b, this, True)
     else
       rbind (bstr b 20) (\<lambda>t.
       case proxy_scheme t this of (newline, this) \<Rightarrow>
         rbind (pairs_loop proxy_pair b newline this) (\<lambda>(b, this). Inr (b, this, True))))"

end
