(* ===== verification/Response_properties.thy ===== *)
theory Response_properties
  imports Response
begin

text \<open>What the header lines of a response become: properties of theory \<open>Response\<close>.\<close>

section \<open>Fields\<close>

definition resp_ok :: "RESPONSE \<Rightarrow> bool" where
  "resp_ok this = hash_ok (rs_headers this)"

lemma new_response_ok [simp]: "resp_ok new_response" "field new_response key = None"
  by (simp_all add: resp_ok_def new_response_def field_def new_hash_ok)

lemma add_header_ok [simp]: "resp_ok this \<Longrightarrow> resp_ok (add_header_field key val this)"
  by (simp add: resp_ok_def add_header_field_def hash_add_def hash_nadd_ok)

lemma field_add:
  "resp_ok this \<Longrightarrow> field (add_header_field key val this) k =
     (case field this k of Some v \<Rightarrow> Some v | None \<Rightarrow> if k = key then Some (c_str val) else None)"
  by (auto simp: resp_ok_def add_header_field_def field_def hash_add_def hash_nadd_ok lookup_get split: option.split)

section \<open>Pairs in a block\<close>

lemma scan_at:
  assumes "p = length pre" "\<forall>x \<in> set ys. \<not> stop x" "stop c"
  shows "scan stop (pre @ ys @ c # zs) p = Inr (p + length ys)"
  using assms by (simp add: scan_def takeWhile_append)

lemma bstore_at: "bstore (pre @ c # zs) (length pre) [x] = Inr (pre @ x # zs)"
  by (simp add: bstore_def)

lemma bstr_at: "no_nul s \<Longrightarrow> bstr (pre @ s @ NUL # zs) (length pre) = Inr s"
  by (auto simp: bstr_def c_str_def no_nul_def takeWhile_append)

lemma bstr_from: "b = pre @ s @ NUL # zs \<Longrightarrow> p = length pre \<Longrightarrow> no_nul s \<Longrightarrow> bstr b p = Inr s"
  by (simp add: bstr_at)

text \<open>
  \<open>__parse_pair\<close> on a block cut into what is before the pointer, a piece to skip, the byte that ends
  it, the pair, and the byte that ends that.
\<close>

definition pair_bytes :: "string \<Rightarrow> bool" where
  "pair_bytes s = list_all (\<lambda>c. c \<noteq> NUL \<and> c \<noteq> CHR '';'' \<and> c \<noteq> CHR '','') s"

definition skip_bytes :: "string \<Rightarrow> bool" where
  "skip_bytes s = list_all (\<lambda>c. c \<noteq> NUL \<and> c \<noteq> SP) s"

lemma parse_pair_split:
  assumes "skip_bytes l" "s \<in> {NUL, SP}" "pair_bytes pair" "pair \<noteq> []" "t \<in> {NUL, CHR '';'', CHR '',''}"
  shows "parse_pair (pre @ l @ s # pair @ t # rest) (length pre) =
    Inr (pre @ l @ NUL # pair @ NUL # rest, length pre + length l + 1 + length pair + 1,
      if CHR ''='' \<in> set pair then Some (length pre + length l + 1) else None)"
proof -
  let ?b1 = "pre @ l @ NUL # pair @ t # rest"
  have 1: "scan (\<lambda>c. c = NUL \<or> c = SP) (pre @ l @ s # pair @ t # rest) (length pre) = Inr (length pre + length l)"
    using assms(1,2) by (intro scan_at) (auto simp: skip_bytes_def list_all_iff)
  have 2: "bstore (pre @ l @ s # pair @ t # rest) (length pre + length l) [NUL] = Inr ?b1"
    using bstore_at [of "pre @ l" s "pair @ t # rest" NUL] by simp
  have 3: "scan (\<lambda>c. c = NUL \<or> c = CHR '';'' \<or> c = CHR '','') ?b1 (length pre + length l + 1) =
      Inr (length pre + length l + 1 + length pair)"
    using scan_at [of "length pre + length l + 1" "pre @ l @ [NUL]" pair] assms(3,5)
    by (auto simp: pair_bytes_def list_all_iff)
  have 4: "bstore ?b1 (length pre + length l + 1 + length pair) [NUL] = Inr (pre @ l @ NUL # pair @ NUL # rest)"
    using bstore_at [of "pre @ l @ NUL # pair" t rest NUL] by (simp add: add.assoc)
  have 5: "?b1 ! (length pre + length l + 1) \<noteq> NUL"
    using assms(3,4) by (cases pair) (auto simp: pair_bytes_def nth_append)
  show ?thesis
    using 1 2 3 4 5 by (simp add: parse_pair_def Let_def)
qed

lemma parse_pair_end:
  assumes "skip_bytes l" "s \<in> {NUL, SP}"
  shows "parse_pair (pre @ l @ s # NUL # rest) (length pre) = Inr (pre @ l @ NUL # NUL # rest, length pre + length l + 1, None)"
proof -
  have 1: "scan (\<lambda>c. c = NUL \<or> c = SP) (pre @ l @ s # NUL # rest) (length pre) = Inr (length pre + length l)"
    using assms by (intro scan_at) (auto simp: skip_bytes_def list_all_iff)
  have 2: "bstore (pre @ l @ s # NUL # rest) (length pre + length l) [NUL] = Inr (pre @ l @ NUL # NUL # rest)"
    using bstore_at [of "pre @ l" s "NUL # rest" NUL] by simp
  show ?thesis using 1 2 by (simp add: parse_pair_def Let_def nth_append)
qed

definition option_ok :: "string \<Rightarrow> bool" where
  "option_ok opt = (pair_bytes opt \<and> list_all (\<lambda>c. \<not> is_space c \<and> \<not> ISSEPARATOR c) opt)"

definition value_ok :: "string \<Rightarrow> bool" where
  "value_ok val = (pair_bytes val \<and> (val = [] \<or> \<not> is_space (hd val) \<and> \<not> ISSEPARATOR (hd val)))"

lemma key_value_pair:
  assumes "option_ok opt" "value_ok val"
  shows "Cookie.key_value (opt @ CHR ''='' # val) = (opt, val)"
proof -
  have 1: "takeWhile (\<lambda>c. \<not> is_space c \<and> \<not> ISSEPARATOR c) (opt @ CHR ''='' # val) = opt"
    using assms(1) by (simp add: option_ok_def list_all_iff takeWhile_append ISSEPARATOR_def)
  have 2: "dropWhile (\<lambda>c. is_space c \<or> ISSEPARATOR c) val = val"
    using assms(2) by (cases val) (auto simp: value_ok_def)
  show ?thesis by (simp add: key_value_def 1 2)
qed

lemma option_value_split:
  assumes "option_ok opt" "value_ok val"
  shows "option_value (pre @ opt @ CHR ''='' # val @ NUL # rest) (length pre) =
    Inr (pre @ opt @ NUL # val @ NUL # rest, opt, val)"
proof -
  have n: "no_nul (opt @ CHR ''='' # val)"
    using assms by (auto simp: no_nul_def option_ok_def value_ok_def pair_bytes_def list_all_iff)
  have "bstr (pre @ opt @ CHR ''='' # val @ NUL # rest) (length pre) = Inr (opt @ CHR ''='' # val)"
    using bstr_at [OF n, of pre rest] by simp
  moreover have "bstore (pre @ opt @ CHR ''='' # val @ NUL # rest) (length pre + length opt) [NUL] =
      Inr (pre @ opt @ NUL # val @ NUL # rest)"
    using bstore_at [of "pre @ opt" "CHR ''=''" "val @ NUL # rest" NUL] by simp
  ultimately show ?thesis by (simp add: option_value_def key_value_pair [OF assms])
qed

lemma pairs_loop_pair:
  assumes "skip_bytes l" "s \<in> {NUL, SP}" "option_ok opt" "value_ok val" "t \<in> {NUL, CHR '';'', CHR '',''}"
  shows "pairs_loop f (pre @ l @ s # opt @ CHR ''='' # val @ t # rest) (length pre) a =
    (case f opt val a of
       Inl e \<Rightarrow> Inl e
     | Inr a' \<Rightarrow> pairs_loop f ((pre @ l @ NUL # opt @ NUL # val @ [NUL]) @ rest)
         (length (pre @ l @ NUL # opt @ NUL # val @ [NUL])) a')"
proof -
  have "pair_bytes (opt @ CHR ''='' # val)" using assms by (simp add: option_ok_def value_ok_def pair_bytes_def)
  then have p: "parse_pair (pre @ l @ s # opt @ CHR ''='' # val @ t # rest) (length pre) =
      Inr (pre @ l @ NUL # opt @ CHR ''='' # val @ NUL # rest,
        length pre + length l + 1 + length (opt @ CHR ''='' # val) + 1, Some (length pre + length l + 1))"
    using parse_pair_split [OF assms(1,2) _ _ assms(5), of "opt @ CHR ''='' # val" pre rest] by simp
  have o: "option_value (pre @ l @ NUL # opt @ CHR ''='' # val @ NUL # rest) (length pre + length l + 1) =
      Inr (pre @ l @ NUL # opt @ NUL # val @ NUL # rest, opt, val)"
    using option_value_split [OF assms(3,4), of "pre @ l @ [NUL]" rest] by simp
  show ?thesis
    by (subst pairs_loop.simps) (simp add: p [simplified] o [simplified] add.assoc split: sum.split)
qed

lemma pairs_loop_end:
  assumes "skip_bytes l" "s \<in> {NUL, SP}"
  shows "pairs_loop f (pre @ l @ s # NUL # rest) (length pre) a = Inr (pre @ l @ NUL # NUL # rest, a)"
  by (subst pairs_loop.simps) (simp add: parse_pair_end [OF assms])

lemma ncase_eq_append: "ncase_eq k p n \<Longrightarrow> n \<le> length k \<Longrightarrow> ncase_eq (k @ s) p n"
  by (simp add: ncase_eq_def lower_def)

lemma has_label_append: "has_label k key \<Longrightarrow> length key \<le> length k \<Longrightarrow> has_label (k @ s) key"
  by (simp add: has_label_def ncase_eq_append)

section \<open>Numbers\<close>

text \<open>A numeral as a number, with anything but a digit behind it.\<close>

lemma not_digits: "\<not> is_digit NUL" "\<not> is_digit SP"
  by code_simp+

lemma atoi_show_nat:
  assumes n: "n < 2 ^ 31" and rest: "rest = [] \<or> \<not> is_digit (hd rest)"
  shows "atoi (show_nat n @ rest) = Inr (int n)"
proof -
  obtain c cs where c: "show_nat n = c # cs" using show_nat_nonempty [of n] by (cases "show_nat n") auto
  then have d: "is_digit c" using show_nat_digits [of n] by simp
  have "takeWhile is_digit (show_nat n @ rest) = show_nat n"
    using rest show_nat_digits [of n] by (cases rest) (auto simp: takeWhile_append)
  moreover have "dropWhile is_space (show_nat n @ rest) = show_nat n @ rest"
    "read_sign (show_nat n @ rest) = (False, show_nat n @ rest)"
    by (simp_all add: c digit_not_space [OF d] read_sign_digit [OF d])
  ultimately have "atoi_val (show_nat n @ rest) = int n"
    by (simp add: atoi_val_def Let_def)
  with n show ?thesis by (simp add: atoi_def c_int_def)
qed

lemma atoi_show: "n < 2 ^ 31 \<Longrightarrow> atoi (show_nat n) = Inr (int n)"
  using atoi_show_nat [of n "[]"] by simp

lemma show_nat_no_nul [simp]: "no_nul (show_nat n)"
  using show_nat_digits [of n] not_digits(1) unfolding no_nul_def by blast

section \<open>Properties\<close>

text \<open>
  A status line that has come first sets protocol and code: the code read back is its number,
  and the response counts as a success exactly for the codes below 400, for 401 and for 407.
\<close>

theorem status_line_read:
  assumes ok: "resp_ok this" and fresh: "field this ''response-code'' = None" "field this ''protocol'' = None"
    and v: "length v = 8" "has_label v ''http''" and nul: "no_nul v" "no_nul reason"
    and n: "1 < n" "n < 2 ^ 31"
  shows "\<exists>r. response_set_code (v @ SP # show_nat n @ SP # reason @ NUL # stale) this = Inr (r, True) \<and>
    response_get_code (Some r) = Inr (int n) \<and> response_get_protocol r = v \<and>
    response_success r = Inr (if n < 400 \<or> n = 401 \<or> n = 407 then 1 else 0)"
proof -
  let ?line = "v @ SP # show_nat n @ SP # reason" and ?code = "show_nat n @ SP # reason"
  let ?b = "v @ SP # show_nat n @ SP # reason @ NUL # stale"
  let ?r = "add_header_field ''response-code'' ?code (add_header_field ''protocol'' v this)"
  have nn: "no_nul ?line" "no_nul ?code" using nul show_nat_no_nul [of n] by (auto simp: no_nul_def)
  have line: "bstr ?b 0 = Inr ?line" using bstr_at [OF nn(1), of "[]" stale] by simp
  have code: "bstr ?b 9 = Inr ?code" using bstr_at [OF nn(2), of "v @ [SP]" stale] v(1) by simp
  have num: "atoi ?code = Inr (int n)" using n(2) by (intro atoi_show_nat) (simp_all add: not_digits)
  have label: "has_label ?line ''http''" using v by (simp add: has_label_def ncase_eq_def lower_def)
  have "response_set_code ?b this = Inr (?r, True)"
    using v n by (simp add: response_set_code_def line code num label)
  moreover have "field ?r ''response-code'' = Some ?code" "field ?r ''protocol'' = Some v"
    using fresh nn nul by (simp_all add: field_add ok)
  ultimately show ?thesis
    using num n by (auto simp: response_get_code_def response_get_protocol_def response_success_def)
qed

lemma status_line_read_witness:
  "\<exists>r. response_set_code (''HTTP/1.1 404 Not Found'' @ [NUL]) new_response = Inr (r, True) \<and>
     response_get_code (Some r) = Inr 404 \<and> response_success r = Inr 0"
proof -
  have 404: "show_nat 404 = ''404''" by code_simp
  have "has_label ''HTTP/1.1'' ''http''" by code_simp
  with status_line_read [of new_response "''HTTP/1.1''" "''Not Found''" 404 "[]"] show ?thesis
    by (auto simp: 404 no_nul_def)
qed

text \<open>
  Whatever a response holds, it is a success or a failure and not both; in particular one
  without a status line is a failure.
\<close>

theorem success_xor_failure:
  "case (response_success this, response_failure this) of
     (Inr s, Inr f) \<Rightarrow> s + f = 1 \<and> (s = 1) = (f = 0)
   | (Inl e, Inl e') \<Rightarrow> e = e'
   | _ \<Rightarrow> False"
  by (cases "field this ''response-code''")
    (simp_all add: response_success_def response_failure_def atoi_def c_int_def)

text \<open>The parameters of a header, written with a comma and a blank between them.\<close>

fun params_text :: "(string \<times> string) list \<Rightarrow> string" where
  "params_text [] = []"
| "params_text [(opt, val)] = opt @ CHR ''='' # val"
| "params_text ((opt, val) # kvs) = opt @ CHR ''='' # val @ '', '' @ params_text kvs"

fun fold_params :: "(string \<Rightarrow> string \<Rightarrow> 'a \<Rightarrow> 'a res) \<Rightarrow> (string \<times> string) list \<Rightarrow> 'a \<Rightarrow> 'a res" where
  "fold_params f [] a = Inr a"
| "fold_params f ((opt, val) # kvs) a = rbind (f opt val a) (fold_params f kvs)"

text \<open>The loop sees every pair, when two zero bytes follow the one that ends the header.\<close>

lemma pairs_loop_params:
  assumes "kvs \<noteq> []" "list_all (\<lambda>(opt, val). option_ok opt \<and> value_ok val) kvs" "skip_bytes l" "s \<in> {NUL, SP}"
  shows "\<exists>b. pairs_loop f (pre @ l @ s # params_text kvs @ [NUL, NUL, NUL] @ rest) (length pre) a =
    rbind (fold_params f kvs a) (\<lambda>a'. Inr (b, a'))"
  using assms
proof (induction kvs arbitrary: pre l s a rule: params_text.induct)
  case (2 opt val)
  let ?pre = "pre @ l @ NUL # opt @ NUL # val @ [NUL]"
  have "pairs_loop f (?pre @ [] @ NUL # NUL # rest) (length ?pre) a' = Inr (?pre @ [] @ NUL # NUL # rest, a')" for a'
    by (rule pairs_loop_end) (simp_all add: skip_bytes_def)
  with pairs_loop_pair [of l s opt val NUL f pre "NUL # NUL # rest" a] 2 show ?case
    by (cases "f opt val a") auto
next
  case (3 opt val kv kvs)
  let ?pre = "pre @ l @ NUL # opt @ NUL # val @ [NUL]"
  show ?case
  proof (cases "f opt val a")
    case (Inl e)
    with pairs_loop_pair [of l s opt val "CHR '',''" f pre "SP # params_text (kv # kvs) @ [NUL, NUL, NUL] @ rest" a] 3
    show ?thesis by auto
  next
    case (Inr a')
    have "\<exists>b. pairs_loop f (?pre @ [] @ SP # params_text (kv # kvs) @ [NUL, NUL, NUL] @ rest) (length ?pre) a' =
        rbind (fold_params f (kv # kvs) a') (\<lambda>a'. Inr (b, a'))"
      by (rule "3.IH") (use 3 in \<open>simp_all add: skip_bytes_def\<close>)
    with pairs_loop_pair [of l s opt val "CHR '',''" f pre "SP # params_text (kv # kvs) @ [NUL, NUL, NUL] @ rest" a] 3 Inr
    show ?thesis by simp
  qed
qed simp

lemma pairs_loop_params_at:
  assumes "b = pre @ l @ s # params_text kvs @ [NUL, NUL, NUL] @ rest" "p = length pre"
    and "kvs \<noteq> []" "list_all (\<lambda>(opt, val). option_ok opt \<and> value_ok val) kvs" "skip_bytes l" "s \<in> {NUL, SP}"
  shows "\<exists>b'. pairs_loop f b p a = rbind (fold_params f kvs a) (\<lambda>a'. Inr (b', a'))"
  unfolding assms(1,2) by (rule pairs_loop_params [OF assms(3-6)])

lemma fold_params_pure: "fold_params (\<lambda>opt val a. Inr (g opt val a)) kvs a = Inr (fold (\<lambda>(opt, val). g opt val) kvs a)"
  by (induction kvs arbitrary: a) auto

definition realm_of :: "(string \<times> string) list \<Rightarrow> string option \<Rightarrow> string option" where
  "realm_of kvs = fold (\<lambda>(opt, val) r. if ncase_eq opt ''realm'' 5 then Some (dequote val) else r) kvs"

lemma www_fold: "fold (\<lambda>(opt, val) this. if ncase_eq opt ''realm'' 5 then this\<lparr>rs_www_realm := Some (dequote val)\<rparr> else this) kvs this =
    this\<lparr>rs_www_realm := realm_of kvs (rs_www_realm this)\<rparr>"
  by (induction kvs arbitrary: this) (auto simp: realm_of_def)

lemma www_challenge_line:
  assumes "kvs \<noteq> []" "list_all (\<lambda>(opt, val). option_ok opt \<and> value_ok val) kvs" "no_nul (params_text kvs)"
  shows "\<exists>b. response_set_www_authenticate
      (''WWW-Authenticate: Digest '' @ params_text kvs @ [NUL, NUL, NUL] @ rest) this =
    Inr (b, this\<lparr>rs_www_type := DIGEST, rs_www_challenge := Some (''Digest '' @ params_text kvs),
      rs_www_realm := realm_of kvs (rs_www_realm this)\<rparr>, True)"
proof -
  let ?b = "''WWW-Authenticate: Digest '' @ params_text kvs @ [NUL, NUL, NUL] @ rest"
  let ?r = "this\<lparr>rs_www_type := DIGEST, rs_www_challenge := Some (''Digest '' @ params_text kvs)\<rparr>"
  have line: "bstr ?b 0 = Inr (''WWW-Authenticate: Digest '' @ params_text kvs)"
    by (rule bstr_from [of _ "[]" _ "[NUL, NUL] @ rest"]) (use assms(3) in \<open>simp_all add: no_nul_def\<close>)
  have chal: "bstr ?b 18 = Inr (''Digest '' @ params_text kvs)"
    by (rule bstr_from [of _ "''WWW-Authenticate: ''" _ "[NUL, NUL] @ rest"])
      (use assms(3) in \<open>simp_all add: no_nul_def\<close>)
  have "has_label ''WWW-Authenticate: Digest '' ''www-authenticate''" by code_simp
  then have label: "has_label (''WWW-Authenticate: Digest '' @ params_text kvs) ''www-authenticate''"
    by (rule has_label_append) simp
  have "ncase_eq ''Digest '' ''digest'' 6" by code_simp
  then have "ncase_eq (''Digest '' @ params_text kvs) ''digest'' 6" by (rule ncase_eq_append) simp
  then have scheme: "www_scheme (''Digest '' @ params_text kvs) this = (24, ?r)"
    by (simp add: www_scheme_def)
  have "\<exists>b'. pairs_loop www_pair ?b 24 ?r = rbind (fold_params www_pair kvs ?r) (\<lambda>a. Inr (b', a))"
    by (rule pairs_loop_params_at [of _ "''WWW-Authenticate: Digest''" "[]" SP])
      (use assms in \<open>simp_all add: skip_bytes_def\<close>)
  then obtain b where "pairs_loop www_pair ?b 24 ?r = rbind (fold_params www_pair kvs ?r) (\<lambda>a. Inr (b, a))" ..
  moreover have "fold_params www_pair kvs ?r = Inr (?r\<lparr>rs_www_realm := realm_of kvs (rs_www_realm this)\<rparr>)"
    using fold_params_pure [of "\<lambda>opt val this. if ncase_eq opt ''realm'' 5
      then this\<lparr>rs_www_realm := Some (dequote val)\<rparr> else this" kvs ?r]
    by (simp add: www_pair_def [abs_def] www_fold)
  ultimately show ?thesis
    using line chal label scheme by (auto simp: response_set_www_authenticate_def)
qed

text \<open>
  A digest challenge is kept as a whole, and its realm is the last one among the parameters,
  without its quotes.
\<close>

theorem digest_challenge_read:
  assumes "kvs \<noteq> []" "list_all (\<lambda>(opt, val). option_ok opt \<and> value_ok val) kvs" "no_nul (params_text kvs)"
  shows "\<exists>b. response_set_www_authenticate
      (''WWW-Authenticate: Digest '' @ params_text kvs @ [NUL, NUL, NUL] @ rest) this =
    Inr (b, this\<lparr>rs_www_type := DIGEST, rs_www_challenge := Some (''Digest '' @ params_text kvs),
      rs_www_realm := realm_of kvs (rs_www_realm this)\<rparr>, True)"
  using assms by (rule www_challenge_line)

lemma digest_challenge_read_witness:
  "\<exists>b r. response_set_www_authenticate
      (''WWW-Authenticate: Digest '' @ params_text [(''realm'', [CHR 0x22] @ ''me'' @ [CHR 0x22]), (''nonce'', ''x'')] @
        [NUL, NUL, NUL] @ []) new_response = Inr (b, r, True) \<and>
    rs_www_realm r = Some ''me''"
proof -
  let ?kvs = "[(''realm'', [CHR 0x22] @ ''me'' @ [CHR 0x22]), (''nonce'', ''x'')]"
  have "list_all (\<lambda>(opt, val). option_ok opt \<and> value_ok val) ?kvs" "no_nul (params_text ?kvs)"
    "realm_of ?kvs None = Some ''me''" by code_simp+
  with digest_challenge_read [of ?kvs "[]" new_response] show ?thesis
    by (auto simp: new_response_def)
qed

text \<open>
  The loop over the pairs of a line does not stop where the line ends: what an earlier, longer
  line left in the block is read as further parameters.
\<close>

theorem keepalive_reads_stale:
  assumes ok: "resp_ok this" and fresh: "field this ''keepalive-timeout'' = None" "field this ''keepalive-max'' = None"
    and n: "0 < n" "n < 2 ^ 31" "0 < m" "m < 2 ^ 31"
  shows "\<exists>b r. response_set_keepalive
      (''Keep-Alive: timeout='' @ show_nat n @ [NUL, NUL] @ ''max='' @ show_nat m @ [NUL, NUL, NUL] @ rest) this =
    Inr (b, r, True) \<and>
    response_get_keepalive_timeout r = Inr (int n) \<and> response_get_keepalive_max r = Inr (int m)"
proof -
  let ?r1 = "add_header_field ''keepalive-timeout'' (show_nat n) this"
  let ?r2 = "add_header_field ''keepalive-max'' (show_nat m) ?r1"
  have digits: "option_ok ''timeout''" "option_ok ''max''" by code_simp+
  have val: "value_ok (show_nat k)" for k
  proof -
    have "c \<noteq> NUL \<and> c \<noteq> CHR '';'' \<and> c \<noteq> CHR '','' \<and> c \<noteq> CHR ''='' \<and> c \<noteq> CHR '':''" if "is_digit c" for c
    proof -
      have "\<not> is_digit NUL" "\<not> is_digit (CHR '';'')" "\<not> is_digit (CHR '','')" "\<not> is_digit (CHR ''='')"
        "\<not> is_digit (CHR '':'')" by code_simp+
      with that show ?thesis by auto
    qed
    with show_nat_digits [of k] digit_not_space show ?thesis
      by (auto simp: value_ok_def pair_bytes_def list_all_iff ISSEPARATOR_def intro!: hd_in_set)
  qed
  have t: "keepalive_pair ''timeout'' (show_nat n) (this, False) = Inr (?r1, True)"
  proof -
    have "ncase_eq ''timeout'' ''timeout'' 7" "\<not> ncase_eq ''timeout'' ''max'' 3" by code_simp+
    with n show ?thesis by (simp add: keepalive_pair_def keepalive_field_def atoi_show)
  qed
  have m: "keepalive_pair ''max'' (show_nat m) (?r1, True) = Inr (?r2, True)"
  proof -
    have "ncase_eq ''max'' ''max'' 3" "\<not> ncase_eq ''max'' ''timeout'' 7" by code_simp+
    with n show ?thesis by (simp add: keepalive_pair_def keepalive_field_def atoi_show)
  qed
  let ?b1 = "''Keep-Alive:'' @ NUL # ''timeout'' @ NUL # show_nat n @ [NUL]"
  let ?b2 = "?b1 @ NUL # ''max'' @ NUL # show_nat m @ [NUL]"
  have "pairs_loop keepalive_pair
      ([] @ ''Keep-Alive:'' @ SP # ''timeout'' @ CHR ''='' # show_nat n @ NUL # NUL # ''max='' @ show_nat m @ [NUL, NUL, NUL] @ rest)
      0 (this, False) =
    pairs_loop keepalive_pair (?b1 @ [] @ NUL # ''max'' @ CHR ''='' # show_nat m @ NUL # NUL # NUL # rest) (length ?b1) (?r1, True)"
    using pairs_loop_pair [OF _ _ digits(1) val, of "''Keep-Alive:''" SP NUL keepalive_pair "[]" n
      "NUL # ''max='' @ show_nat m @ [NUL, NUL, NUL] @ rest" "(this, False)"]
    by (simp add: t skip_bytes_def)
  also have "\<dots> = pairs_loop keepalive_pair (?b2 @ [] @ NUL # NUL # rest) (length ?b2) (?r2, True)"
    using pairs_loop_pair [OF _ _ digits(2) val, of "[]" NUL NUL keepalive_pair ?b1 m "NUL # NUL # rest" "(?r1, True)"]
    by (simp add: m skip_bytes_def)
  also have "\<dots> = Inr (?b2 @ [] @ NUL # NUL # rest, ?r2, True)"
    by (rule pairs_loop_end) (simp_all add: skip_bytes_def)
  finally have "response_set_keepalive
      (''Keep-Alive: timeout='' @ show_nat n @ [NUL, NUL] @ ''max='' @ show_nat m @ [NUL, NUL, NUL] @ rest) this =
    Inr (?b2 @ [] @ NUL # NUL # rest, ?r2, True)" by (simp add: response_set_keepalive_def)
  moreover have "field ?r2 ''keepalive-timeout'' = Some (show_nat n)" "field ?r2 ''keepalive-max'' = Some (show_nat m)"
    using fresh by (simp_all add: field_add ok)
  ultimately show ?thesis
    using n by (auto simp: response_get_keepalive_timeout_def response_get_keepalive_max_def int_value_def atoi_show)
qed

lemma keepalive_reads_stale_witness:
  "\<exists>b r. response_set_keepalive
      (''Keep-Alive: timeout='' @ show_nat 5 @ [NUL, NUL] @ ''max='' @ show_nat 7 @ [NUL, NUL, NUL] @ []) new_response =
    Inr (b, r, True) \<and> response_get_keepalive_max r = Inr 7"
  using keepalive_reads_stale [of new_response 5 7 "[]"] by auto

lemma take_eq_le: "take n xs = take n ys \<Longrightarrow> m \<le> n \<Longrightarrow> take m xs = take m ys"
  by (metis min.absorb1 take_take)

text \<open>
  A location line with anything behind its blank redirects there; one that ends before makes
  siege write in front of its block or copy a wrapped length.
\<close>

theorem location_read:
  assumes ok: "resp_ok this" and fresh: "field this ''location'' = None" "field this ''redirect'' = None"
    and line: "bstr b 0 = Inr line" "has_label line ''location''"
  shows "response_set_location b this =
      (if length line < 10 then Inl Undefined
       else Inr (add_header_field ''redirect'' ''true'' (add_header_field ''location'' (drop 10 line) this), True)) \<and>
    response_get_location (add_header_field ''redirect'' ''true'' (add_header_field ''location'' (drop 10 line) this)) =
      Some (drop 10 line)"
proof -
  let ?r = "add_header_field ''redirect'' ''true'' (add_header_field ''location'' (drop 10 line) this)"
  have nul: "no_nul line" using line(1) by (auto simp: bstr_def no_nul_def c_str_def split: if_splits dest: set_takeWhileD)
  then have "no_nul (drop 10 line)" using set_drop_subset [of 10 line] by (auto simp: no_nul_def)
  then have loc: "field ?r ''location'' = Some (drop 10 line)" using fresh by (simp add: field_add ok)
  have "c_str ''true'' = ''true''" by code_simp
  then have "field ?r ''redirect'' = Some ''true''" using fresh by (simp add: field_add ok)
  moreover have "strmatch ''true'' ''true''" by code_simp
  ultimately have red: "boolean_value ?r ''redirect'' False" by (simp add: boolean_value_def)
  have "\<not> has_label line ''content-location''"
  proof
    assume "has_label line ''content-location''"
    then have "take 8 (lower line) = take 8 (lower ''content-location'')"
      unfolding has_label_def ncase_eq_def by (rule take_eq_le) simp
    moreover have "take 8 (lower line) = take 8 (lower ''location'')"
      using line(2) unfolding has_label_def ncase_eq_def by (rule take_eq_le) simp
    moreover have "take 8 (lower ''location'') \<noteq> take 8 (lower ''content-location'')" by code_simp
    ultimately show False by simp
  qed
  with line red loc show ?thesis
    by (simp add: response_set_location_def tail_copy_def response_get_location_def)
qed

lemma location_read_witness:
  "response_set_location (''Location:'' @ [NUL]) new_response = Inl Undefined \<and>
   (\<exists>r. response_set_location (''Location: /a'' @ [NUL]) new_response = Inr (r, True) \<and> response_get_location r = Some ''/a'')"
proof -
  have b: "bstr (''Location:'' @ [NUL]) 0 = Inr ''Location:''" "bstr (''Location: /a'' @ [NUL]) 0 = Inr ''Location: /a''"
    by code_simp+
  have l: "has_label ''Location:'' ''location''" "has_label ''Location: /a'' ''location''" by code_simp+
  from location_read [OF _ _ _ b(1) l(1), of new_response] location_read [OF _ _ _ b(2) l(2), of new_response]
  show ?thesis by auto
qed

end
