(* ===== verification/Date.thy ===== *)
theory Date
  imports Cookie "HOL-Library.Code_Target_Nat"
begin

text \<open>
  Dates of siege (\<open>siege-4.1.7/src/date.c\<close>): the parser of HTTP dates taken from curl, and the date
  objects of the cache.  The clock, \<open>mktime\<close> and \<open>gmtime_r\<close> of the C library are parameters.  The
  functions that only format a date for the log (\<open>date_to_string\<close>, \<open>date_stamp\<close>) and \<open>date_adjust\<close>,
  which nothing calls, are left out.
\<close>

section \<open>Names\<close>

definition wday_names :: "string list" where
  "wday_names = [''Mon'', ''Tue'', ''Wed'', ''Thu'', ''Fri'', ''Sat'', ''Sun'']"

definition weekday_names :: "string list" where
  "weekday_names = [''Sunday'', ''Monday'', ''Tuesday'', ''Wednesday'', ''Thursday'', ''Friday'', ''Saturday'']"

definition month_names :: "string list" where
  "month_names = [''Jan'', ''Feb'', ''Mar'', ''Apr'', ''May'', ''Jun'', ''Jul'', ''Aug'', ''Sep'', ''Oct'', ''Nov'', ''Dec'']"

text \<open>The offsets in minutes; those of summer time are 60 less.\<close>

definition tz_table :: "(string \<times> int) list" where
  "tz_table =
     [(''GMT'', 0), (''UTC'', 0), (''WET'', 0), (''BST'', -60), (''WAT'', 60), (''AST'', 240), (''ADT'', 180),
      (''EST'', 300), (''EDT'', 240), (''CST'', 360), (''CDT'', 300), (''MST'', 420), (''MDT'', 360),
      (''PST'', 480), (''PDT'', 420), (''YST'', 540), (''YDT'', 480), (''HST'', 600), (''HDT'', 540),
      (''CAT'', 600), (''AHST'', 600), (''NT'', 660), (''IDLW'', 720), (''CET'', -60), (''MET'', -60),
      (''MEWT'', -60), (''MEST'', -120), (''CEST'', -120), (''MESZ'', -120), (''FWT'', -60), (''FST'', -120),
      (''EET'', -120), (''WAST'', -420), (''WADT'', -480), (''CCT'', -480), (''JST'', -540), (''EAST'', -600),
      (''EADT'', -660), (''GST'', -600), (''NZT'', -720), (''NZST'', -720), (''NZDT'', -780), (''IDLE'', -720)]"

fun name_index :: "string list \<Rightarrow> string \<Rightarrow> int \<Rightarrow> int" where
  "name_index [] check i = -1"
| "name_index (n # ns) check i = (if strmatch check n then i else name_index ns check (i + 1))"

definition checkday :: "string \<Rightarrow> nat \<Rightarrow> int" where
  "checkday check len = name_index (if len > 3 then weekday_names else wday_names) check 0"

definition checkmonth :: "string \<Rightarrow> int" where
  "checkmonth check = name_index month_names check 0"

fun checktz_in :: "(string \<times> int) list \<Rightarrow> string \<Rightarrow> int" where
  "checktz_in [] check = -1"
| "checktz_in ((name, offset) # what) check = (if strmatch check name then offset * 60 else checktz_in what check)"

definition checktz :: "string \<Rightarrow> int" where
  "checktz = checktz_in tz_table"

section \<open>Parsing\<close>

datatype assume_next = DATE_MDAY | DATE_YEAR

record parsed =
  p_sec :: int
  p_min :: int
  p_hour :: int
  p_mday :: int
  p_mon :: int
  p_year :: int
  p_wday :: int
  p_tzoff :: int
  p_dignext :: assume_next

definition parsed_init :: parsed where
  "parsed_init =
     \<lparr>p_sec = -1, p_min = -1, p_hour = -1, p_mday = -1, p_mon = -1, p_year = -1, p_wday = -1, p_tzoff = -1,
      p_dignext = DATE_MDAY\<rparr>"

text \<open>One \<open>%02d\<close> of \<open>sscanf\<close>: white space, then a sign and digits, two bytes at most.\<close>

definition scan2 :: "string \<Rightarrow> (int \<times> string) option" where
  "scan2 s =
     (let t = dropWhile is_space s; (neg, r) = read_sign t; w = 2 - (length t - length r);
          ds = take w (takeWhile is_digit r)
      in if ds = [] then None else Some (if neg then - int (dec_val ds) else int (dec_val ds), drop (length ds) r))"

definition scan_colon :: "string \<Rightarrow> string option" where
  "scan_colon s = (case s of c # r \<Rightarrow> if c = CHR '':'' then Some r else None | [] \<Rightarrow> None)"

text \<open>The three conversions of \<open>%02d:%02d:%02d\<close>; a partial match sets fields that are set again or cleared later.\<close>

definition scan_time :: "string \<Rightarrow> (int \<times> int \<times> int) option" where
  "scan_time s =
     (case scan2 s of None \<Rightarrow> None | Some (h, s) \<Rightarrow>
      case scan_colon s of None \<Rightarrow> None | Some s \<Rightarrow>
      case scan2 s of None \<Rightarrow> None | Some (m, s) \<Rightarrow>
      case scan_colon s of None \<Rightarrow> None | Some s \<Rightarrow>
      case scan2 s of None \<Rightarrow> None | Some (sec, s) \<Rightarrow> Some (h, m, sec))"

text \<open>A name: the fields, or \<open>None\<close> for a bad string.\<close>

definition name_part :: "string \<Rightarrow> parsed \<Rightarrow> parsed option" where
  "name_part buf p =
     (let w = (if p_wday p = -1 then checkday buf (length buf) else -1) in
      if w \<noteq> -1 then Some (p\<lparr>p_wday := w\<rparr>)
      else
        let mo = (if p_mon p = -1 then checkmonth buf else -1) in
        if mo \<noteq> -1 then Some (p\<lparr>p_mon := mo\<rparr>)
        else
          let tz = (if p_tzoff p = -1 then checktz buf else -1) in
          if tz \<noteq> -1 then Some (p\<lparr>p_tzoff := tz\<rparr>) else None)"

text \<open>A numeral of \<open>len\<close> digits; \<open>prev\<close> is the byte in front of it, if it is not the first of the string.\<close>

definition zone_part :: "int \<Rightarrow> nat \<Rightarrow> char option \<Rightarrow> parsed \<Rightarrow> parsed option" where
  "zone_part val len prev p =
     (if p_tzoff p = -1 \<and> len = 4 \<and> val < 1300 \<and> prev \<in> {Some (CHR ''+''), Some (CHR ''-'')} then
        let off = (val div 100 * 60 + val mod 100) * 60
        in Some (p\<lparr>p_tzoff := if prev = Some (CHR ''+'') then - off else off\<rparr>)
      else None)"

definition ymd_part :: "int \<Rightarrow> nat \<Rightarrow> parsed \<Rightarrow> parsed option" where
  "ymd_part val len p =
     (if len = 8 \<and> p_year p = -1 \<and> p_mon p = -1 \<and> p_mday p = -1 then
        Some (p\<lparr>p_year := val div 10000, p_mon := val mod 10000 div 100 - 1, p_mday := val mod 100\<rparr>)
      else None)"

definition year_part :: "int \<Rightarrow> parsed \<Rightarrow> parsed option" where
  "year_part val p =
     (if p_dignext p = DATE_YEAR \<and> p_year p = -1 then
        Some (p\<lparr>p_year := if val > 1970 then val - 1900 else val,
                p_dignext := if p_mday p = -1 then DATE_MDAY else p_dignext p\<rparr>)
      else None)"

text \<open>
  The two tests at the top are not exclusive in the code, but a numeral has one length only.
\<close>

definition digits_part :: "int \<Rightarrow> nat \<Rightarrow> char option \<Rightarrow> parsed \<Rightarrow> parsed option" where
  "digits_part val len prev p =
     (case zone_part val len prev p of
        Some p' \<Rightarrow> Some p'
      | None \<Rightarrow>
          (case ymd_part val len p of
             Some p' \<Rightarrow> Some p'
           | None \<Rightarrow>
               if p_dignext p = DATE_MDAY \<and> p_mday p = -1 then
                 (let p1 = p\<lparr>p_dignext := DATE_YEAR\<rparr> in
                  if 0 < val \<and> val < 32 then Some (p1\<lparr>p_mday := val\<rparr>) else year_part val p1)
               else year_part val p))"

text \<open>
  The loop: \<open>pos\<close> is where \<open>date\<close> points, \<open>n\<close> the parts that are left.  \<open>None\<close> is the return of
  \<open>-1\<close>.  A time is taken to have eight bytes: a shorter one at the end leaves the string.
\<close>

fun date_loop :: "nat \<Rightarrow> string \<Rightarrow> nat \<Rightarrow> parsed \<Rightarrow> parsed option res" where
  "date_loop 0 str pos p = (if length str < pos then Inl Undefined else Inr (Some p))"
| "date_loop (Suc n) str pos p =
     (if length str < pos then Inl Undefined
      else if pos = length str then Inr (Some p)
      else
        let pos = pos + length (takeWhile (\<lambda>c. \<not> is_alnum c) (drop pos str)); date = drop pos str in
        if date = [] then date_loop n str pos p
        else if is_alpha (hd date) then
          (let buf = take 31 (takeWhile is_alpha date) in
           case name_part buf p of
             None \<Rightarrow> Inr None
           | Some p' \<Rightarrow> date_loop n str (pos + length buf) p')
        else
          (case (if p_sec p = -1 then scan_time date else None) of
             Some (h, m, s) \<Rightarrow> date_loop n str (pos + 8) (p\<lparr>p_hour := h, p_min := m, p_sec := s\<rparr>)
           | None \<Rightarrow>
               (let ds = takeWhile is_digit date; val = int32 (long_sat (int (dec_val ds))) in
                case digits_part val (length ds) (if pos = 0 then None else Some (str ! (pos - 1))) p of
                  None \<Rightarrow> Inr None
                | Some p' \<Rightarrow> date_loop n str (pos + length ds) p')))"

record gm_time = tm + tm_wday :: int

record time_env =
  te_now :: int
  te_mktime :: "tm \<Rightarrow> int"
  te_gmtime :: "int \<Rightarrow> gm_time option"

definition gm_tm :: "gm_time \<Rightarrow> tm" where
  "gm_tm g = \<lparr>tm_year = tm_year g, tm_mon = tm_mon g, tm_mday = tm_mday g, tm_hour = tm_hour g, tm_min = tm_min g,
     tm_sec = tm_sec g\<rparr>"

definition parsed_tm :: "parsed \<Rightarrow> tm" where
  "parsed_tm p =
     (let timeless = (p_sec p = -1) in
      \<lparr>tm_year = p_year p, tm_mon = p_mon p, tm_mday = p_mday p, tm_hour = if timeless then 0 else p_hour p,
       tm_min = if timeless then 0 else p_min p, tm_sec = if timeless then 0 else p_sec p\<rparr>)"

text \<open>The time zone: the offset of the date, and that of the local time at this time.\<close>

definition zone_adjust :: "time_env \<Rightarrow> int \<Rightarrow> int \<Rightarrow> int" where
  "zone_adjust env tzoff t =
     (if int32 t = -1 then t
      else
        (case te_gmtime env t of
           None \<Rightarrow> -1
         | Some g \<Rightarrow>
             (let t2 = te_mktime env (gm_tm g); delta = (if tzoff \<noteq> -1 then tzoff else 0) + (t - t2)
              in if delta > 0 \<and> t + delta \<ge> 2 ^ 63 then -1 else t + delta)))"

definition date_strtotime :: "time_env \<Rightarrow> string option \<Rightarrow> int res" where
  "date_strtotime env str =
     (case str of
        None \<Rightarrow> Inr 0
      | Some s \<Rightarrow>
          if s = [] then Inr 0
          else
            rbind (date_loop 6 s 0 parsed_init) (\<lambda>r.
            Inr (case r of
              None \<Rightarrow> -1
            | Some p \<Rightarrow>
                if p_mday p = -1 \<or> p_mon p = -1 \<or> p_year p = -1 then -1
                else if p_year p > 2037 then 2147483647
                else zone_adjust env (p_tzoff p) (te_mktime env (parsed_tm p)))))"

section \<open>Date objects\<close>

definition MAX_DATE_LEN :: nat where
  "MAX_DATE_LEN = 64"

text \<open>\<open>d_block\<close> tells whether the object has the block \<open>date\<close> is formatted into.\<close>

record DATE =
  d_block :: bool
  d_etag :: "string option"
  d_tm :: "gm_time option"

definition new_date :: "time_env \<Rightarrow> string option \<Rightarrow> DATE res" where
  "new_date env date =
     rbind (case date of None \<Rightarrow> Inr (te_now env) | Some s \<Rightarrow> date_strtotime env (Some s)) (\<lambda>now.
     Inr \<lparr>d_block = True, d_etag = None, d_tm = te_gmtime env now\<rparr>)"

definition new_etag :: "string option \<Rightarrow> DATE" where
  "new_etag etag = \<lparr>d_block = False, d_etag = etag, d_tm = None\<rparr>"

definition date_get_etag :: "DATE \<Rightarrow> string" where
  "date_get_etag this = (case d_etag this of None \<Rightarrow> [] | Some s \<Rightarrow> s)"

definition pick :: "'a list \<Rightarrow> int \<Rightarrow> 'a res" where
  "pick xs i = (if 0 \<le> i \<and> i < int (length xs) then Inr (xs ! nat i) else Inl Undefined)"

definition date_get_rfc850 :: "DATE \<Rightarrow> string res" where
  "date_get_rfc850 this =
     (if \<not> d_block this then Inl Undefined
      else
        (case d_tm this of
           None \<Rightarrow> Inr []
         | Some t \<Rightarrow>
             if tm_year t = 0 then Inr []
             else
               rbind (pick wday_names (tm_wday t)) (\<lambda>wd.
               rbind (pick month_names (tm_mon t)) (\<lambda>mo.
               Inr (take (MAX_DATE_LEN - 1) (wd @ '', '' @ show_int (tm_mday t) @ '' '' @ mo @ '' '' @ show_int (tm_year t) @
                 '' '' @ show_int (tm_hour t) @ '':'' @ show_int (tm_min t) @ '':'' @ show_int (tm_sec t) @ '' GMT''))))))"

definition date_expired :: "time_env \<Rightarrow> DATE option \<Rightarrow> bool" where
  "date_expired env this =
     (case this of
        None \<Rightarrow> True
      | Some d \<Rightarrow>
          (case d_tm d of
             None \<Rightarrow> True
           | Some t \<Rightarrow>
               te_mktime env (gm_tm t) -
                 (case te_gmtime env (te_now env) of None \<Rightarrow> -1 | Some g \<Rightarrow> te_mktime env (gm_tm g)) < 0))"

section \<open>Parts of a date\<close>

definition d2 :: "nat \<Rightarrow> string" where
  "d2 n = [digit_char (n div 10), digit_char (n mod 10)]"

definition y4 :: "nat \<Rightarrow> string" where
  "y4 n = d2 (n div 100) @ d2 (n mod 100)"

lemma d2_simps [simp]: "n < 100 \<Longrightarrow> list_all is_digit (d2 n)" "n < 100 \<Longrightarrow> dec_val (d2 n) = n" "length (d2 n) = 2" "d2 n \<noteq> []"
  by (simp_all add: d2_def dec_val_def)

lemma y4_simps [simp]:
  assumes "n < 10000"
  shows "list_all is_digit (y4 n)" "dec_val (y4 n) = n"
proof -
  have "n div 100 < 100" "n mod 100 < 100" using assms by auto
  then show "list_all is_digit (y4 n)" by (simp add: y4_def)
  have "n div 100 div 10 < 10" "n div 100 mod 10 < 10" "n mod 100 div 10 < 10" "n mod 100 mod 10 < 10"
    using assms by auto
  then show "dec_val (y4 n) = n"
    by (simp add: y4_def d2_def dec_val_def)
qed

lemma y4_length [simp]: "length (y4 n) = 4" "y4 n \<noteq> []"
  by (simp_all add: y4_def)

lemma dec_val_append: "dec_val (a @ b) = dec_val a * 10 ^ length b + dec_val b"
  by (induction b rule: rev_induct) (simp_all add: append_assoc [symmetric] algebra_simps dec_val_def [of "[]"] del: append_assoc)

lemma digit_classes: "is_digit c \<Longrightarrow> is_alnum c" "is_digit c \<Longrightarrow> \<not> is_alpha c"
  by (auto simp: is_alnum_def is_alpha_def is_digit_def is_upperc_def is_lowerc_def)

lemma alpha_classes: "is_alpha c \<Longrightarrow> is_alnum c"
  by (simp add: is_alnum_def)

text \<open>The three kinds of step of the loop, on a string cut at the part that is read.\<close>

lemma skip_at:
  assumes "list_all (\<lambda>c. \<not> is_alnum c) sep" "w \<noteq> []" "is_alnum (hd w)"
  shows "length (takeWhile (\<lambda>c. \<not> is_alnum c) (sep @ w @ rest)) = length sep"
  using assms by (cases w) (auto simp: takeWhile_append list_all_iff)

lemma date_loop_name:
  assumes sep: "list_all (\<lambda>c. \<not> is_alnum c) sep" and w: "w \<noteq> []" "list_all is_alpha w" "length w < 32"
    and rest: "rest = [] \<or> \<not> is_alpha (hd rest)"
  shows "date_loop (Suc n) (pre @ sep @ w @ rest) (length pre) p =
    (case name_part w p of
       None \<Rightarrow> Inr None
     | Some p' \<Rightarrow> date_loop n ((pre @ sep @ w) @ rest) (length (pre @ sep @ w)) p')"
proof -
  have hd: "is_alpha (hd w)" using w by (cases w) auto
  have skip: "length (takeWhile (\<lambda>c. \<not> is_alnum c) (sep @ w @ rest)) = length sep"
    using skip_at [OF sep w(1) alpha_classes [OF hd]] .
  have "takeWhile is_alpha (w @ rest) = w" using w(2) rest by (cases rest) (auto simp: takeWhile_append list_all_iff)
  with w hd skip show ?thesis by (simp add: Let_def add.assoc split: option.split)
qed

lemma date_loop_time:
  assumes sep: "list_all (\<lambda>c. \<not> is_alnum c) sep" and w: "length w = 8" "is_digit (hd w)" "p_sec p = -1"
    and t: "scan_time (w @ rest) = Some (h, m, s)"
  shows "date_loop (Suc n) (pre @ sep @ w @ rest) (length pre) p =
    date_loop n ((pre @ sep @ w) @ rest) (length (pre @ sep @ w)) (p\<lparr>p_hour := h, p_min := m, p_sec := s\<rparr>)"
proof -
  have ne: "w \<noteq> []" using w(1) by auto
  have skip: "length (takeWhile (\<lambda>c. \<not> is_alnum c) (sep @ w @ rest)) = length sep"
    using skip_at [OF sep ne digit_classes(1) [OF w(2)]] .
  with w ne t digit_classes(2) [OF w(2)] show ?thesis by (simp add: Let_def add.assoc)
qed

lemma date_loop_digits:
  assumes sep: "list_all (\<lambda>c. \<not> is_alnum c) sep" and w: "w \<noteq> []" "list_all is_digit w" "dec_val w < 2 ^ 31"
    and rest: "rest = [] \<or> \<not> is_digit (hd rest)"
    and t: "p_sec p \<noteq> -1 \<or> scan_time (w @ rest) = None"
  shows "date_loop (Suc n) (pre @ sep @ w @ rest) (length pre) p =
    (case digits_part (int (dec_val w)) (length w) (if pre @ sep = [] then None else Some (last (pre @ sep))) p of
       None \<Rightarrow> Inr None
     | Some p' \<Rightarrow> date_loop n ((pre @ sep @ w) @ rest) (length (pre @ sep @ w)) p')"
proof -
  have hd: "is_digit (hd w)" using w by (cases w) auto
  have skip: "length (takeWhile (\<lambda>c. \<not> is_alnum c) (sep @ w @ rest)) = length sep"
    using skip_at [OF sep w(1) digit_classes(1) [OF hd]] .
  have tw: "takeWhile is_digit (w @ rest) = w" using w(2) rest by (cases rest) (auto simp: takeWhile_append list_all_iff)
  have val: "int32 (long_sat (int (dec_val w))) = int (dec_val w)"
    using w(3) by (simp add: int32_def long_sat_def)
  have prev: "(if length pre + length sep = 0 then None else Some ((pre @ sep @ w @ rest) ! (length pre + length sep - 1))) =
      (if pre @ sep = [] then None else Some (last (pre @ sep)))"
    using last_conv_nth [of "pre @ sep"] nth_append [of "pre @ sep" "w @ rest"] by auto
  show ?thesis
  proof (cases "p_sec p = -1")
    case True
    with t have "scan_time (w @ rest) = None" by simp
    with True w hd skip tw val digit_classes(2) [OF hd] show ?thesis
      unfolding prev [symmetric] by (simp add: Let_def add.assoc split: option.split)
  next
    case False
    with w hd skip tw val digit_classes(2) [OF hd] show ?thesis
      unfolding prev [symmetric] by (simp add: Let_def add.assoc split: option.split)
  qed
qed

lemma scan2_d2: "n < 100 \<Longrightarrow> scan2 (d2 n @ rest) = Some (int n, rest)"
proof -
  assume n: "n < 100"
  let ?a = "digit_char (n div 10)" and ?b = "digit_char (n mod 10)"
  have a: "is_digit ?a" and b: "is_digit ?b" using n by auto
  have "dropWhile is_space (d2 n @ rest) = d2 n @ rest" by (simp add: d2_def digit_not_space [OF a])
  moreover have "read_sign (d2 n @ rest) = (False, d2 n @ rest)" by (simp add: d2_def read_sign_digit [OF a])
  moreover have "take 2 (takeWhile is_digit (d2 n @ rest)) = d2 n" using a b by (simp add: d2_def)
  moreover have "takeWhile is_digit (d2 n @ rest) \<noteq> []" using a by (simp add: d2_def)
  ultimately show ?thesis using n by (simp add: scan2_def Let_def)
qed

definition hms_text :: "nat \<Rightarrow> nat \<Rightarrow> nat \<Rightarrow> string" where
  "hms_text h m s = d2 h @ '':'' @ d2 m @ '':'' @ d2 s"

lemma scan_time_hms:
  "h < 100 \<Longrightarrow> m < 100 \<Longrightarrow> s < 100 \<Longrightarrow> scan_time (hms_text h m s @ rest) = Some (int h, int m, int s)"
  by (simp add: scan_time_def hms_text_def scan2_d2 scan_colon_def)

lemma hms_text_simps [simp]: "length (hms_text h m s) = 8" "h < 100 \<Longrightarrow> is_digit (hd (hms_text h m s))"
  by (simp_all add: hms_text_def d2_def)

text \<open>A numeral that something other than a colon follows is no time.\<close>

lemma scan_time_none:
  assumes w: "list_all is_digit w" "w \<noteq> []" and rest: "rest = [] \<or> hd rest \<noteq> CHR '':''"
    and len: "2 \<le> length w"
  shows "scan_time (w @ rest) = None"
proof -
  obtain a b v where v: "w = a # b # v" using len by (cases w; cases "tl w") auto
  have a: "is_digit a" and b: "is_digit b" using w v by auto
  have "scan2 (w @ rest) = Some (int (dec_val [a, b]), v @ rest)"
    using a b by (simp add: scan2_def v digit_not_space [OF a] read_sign_digit [OF a] Let_def)
  moreover have "scan_colon (v @ rest) = None"
  proof (cases v)
    case (Cons c u)
    with w v have "is_digit c" by simp
    moreover have "\<not> is_digit (CHR '':'')" by code_simp
    ultimately show ?thesis using Cons by (auto simp: scan_colon_def)
  qed (use rest in \<open>auto simp: scan_colon_def split: list.split\<close>)
  ultimately show ?thesis by (simp add: scan_time_def)
qed

definition http_date :: "nat \<Rightarrow> nat \<Rightarrow> nat \<Rightarrow> nat \<Rightarrow> nat \<Rightarrow> nat \<Rightarrow> nat \<Rightarrow> string" where
  "http_date wd d mo y h m s =
     wday_names ! wd @ '', '' @ d2 d @ '' '' @ month_names ! mo @ '' '' @ y4 y @ '' '' @ hms_text h m s @ '' GMT''"

text \<open>The names that are tried.\<close>

lemma wday_parts: "list_all (\<lambda>i. let w = wday_names ! i in
    w \<noteq> [] \<and> list_all is_alpha w \<and> length w < 32 \<and> checkday w (length w) = int i) [0..<7]"
  by code_simp

lemma month_parts: "list_all (\<lambda>i. let w = month_names ! i in
    w \<noteq> [] \<and> list_all is_alpha w \<and> length w < 32 \<and> checkmonth w = int i) [0..<12]"
  by code_simp

declare date_loop.simps [simp del]

text \<open>The same steps with the string left whole.\<close>

lemma at_pos:
  assumes "drop pos str = sep @ w @ rest" "w \<noteq> []"
  shows "str = take pos str @ sep @ w @ rest" "length (take pos str) = pos"
    "drop (pos + length sep + length w) str = rest"
proof -
  show "str = take pos str @ sep @ w @ rest" using assms(1) by (metis append_take_drop_id)
  show "length (take pos str) = pos" using assms by (cases "pos \<le> length str") auto
  show "drop (pos + length sep + length w) str = rest"
    using arg_cong [OF assms(1), of "drop (length sep + length w)"] by (simp add: add.commute add.left_commute)
qed

lemma drop_next: "drop pos str = sep @ w @ rest \<Longrightarrow> w \<noteq> [] \<Longrightarrow> pos' = pos + length sep + length w \<Longrightarrow> drop pos' str = rest"
  by (simp add: at_pos(3))

lemma step_name:
  assumes "drop pos str = sep @ w @ rest" "list_all (\<lambda>c. \<not> is_alnum c) sep" "w \<noteq> []" "list_all is_alpha w"
    "length w < 32" "rest = [] \<or> \<not> is_alpha (hd rest)" "name_part w p = Some p'" "pos' = pos + length sep + length w" "k = Suc n"
  shows "date_loop k str pos p = date_loop n str pos' p'"
  using date_loop_name [OF assms(2-6), of n "take pos str" p] assms(7-9)
  by (simp add: at_pos(1) [OF assms(1,3), symmetric] at_pos(2) [OF assms(1,3), unfolded length_take] add.assoc)

lemma step_digits:
  assumes "drop pos str = sep @ w @ rest" "list_all (\<lambda>c. \<not> is_alnum c) sep" "w \<noteq> []" "list_all is_digit w"
    "dec_val w < 2 ^ 31" "rest = [] \<or> \<not> is_digit (hd rest)" "p_sec p \<noteq> -1 \<or> scan_time (w @ rest) = None"
    "sep \<noteq> []" "digits_part (int (dec_val w)) (length w) (Some (last sep)) p = Some p'"
    "pos' = pos + length sep + length w" "k = Suc n"
  shows "date_loop k str pos p = date_loop n str pos' p'"
  using date_loop_digits [OF assms(2-7), of n "take pos str"] assms(8-11)
  by (simp add: at_pos(1) [OF assms(1,3), symmetric] at_pos(2) [OF assms(1,3), unfolded length_take] add.assoc)

lemma step_time:
  assumes "drop pos str = sep @ w @ rest" "list_all (\<lambda>c. \<not> is_alnum c) sep" "length w = 8" "is_digit (hd w)"
    "p_sec p = -1" "scan_time (w @ rest) = Some (h, m, s)" "pos' = pos + length sep + length w" "k = Suc n"
  shows "date_loop k str pos p =
    date_loop n str pos' (p\<lparr>p_hour := h, p_min := m, p_sec := s\<rparr>)"
proof -
  have "w \<noteq> []" using assms(3) by auto
  note p = at_pos [OF assms(1) this]
  from date_loop_time [OF assms(2-6), of n "take pos str"] assms(3,7,8) show ?thesis
    by (simp add: p(1) [symmetric] p(2) [unfolded length_take] add.assoc)
qed

lemma gmt_parts: "checkday ''GMT'' 3 = -1" "checkmonth ''GMT'' = -1" "checktz ''GMT'' = 0" "list_all is_alpha ''GMT''"
  by code_simp+

lemma separators [simp]: "\<not> is_alnum (CHR '','')" "\<not> is_alnum SP" "list_all (\<lambda>c. \<not> is_alnum c) '', ''" "list_all (\<lambda>c. \<not> is_alnum c) '' ''"
  "\<not> is_alpha (CHR '','')" "\<not> is_alpha SP" "\<not> is_digit SP" "\<not> is_alpha (CHR '':'')"
  by code_simp+

lemma name_lists:
  assumes "wd < 7" "mo < 12"
  shows "wday_names ! wd \<noteq> []" "list_all is_alpha (wday_names ! wd)" "length (wday_names ! wd) < 32"
    "checkday (wday_names ! wd) (length (wday_names ! wd)) = int wd"
    "month_names ! mo \<noteq> []" "list_all is_alpha (month_names ! mo)" "length (month_names ! mo) < 32"
    "checkmonth (month_names ! mo) = int mo"
proof -
  have "wd \<in> set [0..<7]" "mo \<in> set [0..<12]" using assms by simp_all
  with wday_parts month_parts
  show "wday_names ! wd \<noteq> []" "list_all is_alpha (wday_names ! wd)" "length (wday_names ! wd) < 32"
    "checkday (wday_names ! wd) (length (wday_names ! wd)) = int wd"
    "month_names ! mo \<noteq> []" "list_all is_alpha (month_names ! mo)" "length (month_names ! mo) < 32"
    "checkmonth (month_names ! mo) = int mo"
    unfolding list_all_iff [of _ "[0..<7]"] list_all_iff [of _ "[0..<12]"] Let_def by blast+
qed

section \<open>Properties\<close>

text \<open>
  C28: A date as HTTP/1.1 writes it, of a year with four digits before 3900, is read back: the
  broken-down time has the fields that were written and the zone is GMT.  1900 is taken from a year
  after 1970 only: a date up to the end of 1970 is taken for one nineteen centuries later.
\<close>

theorem http_date_read:
  assumes "wd < 7" "1 \<le> d" "d \<le> 31" "mo < 12" "1000 \<le> y" "y < 3900" "h < 24" "m < 60" "s < 60"
  shows "date_strtotime env (Some (http_date wd d mo y h m s)) =
    Inr (zone_adjust env 0 (te_mktime env
      \<lparr>tm_year = (if 1970 < y then int y - 1900 else int y), tm_mon = int mo, tm_mday = int d, tm_hour = int h, tm_min = int m, tm_sec = int s\<rparr>))"
proof -
  note names = name_lists [OF assms(1,4)]
  let ?str = "http_date wd d mo y h m s" and ?wd = "wday_names ! wd" and ?mo = "month_names ! mo"
  let ?p1 = "parsed_init\<lparr>p_wday := int wd\<rparr>"
  let ?p2 = "?p1\<lparr>p_mday := int d, p_dignext := DATE_YEAR\<rparr>"
  let ?p3 = "?p2\<lparr>p_mon := int mo\<rparr>"
  let ?p4 = "?p3\<lparr>p_year := (if 1970 < y then int y - 1900 else int y)\<rparr>"
  let ?p5 = "?p4\<lparr>p_hour := int h, p_min := int m, p_sec := int s\<rparr>"
  let ?p6 = "?p5\<lparr>p_tzoff := 0\<rparr>"
  let ?r4 = "hms_text h m s @ '' GMT''"
  let ?l1 = "length ?wd" let ?l2 = "?l1 + 4" let ?l3 = "?l2 + (1 + length ?mo)" let ?l4 = "?l3 + 5" let ?l5 = "?l4 + 9"
  have s0: "drop 0 ?str = [] @ ?wd @ '', '' @ d2 d @ '' '' @ ?mo @ '' '' @ y4 y @ '' '' @ ?r4" by (simp add: http_date_def)
  have s1: "drop ?l1 ?str = '', '' @ d2 d @ '' '' @ ?mo @ '' '' @ y4 y @ '' '' @ ?r4"
    by (rule drop_next [OF s0]) (simp_all add: names)
  have s2: "drop ?l2 ?str = '' '' @ ?mo @ '' '' @ y4 y @ '' '' @ ?r4" by (rule drop_next [OF s1]) simp_all
  have s3: "drop ?l3 ?str = '' '' @ y4 y @ '' '' @ ?r4" by (rule drop_next [OF s2]) (simp_all add: names)
  have s4: "drop ?l4 ?str = '' '' @ hms_text h m s @ '' GMT''" by (rule drop_next [OF s3]) simp_all
  have "drop ?l5 ?str = '' GMT''" by (rule drop_next [OF s4]) (simp_all add: hms_text_def)
  then have s5: "drop ?l5 ?str = '' '' @ ''GMT'' @ []" by simp
  have "date_loop 6 ?str 0 parsed_init = date_loop 5 ?str ?l1 ?p1"
    by (rule step_name [OF s0]) (simp_all add: names name_part_def parsed_init_def Let_def)
  also have "date_loop 5 ?str ?l1 ?p1 = date_loop 4 ?str ?l2 ?p2"
  proof (rule step_digits [OF s1])
    show "digits_part (int (dec_val (d2 d))) (length (d2 d)) (Some (last '', '')) ?p1 = Some ?p2"
      using assms(2,3) by (simp add: digits_part_def zone_part_def ymd_part_def parsed_init_def Let_def)
    have "scan_time (d2 d @ '' '' @ ?mo @ '' '' @ y4 y @ '' '' @ ?r4) = None"
      using assms(3) by (intro scan_time_none) simp_all
    then show "p_sec ?p1 \<noteq> -1 \<or> scan_time (d2 d @ '' '' @ ?mo @ '' '' @ y4 y @ '' '' @ ?r4) = None" ..
  qed (use assms(3) in simp_all)
  also have "date_loop 4 ?str ?l2 ?p2 = date_loop 3 ?str ?l3 ?p3"
    by (rule step_name [OF s2]) (simp_all add: names name_part_def parsed_init_def Let_def)
  also have "date_loop 3 ?str ?l3 ?p3 = date_loop 2 ?str ?l4 ?p4"
  proof (rule step_digits [OF s3])
    show "digits_part (int (dec_val (y4 y))) (length (y4 y)) (Some (last '' '')) ?p3 = Some ?p4"
      using assms(2,5,6) by (simp add: digits_part_def zone_part_def ymd_part_def year_part_def parsed_init_def)
    have "scan_time (y4 y @ '' '' @ ?r4) = None"
      using assms(6) by (intro scan_time_none) simp_all
    then show "p_sec ?p3 \<noteq> -1 \<or> scan_time (y4 y @ '' '' @ ?r4) = None" ..
  qed (use assms(6) in simp_all)
  also have "date_loop 2 ?str ?l4 ?p4 = date_loop 1 ?str ?l5 ?p5"
    by (rule step_time [OF s4]) (use assms(7-9) in \<open>simp_all add: parsed_init_def scan_time_hms\<close>)
  also have "date_loop 1 ?str ?l5 ?p5 = date_loop 0 ?str (?l5 + 4) ?p6"
    by (rule step_name [OF s5]) (simp_all add: gmt_parts gmt_parts(4) [simplified] name_part_def parsed_init_def Let_def)
  also have "\<dots> = Inr (Some ?p6)"
    using arg_cong [OF s5, of length] by (simp add: date_loop.simps)
  finally have loop: "date_loop 6 ?str 0 parsed_init = Inr (Some ?p6)" .
  have "?str \<noteq> []" using s0 names by auto
  with loop assms show ?thesis
    by (simp add: date_strtotime_def parsed_tm_def parsed_init_def)
qed

lemma http_date_read_witness:
  "date_strtotime \<lparr>te_now = 0, te_mktime = tm_mday, te_gmtime = (\<lambda>t. None)\<rparr> (Some (http_date 1 20 2 2007 14 31 38)) = Inr (-1)"
  using http_date_read [of 1 20 2 2007 14 31 38 "\<lparr>te_now = 0, te_mktime = tm_mday, te_gmtime = (\<lambda>t. None)\<rparr>"]
  by (simp add: zone_adjust_def int32_def)

text \<open>
  A date of eight digits in a row keeps its whole year, which \<open>mktime\<close> counts from 1900: it is
  taken for one nineteen centuries later.
\<close>

theorem ymd_year_kept:
  assumes "1970 < y" "y < 2038" "1 \<le> mo" "mo \<le> 12" "1 \<le> d" "d \<le> 31"
  shows "date_strtotime env (Some (y4 y @ d2 mo @ d2 d)) =
    Inr (zone_adjust env (-1) (te_mktime env
      \<lparr>tm_year = int y, tm_mon = int mo - 1, tm_mday = int d, tm_hour = 0, tm_min = 0, tm_sec = 0\<rparr>))"
proof -
  let ?str = "y4 y @ d2 mo @ d2 d"
  let ?p = "parsed_init\<lparr>p_year := int y, p_mon := int mo - 1, p_mday := int d\<rparr>"
  have digits: "list_all is_digit ?str" using assms by simp
  have val: "dec_val ?str = 10000 * y + 100 * mo + d"
    using assms by (simp add: dec_val_append)
  have mod: "(10000 * y + 100 * mo + d) mod 10000 = 100 * mo + d"
    using assms mod_mult_self4 [of 10000 y "100 * mo + d"] by (simp add: add.assoc)
  have "100 * (100 * y + mo) + d = 10000 * y + 100 * mo + d" by simp
  with mod_mult_self4 [of 100 "100 * y + mo" d] assms have mod2: "(10000 * y + 100 * mo + d) mod 100 = d" by simp
  have dm: "dec_val ?str div 10000 = y" "dec_val ?str mod 10000 div 100 = mo" "dec_val ?str mod 100 = d"
    unfolding val mod mod2 using assms by (auto intro!: div_nat_eqI)
  have none: "scan_time (?str @ []) = None" using digits by (intro scan_time_none) simp_all
  have "digits_part (int (dec_val ?str)) 8 None parsed_init =
      Some (parsed_init\<lparr>p_year := int (dec_val ?str div 10000), p_mon := int (dec_val ?str mod 10000 div 100) - 1,
        p_mday := int (dec_val ?str mod 100)\<rparr>)"
    by (simp add: digits_part_def zone_part_def ymd_part_def parsed_init_def zdiv_int zmod_int)
  then have part: "digits_part (int (dec_val ?str)) 8 None parsed_init = Some ?p" by (simp only: dm)
  have len: "length ?str = 8" by simp
  have small: "dec_val ?str < 2 ^ 31" using val assms by simp
  have "date_loop (Suc 5) ?str 0 parsed_init = date_loop 5 ?str 8 ?p"
    using date_loop_digits [of "[]" ?str "[]" parsed_init 5 "[]"] digits small none part len by simp
  also have "\<dots> = Inr (Some ?p)" using date_loop.simps(2) [of 4 ?str 8 ?p] len by simp
  finally have "date_loop 6 ?str 0 parsed_init = Inr (Some ?p)" by (simp add: eval_nat_numeral)
  moreover have "?str \<noteq> []" by simp
  ultimately show ?thesis using assms by (simp add: date_strtotime_def parsed_tm_def parsed_init_def)
qed

end
