(* ===== verification/Cache.thy ===== *)
theory Cache
  imports Date Hash_table
begin

text \<open>
  The cache of siege (\<open>siege-4.1.7/src/cache.c\<close>): entity tags and dates per request, in the hash
  table of theory \<open>Hash_table\<close>.  A URL is what \<open>url_get_request\<close> gives for it, \<open>None\<close> for no URL or
  no request.  The table keeps copies of the date objects.
\<close>

datatype CTYPE = C_ETAG | C_LAST | C_EXPIRES

record CACHE =
  ca_cache :: "DATE hash_t"
  ca_header :: "string option"

definition new_cache :: CACHE where
  "new_cache = \<lparr>ca_cache = new_hash, ca_header = None\<rparr>"

primrec cache_prefix :: "CTYPE \<Rightarrow> string" where
  "cache_prefix C_ETAG = ''ET_''"
| "cache_prefix C_LAST = ''LM_''"
| "cache_prefix C_EXPIRES = ''EX_''"

definition build_key :: "CTYPE \<Rightarrow> string option \<Rightarrow> string option" where
  "build_key type req =
     (case req of None \<Rightarrow> None | Some r \<Rightarrow> if length r < 1 then None else Some (cache_prefix type @ r))"

definition cache_contains :: "bool \<Rightarrow> CACHE \<Rightarrow> CTYPE \<Rightarrow> string option \<Rightarrow> bool" where
  "cache_contains my_cache this type req =
     (if \<not> my_cache then False
      else (case build_key type req of None \<Rightarrow> False | Some key \<Rightarrow> hash_contains (ca_cache this) (Some key)))"

definition is_cached :: "time_env \<Rightarrow> CACHE \<Rightarrow> string option \<Rightarrow> CACHE \<times> bool" where
  "is_cached env this req =
     (case build_key C_EXPIRES req of
        None \<Rightarrow> (this, False)
      | Some key \<Rightarrow>
          if hash_contains (ca_cache this) (Some key) then
            (if \<not> date_expired env (hash_get (ca_cache this) key) then (this, True)
             else (this\<lparr>ca_cache := hash_remove key (ca_cache this)\<rparr>, False))
          else (this, False))"

definition cache_add :: "time_env \<Rightarrow> CTYPE \<Rightarrow> string option \<Rightarrow> string option \<Rightarrow> CACHE \<Rightarrow> CACHE res" where
  "cache_add env type req date this =
     (case build_key type req of
        None \<Rightarrow> Inr this
      | Some key \<Rightarrow>
          (let h = (if type \<noteq> C_EXPIRES \<and> hash_contains (ca_cache this) (Some key)
                    then hash_remove key (ca_cache this) else ca_cache this)
           in case type of
                C_ETAG \<Rightarrow> Inr (this\<lparr>ca_cache := hash_nadd key (new_etag date) h\<rparr>)
              | C_EXPIRES \<Rightarrow>
                  if hash_contains h (Some key) then Inr (this\<lparr>ca_cache := h\<rparr>)
                  else rbind (new_date env date) (\<lambda>d. Inr (this\<lparr>ca_cache := hash_nadd key d h\<rparr>))
              | C_LAST \<Rightarrow> rbind (new_date env date) (\<lambda>d. Inr (this\<lparr>ca_cache := hash_nadd key d h\<rparr>))))"

definition cache_get :: "CACHE \<Rightarrow> CTYPE \<Rightarrow> string option \<Rightarrow> DATE option" where
  "cache_get this type req = (case build_key type req of None \<Rightarrow> None | Some key \<Rightarrow> hash_get (ca_cache this) key)"

text \<open>The header line of a conditional request; \<open>snprintf\<close> cuts it to the 256 bytes of its block.\<close>

definition cache_line :: "string \<Rightarrow> string \<Rightarrow> string" where
  "cache_line label ptr = take 255 (label @ ptr @ [CR, LF])"

definition cache_get_header :: "bool \<Rightarrow> time_env \<Rightarrow> CACHE \<Rightarrow> CTYPE \<Rightarrow> string option \<Rightarrow> (CACHE \<times> string option) res" where
  "cache_get_header my_cache env this type req =
     (if \<not> cache_contains my_cache this type req then Inr (this, None)
      else if build_key C_EXPIRES req \<noteq> None \<and> date_expired env (cache_get this C_EXPIRES req) then Inr (this, None)
      else
        (case cache_get this type req of
           None \<Rightarrow> Inr (this, None)
         | Some d \<Rightarrow>
             rbind (if type = C_ETAG then Inr (date_get_etag d) else date_get_rfc850 d) (\<lambda>ptr.
             Inr (if empty (Some ptr) then (this, Some [])
                  else
                    (let line = cache_line (if type = C_ETAG then ''If-None-Match: '' else ''If-Modified-Since: '') ptr
                     in (this\<lparr>ca_header := Some line\<rparr>, Some line))))))"

section \<open>Lemmas\<close>

definition cache_ok :: "CACHE \<Rightarrow> bool" where
  "cache_ok this = hash_ok (ca_cache this)"

lemma new_cache_ok [simp]: "cache_ok new_cache" "cache_get new_cache type req = None"
  by (simp_all add: cache_ok_def new_cache_def cache_get_def new_hash_ok split: option.split)

lemma hash_contains_get: "hash_contains h (Some key) \<longleftrightarrow> hash_get h key \<noteq> None"
  by (simp add: hash_contains_def lookup_get)

lemma cache_contains_get: "cache_contains c this type req \<longleftrightarrow> c \<and> cache_get this type req \<noteq> None"
  by (simp add: cache_contains_def cache_get_def hash_contains_get split: option.split)

lemma hash_remove_ok:
  assumes ok: "hash_ok h"
  shows "hash_ok (hash_remove key h)" "hash_get (hash_remove key h) key = None"
    "genkey (hs_size h) k \<noteq> genkey (hs_size h) key \<Longrightarrow> hash_get (hash_remove key h) k = hash_get h k"
proof -
  note o = hash_okD [OF ok]
  let ?x = "genkey (hs_size h) key"
  have x: "?x < hs_size h" using o(1) by (rule genkey_less)
  have nth: "(hs_table h)[?x := []] ! i = (if i = ?x then [] else hs_table h ! i)" if "i < hs_size h" for i
    using that o(2) by simp
  have len: "length (concat ((hs_table h)[?x := []])) = hs_entries h - length (bucket h key)"
    using length_concat_update [of ?x "hs_table h" "[]"] x o(2,3) by (simp add: bucket_def)
  have "hash_ok (h\<lparr>hs_table := (hs_table h)[?x := []], hs_entries := hs_entries h - length (bucket h key)\<rparr>)"
    unfolding hash_ok_def
    using o(1,2) hash_ok_size [OF ok] len nth o(4,5) by (simp del: length_concat)
  with ok show "hash_ok (hash_remove key h)" by (simp add: hash_remove_def)
  show "hash_get (hash_remove key h) key = None"
    using x o(2) by (auto simp: hash_remove_def hash_get_def bucket_def lookup_def map_of_eq_None_iff list_ex_iff)
  show "hash_get (hash_remove key h) k = hash_get h k" if "genkey (hs_size h) k \<noteq> ?x"
    using that genkey_less [OF o(1), of k] o(2) by (simp add: hash_remove_def hash_get_def bucket_def)
qed

lemma cache_add_ok: "cache_ok this \<Longrightarrow> cache_add env type req date this = Inr this' \<Longrightarrow> cache_ok this'"
  by (auto simp: cache_add_def cache_ok_def Let_def rbind_Inr hash_nadd_ok(1) hash_remove_ok(1)
    split: option.splits CTYPE.splits if_splits)

lemma build_key_SomeD: "build_key type req = Some key \<Longrightarrow> \<exists>r. req = Some r \<and> r \<noteq> [] \<and> key = cache_prefix type @ r"
  by (auto simp: build_key_def split: option.splits if_splits)

section \<open>Properties\<close>

text \<open>
  A tag or a date of last modification that is added replaces the one the cache had for the
  request; an expiry date stays the first one.
\<close>

theorem cache_add_get:
  assumes ok: "cache_ok this" and req: "req = Some r" "r \<noteq> []" and add: "cache_add env type req date this = Inr this'"
  shows "case type of
      C_ETAG \<Rightarrow> cache_get this' type req = Some (new_etag date)
    | C_LAST \<Rightarrow> map_option Inr (cache_get this' type req) = Some (new_date env date)
    | C_EXPIRES \<Rightarrow> map_option Inr (cache_get this' type req) =
        Some (case cache_get this type req of None \<Rightarrow> new_date env date | Some d \<Rightarrow> Inr d)"
proof -
  have key: "build_key type req = Some (cache_prefix type @ r)" using req by (simp add: build_key_def)
  have h: "hash_ok (ca_cache this)" using ok by (simp add: cache_ok_def)
  let ?k = "cache_prefix type @ r"
  have nadd: "hash_get (hash_nadd ?k d (hash_remove ?k (ca_cache this))) ?k = Some d" for d
    by (simp add: hash_nadd_ok(2) hash_remove_ok h)
  have nadd2: "hash_get (ca_cache this) ?k = None \<Longrightarrow> hash_get (hash_nadd ?k d (ca_cache this)) ?k = Some d" for d
    by (simp add: hash_nadd_ok(2) h)
  show ?thesis
    using add nadd nadd2 key
    by (cases type) (auto simp: cache_add_def cache_get_def hash_contains_get rbind_Inr Let_def split: if_splits)
qed

definition still_env :: time_env where
  "still_env = \<lparr>te_now = 0, te_mktime = (\<lambda>t. 0), te_gmtime = (\<lambda>t. None)\<rparr>"

lemma cache_add_get_witness:
  "\<exists>c. cache_add still_env C_ETAG (Some ''/a'') (Some ''x1'') new_cache = Inr c \<and>
     cache_get c C_ETAG (Some ''/a'') = Some (new_etag (Some ''x1''))"
proof -
  obtain c where c: "cache_add still_env C_ETAG (Some ''/a'') (Some ''x1'') new_cache = Inr c"
    by (simp add: cache_add_def build_key_def Let_def)
  with cache_add_get [of new_cache "Some ''/a''" "''/a''" still_env C_ETAG "Some ''x1''" c] show ?thesis by simp
qed

text \<open>
  A tag is sent back in a conditional request only while an expiry date is cached for the
  request and has not passed; without one the cached tag is never used.
\<close>

theorem etag_needs_expiry:
  assumes tag: "cache_get this C_ETAG req = Some (new_etag (Some t))" "dropWhile is_space t \<noteq> []" "length t \<le> 238"
  shows "cache_get_header True env this C_ETAG req =
    (if date_expired env (cache_get this C_EXPIRES req) then Inr (this, None)
     else Inr (this\<lparr>ca_header := Some (''If-None-Match: '' @ t @ [CR, LF])\<rparr>, Some (''If-None-Match: '' @ t @ [CR, LF])))"
proof -
  have "build_key C_EXPIRES req \<noteq> None"
    using tag(1) by (auto simp: cache_get_def build_key_def split: option.splits if_splits)
  moreover have "cache_line ''If-None-Match: '' t = ''If-None-Match: '' @ t @ [CR, LF]"
    using tag(3) by (simp add: cache_line_def)
  moreover have "\<not> empty (Some t)" unfolding empty_def using tag(2) by simp
  ultimately show ?thesis
    using tag(1) by (simp add: cache_get_header_def cache_contains_get date_get_etag_def new_etag_def Let_def)
qed

lemma etag_needs_expiry_witness:
  "\<exists>c. cache_add still_env C_ETAG (Some ''/a'') (Some ''x1'') new_cache = Inr c \<and>
     cache_get_header True still_env c C_ETAG (Some ''/a'') = Inr (c, None)"
proof -
  let ?h = "hash_nadd ''ET_/a'' (new_etag (Some ''x1'')) new_hash"
  let ?c = "new_cache\<lparr>ca_cache := ?h\<rparr>"
  have none: "hash_get ?h ''EX_/a'' = None" by (simp add: hash_nadd_ok(2) new_hash_ok)
  have some: "hash_get ?h ''ET_/a'' = Some (new_etag (Some ''x1''))" by (simp add: hash_nadd_ok(2) new_hash_ok)
  have add: "cache_add still_env C_ETAG (Some ''/a'') (Some ''x1'') new_cache = Inr ?c"
    by (simp add: cache_add_def build_key_def Let_def new_cache_def hash_contains_get new_hash_ok)
  have "cache_get ?c C_ETAG (Some ''/a'') = Some (new_etag (Some ''x1''))" "cache_get ?c C_EXPIRES (Some ''/a'') = None"
    using none some by (simp_all add: cache_get_def build_key_def)
  moreover have "dropWhile is_space ''x1'' \<noteq> []" by code_simp
  ultimately show ?thesis
    using add etag_needs_expiry [of ?c "Some ''/a''" "''x1''" still_env] by (simp add: date_expired_def)
qed

end
