(* ===== verification/Socket.thy ===== *)
theory Socket
  imports Prelude
begin

text \<open>
  Reading from a clear-text connection (\<open>socket_read\<close> and \<open>socket_readline\<close> of
  \<open>siege-4.1.7/src/sock.c\<close>).  What the network does is a list of results for the calls to come: bytes
  that arrive together, of which \<open>read\<close> takes what its buffer holds, a time-out of the check before it,
  or an error; the end of the list is the end of the connection.
\<close>

section \<open>The connection\<close>

datatype arrival = Arrives string | Timed_out | Failed

text \<open>\<open>cn_inbuf\<close> are the \<open>inbuffer\<close> bytes of \<open>buffer\<close> from \<open>pos_ini\<close> on.\<close>

record wire =
  cn_inbuf :: string
  cn_net :: "arrival list"

definition BUFSZ :: nat where
  "BUFSZ = 4096"

definition socket_ready :: "wire \<Rightarrow> bool \<times> wire" where
  "socket_ready c = (case cn_net c of Timed_out # es \<Rightarrow> (False, c\<lparr>cn_net := es\<rparr>) | _ \<Rightarrow> (True, c))"

text \<open>\<open>read (sock, buf, k)\<close>: the bytes, none at the end; \<open>None\<close> is \<open>-1\<close>.\<close>

definition net_read :: "nat \<Rightarrow> wire \<Rightarrow> string option \<times> wire" where
  "net_read k c =
     (case cn_net c of
        [] \<Rightarrow> (Some [], c)
      | Arrives s # es \<Rightarrow>
          if k = 0 then (Some [], c)
          else (Some (take k s), c\<lparr>cn_net := (if length s \<le> k then es else Arrives (drop k s) # es)\<rparr>)
      | _ # es \<Rightarrow> (None, c\<lparr>cn_net := es\<rparr>))"

section \<open>Reading\<close>

text \<open>
  One round of the loop: \<open>Inl r\<close> leaves \<open>socket_read\<close> with \<open>r\<close>; else the bytes that can be copied and
  whether the end was seen.  The first check is made while less than the whole request is buffered.
\<close>

definition fill :: "nat \<Rightarrow> nat \<Rightarrow> wire \<Rightarrow> (int + bool) \<times> wire" where
  "fill len n c =
     (let (ready, c) = (if length (cn_inbuf c) < len then socket_ready c else (True, c)) in
      if \<not> ready then (Inl (-1), c)
      else if length (cn_inbuf c) < n then
        (let (ready, c) = socket_ready c in
         if \<not> ready then (Inl (-1), c)
         else
           (case net_read (BUFSZ - length (cn_inbuf c)) c of
              (None, c) \<Rightarrow> (Inl 0, c)
            | (Some got, c) \<Rightarrow> (Inr (got = []), c\<lparr>cn_inbuf := cn_inbuf c @ got\<rparr>)))
      else (Inr False, c))"

text \<open>The result and the bytes copied to the caller.\<close>

function read_loop :: "nat \<Rightarrow> nat \<Rightarrow> string \<Rightarrow> wire \<Rightarrow> int \<times> string \<times> wire" where
  "read_loop len n out c =
     (if n = 0 then (int len, out, c)
      else
        (case fill len n c of
           (Inl r, c) \<Rightarrow> (r, out, c)
         | (Inr eof, c) \<Rightarrow>
             (let r = min n (length (cn_inbuf c)) in
              if r = 0 then (int len - int n, out, c)
              else
                (let out' = out @ take r (cn_inbuf c); c' = c\<lparr>cn_inbuf := drop r (cn_inbuf c)\<rparr> in
                 if eof then (int len - int (n - r), out', c') else read_loop len (n - r) out' c'))))"
  by pat_completeness auto
termination
  by (relation "measure (\<lambda>(len, n, out, c). n)") auto

declare read_loop.simps [simp del]

definition socket_read :: "nat \<Rightarrow> wire \<Rightarrow> int \<times> string \<times> wire" where
  "socket_read len c = read_loop len len [] c"

text \<open>
  The loop of \<open>socket_readline\<close>: \<open>k\<close> rounds are left, \<open>n\<close> is their number from 1 on.  The result is
  \<open>n\<close> and the line.
\<close>

fun readline_loop :: "nat \<Rightarrow> int \<Rightarrow> string \<Rightarrow> wire \<Rightarrow> int \<times> string \<times> wire" where
  "readline_loop 0 n line c = (n, line, c)"
| "readline_loop (Suc k) n line c =
     (case socket_read 1 c of
        (res, got, c) \<Rightarrow>
          if res = 1 then
            (if got = [LF] then (n, line @ got, c) else readline_loop k (n + 1) (line @ got) c)
          else if res = 0 then (if n = 1 then (0, line, c) else (n, line, c))
          else (-1, line, c))"

definition socket_readline :: "nat \<Rightarrow> wire \<Rightarrow> int \<times> string \<times> wire" where
  "socket_readline maxlen c = readline_loop (maxlen - 1) 1 [] c"

section \<open>The stream\<close>

text \<open>A connection on which nothing goes wrong, and the bytes that come from it.\<close>

fun arrives :: "arrival \<Rightarrow> string" where
  "arrives (Arrives s) = s"
| "arrives _ = []"

definition wire_ok :: "wire \<Rightarrow> bool" where
  "wire_ok c = (length (cn_inbuf c) < BUFSZ \<and> list_all (\<lambda>e. arrives e \<noteq> []) (cn_net c))"

definition stream :: "wire \<Rightarrow> string" where
  "stream c = cn_inbuf c @ concat (map arrives (cn_net c))"

lemma ready_ok: "wire_ok c \<Longrightarrow> socket_ready c = (True, c)"
  by (cases "cn_net c"; cases "hd (cn_net c)") (auto simp: wire_ok_def socket_ready_def)

lemma net_read_ok:
  assumes "wire_ok c" "0 < k"
  shows "\<exists>got c'. net_read k c = (Some got, c') \<and> cn_inbuf c' = cn_inbuf c \<and>
    (got = [] \<longleftrightarrow> concat (map arrives (cn_net c)) = []) \<and> length got \<le> k \<and>
    got @ concat (map arrives (cn_net c')) = concat (map arrives (cn_net c)) \<and>
    list_all (\<lambda>e. arrives e \<noteq> []) (cn_net c')"
proof (cases "cn_net c")
  case Nil
  then show ?thesis by (simp add: net_read_def)
next
  case (Cons e es)
  with assms(1) obtain s where s: "e = Arrives s" "s \<noteq> []" by (cases e) (auto simp: wire_ok_def)
  with assms Cons show ?thesis by (auto simp: net_read_def wire_ok_def)
qed

lemma fill_ok:
  assumes ok: "wire_ok c" and n: "0 < n"
  obtains eof c' where "fill len n c = (Inr eof, c')" "stream c' = stream c" "length (cn_inbuf c') \<le> BUFSZ"
    "list_all (\<lambda>e. arrives e \<noteq> []) (cn_net c')" "eof \<Longrightarrow> stream c = cn_inbuf c'"
    "eof \<Longrightarrow> length (cn_inbuf c') < n" "\<not> eof \<Longrightarrow> cn_inbuf c' \<noteq> []"
proof (cases "length (cn_inbuf c) < n")
  case True
  have "0 < BUFSZ - length (cn_inbuf c)" using ok by (simp add: wire_ok_def)
  from net_read_ok [OF ok this] obtain got c1 where read: "net_read (BUFSZ - length (cn_inbuf c)) c = (Some got, c1)"
    and r: "cn_inbuf c1 = cn_inbuf c" "got = [] \<longleftrightarrow> concat (map arrives (cn_net c)) = []"
      "length got \<le> BUFSZ - length (cn_inbuf c)"
      "got @ concat (map arrives (cn_net c1)) = concat (map arrives (cn_net c))"
      "list_all (\<lambda>e. arrives e \<noteq> []) (cn_net c1)"
    by blast
  have "fill len n c = (Inr (got = []), c1\<lparr>cn_inbuf := cn_inbuf c @ got\<rparr>)"
    using True read r(1) by (simp add: fill_def ready_ok [OF ok])
  moreover have "length (cn_inbuf c) < BUFSZ" using ok by (simp add: wire_ok_def)
  ultimately show ?thesis
    using r True by (intro that [of "got = []" "c1\<lparr>cn_inbuf := cn_inbuf c @ got\<rparr>"]) (auto simp: stream_def)
next
  case False
  then have "cn_inbuf c \<noteq> []" using n by auto
  with False ok show ?thesis
    by (intro that [of False c]) (auto simp: fill_def ready_ok [OF ok] wire_ok_def)
qed

text \<open>\<open>socket_read\<close> takes the next bytes of the stream, however they arrive.\<close>

lemma read_loop_stream:
  assumes "wire_ok c"
  shows "\<exists>c'. read_loop len n out c = (int len - int (n - length (take n (stream c))), out @ take n (stream c), c') \<and>
    stream c' = drop n (stream c) \<and> wire_ok c'"
  using assms
proof (induction n arbitrary: out c rule: less_induct)
  case (less n)
  show ?case
  proof (cases "n = 0")
    case True
    with less.prems show ?thesis by (simp add: read_loop.simps)
  next
    case False
    then have "0 < n" by simp
    with less.prems obtain eof c1 where f: "fill len n c = (Inr eof, c1)" "stream c1 = stream c"
      "length (cn_inbuf c1) \<le> BUFSZ" "list_all (\<lambda>e. arrives e \<noteq> []) (cn_net c1)" "eof \<Longrightarrow> stream c = cn_inbuf c1"
      "eof \<Longrightarrow> length (cn_inbuf c1) < n" "\<not> eof \<Longrightarrow> cn_inbuf c1 \<noteq> []"
      by (blast elim: fill_ok)
    let ?r = "min n (length (cn_inbuf c1))" and ?c2 = "c1\<lparr>cn_inbuf := drop (min n (length (cn_inbuf c1))) (cn_inbuf c1)\<rparr>"
    show ?thesis
    proof (cases "cn_inbuf c1 = []")
      case True
      with f have "eof" "stream c = []" by auto
      moreover have "wire_ok c1" using f True by (simp add: wire_ok_def BUFSZ_def)
      ultimately show ?thesis using False f True by (subst read_loop.simps) simp
    next
      case ne: False
      have r: "0 < ?r" using ne False by auto
      have "length (cn_inbuf c1) - ?r < BUFSZ" using f(3) r by (simp only: BUFSZ_def)
      then have ok2: "wire_ok ?c2" using f(4) by (simp add: wire_ok_def)
      have "stream ?c2 = drop ?r (stream c1)" "take ?r (cn_inbuf c1) = take ?r (stream c1)"
        by (simp_all add: stream_def)
      then have str2: "stream ?c2 = drop ?r (stream c)" and tk: "take ?r (cn_inbuf c1) = take ?r (stream c)"
        unfolding f(2) .
      show ?thesis
      proof (cases eof)
        case True
        with f have "stream c = cn_inbuf c1" "length (cn_inbuf c1) < n" by auto
        then show ?thesis
          using False f(1) True ne ok2 str2 by (subst read_loop.simps) (simp add: Let_def)
      next
        case eof: False
        obtain c' where c': "read_loop len (n - ?r) (out @ take ?r (cn_inbuf c1)) ?c2 =
            (int len - int (n - ?r - length (take (n - ?r) (stream ?c2))),
             (out @ take ?r (cn_inbuf c1)) @ take (n - ?r) (stream ?c2), c')"
          "stream c' = drop (n - ?r) (stream ?c2)" "wire_ok c'"
          using less.IH [of "n - ?r" ?c2 "out @ take ?r (cn_inbuf c1)"] r False ok2 by auto
        have "read_loop len n out c = read_loop len (n - ?r) (out @ take ?r (cn_inbuf c1)) ?c2"
          using False f(1) eof r by (subst read_loop.simps) (auto simp: Let_def min_def)
        moreover have "take ?r (stream c) @ take (n - ?r) (drop ?r (stream c)) = take n (stream c)"
          by (metis le_add_diff_inverse min.cobounded1 take_add)
        moreover have "?r \<le> length (stream c)" unfolding f(2) [symmetric] by (simp add: stream_def)
        then have "n - ?r - length (take (n - ?r) (stream ?c2)) = n - length (take n (stream c))"
          unfolding str2 length_take length_drop by arith
        ultimately show ?thesis using c' by (simp add: str2 tk)
      qed
    qed
  qed
qed

lemma socket_read_stream:
  assumes "wire_ok c"
  obtains c' where "socket_read len c = (int (length (take len (stream c))), take len (stream c), c')"
    "stream c' = drop len (stream c)" "wire_ok c'"
proof -
  have "int len - int (len - length (take len (stream c))) = int (length (take len (stream c)))"
    by (auto simp: of_nat_diff min_def)
  with read_loop_stream [OF assms, of len len "[]"] that show ?thesis by (auto simp: socket_read_def)
qed

section \<open>Nothing is lost\<close>

lemma min_zero: "min n m = (0::nat) \<longleftrightarrow> n = 0 \<or> m = 0"
  by auto

text \<open>What is copied and what can still come are together what could come before, whatever goes wrong.\<close>

lemma ready_stream: "socket_ready c = (b, c') \<Longrightarrow> stream c' = stream c \<and> cn_inbuf c' = cn_inbuf c"
  by (auto simp: socket_ready_def stream_def split: list.splits arrival.splits)

lemma net_read_stream:
  "net_read k c = (r, c') \<Longrightarrow>
     cn_inbuf c' = cn_inbuf c \<and>
     (case r of None \<Rightarrow> [] | Some got \<Rightarrow> got) @ concat (map arrives (cn_net c')) = concat (map arrives (cn_net c))"
  by (auto simp: net_read_def split: list.splits arrival.splits if_splits)

lemma fill_stream: "fill len n c = (r, c') \<Longrightarrow> stream c' = stream c"
proof -
  assume f: "fill len n c = (r, c')"
  obtain b c1 where 1: "(if length (cn_inbuf c) < len then socket_ready c else (True, c)) = (b, c1)" by fastforce
  then have s1: "stream c1 = stream c" using ready_stream by (auto split: if_splits)
  obtain b' c2 where 2: "socket_ready c1 = (b', c2)" by fastforce
  then have s2: "stream c2 = stream c1" "cn_inbuf c2 = cn_inbuf c1" using ready_stream by auto
  obtain g c3 where 3: "net_read (BUFSZ - length (cn_inbuf c2)) c2 = (g, c3)" by fastforce
  note s3 = net_read_stream [OF 3]
  have "stream c3 = stream c2" if "g = None" using s3 that by (simp add: stream_def)
  moreover have "stream (c3\<lparr>cn_inbuf := cn_inbuf c3 @ got\<rparr>) = stream c2" if "g = Some got" for got
    using s3 that by (simp add: stream_def)
  ultimately show ?thesis
    using f 1 2 3 s1 s2 by (auto simp: fill_def split: if_splits option.splits)
qed

lemma read_loop_total:
  "read_loop len n out c = (r, out', c') \<Longrightarrow> length out' + length (stream c') = length out + length (stream c)"
proof (induction n arbitrary: out c rule: less_induct)
  case (less n)
  show ?case
  proof (cases "n = 0")
    case True
    with less.prems show ?thesis by (simp add: read_loop.simps)
  next
    case n: False
    obtain x c1 where f: "fill len n c = (x, c1)" by fastforce
    note s = fill_stream [OF f]
    show ?thesis
    proof (cases x)
      case (Inl a)
      with less.prems n f s show ?thesis by (simp add: read_loop.simps [of len n out c])
    next
      case (Inr eof)
      let ?r = "min n (length (cn_inbuf c1))"
      let ?c2 = "c1\<lparr>cn_inbuf := drop ?r (cn_inbuf c1)\<rparr>"
      have two: "length (take ?r (cn_inbuf c1)) + length (stream ?c2) = length (stream c)"
        unfolding s [symmetric] by (simp add: stream_def)
      show ?thesis
      proof (cases "?r = 0 \<or> eof")
        case True
        with less.prems n f Inr s two show ?thesis
          by (auto simp: read_loop.simps [of len n out c] Let_def split: if_splits)
      next
        case False
        with less.prems n f Inr have "read_loop len (n - ?r) (out @ take ?r (cn_inbuf c1)) ?c2 = (r, out', c')"
          by (simp add: read_loop.simps [of len n out c] Let_def min_zero)
        from less.IH [OF _ this] False n two show ?thesis by simp
      qed
    qed
  qed
qed

lemma socket_read_total: "socket_read len c = (r, got, c') \<Longrightarrow> length got + length (stream c') = length (stream c)"
  unfolding socket_read_def by (drule read_loop_total) simp

text \<open>A result of one byte is one byte.\<close>

lemma read_loop_count:
  "read_loop len n out c = (r, out', c') \<Longrightarrow> n \<le> len \<Longrightarrow> length out + n = len \<Longrightarrow> 0 < r \<Longrightarrow> int (length out') = r"
proof (induction n arbitrary: out c rule: less_induct)
  case (less n)
  show ?case
  proof (cases "n = 0")
    case True
    with less.prems show ?thesis by (auto simp: read_loop.simps)
  next
    case n: False
    obtain x c1 where f: "fill len n c = (x, c1)" by fastforce
    show ?thesis
    proof (cases x)
      case (Inl a)
      have "a \<le> 0" using f Inl by (auto simp: fill_def split: if_splits prod.splits option.splits)
      with Inl less.prems n f show ?thesis by (simp add: read_loop.simps [of len n out c])
    next
      case (Inr eof)
      let ?r = "min n (length (cn_inbuf c1))"
      let ?c2 = "c1\<lparr>cn_inbuf := drop ?r (cn_inbuf c1)\<rparr>"
      show ?thesis
      proof (cases "?r = 0 \<or> eof")
        case True
        with less.prems n f Inr show ?thesis
          by (auto simp: read_loop.simps [of len n out c] Let_def of_nat_diff split: if_splits)
      next
        case False
        with less.prems n f Inr have "read_loop len (n - ?r) (out @ take ?r (cn_inbuf c1)) ?c2 = (r, out', c')"
          by (simp add: read_loop.simps [of len n out c] Let_def min_zero)
        from less.IH [OF _ this] False n less.prems show ?thesis by simp
      qed
    qed
  qed
qed

lemma socket_read_count: "socket_read len c = (r, got, c') \<Longrightarrow> 0 < r \<Longrightarrow> int (length got) = r"
  unfolding socket_read_def by (drule read_loop_count) simp_all

end
