(* ===== verification/Http_response.thy ===== *)
theory Http_response
  imports Response Cache Cookies Socket Page_buffer
begin

text \<open>
  Reading a response from the connection (\<open>http_read_headers\<close>, \<open>http_chunk_size\<close> and \<open>http_read\<close> of
  \<open>siege-4.1.7/src/http.c\<close>).  \<open>http_read_headers\<close> reads every line into the same block and does not
  clear it; what the block holds at first is a parameter.  The body is read by loops that need not
  end: \<open>None\<close> is running for ever.  The library is configured without zlib, so a compressed body is
  handed on as it is.  An \<open>int\<close> read from the length line goes into a \<open>size_t\<close>.
\<close>

section \<open>The connection\<close>

record CONN =
  co_wire :: wire
  co_length :: nat
  co_timeout :: int
  co_max :: int
  co_cache :: CACHE
  co_page :: page

record http_env =
  he_time :: time_env
  he_clock :: clock
  he_jar :: jar_env
  he_my_cache :: bool
  he_chunked :: bool
  he_host :: string
  he_request :: "string option"

text \<open>The cookie jar is \<open>None\<close> where \<open>my.cookies\<close> is not set.\<close>

record http_state =
  hs_conn :: CONN
  hs_jar :: "NODE list option"
  hs_resp :: RESPONSE
  hs_block :: string

definition size_t_of :: "int \<Rightarrow> nat" where
  "size_t_of n = nat (n mod 2 ^ 64)"

section \<open>The header lines\<close>

text \<open>
  Reading one line: the block, the position and how it ended.  \<open>L_blank\<close> is the empty line, \<open>L_line\<close>
  a line, with whether the connection ended instead of a line feed coming.
\<close>

datatype line_end = L_blank | L_line bool

fun read_line :: "nat \<Rightarrow> string \<Rightarrow> nat \<Rightarrow> wire \<Rightarrow> string \<times> nat \<times> line_end \<times> wire" where
  "read_line 0 line x c = (line, x, L_line True, c)"
| "read_line (Suc k) line x c =
     (case socket_read 1 c of
        (n, got, c) \<Rightarrow>
          if n \<noteq> 1 then (line, x, L_line True, c)
          else
            (let ch = (if x < MAX_COOKIE_SIZE - 1 then hd got else LF); line = line[x := ch] in
             if x \<le> 1 \<and> ch = LF then (line, x, L_blank, c)
             else if ch = LF then (line, x, L_line False, c)
             else read_line k line (x + 1) c))"

text \<open>\<open>xmalloc (len)\<close> and \<open>memcpy (p, line + off, len - off + 1)\<close>: the string behind the label.\<close>

definition label_tail :: "string \<Rightarrow> nat \<Rightarrow> string res" where
  "label_tail line off = (if off \<le> length line then Inr (drop off line) else Inl Undefined)"

definition with_resp :: "(string \<Rightarrow> RESPONSE \<Rightarrow> (RESPONSE \<times> bool) res) \<Rightarrow> http_state \<Rightarrow> http_state res" where
  "with_resp f st = rbind (f (hs_block st) (hs_resp st)) (\<lambda>(r, _). Inr (st\<lparr>hs_resp := r\<rparr>))"

definition with_block :: "(string \<Rightarrow> RESPONSE \<Rightarrow> (string \<times> RESPONSE \<times> bool) res) \<Rightarrow> http_state \<Rightarrow> (http_state \<times> bool) res" where
  "with_block f st =
     rbind (f (hs_block st) (hs_resp st)) (\<lambda>(b, r, x). Inr (st\<lparr>hs_block := b, hs_resp := r\<rparr>, x))"

definition add_to_cache :: "http_env \<Rightarrow> CTYPE \<Rightarrow> nat \<Rightarrow> http_state \<Rightarrow> http_state res" where
  "add_to_cache env type off st =
     (if \<not> he_my_cache env then Inr st
      else
        rbind (bstr (hs_block st) 0) (\<lambda>line.
        rbind (label_tail line off) (\<lambda>t.
        rbind (cache_add (he_time env) type (he_request env) (Some t) (co_cache (hs_conn st))) (\<lambda>c.
        Inr (st\<lparr>hs_conn := (hs_conn st)\<lparr>co_cache := c\<rparr>\<rparr>)))))"

definition set_cookie_line :: "http_env \<Rightarrow> string \<Rightarrow> http_state \<Rightarrow> http_state res" where
  "set_cookie_line env line st =
     (case hs_jar st of
        None \<Rightarrow> Inr st
      | Some jar \<Rightarrow>
          rbind (bstr (hs_block st) 12) (\<lambda>t.
          rbind (cookies_add (he_jar env) (he_clock env) (Some (take (length line) t)) (he_host env) jar) (\<lambda>(_, jar).
          Inr (st\<lparr>hs_jar := Some jar\<rparr>))))"

definition keepalive_line :: "http_state \<Rightarrow> http_state res" where
  "keepalive_line st =
     rbind (with_block response_set_keepalive st) (\<lambda>(st, found).
     if \<not> found then Inr st
     else
       rbind (response_get_keepalive_timeout (hs_resp st)) (\<lambda>t.
       rbind (response_get_keepalive_max (hs_resp st)) (\<lambda>m.
       Inr (st\<lparr>hs_conn := (hs_conn st)\<lparr>co_timeout := t, co_max := m\<rparr>\<rparr>))))"

definition content_length_line :: "http_state \<Rightarrow> http_state res" where
  "content_length_line st =
     rbind (with_resp response_set_content_length st) (\<lambda>st.
     rbind (bstr (hs_block st) 16) (\<lambda>t.
     rbind (atoi t) (\<lambda>n. Inr (st\<lparr>hs_conn := (hs_conn st)\<lparr>co_length := size_t_of n\<rparr>\<rparr>))))"

text \<open>
  The tests are made one after the other on the block: a step that writes into it changes what the
  later tests see.
\<close>

definition on_label :: "string \<Rightarrow> (string \<Rightarrow> http_state \<Rightarrow> http_state res) \<Rightarrow> http_state \<Rightarrow> http_state res" where
  "on_label key f st =
     rbind (bstr (hs_block st) 0) (\<lambda>line. if has_label line key then f line st else Inr st)"

fun apply_all :: "('a \<Rightarrow> 'a res) list \<Rightarrow> 'a \<Rightarrow> 'a res" where
  "apply_all [] a = Inr a"
| "apply_all (f # fs) a = rbind (f a) (apply_all fs)"

definition header_line :: "http_env \<Rightarrow> http_state \<Rightarrow> http_state res" where
  "header_line env = apply_all
     [on_label ''http'' (\<lambda>_. with_resp response_set_code),
      on_label ''content-type'' (\<lambda>_ st. rbind (with_block response_set_content_type st) (\<lambda>(st, _). Inr st)),
      on_label ''content-encoding'' (\<lambda>_. with_resp response_set_content_encoding),
      on_label ''content-length'' (\<lambda>_. content_length_line),
      on_label ''set-cookie'' (set_cookie_line env),
      on_label ''connection'' (\<lambda>_. with_resp response_set_connection),
      on_label ''keep-alive: '' (\<lambda>_. keepalive_line),
      on_label ''location'' (\<lambda>_. with_resp response_set_location),
      on_label ''content-location'' (\<lambda>_. with_resp response_set_location),
      on_label ''last-modified'' (\<lambda>_ st. rbind (with_resp response_set_last_modified st) (add_to_cache env C_LAST 15)),
      on_label ''etag'' (\<lambda>_ st. rbind (with_resp response_set_etag st) (add_to_cache env C_ETAG 6)),
      on_label ''www-authenticate'' (\<lambda>_ st. rbind (with_block response_set_www_authenticate st) (\<lambda>(st, _). Inr st)),
      on_label ''proxy-authenticate'' (\<lambda>_ st. rbind (with_block response_set_proxy_authenticate st) (\<lambda>(st, _). Inr st)),
      on_label ''transfer-encoding'' (\<lambda>_ st. rbind (with_block response_set_transfer_encoding st) (\<lambda>(st, _). Inr st)),
      on_label ''expires'' (\<lambda>_. add_to_cache env C_EXPIRES 9)]"

section \<open>The head\<close>

text \<open>A line that ends by a line feed takes at least one byte from the connection.\<close>

lemma read_line_total:
  "read_line k line x c = (line', x', e, c') \<Longrightarrow>
     length (stream c') \<le> length (stream c) \<and> (e = L_line False \<longrightarrow> length (stream c') < length (stream c))"
proof (induction k arbitrary: line x c)
  case (Suc k)
  obtain n got c1 where r: "socket_read 1 c = (n, got, c1)" by (metis prod_cases3)
  note t = socket_read_total [OF r]
  show ?case
  proof (cases "n = 1")
    case True
    with socket_read_count [OF r] have "length got = 1" by simp
    with Suc.prems Suc.IH [of _ _ c1] r t True show ?thesis
      by (auto simp: Let_def split: if_splits) (fastforce, fastforce)
  qed (use Suc.prems r t in auto)
qed auto

text \<open>
  The NULs behind the line, and in place of a carriage return.  The loop ends with \<open>None\<close> for the
  response when the connection does.
\<close>

definition finish_line :: "string \<Rightarrow> nat \<Rightarrow> string" where
  "finish_line line x =
     (let line = line[x := NUL] in if 0 < x \<and> line ! (x - 1) = CR then line[x - 1 := NUL] else line)"

function headers_loop :: "http_env \<Rightarrow> http_state \<Rightarrow> (RESPONSE option \<times> http_state) res" where
  "headers_loop env st =
     (case read_line MAX_COOKIE_SIZE (hs_block st) 0 (co_wire (hs_conn st)) of
        (line, x, e, c) \<Rightarrow>
          (let st = st\<lparr>hs_conn := (hs_conn st)\<lparr>co_wire := c\<rparr>\<rparr> in
           case e of
             L_blank \<Rightarrow> Inr (Some (hs_resp st), st\<lparr>hs_block := line\<rparr>)
           | L_line ended \<Rightarrow>
               (case header_line env (st\<lparr>hs_block := finish_line line x\<rparr>) of
                  Inl err \<Rightarrow> Inl err
                | Inr st' \<Rightarrow>
                    if ended then Inr (None, st')
                    else headers_loop env (st'\<lparr>hs_conn := (hs_conn st')\<lparr>co_wire := c\<rparr>\<rparr>))))"
  by pat_completeness auto
termination
proof (relation "measure (\<lambda>(env, st). length (stream (co_wire (hs_conn st))))", simp, clarify)
  fix env :: http_env and st line x e c ended st'
  assume r: "(line, x, L_line ended, c) = read_line MAX_COOKIE_SIZE (hs_block st) 0 (co_wire (hs_conn st))"
    and more: "\<not> ended"
  with read_line_total [OF r [symmetric]]
  show "((env, st'\<lparr>hs_conn := (hs_conn st')\<lparr>co_wire := c\<rparr>\<rparr>), env, st) \<in> measure (\<lambda>(env, st). length (stream (co_wire (hs_conn st))))"
    by simp
qed

declare headers_loop.simps [simp del]

definition http_read_headers :: "http_env \<Rightarrow> string \<Rightarrow> CONN \<Rightarrow> NODE list option \<Rightarrow> (RESPONSE option \<times> http_state) res" where
  "http_read_headers env stack C jar =
     headers_loop env \<lparr>hs_conn = C, hs_jar = jar, hs_resp = new_response, hs_block = stack\<rparr>"

section \<open>The body\<close>

definition hex_val :: "string \<Rightarrow> nat" where
  "hex_val s = foldl (\<lambda>n c. 16 * n + XDIGIT_TO_NUM c) 0 s"

text \<open>
  \<open>strtoul (s, \&end, 16)\<close> on a string that starts with a hexadecimal digit: the value, \<open>None\<close> on
  overflow.
\<close>

definition strtoul16 :: "string \<Rightarrow> nat option" where
  "strtoul16 s =
     (let prefixed = (ncase_eq s ''0x'' 2 \<and> length s > 2 \<and> ISXDIGIT (s ! 2));
          n = hex_val (takeWhile ISXDIGIT (if prefixed then drop 2 s else s))
      in if n < 2 ^ 64 then Some n else None)"

text \<open>The block \<open>chkbuf\<close> has 1024 bytes and is cleared first.\<close>

definition http_chunk_size :: "wire \<Rightarrow> int \<times> wire" where
  "http_chunk_size c =
     (case socket_readline 1024 c of
        (n, line, c) \<Rightarrow>
          if n < 1 then (-1, c)
          else
            (let buf = c_str line in
             if buf = [] \<or> hd buf = LF \<or> hd buf = CR then (-1, c)
             else if \<not> ISXDIGIT (hd buf) then (-1, c)
             else (case strtoul16 buf of None \<Rightarrow> (0, c) | Some len \<Rightarrow> (int32 (int len), c))))"

definition MAXFILE :: nat where
  "MAXFILE = 65536"

text \<open>
  Filling the block with one chunk: the bytes so far, the size of the block, and whether a read
  failed.  A failing read takes the byte count down by one before the loop is left.
\<close>

function chunk_fill :: "int \<Rightarrow> int \<Rightarrow> string \<Rightarrow> nat \<Rightarrow> wire \<Rightarrow> string \<times> nat \<times> int \<times> wire" where
  "chunk_fill chunk n buf cap c =
     (if n < chunk then
        (case socket_read (nat (min (chunk - n) (int cap - int (length buf)))) c of
           (r, got, c) \<Rightarrow>
             if r \<le> 0 then (buf, cap, r, c)
             else
               (let buf' = buf @ got in
                chunk_fill chunk (n + r) buf' (if cap \<le> length buf' then cap * 2 else cap) c))
      else (buf, cap, 1, c))"
  by pat_completeness auto
termination
  by (relation "measure (\<lambda>(chunk, n, buf, cap, c). nat (chunk - n))") auto

declare chunk_fill.simps [simp del]

text \<open>The chunks: \<open>None\<close> when the loop never ends; the result is the block and the number of bytes.\<close>

partial_function (option) chunks_loop :: "string \<Rightarrow> nat \<Rightarrow> wire \<Rightarrow> ((string \<times> int) res \<times> wire) option" where
  "chunks_loop buf cap c =
     (case http_chunk_size c of
        (chunk, c) \<Rightarrow>
          if chunk = 0 then (case socket_readline 1024 c of (_, _, c) \<Rightarrow> Some (Inr (buf, int (length buf)), c))
          else if chunk < 0 then chunks_loop buf cap c
          else
            (case chunk_fill chunk 0 buf cap c of
               (buf', cap', r, c) \<Rightarrow>
                 if r \<le> 0 then
                   (if r < 0 \<and> buf' = [] then Some (Inl Undefined, c)
                    else Some (Inr (if r < 0 then butlast buf' else buf', int (length buf') + r), c))
                 else chunks_loop buf' cap' c))"

text \<open>A body of known length: every round reads to the front of the block.\<close>

partial_function (option) length_loop :: "nat \<Rightarrow> string \<Rightarrow> int \<Rightarrow> wire \<Rightarrow> (string \<times> int \<times> wire) option" where
  "length_loop len ptr bytes c =
     (case socket_read len c of
        (n, got, c) \<Rightarrow>
          (let ptr' = got @ drop (length got) ptr in
           if n = 0 then Some (ptr', bytes, c)
           else if (bytes + n) mod 2 ^ 64 < int len then length_loop len ptr' (bytes + n) c
           else Some (ptr', bytes + n, c)))"

text \<open>A body that ends with the connection.\<close>

partial_function (option) close_loop :: "string \<Rightarrow> int \<Rightarrow> wire \<Rightarrow> (string \<times> int \<times> wire) option" where
  "close_loop ptr bytes c =
     (case socket_read MAXFILE c of
        (n, got, c) \<Rightarrow>
          (let ptr' = got @ drop (length got) ptr in
           if n \<le> 0 then Some (ptr', bytes + n, c) else close_loop ptr' (bytes + n) c))"

text \<open>
  What follows the loops: without zlib \<open>__gzip_inflate\<close> only copies its source, so the page gets the
  string in the block.
\<close>

definition finish_read :: "RESPONSE \<Rightarrow> string \<Rightarrow> int \<Rightarrow> CONN \<Rightarrow> (int \<times> CONN) res" where
  "finish_read resp ptr bytes C =
     rbind (response_get_content_encoding resp) (\<lambda>_.
     rbind (bstr ptr 0) (\<lambda>s.
     rbind (page_concat s (int (length s)) (co_page C)) (\<lambda>p. Inr (bytes, C\<lparr>co_page := p\<rparr>))))"

definition http_read :: "bool \<Rightarrow> RESPONSE \<Rightarrow> CONN \<Rightarrow> (int \<times> CONN) res option" where
  "http_read my_chunked resp C =
     (if co_length C = 0 then Some (Inr (0, C))
      else
        let C = (if co_length C = 2 ^ 64 - 1 then C\<lparr>co_length := 0\<rparr> else C) in
        if 0 < co_length C then
          (case length_loop (co_length C) (replicate (co_length C + 1) NUL) 0 (co_wire C) of
             None \<Rightarrow> None
           | Some (ptr, bytes, c) \<Rightarrow> Some (finish_read resp ptr bytes (C\<lparr>co_wire := c\<rparr>)))
        else
          (case response_get_transfer_encoding resp of
             Inl e \<Rightarrow> Some (Inl e)
           | Inr te \<Rightarrow>
               if my_chunked \<and> te = te_num CHUNKED then
                 (case chunks_loop [] MAXFILE (co_wire C) of
                    None \<Rightarrow> None
                  | Some (Inl e, c) \<Rightarrow> Some (Inl e)
                  | Some (Inr (buf, bytes), c) \<Rightarrow> Some (finish_read resp (buf @ [NUL]) bytes (C\<lparr>co_wire := c\<rparr>)))
               else
                 (case close_loop (replicate MAXFILE NUL) 0 (co_wire C) of
                    None \<Rightarrow> None
                  | Some (ptr, bytes, c) \<Rightarrow> Some (finish_read resp ptr bytes (C\<lparr>co_wire := c\<rparr>)))))"

end
