(* ===== verification/Http_properties.thy ===== *)
theory Http_properties
  imports Http_response Response_properties
begin

text \<open>
  What reading a response gives: the body is independent of how the bytes arrive, and where the
  loops go wrong.  Properties of theories \<open>Socket\<close> and \<open>Http_response\<close>.
\<close>

section \<open>The connection as a stream\<close>

text \<open>
  C29: On a connection without failures \<open>socket_read\<close> returns the next bytes of the stream, however
  they are cut into arrivals, and leaves the rest; it returns less only at the end.
\<close>

theorem socket_read_any_arrival:
  assumes "wire_ok c"
  shows "\<exists>c'. socket_read len c = (int (length (take len (stream c))), take len (stream c), c') \<and>
    stream c' = drop len (stream c) \<and> wire_ok c'"
  using socket_read_stream [OF assms] by metis

lemma socket_read_any_arrival_witness:
  "\<exists>c'. socket_read 3 \<lparr>cn_inbuf = ''a'', cn_net = [Arrives ''b'', Arrives ''cd'']\<rparr> = (3, ''abc'', c') \<and> stream c' = ''d''"
proof -
  have "wire_ok \<lparr>cn_inbuf = ''a'', cn_net = [Arrives ''b'', Arrives ''cd'']\<rparr>" by (simp add: wire_ok_def BUFSZ_def)
  from socket_read_any_arrival [OF this, of 3] show ?thesis by (auto simp: stream_def)
qed

text \<open>A line is read up to its line feed.\<close>

lemma readline_loop_line:
  "wire_ok c \<Longrightarrow> stream c = l @ LF # rest \<Longrightarrow> LF \<notin> set l \<Longrightarrow> length l < k \<Longrightarrow>
     \<exists>c'. readline_loop k n line c = (n + int (length l), line @ l @ [LF], c') \<and> stream c' = rest \<and> wire_ok c'"
proof (induction l arbitrary: c k n line)
  case Nil
  then obtain k' where k: "k = Suc k'" by (cases k) auto
  obtain c' where "socket_read 1 c = (int (length (take 1 (stream c))), take 1 (stream c), c')"
    "stream c' = drop 1 (stream c)" "wire_ok c'" using Nil by (blast elim: socket_read_stream)
  with Nil k show ?case by simp
next
  case (Cons x l)
  then obtain k' where k: "k = Suc k'" by (cases k) auto
  obtain c1 where c1: "socket_read 1 c = (int (length (take 1 (stream c))), take 1 (stream c), c1)"
    "stream c1 = drop 1 (stream c)" "wire_ok c1" using Cons.prems(1) by (blast elim: socket_read_stream)
  with Cons.IH [of c1 k' "n + 1" "line @ [x]"] Cons.prems k show ?case by (auto simp: algebra_simps)
qed

lemma socket_readline_line:
  assumes "wire_ok c" "stream c = l @ LF # rest" "LF \<notin> set l" "length l < maxlen - 1"
  obtains c' where "socket_readline maxlen c = (int (length l) + 1, l @ [LF], c')" "stream c' = rest" "wire_ok c'"
  using readline_loop_line [OF assms, of 1 "[]"] by (auto simp: socket_readline_def)

text \<open>At the end of the connection there is no line.\<close>

lemma socket_readline_end:
  assumes "wire_ok c" "stream c = []" "1 < maxlen"
  obtains c' where "socket_readline maxlen c = (0, [], c')" "stream c' = []" "wire_ok c'"
proof -
  obtain k where k: "maxlen - 1 = Suc k" using assms(3) by (cases "maxlen - 1") auto
  obtain c1 where c1: "socket_read 1 c = (int (length (take 1 (stream c))), take 1 (stream c), c1)"
    "stream c1 = drop 1 (stream c)" "wire_ok c1" using assms(1) by (blast elim: socket_read_stream)
  then have "readline_loop (Suc k) 1 [] c = (0, [], c1)" using assms(2) by simp
  with that [of c1] c1 assms(2) show ?thesis unfolding socket_readline_def k by simp
qed

section \<open>A body of known length\<close>

lemma length_loop_body:
  assumes "wire_ok c" "stream c = body @ rest" "length body = len" "0 < len" "len < 2 ^ 64" "length ptr = len + 1"
  shows "\<exists>c'. length_loop len ptr 0 c = Some (body @ drop len ptr, int len, c') \<and> stream c' = rest \<and> wire_ok c'"
proof -
  obtain c1 where "socket_read len c = (int (length (take len (stream c))), take len (stream c), c1)"
    "stream c1 = drop len (stream c)" "wire_ok c1" using assms(1) by (blast elim: socket_read_stream)
  with assms show ?thesis by (subst length_loop.simps) auto
qed

text \<open>The page takes the string, unless that ends with the block or one byte before.\<close>

definition page_fits :: "string \<Rightarrow> page \<Rightarrow> bool" where
  "page_fits s p = (pg_size p \<noteq> pg_len p + length s \<and> pg_size p \<noteq> pg_len p + length s + 1)"

lemma finish_read_page:
  assumes enc: "response_get_content_encoding resp = Inr e" and page: "page_ok t (co_page C)"
    and body: "no_nul body" "body \<noteq> []" and fits: "page_fits body (co_page C)"
  shows "\<exists>p. finish_read resp (body @ NUL # zs) n C = Inr (n, C\<lparr>co_page := p\<rparr>) \<and> page_ok (t @ body) p"
proof -
  have "bstr (body @ NUL # zs) 0 = Inr body" using bstr_at [OF body(1), of "[]" zs] by simp
  moreover have "page_concat body (int (length body)) (co_page C) \<noteq> Inl Undefined"
    using fits by (simp add: page_concat_cases(1) [OF page body] page_fits_def)
  then obtain p where "page_concat body (int (length body)) (co_page C) = Inr p"
    by (cases "page_concat body (int (length body)) (co_page C)")
      (auto simp: page_concat_def store_def Let_def split: if_splits elim!: rbind.elims)
  ultimately show ?thesis
    using page_concat_cases(2) [OF page body] by (auto simp: finish_read_def enc)
qed

text \<open>
  A body of known length is read whole, however it arrives, and its bytes end up on the page;
  what follows it stays in the connection for the next response.
\<close>

theorem http_read_length:
  assumes "wire_ok (co_wire C)" "stream (co_wire C) = body @ rest" "co_length C = length body"
    and "body \<noteq> []" "no_nul body" "length body < 2 ^ 64 - 1"
    and "response_get_content_encoding resp = Inr e" "page_ok t (co_page C)" "page_fits body (co_page C)"
  shows "\<exists>C'. http_read my_chunked resp C = Some (Inr (int (length body), C')) \<and>
    page_value (co_page C') = t @ body \<and> stream (co_wire C') = rest"
proof -
  obtain c where c: "length_loop (length body) (replicate (length body + 1) NUL) 0 (co_wire C) =
      Some (body @ drop (length body) (replicate (length body + 1) NUL), int (length body), c)" "stream c = rest"
    using length_loop_body [OF assms(1,2) refl, of "replicate (length body + 1) NUL"] assms(4,6) by auto
  have d: "drop (length body) (replicate (length body + 1) NUL) = NUL # []"
    by (simp only: drop_replicate add_diff_cancel_left') simp
  obtain p where "finish_read resp (body @ NUL # []) (int (length body)) (C\<lparr>co_wire := c\<rparr>) =
      Inr (int (length body), C\<lparr>co_wire := c\<rparr>\<lparr>co_page := p\<rparr>)" "page_ok (t @ body) p"
    using finish_read_page [OF assms(7) _ assms(5,4), of t "C\<lparr>co_wire := c\<rparr>" "[]" "int (length body)"] assms(8,9) by auto
  with c d assms(3,4,6) show ?thesis
    by (simp add: http_read_def page_value_ok)
qed

definition four_wire :: wire where
  "four_wire = \<lparr>cn_inbuf = ''wi'', cn_net = [Arrives ''k'', Arrives ''iHTTP'']\<rparr>"

definition fresh_conn :: "nat \<Rightarrow> wire \<Rightarrow> CONN" where
  "fresh_conn n w =
     \<lparr>co_wire = w, co_length = n, co_timeout = 15, co_max = 5, co_cache = new_cache, co_page = new_page []\<rparr>"

lemma fresh_conn_ok:
  "page_ok [] (co_page (fresh_conn n w))"
  using new_page_ok [of "[]"] by (simp add: fresh_conn_def no_nul_def)

lemma fresh_conn_fits:
  "length s < 20000 \<Longrightarrow> page_fits s (co_page (fresh_conn n w))"
  "response_get_content_encoding new_response = Inr 0"
  by (simp_all add: fresh_conn_def page_fits_def pg_size_def new_page_def
    response_get_content_encoding_def int_value_def)

lemma http_read_length_witness:
  "\<exists>C'. http_read True new_response (fresh_conn 4 four_wire) = Some (Inr (4, C')) \<and>
     page_value (co_page C') = ''wiki'' \<and> stream (co_wire C') = ''HTTP''"
proof -
  have "wire_ok four_wire" "stream four_wire = ''wiki'' @ ''HTTP''" by (simp_all add: four_wire_def wire_ok_def BUFSZ_def stream_def)
  then show ?thesis
    using http_read_length [of "fresh_conn 4 four_wire" "''wiki''" "''HTTP''" new_response 0 "[]" True]
      fresh_conn_ok fresh_conn_fits
    by (auto simp: fresh_conn_def no_nul_def)
qed

section \<open>Chunks\<close>

text \<open>A chunk as a server writes it: the line with its length, the data, and a line end behind them.\<close>

definition chunk_ok :: "string \<times> string \<Rightarrow> bool" where
  "chunk_ok ch =
     (case ch of (hx, data) \<Rightarrow>
        hx \<noteq> [] \<and> no_nul hx \<and> LF \<notin> set hx \<and> length hx < 1022 \<and> ISXDIGIT (hd hx) \<and>
        strtoul16 (hx @ [CR, LF]) = Some (length data) \<and> data \<noteq> [] \<and> length data < 2 ^ 31)"

definition chunk_text :: "string \<times> string \<Rightarrow> string" where
  "chunk_text ch = fst ch @ [CR, LF] @ snd ch @ [CR, LF]"

lemma chunk_fill_data:
  "wire_ok c \<Longrightarrow> stream c = data @ rest \<Longrightarrow> int (length data) = chunk - n \<Longrightarrow> length buf < cap \<Longrightarrow>
     \<exists>cap' c'. chunk_fill chunk n buf cap c = (buf @ data, cap', 1, c') \<and> length (buf @ data) < cap' \<and>
       stream c' = rest \<and> wire_ok c'"
proof (induction "length data" arbitrary: data n buf cap c rule: less_induct)
  case less
  show ?case
  proof (cases "data = []")
    case True
    with less.prems show ?thesis by (subst chunk_fill.simps) simp
  next
    case False
    have more: "n < chunk" using less.prems(3) False by (cases data) auto
    define k where "k = nat (min (chunk - n) (int cap - int (length buf)))"
    have k: "0 < k" "k \<le> length data" "int k \<le> int cap - int (length buf)" "int k \<le> chunk - n"
      using less.prems(3,4) more by (auto simp: k_def)
    obtain c1 where c1: "socket_read k c = (int (length (take k (stream c))), take k (stream c), c1)"
      "stream c1 = drop k (stream c)" "wire_ok c1" using less.prems(1) by (blast elim: socket_read_stream)
    have tk: "take k (stream c) = take k data" "drop k (stream c) = drop k data @ rest"
      using less.prems(2) k(2) by simp_all
    have len: "length (take k data) = k" using k(2) by simp
    have read: "socket_read k c = (int k, take k data, c1)" using c1(1) unfolding tk len .
    let ?buf = "buf @ take k data" and ?cap = "if cap \<le> length (buf @ take k data) then cap * 2 else cap"
    have fits: "length ?buf < ?cap"
      using k(3) less.prems(4) unfolding length_append len by auto
    have "chunk_fill chunk n buf cap c = chunk_fill chunk (n + int k) ?buf ?cap c1"
      using more k(1) by (subst chunk_fill.simps) (simp only: if_True k_def [symmetric] read prod.case Let_def, simp)
    moreover have "\<exists>cap' c'. chunk_fill chunk (n + int k) ?buf ?cap c1 = (?buf @ drop k data, cap', 1, c') \<and>
        length (?buf @ drop k data) < cap' \<and> stream c' = rest \<and> wire_ok c'"
    proof (rule less.hyps)
      show "length (drop k data) < length data" using k by simp
      show "stream c1 = drop k data @ rest" using c1(2) unfolding tk .
      show "int (length (drop k data)) = chunk - (n + int k)" using less.prems(3) k by (simp add: of_nat_diff)
    qed (use c1 fits in auto)
    moreover have "?buf @ drop k data = buf @ data" by simp
    ultimately show ?thesis by (simp only:)
  qed
qed

lemma chunk_size_line:
  assumes "wire_ok c" "stream c = l @ LF # rest" "LF \<notin> set l" "length l < 1023" "no_nul l" "l \<noteq> []"
  obtains c' where "stream c' = rest" "wire_ok c'"
    "http_chunk_size c =
      (if hd l = CR \<or> \<not> ISXDIGIT (hd l) then (-1, c')
       else (case strtoul16 (l @ [LF]) of None \<Rightarrow> (0, c') | Some n \<Rightarrow> (int32 (int n), c')))"
proof -
  obtain c' where c': "socket_readline 1024 c = (int (length l) + 1, l @ [LF], c')" "stream c' = rest" "wire_ok c'"
    using assms by (auto elim: socket_readline_line [of c l rest 1024])
  have "c_str (l @ [LF]) = l @ [LF]" using assms(5) by (intro c_str_no_nul) (auto simp: no_nul_def)
  moreover have "hd l \<noteq> LF" using assms(3,6) by (cases l) auto
  ultimately show ?thesis
    using c' assms(6) by (intro that [of c']) (simp_all add: http_chunk_size_def Let_def)
qed

lemma chunks_loop_chunk:
  assumes "wire_ok c" "stream c = chunk_text ch @ rest" "chunk_ok ch" "length buf < cap"
  shows "\<exists>cap' c'. chunks_loop buf cap c = chunks_loop (buf @ snd ch) cap' c' \<and> length (buf @ snd ch) < cap' \<and>
    stream c' = rest \<and> wire_ok c'"
proof -
  obtain hx data where ch: "ch = (hx, data)" by (cases ch)
  note ok = assms(3) [unfolded chunk_ok_def ch prod.case]
  have cr: "CR \<noteq> LF" "CR \<noteq> NUL" "\<not> ISXDIGIT CR" by code_simp+
  obtain c1 where c1: "stream c1 = data @ [CR, LF] @ rest" "wire_ok c1"
    "http_chunk_size c = (int (length data), c1)"
  proof (rule chunk_size_line [of c "hx @ [CR]" "data @ [CR, LF] @ rest"])
    fix c'
    assume "stream c' = data @ [CR, LF] @ rest" "wire_ok c'"
      "http_chunk_size c = (if hd (hx @ [CR]) = CR \<or> \<not> ISXDIGIT (hd (hx @ [CR])) then (-1, c')
       else (case strtoul16 ((hx @ [CR]) @ [LF]) of None \<Rightarrow> (0, c') | Some n \<Rightarrow> (int32 (int n), c')))"
    moreover have "int32 (int (length data)) = int (length data)" using ok by (simp add: int32_def)
    moreover have "hd hx \<noteq> CR" using ok cr by auto
    ultimately show ?thesis using ok by (intro that [of c']) simp_all
  qed (use assms(1,2) ok cr in \<open>auto simp: ch chunk_text_def no_nul_def\<close>)
  obtain cap' c2 where c2: "chunk_fill (int (length data)) 0 buf cap c1 = (buf @ data, cap', 1, c2)"
    "length (buf @ data) < cap'" "stream c2 = [CR] @ LF # rest" "wire_ok c2"
    using chunk_fill_data [OF c1(2,1), of "int (length data)" 0 buf cap] assms(4) by auto
  obtain c3 where c3: "stream c3 = rest" "wire_ok c3" "http_chunk_size c2 = (-1, c3)"
    using chunk_size_line [OF c2(4,3)] cr by (auto simp: no_nul_def)
  have "chunks_loop buf cap c = chunks_loop (buf @ data) cap' c2"
    using c1(3) c2(1) ok by (subst chunks_loop.simps) simp
  also have "\<dots> = chunks_loop (buf @ data) cap' c3"
    using c3(3) by (subst chunks_loop.simps) simp
  finally show ?thesis using c2(2) c3 by (auto simp: ch)
qed

lemma chunks_loop_chunks:
  "list_all chunk_ok chs \<Longrightarrow> wire_ok c \<Longrightarrow> stream c = concat (map chunk_text chs) @ rest \<Longrightarrow> length buf < cap \<Longrightarrow>
     \<exists>cap' c'. chunks_loop buf cap c = chunks_loop (buf @ concat (map snd chs)) cap' c' \<and> stream c' = rest \<and> wire_ok c'"
proof (induction chs arbitrary: buf cap c)
  case (Cons ch chs)
  obtain cap1 c1 where c1: "chunks_loop buf cap c = chunks_loop (buf @ snd ch) cap1 c1" "length (buf @ snd ch) < cap1"
    "stream c1 = concat (map chunk_text chs) @ rest" "wire_ok c1"
    using chunks_loop_chunk [OF Cons.prems(2), of ch "concat (map chunk_text chs) @ rest" buf cap] Cons.prems by auto
  have "list_all chunk_ok chs" using Cons.prems(1) by simp
  from Cons.IH [OF this c1(4,3,2)] obtain cap' c' where
    "chunks_loop (buf @ snd ch) cap1 c1 = chunks_loop ((buf @ snd ch) @ concat (map snd chs)) cap' c'"
    "stream c' = rest" "wire_ok c'" by blast
  with c1(1) show ?case by auto
qed auto

text \<open>The last chunk and the empty line behind it.\<close>

definition last_chunk :: string where
  "last_chunk = ''0'' @ [CR, LF, CR, LF]"

lemma chunks_loop_last:
  assumes "wire_ok c" "stream c = last_chunk @ rest"
  shows "\<exists>c'. chunks_loop buf cap c = Some (Inr (buf, int (length buf)), c') \<and> stream c' = rest"
proof -
  have cr: "CR \<noteq> LF" "CR \<noteq> NUL" and zero: "ISXDIGIT (CHR ''0'')" "strtoul16 [CHR ''0'', CR, LF] = Some 0"
    "int32 0 = 0" by code_simp+
  obtain c1 where c1: "stream c1 = [CR] @ LF # rest" "wire_ok c1" "http_chunk_size c = (0, c1)"
  proof (rule chunk_size_line [of c "[CHR ''0'', CR]" "[CR] @ LF # rest"])
    fix c'
    assume "stream c' = [CR] @ LF # rest" "wire_ok c'"
      "http_chunk_size c = (if hd [CHR ''0'', CR] = CR \<or> \<not> ISXDIGIT (hd [CHR ''0'', CR]) then (-1, c')
       else (case strtoul16 ([CHR ''0'', CR] @ [LF]) of None \<Rightarrow> (0, c') | Some n \<Rightarrow> (int32 (int n), c')))"
    then show ?thesis using zero by (intro that [of c']) simp_all
  qed (use assms cr in \<open>auto simp: last_chunk_def no_nul_def\<close>)
  obtain c2 where "socket_readline 1024 c1 = (int (length [CR]) + 1, [CR] @ [LF], c2)" "stream c2 = rest"
    using c1(1,2) cr by (auto elim: socket_readline_line [of c1 "[CR]" rest 1024])
  with c1(3) show ?thesis by (subst chunks_loop.simps) simp
qed

lemma not_known: "co_length C = 2 ^ 64 - 1 \<Longrightarrow> response_get_transfer_encoding resp = Inr (te_num CHUNKED) \<Longrightarrow>
  http_read True resp C =
    (case chunks_loop [] MAXFILE (co_wire C) of
       None \<Rightarrow> None
     | Some (Inl e, c) \<Rightarrow> Some (Inl e)
     | Some (Inr (buf, bytes), c) \<Rightarrow> Some (finish_read resp (buf @ [NUL]) bytes (C\<lparr>co_length := 0, co_wire := c\<rparr>)))"
  by (simp add: http_read_def Let_def)

text \<open>
  C30: A chunked body is decoded to the concatenation of its chunks, however the bytes arrive, and
  the next response is left in the connection.
\<close>

theorem http_read_chunked:
  assumes "wire_ok (co_wire C)" "stream (co_wire C) = concat (map chunk_text chs) @ last_chunk @ rest" "list_all chunk_ok chs"
    and "co_length C = 2 ^ 64 - 1" "response_get_transfer_encoding resp = Inr (te_num CHUNKED)"
    and "chs \<noteq> []" "no_nul (concat (map snd chs))"
    and "response_get_content_encoding resp = Inr e" "page_ok t (co_page C)" "page_fits (concat (map snd chs)) (co_page C)"
  shows "\<exists>C'. http_read True resp C = Some (Inr (int (length (concat (map snd chs))), C')) \<and>
    page_value (co_page C') = t @ concat (map snd chs) \<and> stream (co_wire C') = rest"
proof -
  let ?body = "concat (map snd chs)"
  obtain cap c1 where c1: "chunks_loop [] MAXFILE (co_wire C) = chunks_loop ?body cap c1"
    "stream c1 = last_chunk @ rest" "wire_ok c1"
    using chunks_loop_chunks [OF assms(3,1,2), of "[]" MAXFILE] by (auto simp: MAXFILE_def)
  obtain c where c: "chunks_loop [] MAXFILE (co_wire C) = Some (Inr (?body, int (length ?body)), c)" "stream c = rest"
    using chunks_loop_last [OF c1(3,2), of ?body cap] c1(1) by auto
  have ne: "?body \<noteq> []" using assms(3,6) by (cases chs) (auto simp: chunk_ok_def split: prod.splits)
  obtain p where "finish_read resp (?body @ NUL # []) (int (length ?body)) (C\<lparr>co_length := 0, co_wire := c\<rparr>) =
      Inr (int (length ?body), C\<lparr>co_length := 0, co_wire := c\<rparr>\<lparr>co_page := p\<rparr>)" "page_ok (t @ ?body) p"
    using finish_read_page [OF assms(8) _ assms(7) ne, of t "C\<lparr>co_length := 0, co_wire := c\<rparr>" "[]" "int (length ?body)"]
      assms(9,10) by auto
  with c show ?thesis
    using not_known [OF assms(4,5)] by (simp add: page_value_ok)
qed

text \<open>Once nothing more arrives the loop over the chunks never ends.\<close>

lemma chunk_size_end:
  assumes "wire_ok c" "stream c = []"
  obtains c' where "http_chunk_size c = (-1, c')" "stream c' = []" "wire_ok c'"
proof -
  obtain c' where "socket_readline 1024 c = (0, [], c')" "stream c' = []" "wire_ok c'"
    by (rule socket_readline_end [OF assms, of 1024]) simp
  then show ?thesis by (intro that [of c']) (simp_all add: http_chunk_size_def)
qed

lemma chunks_loop_end:
  assumes "chunks_loop buf cap c = Some y"
  shows "\<not> (wire_ok c \<and> stream c = [])"
  using assms
proof (rule chunks_loop.raw_induct [rotated])
  fix loop buf cap c y
  assume IH: "\<And>buf cap c y. loop buf cap c = Some y \<Longrightarrow> \<not> (wire_ok c \<and> stream c = [])"
    and body: "(case http_chunk_size c of
        (chunk, c) \<Rightarrow>
          if chunk = 0 then (case socket_readline 1024 c of (_, _, c) \<Rightarrow> Some (Inr (buf, int (length buf)), c))
          else if chunk < 0 then loop buf cap c
          else
            (case chunk_fill chunk 0 buf cap c of
               (buf', cap', r, c) \<Rightarrow>
                 if r \<le> 0 then
                   (if r < 0 \<and> buf' = [] then Some (Inl Undefined, c)
                    else Some (Inr (if r < 0 then butlast buf' else buf', int (length buf') + r), c))
                 else loop buf' cap' c)) = Some y"
  show "\<not> (wire_ok c \<and> stream c = [])"
  proof
    assume "wire_ok c \<and> stream c = []"
    then obtain c' where c': "http_chunk_size c = (-1, c')" "stream c' = []" "wire_ok c'"
      by (auto elim: chunk_size_end)
    with body have "loop buf cap c' = Some y" by simp
    from IH [OF this] c' show False by simp
  qed
qed

text \<open>
  C31: When the server closes the connection behind any chunk but the last, siege runs for ever:
  the end of the connection is taken for a line that is no chunk.
\<close>

theorem chunked_close_spins:
  assumes "wire_ok (co_wire C)" "stream (co_wire C) = concat (map chunk_text chs)" "list_all chunk_ok chs"
    and "co_length C = 2 ^ 64 - 1" "response_get_transfer_encoding resp = Inr (te_num CHUNKED)"
  shows "http_read True resp C = None"
proof -
  obtain cap c where "chunks_loop [] MAXFILE (co_wire C) = chunks_loop (concat (map snd chs)) cap c" "stream c = []" "wire_ok c"
    using chunks_loop_chunks [OF assms(3,1), of "[]" "[]" MAXFILE] assms(2) by (auto simp: MAXFILE_def)
  moreover have "chunks_loop (concat (map snd chs)) cap c = None"
    using chunks_loop_end [of "concat (map snd chs)" cap c] calculation(2,3)
    by (cases "chunks_loop (concat (map snd chs)) cap c") auto
  ultimately show ?thesis using not_known [OF assms(4,5)] by simp
qed

definition two_chunks :: "(string \<times> string) list" where
  "two_chunks = [(''4'', ''wiki''), (''5'', ''pedia'')]"

definition chunked_wire :: "string \<Rightarrow> wire" where
  "chunked_wire tail = \<lparr>cn_inbuf = ''4'', cn_net =
     [Arrives ([CR, LF] @ ''wi''), Arrives (''ki'' @ [CR, LF] @ ''5'' @ [CR]), Arrives ([LF] @ ''pedia'' @ [CR, LF] @ tail)]\<rparr>"

lemma chunked_wire: "wire_ok (chunked_wire tail)" "stream (chunked_wire tail) = concat (map chunk_text two_chunks) @ tail"
  "list_all chunk_ok two_chunks"
proof -
  show "list_all chunk_ok two_chunks" by code_simp
qed (simp_all add: chunked_wire_def wire_ok_def BUFSZ_def stream_def two_chunks_def chunk_text_def)

definition chunked_resp :: RESPONSE where
  "chunked_resp = add_header_field ''transfer-encoding'' ''2'' new_response"

lemma chunked_resp: "response_get_transfer_encoding chunked_resp = Inr (te_num CHUNKED)"
  "response_get_content_encoding chunked_resp = Inr 0"
proof -
  have "atoi ''2'' = Inr 2" "c_str ''2'' = ''2''" by code_simp+
  then show "response_get_transfer_encoding chunked_resp = Inr (te_num CHUNKED)"
    "response_get_content_encoding chunked_resp = Inr 0"
    by (simp_all add: chunked_resp_def response_get_transfer_encoding_def response_get_content_encoding_def
      int_value_def field_add)
qed

lemma http_read_chunked_witness:
  "\<exists>C'. http_read True chunked_resp (fresh_conn (2 ^ 64 - 1) (chunked_wire (last_chunk @ ''HTTP''))) = Some (Inr (9, C')) \<and>
     page_value (co_page C') = ''wikipedia'' \<and> stream (co_wire C') = ''HTTP''"
proof -
  have cat: "concat (map snd two_chunks) = ''wikipedia''" by (simp add: two_chunks_def)
  show ?thesis
    using http_read_chunked [of "fresh_conn (2 ^ 64 - 1) (chunked_wire (last_chunk @ ''HTTP''))" two_chunks "''HTTP''"
      chunked_resp 0 "[]"] chunked_wire chunked_resp fresh_conn_ok fresh_conn_fits
    unfolding cat by (auto simp: fresh_conn_def no_nul_def two_chunks_def)
qed

lemma chunked_close_spins_witness: "http_read True chunked_resp (fresh_conn (2 ^ 64 - 1) (chunked_wire [])) = None"
  using chunked_wire chunked_resp
  by (intro chunked_close_spins [of _ two_chunks]) (simp_all add: fresh_conn_def)

section \<open>A body that ends with the connection\<close>

lemma length_le_stream: "length (take n (stream c)) \<le> length (stream c)"
  by simp

text \<open>A full block has no end that \<open>strlen\<close> could find.\<close>

lemma close_loop_full:
  "wire_ok c \<Longrightarrow> no_nul (stream c) \<Longrightarrow> no_nul ptr \<Longrightarrow> length ptr = MAXFILE \<Longrightarrow>
     \<exists>ptr' n c'. close_loop ptr bytes c = Some (ptr', n, c') \<and> no_nul ptr'"
proof (induction "length (stream c)" arbitrary: ptr bytes c rule: less_induct)
  case less
  obtain c1 where c1: "socket_read MAXFILE c = (int (length (take MAXFILE (stream c))), take MAXFILE (stream c), c1)"
    "stream c1 = drop MAXFILE (stream c)" "wire_ok c1" using less.prems(1) by (blast elim: socket_read_stream)
  let ?got = "take MAXFILE (stream c)"
  have nul: "no_nul (?got @ drop (length ?got) ptr)" "no_nul (stream c1)"
    using less.prems(2,3) c1(2) by (auto simp: no_nul_def dest: in_set_takeD in_set_dropD)
  show ?case
  proof (cases "stream c = []")
    case True
    then have "close_loop ptr bytes c = Some (ptr, bytes, c1)" using c1(1) by (subst close_loop.simps) simp
    with less.prems(3) show ?thesis by auto
  next
    case False
    have len: "0 < length ?got" using False by (simp add: MAXFILE_def)
    then have step: "close_loop ptr bytes c = close_loop (?got @ drop (length ?got) ptr) (bytes + int (length ?got)) c1"
      using c1(1) by (subst close_loop.simps) (simp only: prod.case Let_def, simp del: length_take)
    have "length (stream c1) < length (stream c)" using False c1(2) by (simp add: MAXFILE_def)
    moreover have "length (?got @ drop (length ?got) ptr) = MAXFILE" using less.prems(4) by simp
    ultimately show ?thesis unfolding step by (intro less.hyps [OF _ c1(3) nul(2,1)])
  qed
qed

text \<open>
  A body of at least 65536 bytes without a length fills the block it is read into to the last
  byte, over and over: the length of its text is then looked for behind the block.
\<close>

theorem close_body_overruns:
  assumes "wire_ok (co_wire C)" "no_nul (stream (co_wire C))" "65536 \<le> length (stream (co_wire C))"
    and "co_length C = 2 ^ 64 - 1" "response_get_transfer_encoding resp = Inr (te_num NONE)"
    and "response_get_content_encoding resp = Inr e"
  shows "http_read my_chunked resp C = Some (Inl Undefined)"
proof -
  let ?c = "co_wire C"
  obtain c1 where c1: "socket_read MAXFILE ?c = (int (length (take MAXFILE (stream ?c))), take MAXFILE (stream ?c), c1)"
    "stream c1 = drop MAXFILE (stream ?c)" "wire_ok c1" using assms(1) by (blast elim: socket_read_stream)
  let ?got = "take MAXFILE (stream ?c)"
  have len: "length ?got = MAXFILE" using assms(3) by (simp add: MAXFILE_def)
  have nul: "no_nul ?got" "no_nul (stream c1)"
    using assms(2) c1(2) by (auto simp: no_nul_def dest: in_set_takeD in_set_dropD)
  have "drop MAXFILE (replicate MAXFILE NUL) = []" by simp
  then have "close_loop (replicate MAXFILE NUL) 0 ?c = close_loop ?got (int MAXFILE) c1"
    using c1(1) by (subst close_loop.simps) (simp only: prod.case Let_def len, simp add: MAXFILE_def)
  then obtain ptr n c where c: "close_loop (replicate MAXFILE NUL) 0 ?c = Some (ptr, n, c)" "no_nul ptr"
    using close_loop_full [OF c1(3) nul(2,1) len, of "int MAXFILE"] by auto
  have "bstr ptr 0 = Inl Undefined" using c(2) by (simp add: bstr_def no_nul_def)
  then have "finish_read resp ptr n D = Inl Undefined" for D by (simp add: finish_read_def assms(6))
  with c(1) show ?thesis by (simp add: http_read_def Let_def assms(4,5))
qed

lemma close_body_overruns_witness:
  "http_read True new_response (fresh_conn (2 ^ 64 - 1) \<lparr>cn_inbuf = [], cn_net = [Arrives (replicate 65536 (CHR ''a''))]\<rparr>) =
    Some (Inl Undefined)"
proof (rule close_body_overruns)
  show "response_get_transfer_encoding new_response = Inr (te_num NONE)"
    by (simp add: response_get_transfer_encoding_def int_value_def)
  show "response_get_content_encoding new_response = Inr 0" by (rule fresh_conn_fits)
qed (simp_all add: fresh_conn_def wire_ok_def BUFSZ_def stream_def no_nul_def)

section \<open>A whole response\<close>

text \<open>A line of the head, read into a block of any contents.\<close>

lemma read_line_text:
  "wire_ok c \<Longrightarrow> stream c = l @ LF # rest \<Longrightarrow> LF \<notin> set l \<Longrightarrow> x + length l < MAX_COOKIE_SIZE - 1 \<Longrightarrow> 1 < x + length l \<Longrightarrow>
   x + length l < length b \<Longrightarrow> length l < k \<Longrightarrow>
     \<exists>c'. read_line k b x c = (take x b @ l @ LF # drop (x + length l + 1) b, x + length l, L_line False, c') \<and>
       stream c' = rest \<and> wire_ok c'"
proof (induction l arbitrary: x b c k)
  case Nil
  then obtain k' where k: "k = Suc k'" by (cases k) auto
  obtain c1 where c1: "socket_read 1 c = (int (length (take 1 (stream c))), take 1 (stream c), c1)"
    "stream c1 = drop 1 (stream c)" "wire_ok c1" using Nil.prems(1) by (blast elim: socket_read_stream)
  with Nil.prems k show ?case by (auto simp: Let_def upd_conv_take_nth_drop)
next
  case (Cons y l)
  then obtain k' where k: "k = Suc k'" by (cases k) auto
  obtain c1 where c1: "socket_read 1 c = (int (length (take 1 (stream c))), take 1 (stream c), c1)"
    "stream c1 = drop 1 (stream c)" "wire_ok c1" using Cons.prems(1) by (blast elim: socket_read_stream)
  have y: "y \<noteq> LF" "x < length b" using Cons.prems by auto
  let ?b = "b[x := y]"
  obtain c' where c': "read_line k' ?b (x + 1) c1 =
      (take (x + 1) ?b @ l @ LF # drop (x + 1 + length l + 1) ?b, x + 1 + length l, L_line False, c')"
    "stream c' = rest" "wire_ok c'"
    using Cons.IH [of c1 "x + 1" ?b k'] Cons.prems k c1 by auto
  have "take (x + 1) ?b = take x b @ [y]" using y(2) by (simp add: take_Suc_conv_app_nth)
  moreover have "drop (x + 1 + length l + 1) ?b = drop (x + length (y # l) + 1) b" by simp
  moreover have "read_line k b x c = read_line k' ?b (x + 1) c1"
    using c1(1) Cons.prems y(1) k by (simp add: Let_def)
  ultimately show ?case using c' by auto
qed

lemma finish_line_text:
  "finish_line (l @ CR # LF # zs) (length l + 1) = l @ [NUL, NUL] @ zs"
  by (simp add: finish_line_def nth_append list_update_append)

lemma read_line_blank:
  assumes "wire_ok c" "stream c = [CR, LF] @ rest" "2 \<le> length b"
  shows "\<exists>b' c'. read_line MAX_COOKIE_SIZE b 0 c = (b', 1, L_blank, c') \<and> stream c' = rest \<and> wire_ok c'"
proof -
  have cr: "CR \<noteq> LF" by code_simp
  obtain c1 where c1: "socket_read 1 c = (int (length (take 1 (stream c))), take 1 (stream c), c1)"
    "stream c1 = drop 1 (stream c)" "wire_ok c1" using assms(1) by (blast elim: socket_read_stream)
  obtain c2 where c2: "socket_read 1 c1 = (int (length (take 1 (stream c1))), take 1 (stream c1), c2)"
    "stream c2 = drop 1 (stream c1)" "wire_ok c2" using c1(3) by (blast elim: socket_read_stream)
  obtain k where n: "MAX_COOKIE_SIZE = Suc (Suc k)" and big: "1 < MAX_COOKIE_SIZE - 1"
    by (auto simp: MAX_COOKIE_SIZE_def intro: that [of 4094])
  have "read_line (Suc (Suc k)) b 0 c = (b[0 := CR, 1 := LF], 1, L_blank, c2)"
    using c1 c2(1) assms(2) cr using big by (simp add: Let_def)
  with c2 c1 assms(2) show ?thesis unfolding n by auto
qed

text \<open>A line of the loop, and the lines a test does not concern.\<close>

lemma headers_loop_line:
  assumes "wire_ok (co_wire (hs_conn st))" "stream (co_wire (hs_conn st)) = l @ [CR, LF] @ rest" "LF \<notin> set l" "l \<noteq> []"
    "length l < 4000" "length (hs_block st) = MAX_COOKIE_SIZE"
  shows "\<exists>c zs. stream c = rest \<and> wire_ok c \<and> length (l @ [NUL, NUL] @ zs) = MAX_COOKIE_SIZE \<and>
    headers_loop env st =
      (case header_line env (st\<lparr>hs_conn := (hs_conn st)\<lparr>co_wire := c\<rparr>, hs_block := l @ [NUL, NUL] @ zs\<rparr>) of
         Inl err \<Rightarrow> Inl err
       | Inr st' \<Rightarrow> headers_loop env (st'\<lparr>hs_conn := (hs_conn st')\<lparr>co_wire := c\<rparr>\<rparr>))"
proof -
  have cr: "CR \<noteq> LF" by code_simp
  let ?zs = "drop (length l + 2) (hs_block st)"
  obtain c where c: "read_line MAX_COOKIE_SIZE (hs_block st) 0 (co_wire (hs_conn st)) =
      ((l @ [CR]) @ LF # ?zs, length l + 1, L_line False, c)" "stream c = rest" "wire_ok c"
    using read_line_text [of "co_wire (hs_conn st)" "l @ [CR]" rest 0 "hs_block st" MAX_COOKIE_SIZE] assms cr
    by (auto simp: MAX_COOKIE_SIZE_def)
  have "length (l @ [NUL, NUL] @ ?zs) = MAX_COOKIE_SIZE" using assms(5,6) by (simp add: MAX_COOKIE_SIZE_def)
  with c show ?thesis
    using finish_line_text [of l ?zs]
    by (intro exI [of _ c] exI [of _ ?zs]) (simp add: headers_loop.simps [of env st] Let_def split: sum.split)
qed

lemma headers_loop_blank:
  assumes "wire_ok (co_wire (hs_conn st))" "stream (co_wire (hs_conn st)) = [CR, LF] @ rest"
    "length (hs_block st) = MAX_COOKIE_SIZE"
  shows "\<exists>b c. stream c = rest \<and> wire_ok c \<and>
    headers_loop env st = Inr (Some (hs_resp st), st\<lparr>hs_conn := (hs_conn st)\<lparr>co_wire := c\<rparr>, hs_block := b\<rparr>)"
proof -
  have "2 \<le> length (hs_block st)" using assms(3) by (simp add: MAX_COOKIE_SIZE_def)
  from read_line_blank [OF assms(1,2) this] obtain b c where
    "read_line MAX_COOKIE_SIZE (hs_block st) 0 (co_wire (hs_conn st)) = (b, 1, L_blank, c)"
    "stream c = rest" "wire_ok c" by auto
  then show ?thesis by (intro exI [of _ b] exI [of _ c]) (simp add: headers_loop.simps [of env st] Let_def)
qed

lemma on_label_skip: "bstr (hs_block st) 0 = Inr line \<Longrightarrow> \<not> has_label line key \<Longrightarrow> on_label key f st = Inr st"
  and on_label_hit: "bstr (hs_block st) 0 = Inr line \<Longrightarrow> has_label line key \<Longrightarrow> on_label key f st = f line st"
  by (simp_all add: on_label_def)

lemma not_label_append:
  assumes "take m (lower p) \<noteq> take m (lower key)" "m \<le> length p" "m \<le> length key"
  shows "\<not> has_label (p @ s) key"
proof
  assume "has_label (p @ s) key"
  then have "take m (lower (p @ s)) = take m (lower key)"
    unfolding has_label_def ncase_eq_def by (rule take_eq_le) (rule assms(3))
  with assms(1,2) show False by (simp add: lower_def)
qed

lemma response_set_code_hit:
  "bstr b 0 = Inr line \<Longrightarrow> bstr b 9 = Inr rest \<Longrightarrow> has_label line ''http'' \<Longrightarrow> atoi rest = Inr v \<Longrightarrow> 1 < v \<Longrightarrow>
   take 8 line = p \<Longrightarrow>
     response_set_code b this = Inr (add_header_field ''response-code'' rest (add_header_field ''protocol'' p this), True)"
  by (simp add: response_set_code_def)

lemma apply_all_skip: "list_all (\<lambda>f. f st = Inr st) fs \<Longrightarrow> apply_all (fs @ gs) st = apply_all gs st"
  by (induction fs) simp_all

lemma apply_all_skips: "list_all (\<lambda>f. f st = Inr st) fs \<Longrightarrow> apply_all fs st = Inr st"
  using apply_all_skip [of st fs "[]"] by simp

lemma status_line_step:
  assumes block: "hs_block st = (''HTTP/1.1 '' @ show_nat code @ SP # reason) @ [NUL, NUL] @ zs"
    and code: "1 < code" "code < 2 ^ 31" and reason: "no_nul reason"
  shows "header_line env st = Inr (st\<lparr>hs_resp := add_header_field ''response-code'' (show_nat code @ SP # reason)
    (add_header_field ''protocol'' ''HTTP/1.1'' (hs_resp st))\<rparr>)" (is "_ = Inr ?st")
proof -
  let ?line = "''HTTP/1.1 '' @ show_nat code @ SP # reason" and ?code = "show_nat code @ SP # reason"
  have nul: "no_nul ?line" "no_nul ?code" using reason show_nat_no_nul [of code] by (auto simp: no_nul_def)
  have line: "bstr (hs_block st) 0 = Inr ?line"
    unfolding block by (rule bstr_from [of _ "[]" ?line "NUL # zs"]) (use nul in simp_all)
  then have line': "bstr (hs_block ?st) 0 = Inr ?line" by simp
  have rest: "bstr (hs_block st) 9 = Inr ?code"
    unfolding block by (rule bstr_from [of _ "''HTTP/1.1 ''" _ "NUL # zs"]) (use nul in simp_all)
  have num: "atoi ?code = Inr (int code)" using code(2) by (intro atoi_show_nat) (simp_all add: not_digits)
  have "has_label ''HTTP/1.1 '' ''http''" by code_simp
  then have hit: "has_label ?line ''http''" by (rule has_label_append) simp
  have "list_all (\<lambda>key. take 1 (lower ''HTTP/1.1 '') \<noteq> take 1 (lower key) \<and> 1 \<le> length key)
    [''content-type'', ''content-encoding'', ''content-length'', ''set-cookie'', ''connection'', ''keep-alive: '', ''location'',
     ''content-location'', ''last-modified'', ''etag'', ''www-authenticate'', ''proxy-authenticate'', ''transfer-encoding'', ''expires'']"
    by code_simp
  then have skips: "list_all (\<lambda>key. \<not> has_label ?line key)
    [''content-type'', ''content-encoding'', ''content-length'', ''set-cookie'', ''connection'', ''keep-alive: '', ''location'',
     ''content-location'', ''last-modified'', ''etag'', ''www-authenticate'', ''proxy-authenticate'', ''transfer-encoding'', ''expires'']"
    unfolding list_all_iff using not_label_append [of 1 "''HTTP/1.1 ''"] by fastforce
  have "response_set_code (hs_block st) (hs_resp st) = Inr (hs_resp ?st, True)"
    by (subst response_set_code_hit [OF line rest hit num]) (use code(1) in simp_all)
  then have "on_label ''http'' (\<lambda>_. with_resp response_set_code) st = Inr ?st"
    unfolding on_label_hit [OF line hit] with_resp_def by simp
  with skips show ?thesis
    unfolding header_line_def by (simp only: apply_all.simps rbind.simps list.pred_inject(2) on_label_skip [OF line'] simp_thms)
qed

end
