(* ===== verification/Auth.thy ===== *)
theory Auth
  imports Creds Dyn_array Base64 Md5 Response "HOL-Library.Code_Target_Nat"
begin

text \<open>
  Authentication in siege (\<open>siege-4.1.7/src/auth.c\<close>): choosing credentials for a realm, the basic
  header, parsing a digest challenge and answering it, and the user of an FTP host.  The library is
  built without OpenSSL, as in \<open>Http_response\<close>; NTLM is refused then.  What \<open>rand_r\<close> returns is an
  argument, a number below \<open>2 ^ 31\<close> per call.  A pointer that may be null is an \<open>option\<close>.
\<close>

section \<open>Data\<close>

datatype ntlm_state = TYPE_N | TYPE_1 | TYPE_2 | TYPE_3 | TYPE_L

record AUTH =
  au_creds :: "CREDS array_t"
  au_basic :: "string option"
  au_digest :: "string option"
  au_ntlm_state :: ntlm_state
  au_ntlm :: "string option"
  au_proxy_required :: bool
  au_proxy_host :: "string option"
  au_proxy_port :: int
  au_proxy :: "string option"

record DCRED =
  dr_username :: string
  dr_password :: string
  dr_cnonce :: string
  dr_h_a1 :: "string option"
  dr_nc :: string
  dr_nc_value :: "32 word"

record DCHLG =
  dc_realm :: "string option"
  dc_domain :: "string option"
  dc_nonce :: "string option"
  dc_opaque :: "string option"
  dc_stale :: "string option"
  dc_algorithm :: "string option"
  dc_qop :: "string option"

datatype KEY_HEADER_E = REALM | DOMAIN | NONCE | OPAQUE | STALE | ALGORITHM | QOP | UNKNOWN

definition new_auth :: AUTH where
  "new_auth =
     \<lparr>au_creds = new_array, au_basic = None, au_digest = None, au_ntlm_state = TYPE_N, au_ntlm = None,
      au_proxy_required = False, au_proxy_host = None, au_proxy_port = 0, au_proxy = None\<rparr>"

definition auth_add :: "CREDS \<Rightarrow> AUTH \<Rightarrow> AUTH" where
  "auth_add creds this = this\<lparr>au_creds := array_npush (Some creds) (au_creds this)\<rparr>"

definition auth_set_proxy_host :: "string \<Rightarrow> AUTH \<Rightarrow> AUTH" where
  "auth_set_proxy_host host this = this\<lparr>au_proxy_host := Some host, au_proxy_required := True\<rparr>"

definition auth_get_proxy_required :: "AUTH option \<Rightarrow> bool" where
  "auth_get_proxy_required this = (case this of None \<Rightarrow> False | Some a \<Rightarrow> au_proxy_required a)"

text \<open>\<open>xstrcat\<close> ends at the first null argument.\<close>

definition xstrcat :: "string option list \<Rightarrow> string" where
  "xstrcat args = concat (map the (takeWhile (\<lambda>a. a \<noteq> None) args))"

section \<open>Choosing credentials\<close>

text \<open>
  The two loops over the credentials, of the realm and then of \<open>any\<close> realm; the test of the scheme
  differs from caller to caller.
\<close>

definition of_realm :: "string \<Rightarrow> (CREDS \<Rightarrow> bool) \<Rightarrow> AUTH \<Rightarrow> CREDS option" where
  "of_realm realm ok this = find (\<lambda>c. strmatch (cr_realm c) realm \<and> ok c) (ar_data (au_creds this))"

definition choose_creds :: "string option \<Rightarrow> (CREDS \<Rightarrow> bool) \<Rightarrow> AUTH \<Rightarrow> CREDS option" where
  "choose_creds realm ok this =
     (case (case realm of None \<Rightarrow> None | Some r \<Rightarrow> of_realm r ok this) of
        Some c \<Rightarrow> Some c
      | None \<Rightarrow> of_realm ''any'' ok this)"

definition basic_header :: "SCHEME \<Rightarrow> CREDS \<Rightarrow> AUTH \<Rightarrow> AUTH" where
  "basic_header scheme creds this =
     (let buf = take 255 (cr_username creds @ '':'' @ cr_password creds); hdr = base64_encode buf in
      if scheme = PROXY then
        this\<lparr>au_proxy := Some (take (length hdr + 31) (''Proxy-Authorization: Basic '' @ hdr @ crlf))\<rparr>
      else this\<lparr>au_basic := Some (take (length hdr + 31) (''Authorization: Basic '' @ hdr @ crlf))\<rparr>)"

definition auth_set_basic_header :: "SCHEME \<Rightarrow> string option \<Rightarrow> AUTH \<Rightarrow> AUTH \<times> bool" where
  "auth_set_basic_header scheme realm this =
     (case choose_creds realm (\<lambda>c. cr_scheme c = scheme) this of
        Some c \<Rightarrow> (basic_header scheme c this, True)
      | None \<Rightarrow> (this, False))"

definition auth_get_basic_header :: "SCHEME \<Rightarrow> AUTH \<Rightarrow> string" where
  "auth_get_basic_header scheme this =
     (case if scheme = PROXY then au_proxy this else au_basic this of Some e \<Rightarrow> e | None \<Rightarrow> [])"

definition auth_set_ntlm_header :: "string option \<Rightarrow> AUTH \<Rightarrow> AUTH \<times> bool" where
  "auth_set_ntlm_header realm this =
     (case choose_creds realm (\<lambda>c. cr_scheme c = HTTP \<or> cr_scheme c = HTTPS) this of
        Some c \<Rightarrow> (this, False)
      | None \<Rightarrow> (this, False))"

definition auth_get_ftp_username :: "string \<Rightarrow> AUTH \<Rightarrow> string" where
  "auth_get_ftp_username realm this =
     (case choose_creds (Some realm) (\<lambda>c. cr_scheme c = FTP) this of Some c \<Rightarrow> cr_username c | None \<Rightarrow> [])"

definition auth_get_ftp_password :: "string \<Rightarrow> AUTH \<Rightarrow> string" where
  "auth_get_ftp_password realm this =
     (case choose_creds (Some realm) (\<lambda>c. cr_scheme c = FTP) this of Some c \<Rightarrow> cr_password c | None \<Rightarrow> [])"

section \<open>The challenge\<close>

definition keyparser :: "(string \<times> KEY_HEADER_E) list" where
  "keyparser =
     [(''realm'', REALM), (''domain'', DOMAIN), (''nonce'', NONCE), (''opaque'', OPAQUE),
      (''stale'', STALE), (''algorithm'', ALGORITHM), (''qop'', QOP)]"

definition get_keyval :: "string \<Rightarrow> KEY_HEADER_E" where
  "get_keyval key =
     (case find (\<lambda>(name, v). lower key = lower name) keyparser of Some (name, v) \<Rightarrow> v | None \<Rightarrow> UNKNOWN)"

definition set_key :: "string \<Rightarrow> string option \<Rightarrow> DCHLG \<Rightarrow> DCHLG" where
  "set_key key val c =
     (case get_keyval key of
        REALM \<Rightarrow> c\<lparr>dc_realm := val\<rparr>
      | DOMAIN \<Rightarrow> c\<lparr>dc_domain := val\<rparr>
      | NONCE \<Rightarrow> c\<lparr>dc_nonce := val\<rparr>
      | OPAQUE \<Rightarrow> c\<lparr>dc_opaque := val\<rparr>
      | STALE \<Rightarrow> c\<lparr>dc_stale := val\<rparr>
      | ALGORITHM \<Rightarrow> c\<lparr>dc_algorithm := val\<rparr>
      | QOP \<Rightarrow> c\<lparr>dc_qop := val\<rparr>
      | UNKNOWN \<Rightarrow> c)"

text \<open>A quoted value up to its quote, backslashes kept, and what follows from the quote on.\<close>

fun quoted :: "string \<Rightarrow> string \<times> string" where
  "quoted [] = ([], [])"
| "quoted (c # r) =
     (if c = DQ then ([], c # r)
      else if c = CHR 0x5C then
        (case r of [] \<Rightarrow> ([c], []) | d # r' \<Rightarrow> (case quoted r' of (v, e) \<Rightarrow> (c # d # v, e)))
      else (case quoted r of (v, e) \<Rightarrow> (c # v, e)))"

text \<open>The value behind an equals sign, and where the search for the comma begins.\<close>

definition find_value :: "string \<Rightarrow> string option \<times> string" where
  "find_value beg =
     (case beg of
        [] \<Rightarrow> (None, beg)
      | c # r \<Rightarrow>
          if c \<noteq> CHR ''='' then (None, beg)
          else
            (case dropWhile is_space r of
               [] \<Rightarrow> (Some [], [])
             | d # r' \<Rightarrow>
                 if d = DQ then (case quoted r' of (v, e) \<Rightarrow> (Some v, tl e))
                 else
                   (Some (takeWhile (\<lambda>c. c \<noteq> CHR '','' \<and> \<not> is_space c) (d # r')),
                    dropWhile (\<lambda>c. c \<noteq> CHR '','' \<and> \<not> is_space c) (d # r'))))"

definition find_key :: "string \<Rightarrow> string \<times> string" where
  "find_key beg =
     (let t = dropWhile is_space beg; inside = (\<lambda>c. c \<noteq> CHR ''='' \<and> c \<noteq> CHR '','' \<and> \<not> is_space c)
      in (takeWhile inside t, dropWhile is_space (dropWhile inside t)))"

lemma quoted_shorter: "length (snd (quoted s)) \<le> length s"
proof (induction s rule: length_induct)
  case (1 s)
  show ?case
  proof (cases s)
    case (Cons c r)
    have r: "length (snd (quoted r)) \<le> length r" using 1 by (simp add: Cons)
    show ?thesis
    proof (cases r)
      case Nil
      then show ?thesis by (simp add: Cons)
    next
      case (Cons d r')
      moreover have "length (snd (quoted r')) \<le> length r'" using 1 by (simp add: Cons \<open>s = c # r\<close>)
      ultimately show ?thesis using r by (simp add: \<open>s = c # r\<close> case_prod_unfold)
    qed
  qed simp
qed

lemma find_value_shorter: "length (snd (find_value s)) \<le> length s"
proof (cases "\<exists>r. s = CHR ''='' # r")
  case True
  then obtain r where s: "s = CHR ''='' # r" by blast
  show ?thesis
  proof (cases "dropWhile is_space r")
    case Nil
    then show ?thesis unfolding s find_value_def by (simp only: list.case Nil) simp
  next
    case (Cons d r')
    then have len: "length r' < length r" using length_dropWhile_le [of is_space r] by simp
    have "length (dropWhile (\<lambda>c. c \<noteq> CHR '','' \<and> \<not> is_space c) (d # r')) \<le> Suc (length r')"
      by (rule order_trans [OF length_dropWhile_le]) simp
    with len quoted_shorter [of r'] show ?thesis
      unfolding s find_value_def by (simp only: list.case Cons) (cases "quoted r'"; auto)
  qed
next
  case False
  then show ?thesis by (auto simp: find_value_def split: list.split)
qed

text \<open>The loop over the parameters: every round takes at least a byte.\<close>

lemma find_key_shorter: "length (snd (find_key s)) \<le> length s"
  unfolding find_key_def Let_def snd_conv by (meson length_dropWhile_le order_trans)

lemma find_key_progress:
  assumes "s \<noteq> []" "snd (find_key s) = s"
  shows "hd s = CHR ''='' \<or> hd s = CHR '',''"
proof (rule ccontr)
  assume n: "\<not> ?thesis"
  obtain c r where s: "s = c # r" using assms(1) by (cases s) auto
  have "length (snd (find_key s)) \<le> length r"
  proof (cases "is_space c")
    case True
    have "length (dropWhile is_space (dropWhile P (dropWhile is_space r))) \<le> length r" for P
      by (meson length_dropWhile_le order_trans)
    with True show ?thesis by (simp add: s find_key_def Let_def)
  next
    case False
    have "length (dropWhile is_space (dropWhile P r)) \<le> length r" for P
      by (meson length_dropWhile_le order_trans)
    with False n show ?thesis by (simp add: s find_key_def Let_def)
  qed
  with assms(2) s show False by simp
qed

definition next_param :: "string \<Rightarrow> string \<times> string option \<times> string" where
  "next_param beg =
     (case find_key beg of (key, r) \<Rightarrow>
      case find_value r of (val, r) \<Rightarrow> (key, val, tl (dropWhile (\<lambda>c. c \<noteq> CHR '','') r)))"

lemma next_param_shorter:
  assumes "s \<noteq> []" "next_param s = (key, val, r)"
  shows "length r < length s"
proof -
  obtain r1 r2 where r1: "find_key s = (key, r1)" and r2: "find_value r1 = (val, r2)"
    and r: "r = tl (dropWhile (\<lambda>c. c \<noteq> CHR '','') r2)"
    using assms(2) by (auto simp: next_param_def split: prod.splits)
  have 1: "length r1 \<le> length s" using find_key_shorter [of s] r1 by simp
  have 2: "length r2 \<le> length r1" using find_value_shorter [of r1] r2 by simp
  show ?thesis
  proof (cases "r2 = []")
    case True
    with assms(1) r show ?thesis by simp
  next
    case False
    then have "length r < length r2"
      using length_dropWhile_le [of "\<lambda>c. c \<noteq> CHR '',''" r2]
      by (cases r2; cases "dropWhile (\<lambda>c. c \<noteq> CHR '','') r2") (simp_all add: r)
    with 1 2 show ?thesis by simp
  qed
qed

function challenge_loop :: "string \<Rightarrow> DCHLG \<Rightarrow> DCHLG" where
  "challenge_loop beg c =
     (if beg = [] then c else case next_param beg of (key, val, r) \<Rightarrow> challenge_loop r (set_key key val c))"
  by pat_completeness auto
termination
  by (relation "measure (\<lambda>(beg, c). length beg)") (auto simp: next_param_shorter dest: sym)

declare challenge_loop.simps [simp del]

definition no_challenge :: DCHLG where
  "no_challenge =
     \<lparr>dc_realm = None, dc_domain = None, dc_nonce = None, dc_opaque = None, dc_stale = None, dc_algorithm = None, dc_qop = None\<rparr>"

text \<open>The first word is compared over its own length only.\<close>

definition digest_challenge :: "string \<Rightarrow> DCHLG option" where
  "digest_challenge challenge =
     (let word = takeWhile (\<lambda>c. \<not> is_space c) challenge in
      if \<not> ncase_eq ''Digest'' challenge (length word) then None
      else Some (challenge_loop (dropWhile is_space (drop (length word) challenge)) no_challenge))"

section \<open>The answer\<close>

definition hex_digits :: string where
  "hex_digits = ''0123456789abcdef''"

definition hex_of :: "string \<Rightarrow> string" where
  "hex_of hash = concat (map (\<lambda>b. [hex_digits ! (byte b div 16), hex_digits ! (byte b mod 16)]) hash)"

definition get_md5_str :: "string \<Rightarrow> string" where
  "get_md5_str buf = hex_of (md5_finish_ctx (md5_process_bytes True buf md5_init_ctx))"

text \<open>\<open>%.8x\<close> of an unsigned integer.\<close>

definition hex8 :: "32 word \<Rightarrow> string" where
  "hex8 w = map (\<lambda>i. hex_digits ! (unat w div 16 ^ i mod 16)) [7, 6, 5, 4, 3, 2, 1, 0]"

definition b64_alphabet :: string where
  "b64_alphabet = ''0123456789abcdefghijklmnopqrstuvwxyzABCDEFGHIJKLMNOPQRSTUVWXYZ./''"

definition get_random_string :: "nat list \<Rightarrow> string" where
  "get_random_string draws = map (\<lambda>r. b64_alphabet ! (255 * r div 2 ^ 31 mod length b64_alphabet)) draws"

definition DIGEST_CNONCE_SIZE :: nat where
  "DIGEST_CNONCE_SIZE = 16"

definition digest_credentials :: "CREDS \<Rightarrow> (nat \<Rightarrow> nat) \<Rightarrow> DCRED" where
  "digest_credentials creds rand =
     \<lparr>dr_username = cr_username creds, dr_password = cr_password creds,
      dr_cnonce = get_random_string (map rand [0..<DIGEST_CNONCE_SIZE]),
      dr_h_a1 = None, dr_nc = hex8 1, dr_nc_value = 1\<rparr>"

definition auth_set_digest_header :: "(nat \<Rightarrow> nat) \<Rightarrow> string option \<Rightarrow> string \<Rightarrow> AUTH \<Rightarrow>
    (DCHLG option \<times> DCRED) option \<times> bool" where
  "auth_set_digest_header rand realm str this =
     (case choose_creds realm (\<lambda>c. True) this of
        Some c \<Rightarrow> (let chlg = digest_challenge str in (Some (chlg, digest_credentials c rand), chlg \<noteq> None))
      | None \<Rightarrow> (None, False))"

text \<open>The hash of the user, which is kept for \<open>MD5-sess\<close>; a challenge without an algorithm is a null pointer.\<close>

definition get_h_a1 :: "DCHLG \<Rightarrow> DCRED \<Rightarrow> string option \<Rightarrow> (string option \<times> DCRED) res" where
  "get_h_a1 chlg cred nonce_value =
     (case dc_algorithm chlg of
        None \<Rightarrow> Inl Undefined
      | Some alg \<Rightarrow>
          let h_usrepa = get_md5_str (xstrcat [Some (dr_username cred), Some '':'', dc_realm chlg, Some '':'', Some (dr_password cred)])
          in if lower alg = lower ''MD5'' then Inr (Some h_usrepa, cred)
             else if lower alg = lower ''MD5-sess'' then
               (case dr_h_a1 cred of
                  Some h \<Rightarrow> Inr (Some h, cred)
                | None \<Rightarrow>
                    let h = get_md5_str (xstrcat [Some h_usrepa, Some '':'', nonce_value, Some '':'', Some (dr_cnonce cred)])
                    in Inr (Some h, cred\<lparr>dr_h_a1 := Some h\<rparr>))
             else Inr (None, cred))"

function str_list_contains :: "string \<Rightarrow> string \<Rightarrow> nat \<Rightarrow> bool" where
  "str_list_contains str pattern n =
     (if strncmp str pattern n = 0 \<and> c_at str n \<in> {CHR '','', NUL} then True
      else
        (case dropWhile (\<lambda>c. c \<noteq> CHR '','') str of [] \<Rightarrow> False | c # r \<Rightarrow> str_list_contains r pattern n))"
  by pat_completeness auto
termination
proof (relation "measure (\<lambda>(str, pattern, n). length str)")
  fix str pattern :: string and n x r
  assume "dropWhile (\<lambda>c. c \<noteq> CHR '','') str = x # r"
  then have "length r < length str" using length_dropWhile_le [of "\<lambda>c. c \<noteq> CHR '',''" str] by simp
  then show "((r, pattern, n), str, pattern, n) \<in> measure (\<lambda>(str, pattern, n). length str)" by simp
qed simp

declare str_list_contains.simps [simp del]

definition quote :: "string \<Rightarrow> string" where
  "quote s = [DQ] @ s @ [DQ]"

text \<open>
  What depends on the quality of protection: the response, and the parameters that follow the
  algorithm.  \<open>None\<close> is the null pointer the function returns after a message.
\<close>

definition digest_parts :: "DCHLG \<Rightarrow> DCRED \<Rightarrow> string \<Rightarrow> string \<Rightarrow>
    ((string \<times> string \<times> string \<times> string) option \<times> DCRED) res" where
  "digest_parts chlg cred method uri =
     (let h_a2 = get_md5_str (xstrcat [Some method, Some '':'', Some uri]) in
      case dc_qop chlg of
        Some qop \<Rightarrow>
          rbind (get_h_a1 chlg cred (dc_nonce chlg)) (\<lambda>(h_a1, cred).
          Inr (if h_a1 \<noteq> None \<and> str_list_contains qop ''auth'' 4 then
                 (let digest = get_md5_str (xstrcat [h_a1, Some '':'', dc_nonce chlg, Some '':'', Some (dr_nc cred),
                        Some '':'', Some (dr_cnonce cred), Some '':auth:'', Some h_a2])
                  in (Some ('', response='' @ quote digest, '', qop=auth'', '', nc='' @ dr_nc cred,
                            '', cnonce='' @ quote (dr_cnonce cred)), cred))
               else (None, cred)))
      | None \<Rightarrow>
          rbind (get_h_a1 chlg cred (Some [])) (\<lambda>(h_a1, cred).
          Inr (if h_a1 \<noteq> None then
                 (let digest = get_md5_str (xstrcat [h_a1, Some '':'', dc_nonce chlg, Some '':'', Some h_a2])
                  in (Some ('' response='' @ quote digest, [], [], []), cred))
               else (None, cred))))"

definition auth_get_digest_header :: "SCHEME \<Rightarrow> DCHLG option \<Rightarrow> DCRED option \<Rightarrow> string \<Rightarrow> string \<Rightarrow> AUTH \<Rightarrow>
    (string option \<times> DCRED option \<times> AUTH) res" where
  "auth_get_digest_header scheme chlg cred method uri this =
     (case (chlg, cred) of
        (Some ch, Some cr) \<Rightarrow>
          rbind (digest_parts ch cr method uri) (\<lambda>(parts, cr).
          case parts of
            None \<Rightarrow> Inr (None, Some cr, this)
          | Some (response, qop, nonce_count, cnonce) \<Rightarrow>
              let opaque = (case dc_opaque ch of Some p \<Rightarrow> '', opaque='' @ quote p | None \<Rightarrow> []);
                  result = xstrcat
                    [Some (''Digest username='' @ [DQ]), Some (dr_username cr), Some ([DQ] @ '', realm='' @ [DQ]), dc_realm ch,
                     Some ([DQ] @ '', nonce='' @ [DQ]), dc_nonce ch, Some ([DQ] @ '', uri='' @ [DQ]), Some uri,
                     Some ([DQ] @ '', algorithm=''), dc_algorithm ch, Some response, Some opaque, Some qop,
                     Some nonce_count, Some cnonce];
                  cr = cr\<lparr>dr_nc_value := dr_nc_value cr + 1, dr_nc := hex8 (dr_nc_value cr + 1)\<rparr>
              in if scheme = PROXY then
                   (let h = take (length result + 31) (''Proxy-Authorization: '' @ result @ crlf)
                    in Inr (Some h, Some cr, this\<lparr>au_proxy := Some h\<rparr>))
                 else
                   (let h = take (length result + 31) (''Authorization: '' @ result @ crlf)
                    in Inr (Some h, Some cr, this\<lparr>au_digest := Some h\<rparr>)))
      | _ \<Rightarrow> Inr (Some [], cred, this))"

end
