(* ===== verification/Http_request.thy ===== *)
theory Http_request
  imports Http_response Auth
begin

text \<open>
  Sending a request (\<open>socket_write\<close> of \<open>siege-4.1.7/src/sock.c\<close>, \<open>http_get\<close>, \<open>http_post\<close> and the
  request for a tunnel of \<open>siege-4.1.7/src/http.c\<close>).  A request is written into blocks of fixed size
  on the stack; \<open>snprintf\<close> cuts what does not fit, \<open>sprintf\<close> and the cookie header do not, which is
  undefined.  What the calls of \<open>write\<close> return is an argument.  An encrypted connection is refused,
  the library being built without OpenSSL.
\<close>

section \<open>Writing\<close>

text \<open>\<open>Wrote w\<close> is a positive result of \<open>write\<close>; without a result left the call does not return.\<close>

datatype wrote = Wrote nat | Interrupted | Not_written

fun send_loop :: "string \<Rightarrow> wrote list \<Rightarrow> (string \<times> bool \<times> wrote list) option" where
  "send_loop buf ws =
     (if buf = [] then Some ([], True, ws)
      else
        (case ws of
           [] \<Rightarrow> None
         | Wrote w # ws \<Rightarrow>
             if w = 0 then Some ([], False, ws)
             else map_option (\<lambda>(sent, r). (take w buf @ sent, r)) (send_loop (drop w buf) ws)
         | Interrupted # ws \<Rightarrow> send_loop buf ws
         | Not_written # ws \<Rightarrow> Some ([], False, ws)))"

declare send_loop.simps [simp del]

text \<open>The bytes sent and whether the result is not negative.\<close>

definition socket_write :: "bool \<Rightarrow> string \<Rightarrow> wrote list \<Rightarrow> (string \<times> bool \<times> wrote list) option" where
  "socket_write encrypt buf ws = (if encrypt then Some ([], False, ws) else send_loop buf ws)"

section \<open>The state\<close>

text \<open>The part of \<open>my\<close> that is read here.\<close>

record http_conf =
  hc_protocol :: bool
  hc_get :: bool
  hc_print :: bool
  hc_cache :: bool
  hc_extra :: string
  hc_encoding :: string
  hc_uagent :: string
  hc_url :: url_conf

record request_conn = CONN +
  rc_encrypt :: bool
  rc_keepalive :: bool
  rc_www :: bool
  rc_www_type :: auth_type
  rc_wchlg :: "DCHLG option"
  rc_wcred :: "DCRED option"
  rc_proxy :: bool
  rc_proxy_type :: auth_type
  rc_pchlg :: "DCHLG option"
  rc_pcred :: "DCRED option"

record request_state =
  gs_conn :: request_conn
  gs_jar :: "NODE list"
  gs_auth :: AUTH

definition c_string :: "string option \<Rightarrow> string res" where
  "c_string s = (case s of None \<Rightarrow> Inl Undefined | Some t \<Rightarrow> Inr t)"

text \<open>What \<open>sprintf\<close> writes has to fit, what \<open>snprintf\<close> writes is cut.\<close>

definition fits :: "nat \<Rightarrow> string \<Rightarrow> string res" where
  "fits n s = (if length s < n then Inr s else Inl Undefined)"

definition cut :: "nat \<Rightarrow> string \<Rightarrow> string" where
  "cut n s = take (n - 1) s"

section \<open>The parts of a request\<close>

definition full_path :: "URL \<Rightarrow> request_state \<Rightarrow> string res" where
  "full_path U s =
     rbind (c_string (u_request U)) (\<lambda>req.
     if au_proxy_required (gs_auth s) then
       rbind (c_string (u_hostname U)) (\<lambda>host.
       fits (MAX_COOKIE_SIZE * 2)
         ((if rc_encrypt (gs_conn s) then ''https'' else ''http'') @ ''://'' @ host @ '':'' @ show_int (u_port U) @ req))
     else fits (MAX_COOKIE_SIZE * 2) req)"

definition protocol_text :: "http_conf \<Rightarrow> string" where
  "protocol_text my = (if \<not> hc_protocol my \<or> hc_get my \<or> hc_print my then ''HTTP/1.0'' else ''HTTP/1.1'')"

definition keepalive_text :: "request_state \<Rightarrow> string" where
  "keepalive_text s = (if rc_keepalive (gs_conn s) then ''keep-alive'' else ''close'')"

text \<open>The cookie header in a block of \<open>n\<close> bytes; it counts when it is longer than its label.\<close>

definition cookie_part :: "nat \<Rightarrow> jar_env \<Rightarrow> URL \<Rightarrow> request_state \<Rightarrow> (string \<times> request_state) res" where
  "cookie_part n e U s =
     rbind (c_string (u_hostname U)) (\<lambda>host.
     case cookies_header e host (gs_jar s) of
       (None, jar) \<Rightarrow> Inr ([], s\<lparr>gs_jar := jar\<rparr>)
     | (Some line, jar) \<Rightarrow> rbind (fits n line) (\<lambda>line. Inr (line, s\<lparr>gs_jar := jar\<rparr>)))"

text \<open>The two authorizations.  \<open>scheme\<close> is the one given to \<open>auth_get_digest_header\<close> for the proxy.\<close>

definition www_part :: "nat \<Rightarrow> URL \<Rightarrow> string \<Rightarrow> request_state \<Rightarrow> (string \<times> request_state) res" where
  "www_part n U path s =
     (let C = gs_conn s in
      if \<not> rc_www C then Inr ([], s)
      else
        (case rc_www_type C of
           DIGEST \<Rightarrow>
             rbind (auth_get_digest_header HTTP (rc_wchlg C) (rc_wcred C) (url_get_method_name U) path (gs_auth s)) (\<lambda>(h, cr, a).
             rbind (c_string h) (\<lambda>h. Inr (cut n h, s\<lparr>gs_conn := C\<lparr>rc_wcred := cr\<rparr>, gs_auth := a\<rparr>)))
         | NTLM \<Rightarrow> rbind (c_string (au_ntlm (gs_auth s))) (\<lambda>h. Inr (cut n h, s))
         | BASIC \<Rightarrow> Inr (cut n (auth_get_basic_header HTTP (gs_auth s)), s)))"

definition proxy_part :: "nat \<Rightarrow> SCHEME \<Rightarrow> URL \<Rightarrow> string \<Rightarrow> request_state \<Rightarrow> (string \<times> request_state) res" where
  "proxy_part n scheme U path s =
     (let C = gs_conn s in
      if \<not> rc_proxy C then Inr ([], s)
      else if rc_proxy_type C = DIGEST then
        rbind (auth_get_digest_header scheme (rc_pchlg C) (rc_pcred C) (url_get_method_name U) path (gs_auth s)) (\<lambda>(h, cr, a).
        rbind (c_string h) (\<lambda>h. Inr (cut n h, s\<lparr>gs_conn := C\<lparr>rc_pcred := cr\<rparr>, gs_auth := a\<rparr>)))
      else Inr (cut n (auth_get_basic_header PROXY (gs_auth s)), s))"

definition EXTRASZ :: nat where
  "EXTRASZ = 8192"

definition host_part :: "nat \<Rightarrow> http_conf \<Rightarrow> URL \<Rightarrow> string res" where
  "host_part n my U =
     rbind (strncasestr (hc_extra my) ''host:'' EXTRASZ) (\<lambda>found.
     if found \<noteq> None then Inr []
     else
       rbind (c_string (u_hostname U)) (\<lambda>host.
       Inr (cut n
         (if u_scheme U = HTTP \<and> u_port U \<noteq> 80 \<or> u_scheme U = HTTPS \<and> u_port U \<noteq> 443
          then ''Host: '' @ host @ '':'' @ show_int (u_port U) @ crlf
          else ''Host: '' @ host @ crlf))))"

definition accept_part :: "http_conf \<Rightarrow> string" where
  "accept_part my = (if ncase_eq (hc_extra my) ''Accept:'' 7 then [] else ''Accept: */*'' @ crlf)"

definition encoding_part :: "http_conf \<Rightarrow> string" where
  "encoding_part my =
     (if \<not> hc_get my \<or> \<not> hc_print my then cut 512 (''Accept-Encoding: '' @ hc_encoding my @ crlf) else [])"

definition if_any :: "string option \<Rightarrow> string" where
  "if_any s = (case s of None \<Rightarrow> [] | Some t \<Rightarrow> t)"

text \<open>
  A request \<open>text\<close> printed into a block of \<open>mlen\<close> bytes and \<open>body\<close> copied behind it: the bytes handed
  to \<open>socket_write\<close>.  A request that is longer than its block ends the program.
\<close>

definition request_bytes :: "nat \<Rightarrow> string \<Rightarrow> string res" where
  "request_bytes mlen text =
     (if text = [] \<or> length text > mlen then Inl (Runtime_error ''request buffer overrun'')
      else Inr (if length text < mlen then text else take (mlen - 1) text @ [NUL]))"

section \<open>GET\<close>

definition get_text :: "http_conf \<Rightarrow> URL \<Rightarrow> string \<Rightarrow> string \<Rightarrow> string \<Rightarrow> string \<Rightarrow> string \<Rightarrow> string option \<Rightarrow>
    string option \<Rightarrow> request_state \<Rightarrow> string" where
  "get_text my U path host www proxy cookie ifmod ifnon s =
     url_get_method_name U @ '' '' @ path @ '' '' @ protocol_text my @ crlf @
     host @ www @ proxy @ (if length cookie > 8 then cookie else []) @ if_any ifmod @ if_any ifnon @
     accept_part my @ encoding_part my @ ''User-Agent: '' @ hc_uagent my @ crlf @ hc_extra my @
     ''Connection: '' @ keepalive_text s @ crlf @ crlf"

definition get_mlen :: "http_conf \<Rightarrow> URL \<Rightarrow> string \<Rightarrow> string \<Rightarrow> string \<Rightarrow> string \<Rightarrow> string \<Rightarrow> string option \<Rightarrow>
    string option \<Rightarrow> request_state \<Rightarrow> nat" where
  "get_mlen my U path host www proxy cookie ifmod ifnon s =
     length (url_get_method_name U) + length path + length (protocol_text my) + length host + length www +
     length proxy + length cookie + length (if_any ifmod) + length (if_any ifnon) + length (accept_part my) + 512 +
     length (hc_uagent my) + length (hc_extra my) + length (keepalive_text s) + 128"

text \<open>The bytes of the request and the state they leave.\<close>

definition http_get_request :: "http_conf \<Rightarrow> time_env \<Rightarrow> jar_env \<Rightarrow> URL \<Rightarrow> request_state \<Rightarrow> (string \<times> request_state) res" where
  "http_get_request my tenv jenv U s =
     rbind (cache_get_header (hc_cache my) tenv (co_cache (gs_conn s)) C_ETAG (u_request U)) (\<lambda>(ca, ifnon).
     rbind (cache_get_header (hc_cache my) tenv ca C_LAST (u_request U)) (\<lambda>(ca, ifmod).
     let s = s\<lparr>gs_conn := (gs_conn s)\<lparr>co_cache := ca\<rparr>\<rparr> in
     rbind (full_path U s) (\<lambda>path.
     rbind (cookie_part (MAX_COOKIE_SIZE + 8) jenv U s) (\<lambda>(cookie, s).
     rbind (www_part 512 U path s) (\<lambda>(www, s).
     rbind (proxy_part 512 PROXY U path s) (\<lambda>(proxy, s).
     rbind (host_part 512 my U) (\<lambda>host.
     rbind (request_bytes (get_mlen my U path host www proxy cookie ifmod ifnon s)
              (get_text my U path host www proxy cookie ifmod ifnon s)) (\<lambda>bytes.
     Inr (bytes, s)))))))))"

text \<open>Sending: the result, the bytes on the wire, and the state.\<close>

definition send_request :: "(string \<times> request_state) res \<Rightarrow> wrote list \<Rightarrow> (bool \<times> string \<times> request_state) res option" where
  "send_request request ws =
     (case request of
        Inl e \<Rightarrow> Some (Inl e)
      | Inr (bytes, s) \<Rightarrow>
          map_option (\<lambda>(sent, done, ws). Inr (done, sent, s)) (socket_write (rc_encrypt (gs_conn s)) bytes ws))"

definition http_get :: "http_conf \<Rightarrow> time_env \<Rightarrow> jar_env \<Rightarrow> URL \<Rightarrow> request_state \<Rightarrow> wrote list \<Rightarrow>
    (bool \<times> string \<times> request_state) res option" where
  "http_get my tenv jenv U s ws = send_request (http_get_request my tenv jenv U s) ws"

section \<open>POST\<close>

definition post_text :: "http_conf \<Rightarrow> URL \<Rightarrow> string \<Rightarrow> string \<Rightarrow> string \<Rightarrow> string \<Rightarrow> string \<Rightarrow> string \<Rightarrow> request_state \<Rightarrow> string" where
  "post_text my U path host www proxy cookie conttype s =
     url_get_method_name U @ '' '' @ path @ '' '' @ protocol_text my @ crlf @
     host @ www @ proxy @ (if length cookie > 8 then cookie else []) @
     accept_part my @ encoding_part my @ ''User-Agent: '' @ hc_uagent my @ crlf @ hc_extra my @
     ''Connection: '' @ keepalive_text s @ crlf @ ''Content-Type: '' @ conttype @ crlf @
     ''Content-Length: '' @ show_nat (u_postlen U) @ crlf @ crlf"

definition post_mlen :: "http_conf \<Rightarrow> URL \<Rightarrow> string \<Rightarrow> string \<Rightarrow> string \<Rightarrow> string \<Rightarrow> string \<Rightarrow> string \<Rightarrow> request_state \<Rightarrow> nat" where
  "post_mlen my U path host www proxy cookie conttype s =
     length (url_get_method_name U) + length path + length (protocol_text my) + length host + length www +
     length proxy + length cookie + length (accept_part my) + 512 + length (hc_uagent my) + length conttype +
     length (hc_extra my) + length (keepalive_text s) + u_postlen U + 128"

text \<open>The body is copied when the head fits; a NUL is stored behind it.\<close>

definition post_bytes :: "nat \<Rightarrow> string \<Rightarrow> URL \<Rightarrow> string res" where
  "post_bytes mlen text U =
     (let data = if_any (u_postdata U); n = u_postlen U in
      if length text < mlen then
        (if length data < n \<or> mlen \<le> length text + n then Inl Undefined else Inr (text @ take n data))
      else if length text + n > mlen then Inl (Runtime_error ''request buffer overrun'')
      else Inr (take (mlen - 1) text @ [NUL]))"

definition http_post_request :: "http_conf \<Rightarrow> jar_env \<Rightarrow> URL \<Rightarrow> request_state \<Rightarrow> (string \<times> request_state) res" where
  "http_post_request my jenv U s =
     rbind (full_path U s) (\<lambda>path.
     rbind (cookie_part MAX_COOKIE_SIZE jenv U s) (\<lambda>(cookie, s).
     rbind (www_part 128 U path s) (\<lambda>(www, s).
     rbind (proxy_part 128 HTTP U path s) (\<lambda>(proxy, s).
     rbind (host_part 128 my U) (\<lambda>host.
     let conttype = fst (url_get_conttype (hc_url my) U) in
     rbind (post_bytes (post_mlen my U path host www proxy cookie conttype s)
              (post_text my U path host www proxy cookie conttype s) U) (\<lambda>bytes.
     Inr (bytes, s)))))))"

definition http_post :: "http_conf \<Rightarrow> jar_env \<Rightarrow> URL \<Rightarrow> request_state \<Rightarrow> wrote list \<Rightarrow> (bool \<times> string \<times> request_state) res option" where
  "http_post my jenv U s ws = send_request (http_post_request my jenv U s) ws"

section \<open>The tunnel\<close>

definition https_tunnel_request :: "string \<Rightarrow> int \<Rightarrow> AUTH \<Rightarrow> request_conn \<Rightarrow> wrote list \<Rightarrow> (bool \<times> string \<times> request_conn) option" where
  "https_tunnel_request host port auth C ws =
     (if rc_encrypt C \<and> auth_get_proxy_required (Some auth) then
        map_option (\<lambda>(sent, done, ws). (done, sent, C\<lparr>rc_encrypt := False\<rparr>))
          (socket_write False
            (cut 256 (''CONNECT '' @ host @ '':'' @ show_int port @ '' HTTP/1.0'' @ crlf @ ''User-agent: Proxy-User'' @ crlf @ crlf)) ws)
      else Some (False, [], C))"

text \<open>
  A line of the answer in a block of 256 bytes, read from the descriptor itself; \<open>k\<close> bytes of the
  block are left.  True is an empty line.
\<close>

fun tunnel_line :: "nat \<Rightarrow> string \<Rightarrow> wire \<Rightarrow> (bool \<times> string \<times> wire) res" where
  "tunnel_line 0 line c = Inl Undefined"
| "tunnel_line (Suc k) line c =
     (case net_read 1 c of
        (got, c) \<Rightarrow>
          if got = None \<or> got = Some [] then Inr (False, line, c)
          else
            (let ch = hd (the got); line' = line @ [ch] in
             if hd line' = LF \<or> take 1 (tl line') = [LF] then Inr (True, line', c)
             else if ch = LF then Inr (False, line, c)
             else tunnel_line k line' c))"

partial_function (option) https_tunnel_response :: "int \<Rightarrow> wire \<Rightarrow> (int \<times> wire) res option" where
  "https_tunnel_response code c =
     (case tunnel_line 256 [] c of
        Inl e \<Rightarrow> Some (Inl e)
      | Inr (blank, line, c) \<Rightarrow>
          if blank then Some (Inr (code, c))
          else if ncase_eq (c_str line) ''http'' 4 then
            (case atoi (c_str (drop 9 line)) of Inl e \<Rightarrow> Some (Inl e) | Inr code \<Rightarrow> https_tunnel_response code c)
          else https_tunnel_response code c)"

end
