(* ===== verification/Auth_properties.thy ===== *)
theory Auth_properties
  imports Auth Response_properties
begin

text \<open>
  Properties of siege's authentication: a digest challenge is parsed into its parameters, the answers
  to it are those of RFC 2617 with a count that goes up with every request, and the basic header
  holds the credentials of the realm.
\<close>

section \<open>The challenge\<close>

definition key_ok :: "string \<Rightarrow> bool" where
  "key_ok k = (k \<noteq> [] \<and> list_all (\<lambda>c. c \<noteq> CHR ''='' \<and> c \<noteq> CHR '','' \<and> \<not> is_space c) k)"

text \<open>A value written in quotes or as a token.\<close>

definition text_ok :: "bool \<Rightarrow> string \<Rightarrow> bool" where
  "text_ok q v =
     (if q then list_all (\<lambda>c. c \<noteq> DQ \<and> c \<noteq> CHR 0x5C) v
      else v \<noteq> [] \<and> hd v \<noteq> DQ \<and> list_all (\<lambda>c. c \<noteq> CHR '','' \<and> \<not> is_space c) v)"

definition param_ok :: "string \<times> string \<times> bool \<Rightarrow> bool" where
  "param_ok p = (case p of (k, v, q) \<Rightarrow> key_ok k \<and> text_ok q v)"

definition param_text :: "string \<times> string \<times> bool \<Rightarrow> string \<times> string" where
  "param_text p = (case p of (k, v, q) \<Rightarrow> (k, if q then quote v else v))"

lemma blank_bytes: "is_space SP" "\<not> is_space (CHR ''='')" "\<not> is_space (CHR '','')" "\<not> is_space DQ"
  by code_simp+

lemma quoted_plain: "list_all (\<lambda>c. c \<noteq> DQ \<and> c \<noteq> CHR 0x5C) v \<Longrightarrow> quoted (v @ DQ # r) = (v, DQ # r)"
  by (induction v) auto

lemma dropWhile_inside: "list_all P k \<Longrightarrow> \<not> P c \<Longrightarrow> dropWhile P (k @ c # r) = c # r"
  and takeWhile_inside: "list_all P k \<Longrightarrow> \<not> P c \<Longrightarrow> takeWhile P (k @ c # r) = k"
  by (induction k) auto

lemma find_key_text: "key_ok k \<Longrightarrow> find_key (k @ CHR ''='' # r) = (k, CHR ''='' # r)"
proof -
  assume k: "key_ok k"
  let ?in = "\<lambda>c. c \<noteq> CHR ''='' \<and> c \<noteq> CHR '','' \<and> \<not> is_space c"
  from k have in_k: "list_all ?in k" and "\<not> is_space (hd k)" "k \<noteq> []" by (auto simp: key_ok_def list_all_iff)
  then have "dropWhile is_space (k @ CHR ''='' # r) = k @ CHR ''='' # r" by (cases k) auto
  moreover have "takeWhile ?in (k @ CHR ''='' # r) = k" by (rule takeWhile_inside [OF in_k]) simp
  moreover have "dropWhile ?in (k @ CHR ''='' # r) = CHR ''='' # r" by (rule dropWhile_inside [OF in_k]) simp
  ultimately show ?thesis by (simp only: find_key_def Let_def) (simp add: blank_bytes)
qed

lemma find_value_text:
  assumes "text_ok q v" "r = [] \<or> hd r = CHR '',''"
  shows "find_value (CHR ''='' # snd (param_text (k, v, q)) @ r) = (Some v, r)"
proof (cases q)
  case True
  then have "quoted (v @ DQ # r) = (v, DQ # r)" using assms(1) by (intro quoted_plain) (simp add: text_ok_def)
  with True show ?thesis by (simp add: find_value_def param_text_def quote_def blank_bytes)
next
  case False
  let ?in = "\<lambda>c. c \<noteq> CHR '','' \<and> \<not> is_space c"
  obtain x xs where v: "v = x # xs" using assms(1) False by (cases v) (auto simp: text_ok_def)
  have x: "x \<noteq> DQ" "\<not> is_space x" and all: "list_all ?in v" using assms(1) False by (auto simp: text_ok_def v)
  have tw: "takeWhile ?in (v @ r) = v" "dropWhile ?in (v @ r) = r"
    using assms(2) takeWhile_inside [OF all, of "CHR '',''" "tl r"] dropWhile_inside [OF all, of "CHR '',''" "tl r"] all
    by (cases r; auto simp: list_all_iff)+
  have "find_value (CHR ''='' # v @ r) = (Some (takeWhile ?in (v @ r)), dropWhile ?in (v @ r))"
    using x by (simp add: find_value_def v)
  with tw False show ?thesis by (simp add: param_text_def)
qed

lemma next_param_text:
  assumes "key_ok k" "text_ok q v" "r = [] \<or> hd r = CHR '',''"
  shows "next_param (k @ CHR ''='' # snd (param_text (k, v, q)) @ r) = (k, Some v, tl r)"
  using find_key_text [OF assms(1)] find_value_text [OF assms(2,3)] assms(3)
  by (cases r) (simp_all add: next_param_def)

lemma next_param_blank: "next_param (SP # s) = next_param s"
  by (simp add: next_param_def find_key_def blank_bytes)

lemma challenge_loop_step:
  "s \<noteq> [] \<Longrightarrow> next_param s = (k, v, r) \<Longrightarrow> challenge_loop s c = challenge_loop r (set_key k v c)"
  by (subst challenge_loop.simps) simp

lemma challenge_loop_blank: "s \<noteq> [] \<Longrightarrow> challenge_loop (SP # s) c = challenge_loop s c"
  by (subst (1 2) challenge_loop.simps) (simp add: next_param_blank)

lemma params_text_cons:
  "kvs \<noteq> [] \<Longrightarrow> params_text (kv # kvs) = fst kv @ CHR ''='' # snd kv @ '', '' @ params_text kvs"
  by (cases kvs; cases kv) simp_all

lemma challenge_loop_text:
  "list_all param_ok kvs \<Longrightarrow>
     challenge_loop (params_text (map param_text kvs)) c = fold (\<lambda>(k, v, q). set_key k (Some v)) kvs c"
proof (induction kvs arbitrary: c)
  case Nil
  then show ?case by (simp add: challenge_loop.simps)
next
  case (Cons p kvs)
  obtain k v q where p: "p = (k, v, q)" by (cases p)
  have ok: "key_ok k" "text_ok q v" using Cons.prems by (simp_all add: p param_ok_def)
  let ?t = "snd (param_text (k, v, q))"
  show ?case
  proof (cases kvs)
    case Nil
    have "challenge_loop (k @ CHR ''='' # ?t @ []) c = challenge_loop (tl []) (set_key k (Some v) c)"
      by (rule challenge_loop_step [OF _ next_param_text [OF ok]]) simp_all
    then show ?thesis by (simp add: Nil p param_text_def challenge_loop.simps)
  next
    case (Cons p' kvs')
    let ?r = "params_text (map param_text kvs)"
    obtain k' v' q' where p': "p' = (k', v', q')" by (cases p')
    have ne: "?r \<noteq> []" by (cases kvs') (simp_all add: Cons p' param_text_def)
    have "challenge_loop (k @ CHR ''='' # ?t @ '', '' @ ?r) c = challenge_loop (tl ('', '' @ ?r)) (set_key k (Some v) c)"
      by (rule challenge_loop_step [OF _ next_param_text [OF ok]]) simp_all
    also have "\<dots> = challenge_loop ?r (set_key k (Some v) c)" by (simp add: challenge_loop_blank [OF ne])
    also have "\<dots> = fold (\<lambda>(k, v, q). set_key k (Some v)) kvs (set_key k (Some v) c)"
      using Cons.IH Cons.prems by simp
    finally show ?thesis
      using params_text_cons [of "map param_text kvs" "param_text p"] by (simp add: Cons p) (simp add: param_text_def)
  qed
qed

lemma digest_challenge_word:
  assumes "list_all (\<lambda>c. \<not> is_space c) w" "ncase_eq ''Digest'' w (length w)"
  shows "digest_challenge (w @ SP # t) = Some (challenge_loop (dropWhile is_space t) no_challenge)"
proof -
  have "takeWhile (\<lambda>c. \<not> is_space c) (w @ SP # t) = w" by (rule takeWhile_inside [OF assms(1)]) (simp add: blank_bytes)
  moreover have "ncase_eq ''Digest'' (w @ SP # t) (length w)" using assms(2) by (simp add: ncase_eq_def lower_def)
  ultimately show ?thesis by (simp add: digest_challenge_def Let_def blank_bytes)
qed

text \<open>The value of the last parameter of a name, in any case.\<close>

definition last_value :: "(string \<times> string \<times> bool) list \<Rightarrow> string \<Rightarrow> string option" where
  "last_value kvs name = map_of (rev (map (\<lambda>(k, v, q). (lower k, v)) kvs)) name"

lemma set_key_fields:
  "dc_realm (set_key k v c) = (if lower k = ''realm'' then v else dc_realm c)"
  "dc_domain (set_key k v c) = (if lower k = ''domain'' then v else dc_domain c)"
  "dc_nonce (set_key k v c) = (if lower k = ''nonce'' then v else dc_nonce c)"
  "dc_opaque (set_key k v c) = (if lower k = ''opaque'' then v else dc_opaque c)"
  "dc_stale (set_key k v c) = (if lower k = ''stale'' then v else dc_stale c)"
  "dc_algorithm (set_key k v c) = (if lower k = ''algorithm'' then v else dc_algorithm c)"
  "dc_qop (set_key k v c) = (if lower k = ''qop'' then v else dc_qop c)"
proof -
  have names: "lower ''realm'' = ''realm''" "lower ''domain'' = ''domain''" "lower ''nonce'' = ''nonce''"
    "lower ''opaque'' = ''opaque''" "lower ''stale'' = ''stale''" "lower ''algorithm'' = ''algorithm''" "lower ''qop'' = ''qop''"
    by code_simp+
  show "dc_realm (set_key k v c) = (if lower k = ''realm'' then v else dc_realm c)"
    "dc_domain (set_key k v c) = (if lower k = ''domain'' then v else dc_domain c)"
    "dc_nonce (set_key k v c) = (if lower k = ''nonce'' then v else dc_nonce c)"
    "dc_opaque (set_key k v c) = (if lower k = ''opaque'' then v else dc_opaque c)"
    "dc_stale (set_key k v c) = (if lower k = ''stale'' then v else dc_stale c)"
    "dc_algorithm (set_key k v c) = (if lower k = ''algorithm'' then v else dc_algorithm c)"
    "dc_qop (set_key k v c) = (if lower k = ''qop'' then v else dc_qop c)"
    by (simp_all add: set_key_def get_keyval_def keyparser_def names)
qed

lemma last_value_snoc: "last_value (kvs @ [(k, v, q)]) name = (if lower k = name then Some v else last_value kvs name)"
  by (simp add: last_value_def)

lemma fold_set_key:
  "dc_realm (fold (\<lambda>(k, v, q). set_key k (Some v)) kvs no_challenge) = last_value kvs ''realm''"
  "dc_domain (fold (\<lambda>(k, v, q). set_key k (Some v)) kvs no_challenge) = last_value kvs ''domain''"
  "dc_nonce (fold (\<lambda>(k, v, q). set_key k (Some v)) kvs no_challenge) = last_value kvs ''nonce''"
  "dc_opaque (fold (\<lambda>(k, v, q). set_key k (Some v)) kvs no_challenge) = last_value kvs ''opaque''"
  "dc_stale (fold (\<lambda>(k, v, q). set_key k (Some v)) kvs no_challenge) = last_value kvs ''stale''"
  "dc_algorithm (fold (\<lambda>(k, v, q). set_key k (Some v)) kvs no_challenge) = last_value kvs ''algorithm''"
  "dc_qop (fold (\<lambda>(k, v, q). set_key k (Some v)) kvs no_challenge) = last_value kvs ''qop''"
  by (induction kvs rule: rev_induct)
    (simp_all add: no_challenge_def last_value_def, simp_all add: set_key_fields split: prod.split)



section \<open>The answer\<close>

definition md5_hex :: "string \<Rightarrow> string" where
  "md5_hex m = hex_of (md5_spec m)"

text \<open>The hash of the user and the response of RFC 2617, section 3.2.2.\<close>

definition digest_ha1 :: "bool \<Rightarrow> string \<Rightarrow> string \<Rightarrow> string \<Rightarrow> string \<Rightarrow> string \<Rightarrow> string" where
  "digest_ha1 sess user realm password nonce cnonce =
     (let h = md5_hex (user @ '':'' @ realm @ '':'' @ password)
      in if sess then md5_hex (h @ '':'' @ nonce @ '':'' @ cnonce) else h)"

definition digest_response :: "string \<Rightarrow> string \<Rightarrow> string \<Rightarrow> string \<Rightarrow> string \<Rightarrow> string \<Rightarrow> string" where
  "digest_response ha1 nonce nc cnonce method uri =
     md5_hex (ha1 @ '':'' @ nonce @ '':'' @ nc @ '':'' @ cnonce @ '':auth:'' @ md5_hex (method @ '':'' @ uri))"

lemma get_md5_str: "length m < 2 ^ 32 \<Longrightarrow> get_md5_str m = md5_hex m"
  using md5_buffer_spec [of m True] by (simp add: get_md5_str_def md5_hex_def md5_buffer_def)

lemma length_hex_of: "length (hex_of h) = 2 * length h"
  by (induction h) (simp_all add: hex_of_def)

lemma length_md5_hex [simp]: "length (md5_hex m) = 32"
  by (simp add: md5_hex_def length_hex_of md5_spec_def Let_def split: prod.split)

lemma xstrcat_Cons [simp]: "xstrcat [] = []" "xstrcat (Some a # as) = a @ xstrcat as" "xstrcat (None # as) = []"
  by (simp_all add: xstrcat_def)

text \<open>\<open>auth\<close> is found among the words of a list with commas.\<close>

lemma strncmp_auth: "strncmp (''auth'' @ post) ''auth'' 4 = 0"
  by (simp add: eval_nat_numeral)

lemma str_list_contains_auth:
  assumes "pre = [] \<or> last pre = CHR '',''" "post = [] \<or> hd post = CHR '',''"
  shows "str_list_contains (pre @ ''auth'' @ post) ''auth'' 4"
  using assms(1)
proof (induction pre rule: length_induct)
  case (1 pre)
  show ?case
  proof (cases "pre = []")
    case True
    have "c_at (''auth'' @ post) 4 \<in> {CHR '','', NUL}" using assms(2) by (cases post) (auto simp: c_at_def nth_append)
    with True strncmp_auth show ?thesis by (subst str_list_contains.simps) simp
  next
    case False
    then have "CHR '','' \<in> set pre" using 1(2) last_in_set [OF False] by auto
    then obtain a r where pre: "pre = a @ CHR '','' # r" "CHR '','' \<notin> set a" by (meson split_list_first)
    have all: "list_all (\<lambda>c. c \<noteq> CHR '','') a" using pre(2) by (auto simp: list_all_iff)
    have "dropWhile (\<lambda>c. c \<noteq> CHR '','') (pre @ ''auth'' @ post) = CHR '','' # r @ ''auth'' @ post"
      using dropWhile_inside [OF all, of "CHR '',''" "r @ ''auth'' @ post"] by (simp add: pre(1))
    moreover have "str_list_contains (r @ ''auth'' @ post) ''auth'' 4"
      using 1(1) [rule_format, of r] 1(2) by (cases "r = []") (simp_all add: pre(1))
    ultimately show ?thesis by (subst str_list_contains.simps) simp
  qed
qed

text \<open>
  A challenge with \<open>qop\<close> and a nonce, and the credentials that answer it.  \<open>sess\<close> is the algorithm
  \<open>MD5-sess\<close>.
\<close>

record digest_env =
  de_sess :: bool
  de_realm :: string
  de_nonce :: string
  de_opaque :: "string option"
  de_user :: string
  de_password :: string
  de_cnonce :: string

definition de_algorithm :: "digest_env \<Rightarrow> string" where
  "de_algorithm e = (if de_sess e then ''MD5-sess'' else ''MD5'')"

definition de_ha1 :: "digest_env \<Rightarrow> string" where
  "de_ha1 e = digest_ha1 (de_sess e) (de_user e) (de_realm e) (de_password e) (de_nonce e) (de_cnonce e)"

definition challenges :: "digest_env \<Rightarrow> DCHLG \<Rightarrow> bool" where
  "challenges e ch =
     (dc_realm ch = Some (de_realm e) \<and> dc_nonce ch = Some (de_nonce e) \<and> dc_opaque ch = de_opaque e \<and>
      dc_algorithm ch = Some (de_algorithm e) \<and>
      (\<exists>pre post. dc_qop ch = Some (pre @ ''auth'' @ post) \<and> (pre = [] \<or> last pre = CHR '','') \<and>
         (post = [] \<or> hd post = CHR '','')))"

definition answers_with :: "digest_env \<Rightarrow> nat \<Rightarrow> DCRED \<Rightarrow> bool" where
  "answers_with e n cr =
     (dr_username cr = de_user e \<and> dr_password cr = de_password e \<and> dr_cnonce cr = de_cnonce e \<and>
      dr_nc_value cr = of_nat (Suc n) \<and> dr_nc cr = hex8 (of_nat (Suc n)) \<and>
      (if de_sess e then dr_h_a1 cr \<in> {None, Some (de_ha1 e)} else True))"

definition env_small :: "digest_env \<Rightarrow> bool" where
  "env_small e = (length (de_user e) + length (de_realm e) + length (de_password e) + length (de_nonce e) + length (de_cnonce e) < 2 ^ 31)"

definition digest_params :: "digest_env \<Rightarrow> string \<Rightarrow> string \<Rightarrow> string \<Rightarrow> (string \<times> string) list" where
  "digest_params e nc method uri =
     [(''username'', quote (de_user e)), (''realm'', quote (de_realm e)), (''nonce'', quote (de_nonce e)), (''uri'', quote uri),
      (''algorithm'', de_algorithm e),
      (''response'', quote (digest_response (de_ha1 e) (de_nonce e) nc (de_cnonce e) method uri))] @
     (case de_opaque e of Some p \<Rightarrow> [(''opaque'', quote p)] | None \<Rightarrow> []) @
     [(''qop'', ''auth''), (''nc'', nc), (''cnonce'', quote (de_cnonce e))]"

definition digest_line :: "SCHEME \<Rightarrow> digest_env \<Rightarrow> string \<Rightarrow> string \<times> string \<Rightarrow> string" where
  "digest_line scheme e nc req =
     (if scheme = PROXY then ''Proxy-Authorization: '' else ''Authorization: '') @ ''Digest '' @
     params_text (digest_params e nc (fst req) (snd req)) @ crlf"

lemma algorithm_names: "lower ''MD5-sess'' \<noteq> lower ''MD5''"
  by code_simp

lemma get_h_a1_answer:
  assumes "challenges e ch" "answers_with e n cr" "env_small e"
  shows "get_h_a1 ch cr (Some (de_nonce e)) =
    Inr (Some (de_ha1 e), cr\<lparr>dr_h_a1 := if de_sess e then Some (de_ha1 e) else dr_h_a1 cr\<rparr>)"
proof -
  let ?h = "md5_hex (de_user e @ '':'' @ de_realm e @ '':'' @ de_password e)"
  have 1: "get_md5_str (de_user e @ '':'' @ de_realm e @ '':'' @ de_password e) = ?h"
    by (rule get_md5_str) (use assms(3) in \<open>simp add: env_small_def\<close>)
  have 2: "get_md5_str (?h @ '':'' @ de_nonce e @ '':'' @ de_cnonce e) = md5_hex (?h @ '':'' @ de_nonce e @ '':'' @ de_cnonce e)"
    by (rule get_md5_str) (use assms(3) in \<open>simp add: env_small_def\<close>)
  show ?thesis
  proof (cases "de_sess e")
    case True
    then have ha1: "de_ha1 e = md5_hex (?h @ '':'' @ de_nonce e @ '':'' @ de_cnonce e)"
      by (simp add: de_ha1_def digest_ha1_def Let_def)
    show ?thesis
      using assms(1,2) True 1 2 algorithm_names
      by (cases "dr_h_a1 cr") (simp_all add: get_h_a1_def challenges_def answers_with_def de_algorithm_def Let_def ha1)
  next
    case False
    then have ha1: "de_ha1 e = ?h" by (simp add: de_ha1_def digest_ha1_def Let_def)
    show ?thesis
      using assms(1,2) False 1 by (simp add: get_h_a1_def challenges_def answers_with_def de_algorithm_def Let_def ha1)
  qed
qed

lemma length_hex8 [simp]: "length (hex8 w) = 8"
  by (simp add: hex8_def)

lemma length_de_ha1 [simp]: "length (de_ha1 e) = 32"
  by (simp add: de_ha1_def digest_ha1_def Let_def)

lemma digest_parts_answer:
  assumes "challenges e ch" "answers_with e n cr" "env_small e" "length method + length uri < 2 ^ 31"
  shows "digest_parts ch cr method uri =
    Inr (Some ('', response='' @ quote (digest_response (de_ha1 e) (de_nonce e) (dr_nc cr) (de_cnonce e) method uri),
           '', qop=auth'', '', nc='' @ dr_nc cr, '', cnonce='' @ quote (de_cnonce e)),
         cr\<lparr>dr_h_a1 := if de_sess e then Some (de_ha1 e) else dr_h_a1 cr\<rparr>)"
proof -
  let ?h2 = "md5_hex (method @ '':'' @ uri)"
  let ?m = "de_ha1 e @ '':'' @ de_nonce e @ '':'' @ dr_nc cr @ '':'' @ de_cnonce e @ '':auth:'' @ ?h2"
  obtain qop where qop: "dc_qop ch = Some qop" "str_list_contains qop ''auth'' 4"
    using assms(1) str_list_contains_auth by (auto simp: challenges_def)
  have 1: "get_md5_str (method @ '':'' @ uri) = ?h2" by (rule get_md5_str) (use assms(4) in simp)
  have 2: "get_md5_str ?m = md5_hex ?m"
    by (rule get_md5_str) (use assms(2,3) in \<open>simp add: env_small_def answers_with_def\<close>)
  have nonce: "dc_nonce ch = Some (de_nonce e)" "dr_cnonce cr = de_cnonce e"
    using assms(1,2) by (simp_all add: challenges_def answers_with_def)
  show ?thesis
    using get_h_a1_answer [OF assms(1-3)] qop 1 2 by (simp add: digest_parts_def nonce digest_response_def)
qed

lemma params_text_append:
  "kvs \<noteq> [] \<Longrightarrow> kvs' \<noteq> [] \<Longrightarrow> params_text (kvs @ kvs') = params_text kvs @ '', '' @ params_text kvs'"
proof (induction kvs)
  case (Cons kv kvs)
  then show ?case by (cases "kvs = []"; cases kv) (simp_all add: params_text_cons)
qed simp

lemma digest_step:
  assumes "challenges e ch" "answers_with e n cr" "env_small e" "length (fst req) + length (snd req) < 2 ^ 31"
  shows "\<exists>cr' this'. auth_get_digest_header scheme (Some ch) (Some cr) (fst req) (snd req) this =
      Inr (Some (digest_line scheme e (hex8 (of_nat (Suc n))) req), Some cr', this') \<and> answers_with e (Suc n) cr'"
proof -
  let ?nc = "hex8 (of_nat (Suc n))"
  let ?cr = "cr\<lparr>dr_h_a1 := if de_sess e then Some (de_ha1 e) else dr_h_a1 cr\<rparr>"
  have nc: "dr_nc cr = ?nc" using assms(2) by (simp add: answers_with_def)
  note parts = digest_parts_answer [OF assms(1-3), of "fst req" "snd req", unfolded nc]
  obtain qop where f: "dc_realm ch = Some (de_realm e)" "dc_nonce ch = Some (de_nonce e)" "dc_opaque ch = de_opaque e"
    "dc_algorithm ch = Some (de_algorithm e)" "dr_username ?cr = de_user e"
    using assms(1,2) by (auto simp: challenges_def answers_with_def)
  let ?r = "''Digest '' @ params_text (digest_params e ?nc (fst req) (snd req))"
  have result: "xstrcat
      [Some (''Digest username='' @ [DQ]), Some (de_user e), Some ([DQ] @ '', realm='' @ [DQ]), Some (de_realm e),
       Some ([DQ] @ '', nonce='' @ [DQ]), Some (de_nonce e), Some ([DQ] @ '', uri='' @ [DQ]), Some (snd req),
       Some ([DQ] @ '', algorithm=''), Some (de_algorithm e),
       Some ('', response='' @ quote (digest_response (de_ha1 e) (de_nonce e) ?nc (de_cnonce e) (fst req) (snd req))),
       Some (case de_opaque e of Some p \<Rightarrow> '', opaque='' @ quote p | None \<Rightarrow> []), Some '', qop=auth'',
       Some ('', nc='' @ ?nc), Some ('', cnonce='' @ quote (de_cnonce e))] = ?r"
    by (cases "de_opaque e") (simp_all add: digest_params_def quote_def)
  have "answers_with e (Suc n) (?cr\<lparr>dr_nc_value := dr_nc_value ?cr + 1, dr_nc := hex8 (dr_nc_value ?cr + 1)\<rparr>)"
    using assms(2) by (auto simp: answers_with_def add.commute)
  moreover have "take (length ?r + 31) (''Proxy-Authorization: '' @ ?r @ crlf) = ''Proxy-Authorization: '' @ ?r @ crlf"
    "take (length ?r + 31) (''Authorization: '' @ ?r @ crlf) = ''Authorization: '' @ ?r @ crlf"
    by (simp_all add: crlf_def)
  ultimately show ?thesis
    using parts assms(4) f result
    by (cases "scheme = PROXY") (simp_all add: auth_get_digest_header_def digest_line_def Let_def)
qed

text \<open>The header lines of a list of requests, the credentials handed on from one to the next.\<close>

fun digest_session :: "SCHEME \<Rightarrow> DCHLG \<Rightarrow> (string \<times> string) list \<Rightarrow> DCRED \<Rightarrow> AUTH \<Rightarrow> string list res" where
  "digest_session scheme ch [] cr this = Inr []"
| "digest_session scheme ch (req # reqs) cr this =
     rbind (auth_get_digest_header scheme (Some ch) (Some cr) (fst req) (snd req) this) (\<lambda>(h, cr', this').
     rbind (digest_session scheme ch reqs (the cr') this') (\<lambda>hs. Inr (the h # hs)))"

lemma digest_session_from:
  assumes "challenges e ch" "answers_with e n cr" "env_small e" "list_all (\<lambda>req. length (fst req) + length (snd req) < 2 ^ 31) reqs"
  shows "digest_session scheme ch reqs cr this =
    Inr (map (\<lambda>(i, req). digest_line scheme e (hex8 (of_nat (Suc i))) req) (enumerate n reqs))"
  using assms(2,4)
proof (induction reqs arbitrary: n cr this)
  case (Cons req reqs)
  from Cons.prems(2) have small: "length (fst req) + length (snd req) < 2 ^ 31"
    and rest: "list_all (\<lambda>req. length (fst req) + length (snd req) < 2 ^ 31) reqs" by simp_all
  obtain cr' this' where "auth_get_digest_header scheme (Some ch) (Some cr) (fst req) (snd req) this =
      Inr (Some (digest_line scheme e (hex8 (of_nat (Suc n))) req), Some cr', this')" "answers_with e (Suc n) cr'"
    using digest_step [OF assms(1) Cons.prems(1) assms(3) small] by blast
  with Cons.IH [OF _ rest] show ?case by simp
qed simp

lemma digits_determine:
  "(\<And>i. i < k \<Longrightarrow> n div 16 ^ i mod 16 = m div 16 ^ i mod 16) \<Longrightarrow> n mod 16 ^ k = (m mod 16 ^ k :: nat)"
proof (induction k)
  case (Suc k)
  have "n mod (16 ^ k * 16) = m mod (16 ^ k * 16)" using Suc by (simp only: mod_mult2_eq)
  then show ?case by (simp add: mult.commute)
qed simp

lemma hex8_inj: "hex8 v = hex8 w \<Longrightarrow> v = w"
proof -
  assume "hex8 v = hex8 w"
  then have all: "hex_digits ! (unat v div 16 ^ i mod 16) = hex_digits ! (unat w div 16 ^ i mod 16)"
    if "i \<in> set [7, 6, 5, 4, 3, 2, 1, 0]" for i
    using \<open>hex8 v = hex8 w\<close> that unfolding hex8_def map_eq_conv by blast
  have digits: "distinct hex_digits" "length hex_digits = 16" by code_simp+
  have "unat v div 16 ^ i mod 16 = unat w div 16 ^ i mod 16" if "i < 8" for i
  proof -
    have "i \<in> set [7, 6, 5, 4, 3, 2, 1, 0]" using that by auto
    from all [OF this] show ?thesis
      using nth_eq_iff_index_eq [OF digits(1), of "unat v div 16 ^ i mod 16" "unat w div 16 ^ i mod 16"] digits(2) by simp
  qed
  then have "unat v mod 16 ^ 8 = unat w mod 16 ^ 8" by (rule digits_determine)
  moreover have "unat u < 16 ^ 8" for u :: "32 word" using unsigned_less [of u, where 'a = nat] by simp
  ultimately show ?thesis by (simp add: word_unat_eq_iff)
qed

text \<open>
  C38: For a challenge with a realm, a nonce, the algorithm MD5 or MD5-sess and a qop that lists auth, the header
  lines of a session are the answers RFC 2617 asks for, in the order of the requests, with the count
  of the request; in fewer than \<open>2 ^ 32\<close> requests no count comes twice.
\<close>

theorem digest_session_answers:
  assumes "challenges e ch" "env_small e"
    and "de_user e = cr_username c" "de_password e = cr_password c" "de_cnonce e = dr_cnonce (digest_credentials c rand)"
    and "list_all (\<lambda>req. length (fst req) + length (snd req) < 2 ^ 31) reqs" "length reqs < 2 ^ 32 - 1"
  shows "digest_session scheme ch reqs (digest_credentials c rand) this =
      Inr (map (\<lambda>(i, req). digest_line scheme e (hex8 (of_nat (Suc i))) req) (enumerate 0 reqs)) \<and>
    distinct (map (\<lambda>i. hex8 (of_nat (Suc i))) [0..<length reqs])"
proof
  have "answers_with e 0 (digest_credentials c rand)" using assms(3-5) by (simp add: answers_with_def digest_credentials_def)
  from digest_session_from [OF assms(1) this assms(2,6)]
  show "digest_session scheme ch reqs (digest_credentials c rand) this =
    Inr (map (\<lambda>(i, req). digest_line scheme e (hex8 (of_nat (Suc i))) req) (enumerate 0 reqs))" .
  have "i = j" if "i < length reqs" "j < length reqs" "hex8 (of_nat (Suc i)) = hex8 (of_nat (Suc j))" for i j
  proof -
    have "(of_nat (Suc i) :: 32 word) = of_nat (Suc j)" using that(3) by (rule hex8_inj)
    then have "unat (of_nat (Suc i) :: 32 word) = unat (of_nat (Suc j) :: 32 word)" by simp
    with that(1,2) assms(7) show ?thesis by (simp only: unat_of_nat) simp
  qed
  then show "distinct (map (\<lambda>i. hex8 (of_nat (Suc i))) [0..<length reqs])"
    by (auto simp: distinct_map inj_on_def)
qed

definition joe :: CREDS where
  "joe = \<lparr>cr_scheme = HTTP, cr_username = ''joe'', cr_password = ''secret'', cr_realm = ''home''\<rparr>"

definition joe_env :: digest_env where
  "joe_env =
     \<lparr>de_sess = False, de_realm = ''home'', de_nonce = ''abc'', de_opaque = None, de_user = ''joe'', de_password = ''secret'',
      de_cnonce = dr_cnonce (digest_credentials joe (\<lambda>i. i))\<rparr>"

definition joe_challenge :: DCHLG where
  "joe_challenge = no_challenge
     \<lparr>dc_realm := Some ''home'', dc_nonce := Some ''abc'', dc_algorithm := Some ''MD5'', dc_qop := Some ''auth''\<rparr>"

lemma joe_challenges: "challenges joe_env joe_challenge" "env_small joe_env"
proof -
  show "challenges joe_env joe_challenge"
    by (auto simp: challenges_def joe_env_def joe_challenge_def no_challenge_def de_algorithm_def intro!: exI [of _ "[]"])
  have "length (de_cnonce joe_env) = 16"
    by (simp add: joe_env_def digest_credentials_def get_random_string_def DIGEST_CNONCE_SIZE_def)
  then show "env_small joe_env" by (simp add: env_small_def) (simp add: joe_env_def)
qed

lemma digest_session_answers_witness:
  "digest_session HTTP joe_challenge [(''GET'', ''/a''), (''GET'', ''/b'')] (digest_credentials joe (\<lambda>i. i)) new_auth =
     Inr [digest_line HTTP joe_env (hex8 1) (''GET'', ''/a''), digest_line HTTP joe_env (hex8 2) (''GET'', ''/b'')]"
  using digest_session_answers [OF joe_challenges, of joe "\<lambda>i. i" "[(''GET'', ''/a''), (''GET'', ''/b'')]" HTTP new_auth]
  by (simp add: joe_env_def joe_def)

text \<open>A challenge without an algorithm, for which RFC 2617 has MD5, ends siege with a null pointer.\<close>

lemma digest_without_algorithm:
  "dc_algorithm ch = None \<Longrightarrow> auth_get_digest_header scheme (Some ch) (Some cr) method uri this = Inl Undefined"
  by (cases "dc_qop ch") (simp_all add: auth_get_digest_header_def digest_parts_def get_h_a1_def)

text \<open>Without \<open>qop\<close> no comma stands between the algorithm and the response.\<close>

lemma digest_without_qop:
  assumes "dc_qop ch = None" "dc_algorithm ch = Some ''MD5''"
  shows "\<exists>d. digest_parts ch cr method uri = Inr (Some ('' response='' @ quote d, [], [], []), cr)"
  using assms by (simp add: digest_parts_def get_h_a1_def) (rule exI, rule refl)

section \<open>The basic header\<close>

lemma find_first: "P c \<Longrightarrow> list_all (\<lambda>c. \<not> P c) cs1 \<Longrightarrow> find P (cs1 @ c # cs2) = Some c"
  by (induction cs1) auto

text \<open>
  The basic header names the first credentials of the realm and the scheme, whatever stands
  before and behind them: decoding it gives the user and the password.
\<close>

theorem basic_header_decodes:
  assumes "ar_data (au_creds this) = cs1 @ c # cs2" "strmatch (cr_realm c) realm" "cr_scheme c = scheme"
    and "list_all (\<lambda>c. \<not> (strmatch (cr_realm c) realm \<and> cr_scheme c = scheme)) cs1"
    and "length (cr_username c) + length (cr_password c) < 255"
  shows "\<exists>this' hdr. auth_set_basic_header scheme (Some realm) this = (this', True) \<and>
    auth_get_basic_header scheme this' =
      (if scheme = PROXY then ''Proxy-Authorization: Basic '' else ''Authorization: Basic '') @ hdr @ crlf \<and>
    base64_decode hdr = Some (cr_username c @ '':'' @ cr_password c)"
proof -
  have "choose_creds (Some realm) (\<lambda>c. cr_scheme c = scheme) this = Some c"
    using find_first [of "\<lambda>c. strmatch (cr_realm c) realm \<and> cr_scheme c = scheme" c cs1 cs2] assms(1-4)
    by (simp add: choose_creds_def of_realm_def)
  moreover have "take 255 (cr_username c @ '':'' @ cr_password c) = cr_username c @ '':'' @ cr_password c"
    using assms(5) by simp
  ultimately show ?thesis
    using decode_encode [of "cr_username c @ '':'' @ cr_password c"]
    by (cases "scheme = PROXY")
      (simp_all add: auth_set_basic_header_def basic_header_def auth_get_basic_header_def Let_def crlf_def)
qed

lemma basic_header_decodes_witness:
  "\<exists>this' hdr. auth_set_basic_header HTTP (Some ''home'') (auth_add joe new_auth) = (this', True) \<and>
    auth_get_basic_header HTTP this' = ''Authorization: Basic '' @ hdr @ crlf \<and> base64_decode hdr = Some ''joe:secret''"
proof -
  have "ar_data (au_creds (auth_add joe new_auth)) = [] @ joe # []"
    by (simp add: auth_add_def new_auth_def new_array_def array_npush_def)
  moreover have "strmatch (cr_realm joe) ''home''" by code_simp
  ultimately show ?thesis
    using basic_header_decodes [of "auth_add joe new_auth" "[]" joe "[]" "''home''" HTTP] by (auto simp: joe_def)
qed

end
