(* ===== verification/Request_sent.thy ===== *)
theory Request_sent
  imports Http_request Auth_properties Request_properties
begin

text \<open>
  What siege sends and what the web server makes of it: a request goes out whole however \<open>write\<close>
  cuts it, it fits its block, and the server's parser reads back the request line and every header
  field siege wrote.
\<close>

section \<open>Writing\<close>

primrec progress :: "wrote \<Rightarrow> bool" where
  "progress (Wrote w) = (0 < w)"
| "progress Interrupted = True"
| "progress Not_written = False"

primrec amount :: "wrote \<Rightarrow> nat" where
  "amount (Wrote w) = w"
| "amount Interrupted = 0"
| "amount Not_written = 0"

lemma send_loop_all:
  "list_all progress ws \<Longrightarrow> length buf \<le> sum_list (map amount ws) \<Longrightarrow> \<exists>ws'. send_loop buf ws = Some (buf, True, ws')"
proof (induction ws arbitrary: buf)
  case Nil
  then show ?case by (simp add: send_loop.simps)
next
  case (Cons w ws)
  show ?case
  proof (cases "buf = []")
    case True
    then show ?thesis by (simp add: send_loop.simps)
  next
    case False
    then show ?thesis
    proof (cases w)
      case (Wrote k)
      have "length (drop k buf) \<le> sum_list (map amount ws)" using Cons.prems Wrote by simp
      with Cons obtain ws' where "send_loop (drop k buf) ws = Some (drop k buf, True, ws')" by fastforce
      with False Wrote Cons.prems show ?thesis by (subst send_loop.simps) simp
    next
      case Interrupted
      with Cons obtain ws' where "send_loop buf ws = Some (buf, True, ws')" by fastforce
      with False Interrupted show ?thesis by (subst send_loop.simps) simp
    next
      case Not_written
      with Cons.prems show ?thesis by simp
    qed
  qed
qed

lemma send_loop_sent:
  "send_loop buf ws = Some (sent, done, ws') \<Longrightarrow> prefix sent buf \<and> (if done then sent = buf else True)"
proof (induction ws arbitrary: buf sent)
  case Nil
  then show ?case by (simp add: send_loop.simps split: if_splits)
next
  case (Cons w ws)
  show ?case
  proof (cases "buf = []")
    case True
    with Cons.prems show ?thesis by (simp add: send_loop.simps)
  next
    case False
    note step = Cons.prems [unfolded send_loop.simps [of buf "w # ws"], simplified False if_False list.case]
    show ?thesis
    proof (cases w)
      case (Wrote k)
      show ?thesis
      proof (cases "k = 0")
        case True
        with step Wrote show ?thesis by simp
      next
        case nz: False
        with step Wrote obtain sent' where s: "send_loop (drop k buf) ws = Some (sent', done, ws')" "sent = take k buf @ sent'"
          by auto
        from Cons.IH [OF s(1)] obtain r where r: "drop k buf = sent' @ r" and d: "if done then sent' = drop k buf else True"
          by (auto simp: prefix_def)
        have b: "buf = sent @ r" using append_take_drop_id [of k buf] by (simp add: s(2) r)
        moreover have "sent = buf" if "done" using that d append_take_drop_id [of k buf] by (simp add: s(2))
        ultimately show ?thesis by (simp add: prefix_def)
      qed
    next
      case Interrupted
      with step Cons.IH show ?thesis by simp
    next
      case Not_written
      with step show ?thesis by simp
    qed
  qed
qed

text \<open>
  C34: However the calls of \<open>write\<close> cut a request, and however often they are interrupted, its
  bytes go out whole and in order as soon as they take enough of them.
\<close>

theorem socket_write_whole:
  assumes "list_all progress ws" "length buf \<le> sum_list (map amount ws)"
  shows "\<exists>ws'. socket_write False buf ws = Some (buf, True, ws')"
  using send_loop_all [OF assms] by (simp add: socket_write_def)

lemma socket_write_whole_witness:
  "\<exists>ws'. socket_write False ''GET / HTTP/1.1'' [Wrote 5, Interrupted, Wrote 100] = Some (''GET / HTTP/1.1'', True, ws')"
  using socket_write_whole [of "[Wrote 5, Interrupted, Wrote 100]" "''GET / HTTP/1.1''"] by simp

section \<open>The block of a request\<close>

lemma length_cut: "length (cut n s) \<le> n - 1"
  by (simp add: cut_def)

lemma encoding_part_short: "length (encoding_part my) \<le> 511"
  using length_cut [of 512] by (simp add: encoding_part_def)

lemma get_text_fits:
  "length (get_text my U path host www proxy cookie ifmod ifnon s) < get_mlen my U path host www proxy cookie ifmod ifnon s"
  using encoding_part_short [of my] by (simp add: get_text_def get_mlen_def crlf_def)

lemma post_text_fits:
  assumes "u_postlen U < 10 ^ 20"
  shows "length (post_text my U path host www proxy cookie conttype s) + u_postlen U <
    post_mlen my U path host www proxy cookie conttype s"
  using encoding_part_short [of my] length_show_nat [of "u_postlen U" 19] assms
  by (simp add: post_text_def post_mlen_def crlf_def)

text \<open>
  C35: The block siege computes for a request is always large enough: GET and POST requests are
  handed to the socket whole, the posted bytes behind the head.
\<close>

theorem requests_fit:
  assumes "u_postlen U < 10 ^ 20" "u_postdata U = Some data" "u_postlen U \<le> length data"
  shows "request_bytes (get_mlen my U path host www proxy cookie ifmod ifnon s) (get_text my U path host www proxy cookie ifmod ifnon s) =
      Inr (get_text my U path host www proxy cookie ifmod ifnon s) \<and>
    post_bytes (post_mlen my U path host www proxy cookie conttype s) (post_text my U path host www proxy cookie conttype s) U =
      Inr (post_text my U path host www proxy cookie conttype s @ take (u_postlen U) data)"
proof -
  have "get_text my U path host www proxy cookie ifmod ifnon s \<noteq> []" by (simp add: get_text_def)
  then show ?thesis
    using get_text_fits [of my U path host www proxy cookie ifmod ifnon s] assms(2,3)
      post_text_fits [OF assms(1), of my path host www proxy cookie conttype s]
    by (simp add: request_bytes_def post_bytes_def if_any_def)
qed

section \<open>The request at the server\<close>

text \<open>The blank line is found behind the last of a list of lines.\<close>

lemma find_blank_line_skip:
  assumes "LF \<notin> set l"
  shows "str_find (crlf @ crlf) (l @ CR # LF # t) = map_option ((+) (length l)) (str_find (crlf @ crlf) (CR # LF # t))"
  using assms
proof (induction l)
  case Nil
  show ?case by (simp add: option.map_ident)
next
  case (Cons x l)
  have "hd (l @ CR # LF # t) \<noteq> LF" using Cons.prems by (cases l) auto
  then have "\<not> prefix (crlf @ crlf) (x # l @ CR # LF # t)"
    by (cases "l @ CR # LF # t") (auto simp: crlf_def)
  then have "str_find (crlf @ crlf) ((x # l) @ CR # LF # t) = map_option Suc (str_find (crlf @ crlf) (l @ CR # LF # t))" by simp
  also have "\<dots> = map_option Suc (map_option ((+) (length l)) (str_find (crlf @ crlf) (CR # LF # t)))"
    using Cons by simp
  finally show ?case by (simp add: option.map_comp comp_def)
qed

lemma find_blank_line_next:
  assumes "t \<noteq> []" "hd t \<noteq> CR"
  shows "str_find (crlf @ crlf) (CR # LF # t) = map_option (\<lambda>i. Suc (Suc i)) (str_find (crlf @ crlf) t)"
proof -
  obtain x r where t: "t = x # r" "x \<noteq> CR" using assms by (cases t) auto
  then have "\<not> prefix (crlf @ crlf) (CR # LF # t)" "\<not> prefix (crlf @ crlf) (LF # t)" by (simp_all add: crlf_def)
  then have "str_find (crlf @ crlf) (CR # LF # t) = map_option Suc (map_option Suc (str_find (crlf @ crlf) t))"
    by (simp only: str_find.simps if_False)
  then show ?thesis by (simp add: option.map_comp comp_def)
qed

lemma find_blank_line:
  "\<forall>l \<in> set ls. l \<noteq> [] \<and> hd l \<noteq> CR \<and> LF \<notin> set l \<Longrightarrow> LF \<notin> set l0 \<Longrightarrow>
     str_find (crlf @ crlf) (l0 @ crlf @ concat (map (\<lambda>l. l @ crlf) ls) @ crlf @ body) =
       Some (length l0 + length (concat (map (\<lambda>l. l @ crlf) ls)))"
proof (induction ls arbitrary: l0)
  case Nil
  have "str_find (crlf @ crlf) (CR # LF # crlf @ body) = Some 0" by (simp add: crlf_def)
  with find_blank_line_skip [of l0 "crlf @ body"] Nil show ?case by (simp add: crlf_def)
next
  case (Cons l ls)
  let ?t = "l @ crlf @ concat (map (\<lambda>l. l @ crlf) ls) @ crlf @ body"
  have "?t \<noteq> []" "hd ?t \<noteq> CR" using Cons.prems by auto
  then have "str_find (crlf @ crlf) (CR # LF # ?t) = map_option (\<lambda>i. Suc (Suc i)) (str_find (crlf @ crlf) ?t)"
    by (rule find_blank_line_next)
  moreover have "str_find (crlf @ crlf) ?t = Some (length l + length (concat (map (\<lambda>l. l @ crlf) ls)))"
    by (rule Cons.IH) (use Cons.prems in auto)
  ultimately show ?case
    using find_blank_line_skip [of l0 ?t] Cons.prems(2) by (simp add: crlf_def)
qed

lemma words_of_word:
  assumes "w \<noteq> []" "list_all (\<lambda>c. \<not> is_space c) w" "is_space c"
  shows "words_of (w @ c # r) = w # words_of r"
proof -
  obtain x xs where w: "w = x # xs" "\<not> is_space x" using assms by (cases w) auto
  have dw: "dropWhile is_space (w @ c # r) = w @ c # r" using w by simp
  have "takeWhile (\<lambda>c. \<not> is_space c) (w @ c # r) = w" "dropWhile (\<lambda>c. \<not> is_space c) (w @ c # r) = c # r"
    using assms(2,3) by (auto intro: takeWhile_inside dropWhile_inside)
  moreover have "words_of (c # r) = words_of r"
    using assms(3) by (subst (1 2) words_of.simps) simp
  ultimately show ?thesis using words_of_step [of "w @ c # r"] dw w(1) by simp
qed

lemma word_eval: "is_space CR" "is_space SP"
  by code_simp+

lemma request_line_words:
  assumes "method \<in> {''GET'', ''POST'', ''DELETE''}" "path \<noteq> []" "list_all (\<lambda>c. \<not> is_space c) path"
  shows "words_of (method @ SP # path @ SP # ''HTTP/1.1'' @ [CR]) = [method, path, ''HTTP/1.1'']"
proof -
  have "list_all (\<lambda>c. \<not> is_space c) method" "method \<noteq> []" using assms(1) by (auto simp: eval_simps)
  moreover have "list_all (\<lambda>c. \<not> is_space c) ''HTTP/1.1''" by code_simp
  ultimately show ?thesis
    using words_of_word [OF _ _ word_eval(2), of "method" "path @ SP # ''HTTP/1.1'' @ [CR]"]
      words_of_word [OF assms(2,3) word_eval(2), of "''HTTP/1.1'' @ [CR]"]
      words_of_word [OF _ _ word_eval(1), of "''HTTP/1.1''" "[]"] by simp
qed

definition parsed_start :: "string \<Rightarrow> string \<Rightarrow> string \<Rightarrow> Client \<Rightarrow> Client" where
  "parsed_start method path body c =
     c\<lparr>cl_keep_alive := False,
       cl_request := (cl_request c)\<lparr>rq_index := True, rq_s_request := body, rq_method := method, rq_path := path,
         rq_version := ''HTTP/1.1''\<rparr>\<rparr>"

lemma drop_length_append: "drop (length x) (x @ y) = y"
  and take_length_append: "take (length x) (x @ y) = x"
  by simp_all

lemma parse_request_text:
  assumes m: "method \<in> {''GET'', ''POST'', ''DELETE''}"
    and path: "path \<noteq> []" "hd path = CHR ''/''" "list_all (\<lambda>c. \<not> is_space c) path"
    and kvs: "\<forall>kv \<in> set kvs. field_ok kv"
    and req: "rq_s_request (cl_request c) = method @ SP # path @ '' HTTP/1.1'' @ crlf @ header_text kvs @ crlf @ body"
    and len: "length (rq_s_request (cl_request c)) < 2 ^ 64"
  shows "parse_request os w c = parse_target os w method (header_text kvs @ crlf) path (parsed_start method path body c)"
proof -
  let ?l0 = "method @ SP # path @ '' HTTP/1.1''" and ?ls = "map (\<lambda>(k, v). k @ '': '' @ v) kvs"
  let ?r = "?l0 @ crlf @ header_text kvs @ crlf @ body"
  let ?p = "length ?l0 + length (header_text kvs) + 4"
  have lines: "header_text kvs = concat (map (\<lambda>l. l @ crlf) ?ls)" by (induction kvs) (auto simp: header_text_def)
  have nolf: "LF \<notin> set ?l0"
    using m path(3) by (auto simp: list_all_iff eval_simps)
  have "l \<noteq> [] \<and> hd l \<noteq> CR \<and> LF \<notin> set l" if "l \<in> set ?ls" for l
  proof -
    obtain k v where l: "l = k @ '': '' @ v" "(k, v) \<in> set kvs" using \<open>l \<in> set ?ls\<close> by auto
    with kvs have "field_ok (k, v)" by blast
    then show ?thesis by (cases k) (auto simp: l(1) field_ok_def)
  qed
  then have "\<forall>l \<in> set ?ls. l \<noteq> [] \<and> hd l \<noteq> CR \<and> LF \<notin> set l" by blast
  from find_blank_line [OF this nolf, of body]
  have "str_find (crlf @ crlf) ?r = Some (length ?l0 + length (header_text kvs))" by (simp add: lines)
  moreover have r: "rq_s_request (cl_request c) = ?r" using req by simp
  moreover have "?p mod 2 ^ 64 = ?p" and bound: "?p \<le> length ?r" using len unfolding r by (simp_all add: crlf_def)
  moreover have "?p = length (?l0 @ crlf @ header_text kvs @ crlf)" by (simp add: crlf_def)
  then have "drop ?p ?r = body" "take ?p ?r = ?l0 @ CR # LF # header_text kvs @ crlf"
    using drop_length_append [of "?l0 @ crlf @ header_text kvs @ crlf" body]
      take_length_append [of "?l0 @ crlf @ header_text kvs @ crlf" body]
    by (simp_all only: append_assoc append.simps crlf_def)
  moreover have "list_all (\<lambda>x. x \<noteq> LF) (?l0 @ [CR])" using nolf by (auto simp: list_all_iff)
  then have "takeWhile (\<lambda>x. x \<noteq> LF) (?l0 @ CR # LF # t) = ?l0 @ [CR]"
    "dropWhile (\<lambda>x. x \<noteq> LF) (?l0 @ CR # LF # t) = LF # t" for t
    using takeWhile_inside [of "\<lambda>x. x \<noteq> LF" "?l0 @ [CR]" LF t] dropWhile_inside [of "\<lambda>x. x \<noteq> LF" "?l0 @ [CR]" LF t]
    by (simp_all only: append_assoc append.simps simp_thms)
  moreover have "words_of (?l0 @ [CR]) = [method, path, ''HTTP/1.1'']"
    using request_line_words [OF m path(1,3)] by simp
  moreover have "request_line_status method path ''HTTP/1.1'' = None"
    using m path(1,2) by (auto simp: request_line_status_def c_at_def hd_conv_nth)
  moreover have "method \<noteq> []" using m by auto
  ultimately show ?thesis
    using path(1)
    by (simp add: parse_request_def body_start_def Let_def substr_from_def word_at_def check_request_line_def
        parsed_start_def set_s_request_def)
qed

text \<open>
  A siege that sends no authorization, cookie, cached tag or header of its own, in HTTP/1.1, to a
  host without a proxy; the field values can be read back.
\<close>

definition host_value :: "URL \<Rightarrow> string \<Rightarrow> string" where
  "host_value U host =
     (if u_scheme U = HTTP \<and> u_port U \<noteq> 80 \<or> u_scheme U = HTTPS \<and> u_port U \<noteq> 443
      then host @ '':'' @ show_int (u_port U) else host)"

definition siege_fields :: "http_conf \<Rightarrow> URL \<Rightarrow> string \<Rightarrow> request_state \<Rightarrow> (string \<times> string) list" where
  "siege_fields my U host s =
     [(''Host'', host_value U host), (''Accept'', ''*/*''), (''Accept-Encoding'', hc_encoding my),
      (''User-Agent'', hc_uagent my), (''Connection'', keepalive_text s)]"

definition post_fields :: "http_conf \<Rightarrow> URL \<Rightarrow> string \<Rightarrow> request_state \<Rightarrow> (string \<times> string) list" where
  "post_fields my U host s =
     siege_fields my U host s @
     [(''Content-Type'', fst (url_get_conttype (hc_url my) U)), (''Content-Length'', show_nat (u_postlen U))]"

definition plain_siege :: "http_conf \<Rightarrow> URL \<Rightarrow> string \<Rightarrow> string \<Rightarrow> request_state \<Rightarrow> bool" where
  "plain_siege my U host path s =
     (hc_protocol my \<and> \<not> hc_get my \<and> \<not> hc_print my \<and> \<not> hc_cache my \<and> hc_extra my = [] \<and>
      \<not> rc_www (gs_conn s) \<and> \<not> rc_proxy (gs_conn s) \<and> \<not> au_proxy_required (gs_auth s) \<and> gs_jar s = [] \<and>
      u_hostname U = Some host \<and> u_request U = Some path \<and>
      length (host_value U host) < 100 \<and> length (hc_encoding my) < 400 \<and>
      path \<noteq> [] \<and> hd path = CHR ''/'' \<and> list_all (\<lambda>c. \<not> is_space c) path \<and> length path < 8192)"

lemma plain_parts:
  assumes "plain_siege my U host path s"
  shows "full_path U s = Inr path" "cookie_part n e U s = Inr ([], s)" "www_part n U path s = Inr ([], s)"
    "proxy_part n scheme U path s = Inr ([], s)" "protocol_text my = ''HTTP/1.1''"
    "accept_part my = ''Accept: */*'' @ crlf" "encoding_part my = ''Accept-Encoding: '' @ hc_encoding my @ crlf"
    "128 \<le> n \<Longrightarrow> host_part n my U = Inr (''Host: '' @ host_value U host @ crlf)"
proof -
  have "\<not> ncase_eq [] ''Accept:'' 7" by code_simp
  then show "accept_part my = ''Accept: */*'' @ crlf" using assms by (simp add: accept_part_def plain_siege_def)
  have "strncasestr [] ''host:'' EXTRASZ = Inr None" by (simp add: strncasestr_def)
  then show "128 \<le> n \<Longrightarrow> host_part n my U = Inr (''Host: '' @ host_value U host @ crlf)"
    using assms by (auto simp: plain_siege_def host_part_def host_value_def c_string_def cut_def crlf_def)
qed (use assms in \<open>auto simp: plain_siege_def full_path_def cookie_part_def www_part_def proxy_part_def protocol_text_def
    encoding_part_def c_string_def fits_def MAX_COOKIE_SIZE_def cookies_header_def cut_def crlf_def\<close>)

lemma plain_get_request:
  assumes "plain_siege my U host path s" "url_get_method_name U = method"
  shows "http_get_request my tenv jenv U s =
    Inr (method @ SP # path @ '' HTTP/1.1'' @ crlf @ header_text (siege_fields my U host s) @ crlf, s)"
proof -
  have cache: "cache_get_header (hc_cache my) tenv ca t req = Inr (ca, None)" for ca t req
    using assms(1) by (simp add: plain_siege_def cache_get_header_def cache_contains_def)
  have same: "s\<lparr>gs_conn := (gs_conn s)\<lparr>co_cache := co_cache (gs_conn s)\<rparr>\<rparr> = s" by simp
  let ?host = "''Host: '' @ host_value U host @ crlf"
  have "get_text my U path ?host [] [] [] None None s =
      method @ SP # path @ '' HTTP/1.1'' @ crlf @ header_text (siege_fields my U host s) @ crlf"
    using assms by (simp add: get_text_def plain_parts [OF assms(1)] if_any_def siege_fields_def header_text_def plain_siege_def)
  moreover have "request_bytes (get_mlen my U path ?host [] [] [] None None s) (get_text my U path ?host [] [] [] None None s) =
      Inr (get_text my U path ?host [] [] [] None None s)"
    using get_text_fits [of my U path ?host "[]" "[]" "[]" None None s] by (simp add: request_bytes_def) (simp add: get_text_def)
  ultimately show ?thesis
    by (simp add: http_get_request_def Let_def cache same plain_parts [OF assms(1)] del: append.simps)
qed

lemma plain_post_request:
  assumes "plain_siege my U host path s" "url_get_method_name U = ''POST''"
    and "u_postlen U < 10 ^ 20" "u_postdata U = Some data" "length data = u_postlen U"
  shows "http_post_request my jenv U s =
    Inr (''POST '' @ path @ '' HTTP/1.1'' @ crlf @ header_text (post_fields my U host s) @ crlf @ data, s)"
proof -
  let ?host = "''Host: '' @ host_value U host @ crlf" and ?t = "fst (url_get_conttype (hc_url my) U)"
  have "post_text my U path ?host [] [] [] ?t s =
      ''POST '' @ path @ '' HTTP/1.1'' @ crlf @ header_text (post_fields my U host s) @ crlf"
    using assms by (simp add: post_text_def plain_parts [OF assms(1)] post_fields_def siege_fields_def header_text_def plain_siege_def)
  moreover have "post_bytes (post_mlen my U path ?host [] [] [] ?t s) (post_text my U path ?host [] [] [] ?t s) U =
      Inr (post_text my U path ?host [] [] [] ?t s @ data)"
    using post_text_fits [OF assms(3), of my path ?host "[]" "[]" "[]" ?t s] assms(4,5)
    by (simp add: post_bytes_def if_any_def)
  ultimately show ?thesis
    by (simp add: http_post_request_def Let_def plain_parts [OF assms(1)] del: append.simps)
qed

text \<open>What the server's parser makes of the fields, wherever it starts without headers.\<close>

definition reads_fields :: "'w os \<Rightarrow> 'w \<Rightarrow> (string \<times> string) list \<Rightarrow> bool" where
  "reads_fields os w kvs =
     (\<forall>c. rq_headers_map (cl_request c) = [] \<longrightarrow>
        (\<exists>c'. fill_headers_map os w (header_text kvs @ crlf) c = (True, c') \<and>
           (\<forall>kv \<in> set kvs. map_of (rq_headers_map (cl_request c')) (fst kv) = Some (snd kv))))"

lemma fields_read:
  assumes "\<forall>kv \<in> set kvs. field_ok kv" "distinct (map fst kvs)" "[CR] \<notin> fst ` set kvs"
  shows "reads_fields os w kvs"
proof -
  have "map_of (rev kvs) k = Some v" if "(k, v) \<in> set kvs" for k v
    using that assms(2) by (intro map_of_is_SomeI) (simp_all add: rev_map [symmetric])
  with assms(3) show ?thesis
    using headers_text_parsed [OF assms(1), of _ os w] unfolding reads_fields_def
    by (metis (no_types, lifting) image_eqI prod.collapse)
qed

text \<open>
  C32: A GET request of siege is read by the server as what siege meant: its method, its
  path and HTTP/1.1, no body, and every field siege wrote with its value.
\<close>

theorem siege_get_parsed:
  assumes "plain_siege my U host path s" "u_method U = GET"
    and "\<forall>kv \<in> set (siege_fields my U host s). field_ok kv" "length (hc_uagent my) < 2 ^ 20"
  shows "\<exists>bytes method. http_get_request my tenv jenv U s = Inr (bytes, s) \<and> method = url_get_method_name U \<and>
    parse_request os w (set_s_request bytes c) =
      parse_target os w method (header_text (siege_fields my U host s) @ crlf) path (parsed_start method path [] c) \<and>
    reads_fields os w (siege_fields my U host s)"
proof -
  let ?kvs = "siege_fields my U host s" and ?m = "url_get_method_name U"
  let ?bytes = "?m @ SP # path @ '' HTTP/1.1'' @ crlf @ header_text ?kvs @ crlf"
  have m: "?m \<in> {''GET'', ''POST'', ''DELETE''}" using assms(2) by (auto simp: url_get_method_name_def)
  have path: "path \<noteq> []" "hd path = CHR ''/''" "list_all (\<lambda>c. \<not> is_space c) path"
    using assms(1) by (simp_all add: plain_siege_def)
  have "length ?bytes < 2 ^ 64"
    using assms(1,4) m by (auto simp: plain_siege_def siege_fields_def header_text_def crlf_def keepalive_text_def)
  then have "parse_request os w (set_s_request ?bytes c) =
      parse_target os w ?m (header_text ?kvs @ crlf) path (parsed_start ?m path [] (set_s_request ?bytes c))"
    by (intro parse_request_text [OF m path assms(3)]) (simp_all add: set_s_request_def)
  moreover have "parsed_start ?m path [] (set_s_request ?bytes c) = parsed_start ?m path [] c"
    by (simp add: parsed_start_def set_s_request_def)
  moreover have "reads_fields os w ?kvs" by (rule fields_read [OF assms(3)]) (auto simp: siege_fields_def)
  ultimately show ?thesis using plain_get_request [OF assms(1) refl, of tenv jenv] by auto
qed

text \<open>
  C33: A POST request of siege is read by the server with its path, the posted bytes as its body,
  every field siege wrote, and a \<open>Content-Length\<close> that is read as the number of these bytes.
\<close>

theorem siege_post_parsed:
  assumes "plain_siege my U host path s" "u_method U = POST" "u_postdata U = Some data" "length data = u_postlen U"
    and "\<forall>kv \<in> set (post_fields my U host s). field_ok kv" "length (hc_uagent my) < 2 ^ 20" "u_postlen U < 2 ^ 62"
    and "length (fst (url_get_conttype (hc_url my) U)) < 2 ^ 20"
  shows "\<exists>bytes. http_post_request my jenv U s = Inr (bytes, s) \<and>
    parse_request os w (set_s_request bytes c) =
      parse_target os w ''POST'' (header_text (post_fields my U host s) @ crlf) path (parsed_start ''POST'' path data c) \<and>
    reads_fields os w (post_fields my U host s) \<and>
    read_uint64 (show_nat (u_postlen U)) = (Some (length data), False)"
proof -
  let ?kvs = "post_fields my U host s"
  let ?bytes = "''POST'' @ SP # path @ '' HTTP/1.1'' @ crlf @ header_text ?kvs @ crlf @ data"
  have m: "url_get_method_name U = ''POST''" using assms(2) by (simp add: url_get_method_name_def)
  have path: "path \<noteq> []" "hd path = CHR ''/''" "list_all (\<lambda>c. \<not> is_space c) path"
    using assms(1) by (simp_all add: plain_siege_def)
  have digits: "length (show_nat (u_postlen U)) \<le> 20" using length_show_nat [of "u_postlen U" 19] assms(7) by simp
  then have "length ?bytes < 2 ^ 64"
    using assms(1,4,6,7,8)
    by (auto simp: plain_siege_def post_fields_def siege_fields_def header_text_def crlf_def keepalive_text_def)
  then have "parse_request os w (set_s_request ?bytes c) =
      parse_target os w ''POST'' (header_text ?kvs @ crlf) path (parsed_start ''POST'' path data (set_s_request ?bytes c))"
    by (intro parse_request_text [OF _ path assms(5)]) (simp_all add: set_s_request_def)
  moreover have "parsed_start ''POST'' path data (set_s_request ?bytes c) = parsed_start ''POST'' path data c"
    by (simp add: parsed_start_def set_s_request_def)
  moreover have "reads_fields os w ?kvs" by (rule fields_read [OF assms(5)]) (auto simp: post_fields_def siege_fields_def)
  moreover have "http_post_request my jenv U s = Inr (?bytes, s)"
    using plain_post_request [OF assms(1) m _ assms(3,4), of jenv] assms(7) by simp
  ultimately show ?thesis using assms(4,7) by (auto simp: read_uint64_show)
qed

text \<open>A siege of \<open>http://a.org/x\<close>.\<close>

definition plain_conf :: http_conf where
  "plain_conf =
     \<lparr>hc_protocol = True, hc_get = False, hc_print = False, hc_cache = False, hc_extra = [], hc_encoding = ''gzip'',
      hc_uagent = ''siege'', hc_url = \<lparr>my_escape = True, my_conttype = None, my_fullurl = False\<rparr>\<rparr>"

definition plain_url :: "METHOD \<Rightarrow> string option \<Rightarrow> URL" where
  "plain_url m data = fresh_url
     \<lparr>u_method := m, u_hostname := Some ''a.org'', u_port := 80, u_request := Some ''/x'',
      u_postlen := (case data of None \<Rightarrow> 0 | Some d \<Rightarrow> length d), u_postdata := data, u_conttype := Some ''text/plain''\<rparr>"

definition plain_state :: request_state where
  "plain_state =
     \<lparr>gs_conn = \<lparr>co_wire = \<lparr>cn_inbuf = [], cn_net = []\<rparr>, co_length = 0, co_timeout = 0, co_max = 0, co_cache = new_cache,
        co_page = new_page [], rc_encrypt = False, rc_keepalive = False, rc_www = False, rc_www_type = BASIC,
        rc_wchlg = None, rc_wcred = None, rc_proxy = False, rc_proxy_type = BASIC, rc_pchlg = None, rc_pcred = None\<rparr>,
      gs_jar = [], gs_auth = new_auth\<rparr>"

lemma plain_example: "plain_siege plain_conf (plain_url m data) ''a.org'' ''/x'' plain_state"
  by (simp add: plain_siege_def plain_conf_def plain_url_def plain_state_def new_auth_def host_value_def fresh_url_def eval_simps)

lemma plain_example_fields: "\<forall>kv \<in> set (post_fields plain_conf (plain_url POST (Some ''ab'')) ''a.org'' plain_state). field_ok kv"
  "\<forall>kv \<in> set (siege_fields plain_conf (plain_url GET None) ''a.org'' plain_state). field_ok kv"
proof -
  let ?kvs = "[(''Host'', ''a.org''), (''Accept'', ''*/*''), (''Accept-Encoding'', ''gzip''), (''User-Agent'', ''siege''), (''Connection'', ''close'')]"
  have fields: "siege_fields plain_conf (plain_url m data) ''a.org'' plain_state = ?kvs" for m data
    by (simp add: siege_fields_def host_value_def plain_conf_def plain_url_def plain_state_def fresh_url_def keepalive_text_def)
  have len: "u_postlen (plain_url POST (Some ''ab'')) = 2" and ct: "fst (url_get_conttype my (plain_url POST (Some ''ab''))) = ''text/plain''" for my
    by (simp_all add: plain_url_def url_get_conttype_def)
  have ok: "list_all field_ok ?kvs" "list_all field_ok [(''Content-Type'', ''text/plain''), (''Content-Length'', show_nat 2)]"
    by code_simp+
  then show "\<forall>kv \<in> set (post_fields plain_conf (plain_url POST (Some ''ab'')) ''a.org'' plain_state). field_ok kv"
    "\<forall>kv \<in> set (siege_fields plain_conf (plain_url GET None) ''a.org'' plain_state). field_ok kv"
    unfolding post_fields_def fields len ct by (simp_all add: list_all_iff)
qed

lemma siege_get_parsed_witness:
  "\<exists>bytes. http_get_request plain_conf still_env \<lparr>je_thread = 0, je_now = 0, je_get = False, je_print = False\<rparr>
       (plain_url GET None) plain_state = Inr (bytes, plain_state) \<and>
     (\<exists>rest c1. parse_request mem_os example_fs (set_s_request bytes (new_Client 3 new_ServerBlock)) =
        parse_target mem_os example_fs ''GET'' rest ''/x'' c1)"
proof -
  have "u_method (plain_url GET None) = GET" "url_get_method_name (plain_url GET None) = ''GET''"
    "length (hc_uagent plain_conf) < 2 ^ 20"
    by (simp_all add: plain_url_def plain_conf_def url_get_method_name_def)
  with siege_get_parsed [OF plain_example _ plain_example_fields(2)] show ?thesis by metis
qed

lemma siege_post_parsed_witness:
  "\<exists>bytes. http_post_request plain_conf \<lparr>je_thread = 0, je_now = 0, je_get = False, je_print = False\<rparr>
       (plain_url POST (Some ''ab'')) plain_state = Inr (bytes, plain_state) \<and>
     (\<exists>rest. parse_request mem_os example_fs (set_s_request bytes (new_Client 3 new_ServerBlock)) =
        parse_target mem_os example_fs ''POST'' rest ''/x'' (parsed_start ''POST'' ''/x'' ''ab'' (new_Client 3 new_ServerBlock)))"
proof -
  have "u_method (plain_url POST (Some ''ab'')) = POST" "u_postdata (plain_url POST (Some ''ab'')) = Some ''ab''"
    "length ''ab'' = u_postlen (plain_url POST (Some ''ab''))" "length (hc_uagent plain_conf) < 2 ^ 20"
    "u_postlen (plain_url POST (Some ''ab'')) < 2 ^ 62"
    "length (fst (url_get_conttype (hc_url plain_conf) (plain_url POST (Some ''ab'')))) < 2 ^ 20"
    by (simp_all add: plain_url_def plain_conf_def url_get_conttype_def)
  from siege_post_parsed [OF plain_example this(1-3) plain_example_fields(1) this(4-6)] show ?thesis by metis
qed

lemma requests_fit_witness:
  "post_bytes (post_mlen plain_conf (plain_url POST (Some ''ab'')) ''/x'' [] [] [] [] ''text/plain'' plain_state)
     (post_text plain_conf (plain_url POST (Some ''ab'')) ''/x'' [] [] [] [] ''text/plain'' plain_state) (plain_url POST (Some ''ab'')) =
   Inr (post_text plain_conf (plain_url POST (Some ''ab'')) ''/x'' [] [] [] [] ''text/plain'' plain_state @ ''ab'')"
  using requests_fit [of "plain_url POST (Some ''ab'')" "''ab''" plain_conf "''/x''" "[]" "[]" "[]" "[]" None None plain_state "''text/plain''"]
  by (simp add: plain_url_def)

section \<open>Digest and POST\<close>

lemma length_params_text:
  "kvs \<noteq> [] \<Longrightarrow> length (params_text kvs) + 2 = sum_list (map (\<lambda>kv. length (fst kv) + length (snd kv) + 3) kvs)"
  by (induction kvs rule: params_text.induct) simp_all

lemma length_quote [simp]: "length (quote s) = length s + 2"
  by (simp add: quote_def)

lemma digest_line_long: "140 \<le> length (digest_line scheme e nc req)"
proof -
  have "length (digest_response (de_ha1 e) (de_nonce e) nc (de_cnonce e) (fst req) (snd req)) = 32"
    by (simp add: digest_response_def)
  moreover have "3 \<le> length (de_algorithm e)" by (simp add: de_algorithm_def)
  moreover have "digest_params e nc (fst req) (snd req) \<noteq> []" by (simp add: digest_params_def)
  ultimately have "120 \<le> length (params_text (digest_params e nc (fst req) (snd req)))"
    using length_params_text [of "digest_params e nc (fst req) (snd req)"] by (simp add: digest_params_def)
  then show ?thesis by (simp add: digest_line_def crlf_def)
qed



end
