(* ===== verification/Html.thy ===== *)
theory Html
  imports Url Dyn_array
begin

text \<open>
  The scanner that collects the parts of a page (\<open>siege-4.1.7/src/parser.c\<close>).  \<open>strtok_r\<close> is modelled
  by the string that its save pointer points to: it is cut at the tokens only, and nothing behind a
  token is read again.  Links become URLs by \<open>url_normalize\<close>; \<open>fs\<close> is what reading a file gives and
  \<open>my\<close> the configuration, as in \<open>Url\<close>.
\<close>

section \<open>Tokens\<close>

definition TOKENS :: string where "TOKENS = '' =''"
definition TOKENS_PLUS :: string where "TOKENS_PLUS = '' ='' @ [DQ, CHR 0x27]"
definition TOKENS_QUOTES :: string where "TOKENS_QUOTES = '' '' @ [DQ, CHR 0x27]"

definition strtok :: "string \<Rightarrow> string \<Rightarrow> string option \<times> string" where
  "strtok delims s =
     (let t = dropWhile (\<lambda>c. c \<in> set delims) s in
      if t = [] then (None, [])
      else (Some (takeWhile (\<lambda>c. c \<notin> set delims) t), tl (dropWhile (\<lambda>c. c \<notin> set delims) t)))"

lemma strtok_shorter: "strtok d s = (Some t, r) \<Longrightarrow> length r < length s"
  using length_dropWhile_le [of "\<lambda>c. c \<in> set d" s]
    length_dropWhile_le [of "\<lambda>c. c \<notin> set d" "dropWhile (\<lambda>c. c \<in> set d) s"]
  by (cases "dropWhile (\<lambda>c. c \<in> set d) s") (auto simp: strtok_def Let_def)

lemma strtok_le: "strtok d s = (t, r) \<Longrightarrow> length r \<le> length s"
  using strtok_shorter [of d s _ r] by (cases t) (auto simp: strtok_def Let_def split: if_splits)

lemma strtok_shorter': "(Some t, r) = strtok d s \<Longrightarrow> length r < length s"
  using strtok_shorter [of d s t r] by simp

lemma strtok_aid: "strtok d s = (t, r) \<Longrightarrow> length r \<le> length s \<and> (t \<noteq> None \<longrightarrow> length r < length s)"
  using strtok_shorter strtok_le by (cases t) auto

lemma strtok_none: "(None, r) = strtok d s \<Longrightarrow> r = []"
  by (auto simp: strtok_def Let_def split: if_splits)

fun strcasestr :: "string \<Rightarrow> string \<Rightarrow> bool" where
  "strcasestr [] needle = (needle = [])"
| "strcasestr (c # s) needle = (if ncase_eq (c # s) needle (length needle) then True else strcasestr s needle)"

text \<open>\<open>__xstrip\<close> looks every byte up in a table of 128: a byte of the upper half is outside.\<close>

definition xstrip :: "string \<Rightarrow> string \<Rightarrow> string res" where
  "xstrip str pat =
     (if list_ex (\<lambda>c. 128 \<le> byte c) str then Inl Undefined else Inr (filter (\<lambda>c. c \<notin> set pat) str))"

section \<open>Adding a URL\<close>

fun same_url :: "string \<Rightarrow> URL list \<Rightarrow> bool res" where
  "same_url full [] = Inr False"
| "same_url full (url # urls) =
     rbind (url_get_absolute url) (\<lambda>other.
     rbind (same_url full urls) (\<lambda>found. Inr (strmatch full other \<or> found)))"

definition add_url :: "URL option \<Rightarrow> URL array_t \<Rightarrow> URL array_t res" where
  "add_url U parts =
     (case U of
        None \<Rightarrow> Inr parts
      | Some u \<Rightarrow>
          (case u_hostname u of
             None \<Rightarrow> Inr parts
           | Some host \<Rightarrow>
               if length host < 2 then Inr parts
               else
                 rbind (if ar_data parts = [] then Inr [] else url_get_absolute u) (\<lambda>full.
                 rbind (same_url full (ar_data parts)) (\<lambda>found.
                 Inr (if found then parts else array_npush (Some u) parts)))))"

definition add_link :: "(string \<Rightarrow> file_read) \<Rightarrow> url_conf \<Rightarrow> URL \<Rightarrow> string \<Rightarrow> URL array_t \<Rightarrow> URL array_t res" where
  "add_link fs my base link parts = rbind (url_normalize fs my base link) (\<lambda>(U, _). add_url U parts)"

section \<open>The loops of __parse_control\<close>

text \<open>The URL of a \<open>meta\<close> refresh.\<close>

function meta_content :: "(string \<Rightarrow> file_read) \<Rightarrow> url_conf \<Rightarrow> URL \<Rightarrow> string \<Rightarrow> URL array_t \<Rightarrow> URL array_t res" where
  "meta_content fs my base aid parts =
     (case strtok TOKENS aid of
        (None, aid) \<Rightarrow> Inr parts
      | (Some ptr, aid) \<Rightarrow>
          if strcasestr ptr ''; url='' \<or> strcasestr ptr '';url='' then
            (case strtok TOKENS_QUOTES aid of
               (None, aid) \<Rightarrow> Inr parts
             | (Some link, aid) \<Rightarrow>
                 (case url_normalize fs my base link of
                    Inl e \<Rightarrow> Inl e
                  | Inr (None, _) \<Rightarrow> Inl Undefined
                  | Inr (Some U, _) \<Rightarrow>
                      (case add_url (Some (U\<lparr>u_redir := True\<rparr>)) parts of
                         Inl e \<Rightarrow> Inl e
                       | Inr parts \<Rightarrow> meta_content fs my base aid parts)))
          else meta_content fs my base aid parts)"
  by pat_completeness auto
termination
  by (relation "measure (\<lambda>(fs, my, base, aid, parts). length aid)")
    (auto dest!: strtok_shorter')

declare meta_content.simps [simp del]

function meta_loop :: "(string \<Rightarrow> file_read) \<Rightarrow> url_conf \<Rightarrow> URL \<Rightarrow> string \<Rightarrow> URL array_t \<Rightarrow> URL array_t res" where
  "meta_loop fs my base aid parts =
     (case strtok TOKENS aid of
        (None, aid) \<Rightarrow> Inr parts
      | (Some ptr, aid) \<Rightarrow>
          if ncase_eq ptr ''content'' 7 then meta_content fs my base aid parts else meta_loop fs my base aid parts)"
  by pat_completeness auto
termination
  by (relation "measure (\<lambda>(fs, my, base, aid, parts). length aid)")
    (auto dest!: strtok_shorter')

declare meta_loop.simps [simp del]

function img_loop :: "(string \<Rightarrow> file_read) \<Rightarrow> url_conf \<Rightarrow> URL \<Rightarrow> string \<Rightarrow> URL array_t \<Rightarrow> URL array_t res" where
  "img_loop fs my base aid parts =
     (case strtok TOKENS aid of
        (None, aid) \<Rightarrow> Inr parts
      | (Some ptr, aid) \<Rightarrow>
          if ncase_eq ptr ''src'' 3 then
            (case strtok TOKENS_QUOTES aid of
               (None, aid) \<Rightarrow> Inr parts
             | (Some link, aid) \<Rightarrow>
                 if length link > 1 \<and> \<not> ncase_eq link ''data:image'' 10 then
                   (case add_link fs my base link parts of
                      Inl e \<Rightarrow> Inl e
                    | Inr parts \<Rightarrow> img_loop fs my base aid parts)
                 else img_loop fs my base aid parts)
          else img_loop fs my base aid parts)"
  by pat_completeness auto
termination
  by (relation "measure (\<lambda>(fs, my, base, aid, parts). length aid)")
    (auto dest!: strtok_shorter')

declare img_loop.simps [simp del]

text \<open>
  The loop over a \<open>link\<close>: whether it is a style sheet, and what \<open>buf\<close> holds, nothing at first.  A
  link that \<open>buf\<close> has no room for is written behind it.
\<close>

definition link_rel :: "string \<Rightarrow> string \<Rightarrow> bool \<Rightarrow> string option \<times> string \<times> bool" where
  "link_rel ptr aid sheet =
     (if ncase_eq ptr ''rel'' 3 then
        (case strtok TOKENS_PLUS aid of
           (None, aid) \<Rightarrow> (None, aid, sheet)
         | (Some ptr, aid) \<Rightarrow>
             (let sheet = (if ncase_eq ptr ''stylesheet'' 10 then True else sheet);
                  sheet = (if ncase_eq ptr ''next'' 4 then False else sheet)
              in (Some ptr, aid, if ncase_eq ptr ''alternate'' 9 then False else sheet)))
      else (Some ptr, aid, sheet))"

lemma link_rel_le: "(p, aid', sheet') = link_rel ptr aid sheet \<Longrightarrow> length aid' \<le> length aid"
  by (auto simp: link_rel_def Let_def dest: strtok_le split: if_splits prod.splits option.splits)

function link_loop :: "string \<Rightarrow> bool \<Rightarrow> string option \<Rightarrow> (bool \<times> string option) res" where
  "link_loop aid sheet buf =
     (case strtok TOKENS aid of
        (None, aid) \<Rightarrow> Inr (sheet, buf)
      | (Some ptr, aid) \<Rightarrow>
          (case link_rel ptr aid sheet of
             (None, aid, sheet) \<Rightarrow> link_loop aid sheet buf
           | (Some ptr, aid, sheet) \<Rightarrow>
               if ncase_eq ptr ''href'' 4 then
                 (case strtok TOKENS_QUOTES aid of
                    (None, aid) \<Rightarrow> Inr (sheet, buf)
                  | (Some link, aid) \<Rightarrow>
                      if length link < 2048 then link_loop aid sheet (Some link) else Inl Undefined)
               else link_loop aid sheet buf))"
  by pat_completeness auto
termination
  by (relation "measure (\<lambda>(aid, sheet, buf). length aid)")
    (auto dest!: strtok_shorter' link_rel_le)

declare link_loop.simps [simp del]

text \<open>The loop over a \<open>script\<close>; a source that begins with a plus sign is skipped.\<close>

function script_loop :: "(string \<Rightarrow> file_read) \<Rightarrow> url_conf \<Rightarrow> URL \<Rightarrow> string \<Rightarrow> URL array_t \<Rightarrow> URL array_t res" where
  "script_loop fs my base aid parts =
     (case strtok TOKENS aid of
        (None, aid) \<Rightarrow> Inr parts
      | (Some ptr, aid) \<Rightarrow>
          if ncase_eq ptr ''src'' 3 then
            (case strtok TOKENS_QUOTES aid of
               (None, aid) \<Rightarrow> Inr parts
             | (Some link, aid) \<Rightarrow>
                 if startswith ''+'' link then script_loop fs my base aid parts
                 else
                   (case add_link fs my base (take 4095 link) parts of
                      Inl e \<Rightarrow> Inl e
                    | Inr parts \<Rightarrow> script_loop fs my base aid parts))
          else script_loop fs my base aid parts)"
  by pat_completeness auto
termination
  by (relation "measure (\<lambda>(fs, my, base, aid, parts). length aid)")
    (auto dest!: strtok_shorter')

declare script_loop.simps [simp del]

section \<open>__parse_control\<close>

text \<open>
  What one branch of the loop leaves: whether it went on with \<open>continue\<close>, the token, the save
  pointer and the collected URLs.  The loops over the attributes of a tag read the tag to its end.
\<close>

type_synonym control = "bool \<times> string \<times> string \<times> URL array_t"

definition at_end :: "string \<Rightarrow> URL array_t res \<Rightarrow> control res" where
  "at_end ptr r = rbind r (\<lambda>parts. Inr (False, ptr, [], parts))"

text \<open>The address of an image, unless it ends with a plus sign; \<open>endswith\<close> answers no for a null pointer.\<close>

definition add_source :: "URL option \<Rightarrow> URL array_t \<Rightarrow> URL array_t res" where
  "add_source U parts =
     (case U of
        None \<Rightarrow> Inr parts
      | Some u \<Rightarrow>
          rbind (if u_url u = None then Inr None else rbind (url_get_absolute u) (\<lambda>s. Inr (Some s))) (\<lambda>full.
          if endswith (Some ''+'') full then Inr parts else add_url U parts))"

definition img_step :: "(string \<Rightarrow> file_read) \<Rightarrow> url_conf \<Rightarrow> URL \<Rightarrow> string \<Rightarrow> string \<Rightarrow> URL array_t \<Rightarrow> control res" where
  "img_step fs my base ptr0 aid0 parts =
     (case strtok TOKENS aid0 of
        (None, aid) \<Rightarrow> Inr (False, ptr0, aid, parts)
      | (Some ptr, aid) \<Rightarrow>
          if ncase_eq aid [DQ, DQ] 2 then Inr (True, ptr, aid, parts)
          else if ncase_eq ptr ''src'' 3 then
            (case strtok TOKENS_QUOTES aid of
               (None, aid) \<Rightarrow> Inr (False, ptr, aid, parts)
             | (Some link, aid) \<Rightarrow>
                 if ncase_eq link ''data:image'' 10 then Inr (True, link, aid, parts)
                 else
                   rbind (url_normalize fs my base link) (\<lambda>(U, link).
                   rbind (add_source U parts) (\<lambda>parts. Inr (False, link, aid, parts))))
          else at_end ptr (img_loop fs my base aid parts))"

definition link_step :: "(string \<Rightarrow> file_read) \<Rightarrow> url_conf \<Rightarrow> URL \<Rightarrow> string \<Rightarrow> string \<Rightarrow> URL array_t \<Rightarrow> control res" where
  "link_step fs my base ptr aid parts =
     rbind (link_loop aid False None) (\<lambda>(sheet, buf).
     if sheet then
       (case buf of
          None \<Rightarrow> Inl Undefined
        | Some link \<Rightarrow> at_end ptr (add_link fs my base link parts))
     else Inr (False, ptr, [], parts))"

text \<open>\<open>tag\<close> is the first token of the tag.  The loop over a \<open>frame\<close> only reads the tag to its end.\<close>

definition control_step :: "(string \<Rightarrow> file_read) \<Rightarrow> url_conf \<Rightarrow> URL \<Rightarrow> string \<Rightarrow> string \<Rightarrow> string \<Rightarrow> URL array_t \<Rightarrow> control res" where
  "control_step fs my base tag ptr aid parts =
     (if ncase_eq ptr ''href'' 4 then Inr (False, ptr, snd (strtok TOKENS_PLUS aid), parts)
      else if ncase_eq ptr ''meta'' 4 then at_end ptr (meta_loop fs my base aid parts)
      else if ncase_eq ptr ''img'' 3 then img_step fs my base ptr aid parts
      else if ncase_eq ptr ''link'' 4 then link_step fs my base ptr aid parts
      else if ncase_eq ptr ''script'' 6 then at_end ptr (script_loop fs my base aid parts)
      else if ncase_eq ptr ''location.href'' 13 then Inr (False, ptr, snd (strtok TOKENS_PLUS aid), parts)
      else if ncase_eq ptr ''frame'' 5 then Inr (False, ptr, [], parts)
      else if ncase_eq ptr ''background'' 10 then
        (case strtok TOKENS_QUOTES aid of
           (None, aid) \<Rightarrow> Inr (False, ptr, aid, parts)
         | (Some link, aid) \<Rightarrow>
             rbind (if strmatch ''body'' tag then add_link fs my base (take 4095 link) parts else Inr parts) (\<lambda>parts.
             Inr (False, link, aid, parts)))
      else Inr (False, ptr, aid, parts))"

lemma img_step_aid:
  "img_step fs my base ptr aid parts = Inr (go, ptr', aid', parts') \<Longrightarrow>
     length aid' \<le> length aid \<and> (go \<longrightarrow> length aid' < length aid)"
  by (auto simp: img_step_def at_end_def rbind_Inr dest!: strtok_aid split: prod.splits option.splits if_splits)

lemma control_step_aid:
  assumes "control_step fs my base tag ptr aid parts = Inr (go, ptr', aid', parts')"
  shows "length aid' \<le> length aid" "go \<Longrightarrow> length aid' < length aid"
proof -
  have snd_le: "length (snd (strtok d aid)) \<le> length aid" for d
    using strtok_le [of d aid "fst (strtok d aid)" "snd (strtok d aid)"] by simp
  have link: "\<not> go \<and> aid' = []" if "link_step fs my base ptr aid parts = Inr (go, ptr', aid', parts')"
    using that by (auto simp: link_step_def at_end_def rbind_Inr split: if_splits option.splits)
  have "length aid' \<le> length aid \<and> (go \<longrightarrow> length aid' < length aid)"
    using assms unfolding control_step_def
    by (simp split: if_splits add: snd_le at_end_def rbind_Inr)
      (auto simp: snd_le rbind_Inr dest!: img_step_aid link strtok_aid split: prod.splits option.splits if_splits)
  then show "length aid' \<le> length aid" "go \<Longrightarrow> length aid' < length aid" by simp_all
qed

lemma control_step_again:
  assumes "control_step fs my base tag p aid parts = Inr (go, p', aid1, parts1)" "(ptr2, aid2) = strtok TOKENS aid1"
  shows "length aid2 + (if ptr2 = None then 0 else 1) < Suc (length aid)"
  using control_step_aid(1) [OF assms(1)] assms(2) by (cases ptr2) (auto dest!: strtok_shorter' strtok_none)

function control_loop :: "(string \<Rightarrow> file_read) \<Rightarrow> url_conf \<Rightarrow> URL \<Rightarrow> string \<Rightarrow> string option \<Rightarrow> string \<Rightarrow> URL array_t \<Rightarrow> URL array_t res" where
  "control_loop fs my base tag ptr aid parts =
     (case ptr of
        None \<Rightarrow> Inr parts
      | Some p \<Rightarrow>
          (case control_step fs my base tag p aid parts of
             Inl e \<Rightarrow> Inl e
           | Inr (go, p, aid, parts) \<Rightarrow>
               if go then control_loop fs my base tag (Some p) aid parts
               else (case strtok TOKENS aid of (ptr, aid) \<Rightarrow> control_loop fs my base tag ptr aid parts)))"
  by pat_completeness auto
termination
proof (relation "measure (\<lambda>(fs, my, base, tag, ptr, aid, parts). length aid + (if ptr = None then 0 else 1))", goal_cases)
  case 2
  then show ?case by (auto dest: control_step_aid(2))
next
  case 3
  then show ?case by (auto dest: control_step_again)
qed simp

declare control_loop.simps [simp del]

definition parse_control :: "(string \<Rightarrow> file_read) \<Rightarrow> url_conf \<Rightarrow> URL \<Rightarrow> string \<Rightarrow> URL array_t \<Rightarrow> URL array_t res" where
  "parse_control fs my base html parts =
     (case strtok TOKENS html of
        (None, aid) \<Rightarrow> Inr parts
      | (Some tag, aid) \<Rightarrow> control_loop fs my base tag (Some tag) aid parts)"

section \<open>html_parser\<close>

text \<open>The pointer behind a comment, or at the end of the page when it is not closed.\<close>

fun comment_end :: "string \<Rightarrow> string" where
  "comment_end [] = []"
| "comment_end (c # ptr) = (if startswith ''-->'' (c # ptr) then drop 2 ptr else comment_end ptr)"

text \<open>The bytes copied into \<open>tmp\<close>, up to a closing bracket, with the pointer behind them.\<close>

fun tag_copy :: "nat \<Rightarrow> string \<Rightarrow> string \<times> string" where
  "tag_copy n [] = ([], [])"
| "tag_copy n (c # ptr) =
     (if c = CHR ''>'' \<or> n = 0 then ([], c # ptr)
      else (let (tag, rest) = tag_copy (n - 1) ptr in (c # tag, rest)))"

lemma comment_end_le: "length (comment_end ptr) \<le> length ptr"
  by (induction ptr rule: comment_end.induct) auto

lemma tag_copy_le: "tag_copy n ptr = (tag, rest) \<Longrightarrow> length rest \<le> length ptr"
  by (induction n ptr arbitrary: tag rest rule: tag_copy.induct)
    (auto simp: Let_def split: if_splits prod.splits intro: le_SucI)

text \<open>At the end of the page the pointer moves behind the NUL, and what follows is read.\<close>

definition past :: "string \<Rightarrow> string res" where
  "past ptr = (case ptr of [] \<Rightarrow> Inl Undefined | _ # ptr \<Rightarrow> Inr ptr)"

lemma past_le: "past ptr = Inr ptr' \<Longrightarrow> length ptr' < length ptr"
  by (cases ptr) (auto simp: past_def)

lemma tag_past_le: "(tmp, ptr1) = tag_copy n ptr \<Longrightarrow> past ptr1 = Inr ptr2 \<Longrightarrow> length ptr2 < Suc (length ptr)"
  using past_le [of ptr1 ptr2] tag_copy_le [of n ptr tmp ptr1] by simp

function html_loop :: "(string \<Rightarrow> file_read) \<Rightarrow> url_conf \<Rightarrow> URL \<Rightarrow> string \<Rightarrow> URL array_t \<Rightarrow> URL array_t res" where
  "html_loop fs my base [] parts = Inr parts"
| "html_loop fs my base (c # ptr) parts =
     (if c = CHR ''<'' then
        if startswith ''!--'' ptr then
          (case past (comment_end (drop 3 ptr)) of
             Inl e \<Rightarrow> Inl e
           | Inr ptr \<Rightarrow> html_loop fs my base ptr parts)
        else
          (case tag_copy 4095 ptr of
             (tmp, ptr) \<Rightarrow>
               (case parse_control fs my base tmp parts of
                  Inl e \<Rightarrow> Inl e
                | Inr parts \<Rightarrow>
                    (case past ptr of
                       Inl e \<Rightarrow> Inl e
                     | Inr ptr \<Rightarrow> html_loop fs my base ptr parts)))
      else html_loop fs my base ptr parts)"
  by pat_completeness auto

termination
proof (relation "measure (\<lambda>(fs, my, base, ptr, parts). length ptr)", goal_cases)
  case (2 fs my base c ptr parts ptr')
  then show ?case using past_le [of "comment_end (drop 3 ptr)" ptr'] comment_end_le [of "drop 3 ptr"] by simp
next
  case 3
  then show ?case by (auto dest: tag_past_le)
qed simp_all

declare html_loop.simps(2) [simp del]

definition BACKSLASH :: string where "BACKSLASH = [CHR 0x5C]"

definition html_parser :: "(string \<Rightarrow> file_read) \<Rightarrow> url_conf \<Rightarrow> URL array_t \<Rightarrow> URL \<Rightarrow> string option \<Rightarrow> (bool \<times> URL array_t) res" where
  "html_parser fs my parts base page_p =
     (case page_p of
        None \<Rightarrow> Inl Undefined
      | Some page \<Rightarrow>
          rbind (xstrip page BACKSLASH) (\<lambda>str.
          if page = [] then Inr (False, parts)
          else rbind (html_loop fs my base str parts) (\<lambda>parts. Inr (True, parts))))"

end
