(* ===== verification/Html_properties.thy ===== *)
theory Html_properties
  imports Html Url_properties Auth_properties
begin

text \<open>
  What the scanner of \<open>siege-4.1.7/src/parser.c\<close> collects: no address twice and no URL without a
  host, the images of a page in their order, never the target of a refresh.
\<close>

section \<open>The collected URLs\<close>

definition same_address :: "URL \<Rightarrow> URL \<Rightarrow> bool" where
  "same_address v u \<longleftrightarrow> (\<exists>a b. url_get_absolute u = Inr a \<and> url_get_absolute v = Inr b \<and> strmatch a b)"

definition collected :: "URL array_t \<Rightarrow> bool" where
  "collected parts \<longleftrightarrow>
     sorted_wrt (\<lambda>v u. \<not> same_address v u) (ar_data parts) \<and>
     list_all (\<lambda>u. \<exists>h. u_hostname u = Some h \<and> 2 \<le> length h) (ar_data parts)"

definition grows :: "URL array_t \<Rightarrow> URL array_t \<Rightarrow> bool" where
  "grows parts parts' \<longleftrightarrow>
     (\<exists>us. ar_data parts' = ar_data parts @ us) \<and> (collected parts \<longrightarrow> collected parts')"

lemma grows_refl [simp, intro]: "grows p p"
  by (simp add: grows_def)

lemma grows_trans [trans]: "grows p q \<Longrightarrow> grows q r \<Longrightarrow> grows p r"
  by (auto simp: grows_def)

lemma same_url_found:
  "same_url full urls = Inr found \<Longrightarrow>
     found \<longleftrightarrow> (\<exists>v \<in> set urls. \<exists>b. url_get_absolute v = Inr b \<and> strmatch full b)"
  by (induction urls arbitrary: found) (auto simp: rbind_Inr)

lemma add_url_grows:
  assumes "add_url U parts = Inr parts'"
  shows "grows parts parts'"
proof (cases "\<exists>u h. U = Some u \<and> u_hostname u = Some h \<and> 2 \<le> length h \<and> parts' \<noteq> parts")
  case True
  then obtain u h where u: "U = Some u" "u_hostname u = Some h" "2 \<le> length h" "parts' \<noteq> parts" by blast
  obtain full where f: "ar_data parts = [] \<or> url_get_absolute u = Inr full"
    "same_url full (ar_data parts) = Inr False" "parts' = array_npush (Some u) parts"
    using assms u by (auto simp: add_url_def rbind_Inr split: if_splits)
  have "\<not> same_address v u" if "v \<in> set (ar_data parts)" for v
    using that f(1) same_url_found [OF f(2)] by (auto simp: same_address_def)
  then show ?thesis
    using u(2,3) by (auto simp: grows_def collected_def f(3) array_npush_def sorted_wrt_append)
next
  case False
  then have "parts' = parts"
    using assms by (auto simp: add_url_def rbind_Inr array_npush_def not_less split: option.splits if_splits)
  then show ?thesis by simp
qed

lemma add_source_grows: "add_source U parts = Inr parts' \<Longrightarrow> grows parts parts'"
  by (auto simp: add_source_def rbind_Inr dest: add_url_grows split: option.splits if_splits)

lemma add_link_grows: "add_link fs my base link parts = Inr parts' \<Longrightarrow> grows parts parts'"
  by (auto simp: add_link_def rbind_Inr dest: add_url_grows split: prod.splits)

lemma img_loop_grows: "img_loop fs my base aid parts = Inr parts' \<Longrightarrow> grows parts parts'"
proof (induction fs my base aid parts arbitrary: parts' rule: img_loop.induct)
  case (1 fs my base aid parts)
  note IH = "1.IH"(1) [OF sym refl _ sym refl conjI, unfolded One_nat_def] "1.IH"(2) [OF sym refl _ sym refl] "1.IH"(3) [OF sym refl]
  from "1.prems" show ?case
    by (subst (asm) img_loop.simps)
      (auto split: prod.splits option.splits if_splits sum.splits dest: IH add_link_grows intro: grows_trans)
qed

lemma script_loop_grows: "script_loop fs my base aid parts = Inr parts' \<Longrightarrow> grows parts parts'"
proof (induction fs my base aid parts arbitrary: parts' rule: script_loop.induct)
  case (1 fs my base aid parts)
  note IH = "1.IH"(1) [OF sym refl _ sym refl] "1.IH"(2) [OF sym refl _ sym refl] "1.IH"(3) [OF sym refl]
  from "1.prems" show ?case
    by (subst (asm) script_loop.simps)
      (auto split: prod.splits option.splits if_splits sum.splits dest: IH add_link_grows intro: grows_trans)
qed

section \<open>The refresh of a page\<close>

text \<open>A token holds none of its delimiters.\<close>

lemma strtok_token: "strtok d s = (Some t, r) \<Longrightarrow> c \<in> set d \<Longrightarrow> c \<notin> set t"
  by (auto simp: strtok_def Let_def split: if_splits dest: set_takeWhileD)

lemma ncase_eq_has:
  assumes "ncase_eq s needle (length needle)" "c \<in> set needle" "\<And>x. to_lower x = to_lower c \<Longrightarrow> x = c"
  shows "c \<in> set s"
proof -
  have "to_lower c \<in> set (lower needle)" using assms(2) by (simp add: lower_def)
  also have "lower needle = take (length needle) (lower s)" using assms(1) by (simp add: ncase_eq_def lower_def)
  finally have "to_lower c \<in> set (lower s)" by (meson in_set_takeD)
  then show ?thesis using assms(3) by (auto simp: lower_def)
qed

lemma lower_other:
  assumes "to_lower x = to_lower c" "byte c < 65"
  shows "x = c"
proof -
  have c: "to_lower c = c" using assms(2) by (simp add: to_lower_def is_upperc_def byte_def)
  have "to_lower x \<noteq> c" if "is_upperc x"
  proof
    assume "to_lower x = c"
    then have "(of_char (char_of (byte x + 32 :: nat)) :: nat) = of_char c" using that by (simp add: to_lower_def)
    then show False using that assms(2) by (simp add: is_upperc_def byte_def)
  qed
  with assms(1) c show ?thesis by (cases "is_upperc x") (auto simp: to_lower_def)
qed

lemma strcasestr_has:
  "strcasestr s needle \<Longrightarrow> needle \<noteq> [] \<Longrightarrow> CHR ''='' \<in> set needle \<Longrightarrow> CHR ''='' \<in> set s"
proof (induction s)
  case (Cons x s)
  have "to_lower y = to_lower CHR ''='' \<Longrightarrow> y = CHR ''=''" for y by (rule lower_other) (simp_all add: byte_def)
  with Cons show ?case using ncase_eq_has [of "x # s" needle "CHR ''=''"] by (auto split: if_splits)
qed simp

lemma token_no_refresh: "strtok TOKENS s = (Some t, r) \<Longrightarrow> \<not> strcasestr t ''; url='' \<and> \<not> strcasestr t '';url=''"
  using strtok_token [of TOKENS s t r "CHR ''=''"] strcasestr_has [of t "''; url=''"] strcasestr_has [of t "'';url=''"]
  by (auto simp: TOKENS_def)

lemma control_loop_error:
  "control_step fs my base tag p aid parts = Inl e \<Longrightarrow> control_loop fs my base tag (Some p) aid parts = Inl e"
  by (subst control_loop.simps) simp

lemma control_loop_ends:
  "control_step fs my base tag p aid parts = Inr (False, q, [], parts') \<Longrightarrow>
     control_loop fs my base tag (Some p) aid parts = Inr parts'"
  by (subst control_loop.simps) (simp add: strtok_def control_loop.simps [of _ _ _ _ None])

lemma meta_content_none: "meta_content fs my base aid parts = Inr parts"
proof (induction fs my base aid parts rule: meta_content.induct)
  case (1 fs my base aid parts)
  show ?case
    by (subst meta_content.simps)
      (auto split: prod.splits option.splits dest: token_no_refresh intro!: "1.IH"(2) [OF sym refl])
qed

lemma meta_loop_none: "meta_loop fs my base aid parts = Inr parts"
proof (induction fs my base aid parts rule: meta_loop.induct)
  case (1 fs my base aid parts)
  show ?case
    by (subst meta_loop.simps) (auto split: prod.splits option.splits simp: meta_content_none intro!: "1.IH" [OF sym refl])
qed

text \<open>
  A page that refreshes itself is never followed: the text siege looks for holds an equals
  sign, which no token does, so a \<open>meta\<close> tag adds nothing, whatever it says.
\<close>

theorem meta_never_followed:
  assumes "strtok TOKENS html = (Some tag, aid)" "ncase_eq tag ''meta'' 4"
  shows "parse_control fs my base html parts = Inr parts"
proof -
  have "\<not> ncase_eq tag ''href'' 4"
    using assms(2) by (auto simp: ncase_eq_def lower_def eval_simps)
  then have "control_step fs my base tag tag aid parts = Inr (False, tag, [], parts)"
    using assms(2) by (simp add: control_step_def at_end_def meta_loop_none)
  then show ?thesis by (simp add: parse_control_def assms(1) control_loop_ends)
qed

lemma meta_never_followed_witness:
  "parse_control (\<lambda>_. Cannot_open) \<lparr>my_escape = False, my_conttype = None, my_fullurl = True\<rparr> fresh_url
     (''meta http-equiv=refresh content='' @ [DQ] @ ''0; url=http://a.org/'' @ [DQ]) new_array = Inr new_array"
  by (rule meta_never_followed [of _ "''meta''" "''http-equiv=refresh content='' @ [DQ] @ ''0; url=http://a.org/'' @ [DQ]"])
    (simp_all add: strtok_def TOKENS_def ncase_eq_def)

section \<open>Tags and pages\<close>

lemma img_step_grows: "img_step fs my base ptr aid parts = Inr (go, ptr', aid', parts') \<Longrightarrow> grows parts parts'"
  by (auto simp: img_step_def at_end_def rbind_Inr dest: img_loop_grows add_source_grows
      split: prod.splits option.splits if_splits)

lemma link_step_grows: "link_step fs my base ptr aid parts = Inr (go, ptr', aid', parts') \<Longrightarrow> grows parts parts'"
  by (auto simp: link_step_def at_end_def rbind_Inr dest: add_link_grows split: option.splits if_splits)

lemma control_step_grows:
  "control_step fs my base tag ptr aid parts = Inr (go, ptr', aid', parts') \<Longrightarrow> grows parts parts'"
  unfolding control_step_def
  by (auto simp: at_end_def rbind_Inr meta_loop_none dest: img_step_grows link_step_grows script_loop_grows add_link_grows
      split: prod.splits option.splits if_splits)

lemma control_loop_grows: "control_loop fs my base tag ptr aid parts = Inr parts' \<Longrightarrow> grows parts parts'"
proof (induction fs my base tag ptr aid parts arbitrary: parts' rule: control_loop.induct)
  case (1 fs my base tag ptr aid parts)
  note IH = "1.IH"(1) [OF _ _ refl refl refl] "1.IH"(2) [OF _ _ refl refl refl _ sym]
  from "1.prems" show ?case
    by (subst (asm) control_loop.simps)
      (auto split: prod.splits option.splits if_splits sum.splits dest: IH control_step_grows intro: grows_trans)
qed

lemma parse_control_grows: "parse_control fs my base html parts = Inr parts' \<Longrightarrow> grows parts parts'"
  by (auto simp: parse_control_def dest: control_loop_grows split: prod.splits option.splits)

lemma html_loop_grows: "html_loop fs my base ptr parts = Inr parts' \<Longrightarrow> grows parts parts'"
proof (induction fs my base ptr parts arbitrary: parts' rule: html_loop.induct)
  case (2 fs my base c ptr parts)
  note IH = "2.IH"(1) "2.IH"(2) [OF _ _ sym] "2.IH"(3)
  from "2.prems" show ?case
    by (subst (asm) html_loop.simps)
      (auto split: prod.splits if_splits sum.splits dest: IH parse_control_grows intro: grows_trans)
qed simp

text \<open>
  C39: Scanning a page only adds to the URLs collected so far; no two of them have the same
  address, and each has a host of at least two bytes.
\<close>

theorem html_parser_collects:
  assumes "html_parser fs my parts base page = Inr (answer, parts')" "collected parts"
  shows "(\<exists>us. ar_data parts' = ar_data parts @ us) \<and> collected parts'"
  using assms by (auto simp: html_parser_def rbind_Inr grows_def dest!: html_loop_grows split: option.splits if_splits)

section \<open>Images\<close>

text \<open>A page of images with text around them, and what siege does with the source of one.\<close>

definition image_tag :: "string \<Rightarrow> string" where
  "image_tag link = ''img src='' @ DQ # link @ [DQ]"

definition image_page :: "(string \<times> string) list \<Rightarrow> string \<Rightarrow> string" where
  "image_page items rest = concat (map (\<lambda>(words, link). words @ CHR ''<'' # image_tag link @ ''>'') items) @ rest"

definition page_text :: "string \<Rightarrow> bool" where
  "page_text s \<longleftrightarrow> list_all (\<lambda>c. c \<noteq> CHR ''<'' \<and> c \<notin> set BACKSLASH \<and> byte c < 128) s"

definition image_link :: "string \<Rightarrow> bool" where
  "image_link s \<longleftrightarrow> s \<noteq> [] \<and> length s < 4000 \<and> \<not> ncase_eq s ''data:image'' 10 \<and>
     list_all (\<lambda>c. c \<notin> set TOKENS_QUOTES \<and> c \<noteq> CHR ''>'' \<and> c \<notin> set BACKSLASH \<and> byte c < 128) s"

definition add_image :: "(string \<Rightarrow> file_read) \<Rightarrow> url_conf \<Rightarrow> URL \<Rightarrow> string \<Rightarrow> URL array_t \<Rightarrow> URL array_t res" where
  "add_image fs my base link parts =
     rbind (url_normalize fs my base link) (\<lambda>(U, _). add_source U parts)"

primrec add_images :: "(string \<Rightarrow> file_read) \<Rightarrow> url_conf \<Rightarrow> URL \<Rightarrow> string list \<Rightarrow> URL array_t \<Rightarrow> URL array_t res" where
  "add_images fs my base [] parts = Inr parts"
| "add_images fs my base (link # links) parts =
     rbind (add_image fs my base link parts) (add_images fs my base links)"

lemma strtok_word: "t \<noteq> [] \<Longrightarrow> list_all (\<lambda>c. c \<notin> set d) t \<Longrightarrow> c \<in> set d \<Longrightarrow> strtok d (t @ c # r) = (Some t, r)"
  by (cases t) (auto simp: strtok_def Let_def takeWhile_inside dropWhile_inside)

lemma strtok_skip: "c \<in> set d \<Longrightarrow> strtok d (c # s) = strtok d s"
  by (simp add: strtok_def)

lemma image_tag_tokens:
  assumes "image_link link"
  shows "strtok TOKENS (image_tag link) = (Some ''img'', ''src='' @ DQ # link @ [DQ])"
    "strtok TOKENS (''src='' @ DQ # link @ [DQ]) = (Some ''src'', DQ # link @ [DQ])"
    "strtok TOKENS_QUOTES (DQ # link @ [DQ]) = (Some link, [])"
    "\<not> ncase_eq (DQ # link @ [DQ]) [DQ, DQ] 2"
proof -
  show "strtok TOKENS (image_tag link) = (Some ''img'', ''src='' @ DQ # link @ [DQ])"
    using strtok_word [of "''img''" TOKENS SP "''src='' @ DQ # link @ [DQ]"] by (simp add: image_tag_def TOKENS_def)
  show "strtok TOKENS (''src='' @ DQ # link @ [DQ]) = (Some ''src'', DQ # link @ [DQ])"
    using strtok_word [of "''src''" TOKENS "CHR ''=''" "DQ # link @ [DQ]"] by (simp add: TOKENS_def)
  have "list_all (\<lambda>c. c \<notin> set TOKENS_QUOTES) link" using assms by (auto simp: image_link_def list_all_iff)
  then show "strtok TOKENS_QUOTES (DQ # link @ [DQ]) = (Some link, [])"
    using strtok_word [of link TOKENS_QUOTES DQ "[]"] strtok_skip [of DQ TOKENS_QUOTES] assms
    by (simp add: image_link_def TOKENS_QUOTES_def)
  obtain x l where l: "link = x # l" "x \<noteq> DQ" using assms by (cases link) (auto simp: image_link_def TOKENS_QUOTES_def)
  then show "\<not> ncase_eq (DQ # link @ [DQ]) [DQ, DQ] 2"
    using lower_other [of x DQ] by (auto simp: ncase_eq_def lower_def byte_def)
qed

lemma parse_image:
  assumes "image_link link"
  shows "parse_control fs my base (image_tag link) parts = add_image fs my base link parts"
proof -
  have data: "\<not> ncase_eq link ''data:image'' 10" "ncase_eq ''src'' ''src'' 3" using assms by (simp_all add: image_link_def ncase_eq_def)
  have "img_step fs my base ''img'' (''src='' @ DQ # link @ [DQ]) parts =
      rbind (url_normalize fs my base link) (\<lambda>(U, link).
        rbind (add_source U parts) (\<lambda>parts. Inr (False, link, [], parts)))"
    by (simp only: img_step_def image_tag_tokens [OF assms] data prod.case option.case if_False if_True)
  moreover have "control_step fs my base ''img'' ''img'' aid parts = img_step fs my base ''img'' aid parts" for aid
    by (simp add: control_step_def ncase_eq_def lower_def eval_simps)
  ultimately have step: "control_step fs my base ''img'' ''img'' (''src='' @ DQ # link @ [DQ]) parts =
      rbind (url_normalize fs my base link) (\<lambda>(U, link).
        rbind (add_source U parts) (\<lambda>parts. Inr (False, link, [], parts)))" by (simp only:)
  have "control_loop fs my base ''img'' (Some ''img'') (''src='' @ DQ # link @ [DQ]) parts = add_image fs my base link parts"
  proof (cases "url_normalize fs my base link")
    case (Inl e)
    with step show ?thesis by (intro control_loop_error [THEN trans]) (simp_all add: add_image_def)
  next
    case (Inr Ul)
    obtain U l where Ul: "Ul = (U, l)" by (cases Ul)
    let ?r = "add_source U parts"
    have r: "add_image fs my base link parts = ?r" by (simp only: add_image_def Inr Ul rbind.simps prod.case)
    have s: "control_step fs my base ''img'' ''img'' (''src='' @ DQ # link @ [DQ]) parts = rbind ?r (\<lambda>parts. Inr (False, l, [], parts))"
      by (simp only: step Inr Ul rbind.simps prod.case)
    show ?thesis
    proof (cases ?r)
      case (Inl e)
      show ?thesis unfolding r Inl by (rule control_loop_error) (simp only: s Inl rbind.simps)
    next
      case (Inr parts')
      show ?thesis unfolding r Inr by (rule control_loop_ends) (simp only: s Inr rbind.simps)
    qed
  qed
  then show ?thesis by (simp only: parse_control_def image_tag_tokens(1) [OF assms] prod.case option.case)
qed

lemma html_loop_text: "page_text t \<Longrightarrow> html_loop fs my base (t @ s) parts = html_loop fs my base s parts"
  by (induction t) (simp_all add: page_text_def html_loop.simps(2))

lemma tag_copy_all: "CHR ''>'' \<notin> set t \<Longrightarrow> length t \<le> n \<Longrightarrow> tag_copy n (t @ CHR ''>'' # s) = (t, CHR ''>'' # s)"
  by (induction t arbitrary: n) auto

lemma html_loop_image:
  assumes "image_link link"
  shows "html_loop fs my base (CHR ''<'' # image_tag link @ CHR ''>'' # s) parts =
    rbind (add_image fs my base link parts) (html_loop fs my base s)"
proof -
  have "\<not> startswith ''!--'' (image_tag link @ CHR ''>'' # s)"
    by (simp add: startswith_def image_tag_def strncmp_code [of _ _ 3] eval_simps)
  moreover have "tag_copy 4095 (image_tag link @ CHR ''>'' # s) = (image_tag link, CHR ''>'' # s)"
    by (rule tag_copy_all) (use assms in \<open>auto simp: image_tag_def image_link_def list_all_iff\<close>)
  ultimately show ?thesis
    by (simp add: html_loop.simps(2) parse_image [OF assms] past_def split: sum.split)
qed

lemma html_loop_images:
  assumes "list_all (\<lambda>(words, link). page_text words \<and> image_link link) items" "page_text rest"
  shows "html_loop fs my base (image_page items rest) parts = add_images fs my base (map snd items) parts"
  using assms(1)
proof (induction items arbitrary: parts)
  case Nil
  then show ?case using html_loop_text [OF assms(2), of fs my base "[]"] by (simp add: image_page_def)
next
  case (Cons item items)
  obtain words link where i: "item = (words, link)" by (cases item)
  have page: "image_page (item # items) rest = words @ CHR ''<'' # image_tag link @ CHR ''>'' # image_page items rest"
    by (simp add: image_page_def i)
  have "page_text words" "image_link link" "\<And>parts. html_loop fs my base (image_page items rest) parts = add_images fs my base (map snd items) parts"
    using Cons by (auto simp: i)
  then show ?case unfolding page 
    by (cases "add_image fs my base link parts") (simp_all add: html_loop_text html_loop_image i)
qed

definition ascii_byte :: "char \<Rightarrow> bool" where
  "ascii_byte c \<longleftrightarrow> c \<notin> set BACKSLASH \<and> byte c < 128"

lemma image_tag_bytes: "image_link link \<Longrightarrow> list_all ascii_byte (CHR ''<'' # image_tag link @ ''>'')"
proof -
  assume "image_link link"
  then have "list_all ascii_byte link" by (auto simp: image_link_def ascii_byte_def elim: list.pred_mono_strong)
  then show ?thesis by (simp add: image_tag_def ascii_byte_def BACKSLASH_def byte_def)
qed

lemma page_text_bytes: "page_text s \<Longrightarrow> list_all ascii_byte s"
  by (auto simp: page_text_def ascii_byte_def elim: list.pred_mono_strong)

lemma image_page_bytes:
  assumes "list_all (\<lambda>(words, link). page_text words \<and> image_link link) items" "page_text rest"
  shows "list_all ascii_byte (image_page items rest)"
  using assms(1)
proof (induction items)
  case Nil
  then show ?case using page_text_bytes [OF assms(2)] by (simp add: image_page_def)
next
  case (Cons item items)
  obtain words link where i: "item = (words, link)" by (cases item)
  have page: "image_page (item # items) rest = words @ (CHR ''<'' # image_tag link @ ''>'') @ image_page items rest"
    by (simp add: image_page_def i)
  show ?case
    unfolding page list.pred_set set_append
    using Cons page_text_bytes [of words] image_tag_bytes [of link] by (auto simp: i list_all_iff)
qed

lemma xstrip_ascii: "list_all ascii_byte s \<Longrightarrow> xstrip s BACKSLASH = Inr s"
  by (auto simp: xstrip_def list_ex_iff list_all_iff ascii_byte_def not_le intro!: filter_True)

text \<open>A page with the same image twice.\<close>

definition twice_page :: string where
  "twice_page = image_page [(''a'', ''/x/y?b''), ([], ''/x/y?b'')] ''c''"

lemma twice_page_ok:
  "list_all (\<lambda>(words, link). page_text words \<and> image_link link) [(''a'', ''/x/y?b''), ([], ''/x/y?b'')]" "page_text ''c''"
  "twice_page \<noteq> []"
  by (simp_all add: page_text_def image_link_def ncase_eq_def lower_def TOKENS_QUOTES_def BACKSLASH_def twice_page_def
      image_page_def eval_simps)

lemma endswith_char: "endswith (Some [c]) (Some (s @ [x])) \<longleftrightarrow> x = c"
  by (auto simp: endswith_def strncmp_code [of _ _ 1] byte_inj)

lemma twice_images:
  "\<exists>base u. new_url (\<lambda>_. Cannot_open) \<lparr>my_escape = False, my_conttype = None, my_fullurl = True\<rparr>
       (url_string True ''a.org'' 80 [] ''p'' []) = Inr base \<and>
     add_images (\<lambda>_. Cannot_open) \<lparr>my_escape = False, my_conttype = None, my_fullurl = True\<rparr> base [''/x/y?b'', ''/x/y?b''] new_array =
       Inr \<lparr>ar_index = -1, ar_data = [u]\<rparr> \<and>
     url_get_absolute u = Inr (url_string True ''a.org'' 80 ''/x'' ''y'' ''b'')"
proof -
  let ?my = "\<lparr>my_escape = False, my_conttype = None, my_fullurl = True\<rparr>" and ?fs = "\<lambda>_::string. Cannot_open"
  obtain base u where base: "new_url ?fs ?my (url_string True ''a.org'' 80 [] ''p'' []) = Inr base"
    and u: "url_normalize ?fs ?my base ''/x/y?b'' = Inr (Some u, ''/x/y?b'')" "u_hostname u = Some ''a.org''"
      "url_get_absolute u = Inr (url_string True ''a.org'' 80 ''/x'' ''y'' ''b'')"
    using url_normalize_example by auto
  obtain buf where buf: "u_url u = Some buf" using u(3) by (auto simp: url_get_absolute_def url_str_def split: option.splits)
  have "\<not> endswith (Some ''+'') (Some (url_string True ''a.org'' 80 ''/x'' ''y'' ''b''))"
    using endswith_char [of "CHR ''+''" "url_string True ''a.org'' 80 ''/x'' ''y'' []" "CHR ''b''"] by (simp add: url_string_def)
  moreover have "add_url (Some u) new_array = Inr \<lparr>ar_index = -1, ar_data = [u]\<rparr>"
    by (simp add: add_url_def u(2) new_array_def array_npush_def)
  moreover have "add_url (Some u) \<lparr>ar_index = -1, ar_data = [u]\<rparr> = Inr \<lparr>ar_index = -1, ar_data = [u]\<rparr>"
    by (simp add: add_url_def u(2,3) strmatch_def ncase_eq_def)
  ultimately have "add_images ?fs ?my base [''/x/y?b'', ''/x/y?b''] new_array = Inr \<lparr>ar_index = -1, ar_data = [u]\<rparr>"
    by (simp add: add_image_def add_source_def u buf)
  then show ?thesis using base u(3) by blast
qed



lemma html_parser_collects_witness:
  "\<exists>base u. html_parser (\<lambda>_. Cannot_open) \<lparr>my_escape = False, my_conttype = None, my_fullurl = True\<rparr> new_array base (Some twice_page) =
       Inr (True, \<lparr>ar_index = -1, ar_data = [u]\<rparr>) \<and> collected \<lparr>ar_index = -1, ar_data = [u]\<rparr>"
proof -
  obtain base u where u: "add_images (\<lambda>_. Cannot_open) \<lparr>my_escape = False, my_conttype = None, my_fullurl = True\<rparr> base
      [''/x/y?b'', ''/x/y?b''] new_array = Inr \<lparr>ar_index = -1, ar_data = [u]\<rparr>" using twice_images by blast
  then have "html_parser (\<lambda>_. Cannot_open) \<lparr>my_escape = False, my_conttype = None, my_fullurl = True\<rparr> new_array base (Some twice_page) =
      Inr (True, \<lparr>ar_index = -1, ar_data = [u]\<rparr>)"
    using twice_page_ok(3) html_loop_images [OF twice_page_ok(1,2)] xstrip_ascii [OF image_page_bytes [OF twice_page_ok(1,2)]]
    by (simp add: html_parser_def twice_page_def [symmetric])
  moreover have "collected (new_array :: URL array_t)" by (simp add: collected_def new_array_def)
  ultimately show ?thesis using html_parser_collects by blast
qed

section \<open>The end of the page\<close>

text \<open>A comment at the end of a page, or one that is not closed, is read past.\<close>

lemma comment_read_past:
  "html_parser fs my parts base (Some ''a<!--b-->'') = Inl Undefined"
  "html_parser fs my parts base (Some ''a<!--b'') = Inl Undefined"
  by (simp_all add: html_parser_def xstrip_def BACKSLASH_def html_loop.simps(2) startswith_def strncmp_code [of _ _ 3] past_def eval_simps)

end
