(* ===== verification/Spec2Isabelle.thy ===== *)
theory Spec2Isabelle
  imports Request_properties Body_properties Server_safety Config_safety
    Hash_table Dyn_array Page_buffer Base64 Url_properties Cookies Creds Md5
    Crew Response_properties Http_properties Request_sent Html_properties
begin

text \<open>
  A model of the web server in \<open>src/\<close> and of the load generator siege in \<open>src/siege-4.1.7\<close>.
\<close>

end
